(* ===== verification/Tarsx_Prelude.thy ===== *)
theory Tarsx_Prelude
  imports Main "HOL-Library.Word"
begin

text \<open>
  Shared vocabulary of the development: the machine types of the C++ code, the ways a C++
  operation can fail (\<open>fault\<close>), the result monad over them, raw memory blocks with
  \<open>memcpy\<close>-like access, and the list and word lemmas every component uses.
\<close>

section \<open>Machine types\<close>

text \<open>\<open>std::string\<close> and \<open>char[]\<close> hold 8-bit \<open>char\<close>; \<open>size_t\<close> is 64 bits wide, since the
  coroutine assembly of the repository targets x86-64 only.\<close>

type_synonym u16 = "16 word"
type_synonym u32 = "32 word"
type_synonym u64 = "64 word"
type_synonym i32 = "32 word"

section \<open>Faults and results\<close>

text \<open>
  What ends a C++ operation other than by returning: a failed \<open>assert\<close>, an access outside an
  allocated block, a null dereference, the use of an invalidated iterator, the use of a value
  nothing was stored in, a loop that never ends, an exception that leaves the operation, a
  fatal log line (\<open>LOG_FATAL\<close> and \<open>LOG_SYSFATAL\<close> abort the process), a lock that another
  thread holds (the operation has not happened yet).
\<close>

datatype fault =
    AssertFailed
  | OutOfBounds
  | NullDeref
  | BadIterator
  | Uninitialised
  | Diverges
  | Exception
  | Fatal
  | Blocked

type_synonym 'a result = "fault + 'a"

named_theorems result_simps \<open>rewriting of results\<close>
named_theorems word_nat \<open>word operations read as natural numbers\<close>

fun bindE :: "'e + 'a \<Rightarrow> ('a \<Rightarrow> 'e + 'b) \<Rightarrow> 'e + 'b" where
  "bindE (Inl e) f = Inl e"
| "bindE (Inr x) f = f x"

lemma bindE_eq_Inr [result_simps]:
  "bindE m f = Inr y \<longleftrightarrow> (\<exists>x. m = Inr x \<and> f x = Inr y)"
  by (cases m) auto

lemma bindE_eq_Inl [result_simps]:
  "bindE m f = Inl e \<longleftrightarrow> m = Inl e \<or> (\<exists>x. m = Inr x \<and> f x = Inl e)"
  by (cases m) auto

lemma bindE_Inr [simp]: "bindE m Inr = m"
  by (cases m) auto

lemma bindE_assoc: "bindE (bindE m f) g = bindE m (\<lambda>x. bindE (f x) g)"
  by (cases m) auto

lemma bindE_cong [fundef_cong]:
  "m = m' \<Longrightarrow> (\<And>x. m' = Inr x \<Longrightarrow> f x = f' x) \<Longrightarrow> bindE m f = bindE m' f'"
  by (cases m') auto

definition assertE :: "bool \<Rightarrow> unit result" where
  "assertE b = (if b then Inr () else Inl AssertFailed)"

lemma assertE_True [simp]: "assertE True = Inr ()"
  by (simp add: assertE_def)

lemma assertE_False [simp]: "assertE False = Inl AssertFailed"
  by (simp add: assertE_def)

lemma assertE_eq_Inr [simp]: "assertE b = Inr u \<longleftrightarrow> b"
  by (simp add: assertE_def)

text \<open>A loop of the source that may not end is \<open>None\<close> when it does not; its caller diverges.\<close>

definition of_loop :: "'a option \<Rightarrow> 'a result" where
  "of_loop r = (case r of None \<Rightarrow> Inl Diverges | Some x \<Rightarrow> Inr x)"

lemma of_loop_simps [simp]: "of_loop None = Inl Diverges" "of_loop (Some x) = Inr x"
  by (simp_all add: of_loop_def)

text \<open>A \<open>for\<close> loop over a container whose body changes the state and may fail.\<close>

fun fold_result :: "('x \<Rightarrow> 's \<Rightarrow> 's result) \<Rightarrow> 'x list \<Rightarrow> 's \<Rightarrow> 's result" where
  "fold_result f [] s = Inr s"
| "fold_result f (x # xs) s = bindE (f x s) (fold_result f xs)"

lemma fold_result_append:
  "fold_result f (xs @ ys) s = bindE (fold_result f xs s) (fold_result f ys)"
  by (induction xs arbitrary: s) (auto simp: bindE_assoc intro: bindE_cong)

lemma fold_result_inv:
  assumes "fold_result f xs s = Inr t" and "I s"
    and "\<And>x s t. x \<in> set xs \<Longrightarrow> I s \<Longrightarrow> f x s = Inr t \<Longrightarrow> I t"
  shows "I t"
  using assms by (induction xs arbitrary: s) (auto simp: result_simps)

section \<open>Memory blocks\<close>

text \<open>
  A block from \<open>new char[n]\<close> or \<open>malloc\<close> is a list of cells, \<open>None\<close> where nothing has been
  stored yet; a pointer to a block is an option, \<open>None\<close> the null pointer. Copies check the
  bounds of the block, as the hardware would not.
\<close>

type_synonym 'a block = "'a option list"

definition new_block :: "nat \<Rightarrow> 'a block" where
  "new_block n = replicate n None"

definition mem_read :: "'a block option \<Rightarrow> nat \<Rightarrow> nat \<Rightarrow> 'a block result" where
  "mem_read m off n =
     (case m of
        None \<Rightarrow> Inl NullDeref
      | Some c \<Rightarrow> if off + n \<le> length c then Inr (take n (drop off c)) else Inl OutOfBounds)"

definition mem_write :: "'a block option \<Rightarrow> nat \<Rightarrow> 'a block \<Rightarrow> 'a block option result" where
  "mem_write m off xs =
     (case m of
        None \<Rightarrow> Inl NullDeref
      | Some c \<Rightarrow>
          if off + length xs \<le> length c
          then Inr (Some (take off c @ xs @ drop (off + length xs) c))
          else Inl OutOfBounds)"

text \<open>Using the bytes of a copied range as values.\<close>

definition mem_values :: "'a block \<Rightarrow> 'a list result" where
  "mem_values cells = (if None \<in> set cells then Inl Uninitialised else Inr (map the cells))"

lemma mem_values_Some [simp]: "mem_values (map Some xs) = Inr xs"
  by (simp add: mem_values_def)

lemma length_new_block [simp]: "length (new_block n) = n"
  by (simp add: new_block_def)

section \<open>Lists\<close>

lemma map_the_Some [simp]: "map (the \<circ> Some) xs = xs"
  by (induction xs) auto

lemma None_notin_map_Some [simp]: "None \<notin> set (map Some xs)"
  by auto

lemma Some_the_map: "None \<notin> set xs \<Longrightarrow> map Some (map the xs) = xs"
  by (induction xs) auto

lemma drop_take_write:
  assumes "r \<le> w" and "w + length xs \<le> length c"
  shows "take (w + length xs - r) (drop r (take w c @ xs @ drop (w + length xs) c)) =
         take (w - r) (drop r c) @ xs"
proof -
  have "w + length xs - r = (w - r) + length xs" using assms by simp
  then show ?thesis using assms by (simp add: drop_take take_add)
qed

section \<open>Words as natural numbers\<close>

lemma unat_sub_le [word_nat]:
  fixes a b :: "'a::len word"
  shows "b \<le> a \<Longrightarrow> unat (a - b) = unat a - unat b"
  by (rule unat_sub)

lemma unat_add_less [word_nat]:
  fixes a b :: "'a::len word"
  shows "unat a + unat b < 2 ^ LENGTH('a) \<Longrightarrow> unat (a + b) = unat a + unat b"
  by (simp add: unat_word_ariths)

lemmas word_order_nat [word_nat] = word_le_nat_alt word_less_nat_alt

lemma unat_of_nat_small:
  "n < 2 ^ LENGTH('a) \<Longrightarrow> unat (of_nat n :: 'a::len word) = n"
  by (simp add: unat_of_nat)

lemma unat_pow2 [word_nat]: "j < 64 \<Longrightarrow> unat ((2::u64) ^ j) = 2 ^ j"
proof -
  assume "j < 64"
  then have "(2::nat) ^ j < 2 ^ 64" by (rule power_strict_increasing) simp
  then have "unat (of_nat (2 ^ j) :: u64) = 2 ^ j" by (intro unat_of_nat_small) simp
  then show ?thesis by simp
qed

lemma unat_ucast_32_64 [simp]: "unat (ucast (w :: u32) :: u64) = unat w"
proof -
  have "unat w < 2 ^ 32" using unsigned_less [of w, where 'a = nat] by simp
  then have "take_bit 64 (unat w) = unat w" by (intro take_bit_nat_eq_self) simp
  then show ?thesis by (simp add: unsigned_ucast_eq)
qed

section \<open>Id counters\<close>

text \<open>\<open>while (++id == 0);\<close> on a 32-bit counter: what every id generator of the program runs.\<close>

function increment_nonzero :: "u32 \<Rightarrow> u32" where
  "increment_nonzero i = (if i + 1 = 0 then increment_nonzero (i + 1) else i + 1)"
  by auto
termination by (relation "measure (\<lambda>i. if i + 1 = 0 then 1 else 0)") auto

declare increment_nonzero.simps [simp del]

lemma increment_nonzero_eq: "increment_nonzero i = (if i + 1 = 0 then 1 else i + 1)"
proof -
  have "increment_nonzero 0 = 1" by (subst increment_nonzero.simps) simp
  then show ?thesis by (subst increment_nonzero.simps) simp
qed

lemma increment_nonzero_less:
  assumes "i < n"
  shows "increment_nonzero i = i + 1" "unat (increment_nonzero i) = Suc (unat i)"
proof -
  have "unat i + 1 < 2 ^ 32"
    using assms unsigned_less [of n, where 'a = nat] by (simp add: word_less_nat_alt)
  then have u: "unat (i + 1) = unat i + 1" using unat_add_less [of i 1] by simp
  then have "i + 1 \<noteq> 0" by (metis Suc_eq_plus1 nat.distinct(1) unat_0)
  then show "increment_nonzero i = i + 1" by (simp add: increment_nonzero_eq)
  with u show "unat (increment_nonzero i) = Suc (unat i)" by simp
qed

end
