(* ===== verification/Tarsx_Singleton.thy ===== *)
theory Tarsx_Singleton
  imports Tarsx_Prelude
begin

text \<open>
  \<open>Singleton.h\<close>: the one object of a class, made by the first thread that asks for it and deleted at the end of the
  process. Threads interleave between the steps of \<open>instance\<close>; \<open>pthread_once\<close> lets one of the threads that have come
  to it run \<open>init\<close> and holds the others until that has returned.
\<close>

section \<open>Objects and steps\<close>

text \<open>\<open>ponce_\<close>, and where a thread is in \<open>instance\<close>: not in it, at \<open>pthread_once\<close>, in \<open>init\<close>, or past \<open>pthread_once\<close>.\<close>

datatype once = PTHREAD_ONCE_INIT | ONCE_RUNNING | ONCE_DONE

datatype place = Outside | AtOnce | InInit | PastOnce

text \<open>\<open>value_\<close> is an address; \<open>si_news\<close> counts the objects made, which are the addresses given out, and \<open>si_atexit\<close> the
  registrations of \<open>destroy\<close> that have not run. A failed assertion ends the process.\<close>

record Singleton =
  si_once :: once
  si_value :: "nat option"
  si_news :: nat
  si_atexit :: nat
  si_aborted :: bool
  si_place :: "nat \<Rightarrow> place"

definition Singleton_static :: Singleton where
  "Singleton_static =
     \<lparr>si_once = PTHREAD_ONCE_INIT, si_value = None, si_news = 0, si_atexit = 0, si_aborted = False, si_place = (\<lambda>_. Outside)\<rparr>"

text \<open>\<open>init\<close> and \<open>destroy\<close>; \<open>no_destroy\<close> says whether the class has a member of that name.\<close>

definition Singleton_init :: "bool \<Rightarrow> Singleton \<Rightarrow> Singleton" where
  "Singleton_init no_destroy s =
     s\<lparr>si_value := Some (si_news s), si_news := Suc (si_news s), si_atexit := si_atexit s + (if no_destroy then 0 else 1)\<rparr>"

definition Singleton_destroy :: "Singleton \<Rightarrow> Singleton" where
  "Singleton_destroy s = s\<lparr>si_value := None\<rparr>"

text \<open>What a thread sees of a step: the reference \<open>instance\<close> returns, or the failed assertion. \<open>Exited\<close> is a handler
  run at the end of the process.\<close>

datatype event = Silent | Returned nat nat | AssertionFailed nat | Exited

inductive singleton_step :: "bool \<Rightarrow> Singleton \<Rightarrow> event \<Rightarrow> Singleton \<Rightarrow> bool" for no_destroy where
  call: "\<not> si_aborted s \<Longrightarrow> si_place s t = Outside \<Longrightarrow>
    singleton_step no_destroy s Silent (s\<lparr>si_place := (si_place s)(t := AtOnce)\<rparr>)"
| enter: "\<not> si_aborted s \<Longrightarrow> si_place s t = AtOnce \<Longrightarrow> si_once s = PTHREAD_ONCE_INIT \<Longrightarrow>
    singleton_step no_destroy s Silent (s\<lparr>si_once := ONCE_RUNNING, si_place := (si_place s)(t := InInit)\<rparr>)"
| init: "\<not> si_aborted s \<Longrightarrow> si_place s t = InInit \<Longrightarrow>
    singleton_step no_destroy s Silent
      ((Singleton_init no_destroy s)\<lparr>si_once := ONCE_DONE, si_place := (si_place s)(t := PastOnce)\<rparr>)"
| pass: "\<not> si_aborted s \<Longrightarrow> si_place s t = AtOnce \<Longrightarrow> si_once s = ONCE_DONE \<Longrightarrow>
    singleton_step no_destroy s Silent (s\<lparr>si_place := (si_place s)(t := PastOnce)\<rparr>)"
| ret: "\<not> si_aborted s \<Longrightarrow> si_place s t = PastOnce \<Longrightarrow> si_value s = Some a \<Longrightarrow>
    singleton_step no_destroy s (Returned t a) (s\<lparr>si_place := (si_place s)(t := Outside)\<rparr>)"
| fail: "\<not> si_aborted s \<Longrightarrow> si_place s t = PastOnce \<Longrightarrow> si_value s = None \<Longrightarrow>
    singleton_step no_destroy s (AssertionFailed t) (s\<lparr>si_aborted := True\<rparr>)"
| exit: "\<not> si_aborted s \<Longrightarrow> 0 < si_atexit s \<Longrightarrow>
    singleton_step no_destroy s Exited ((Singleton_destroy s)\<lparr>si_atexit := si_atexit s - 1\<rparr>)"

inductive singleton_run :: "bool \<Rightarrow> event list \<Rightarrow> Singleton \<Rightarrow> bool" for no_destroy where
  start: "singleton_run no_destroy [] Singleton_static"
| step: "singleton_run no_destroy es s \<Longrightarrow> singleton_step no_destroy s e s' \<Longrightarrow> singleton_run no_destroy (es @ [e]) s'"

inductive_cases returnedE: "singleton_step no_destroy s (Returned t a) s'"
inductive_cases failedE: "singleton_step no_destroy s (AssertionFailed t) s'"

section \<open>The invariant\<close>

definition Singleton_inv :: "bool \<Rightarrow> event list \<Rightarrow> Singleton \<Rightarrow> bool" where
  "Singleton_inv no_destroy es s \<longleftrightarrow>
     (si_once s = PTHREAD_ONCE_INIT \<longrightarrow> si_news s = 0 \<and> si_atexit s = 0 \<and> si_value s = None \<and> (\<forall>t. si_place s t \<in> {Outside, AtOnce})) \<and>
     (si_once s = ONCE_RUNNING \<longrightarrow> si_news s = 0 \<and> si_atexit s = 0 \<and> si_value s = None \<and>
        (\<exists>t. si_place s t = InInit \<and> (\<forall>u. u \<noteq> t \<longrightarrow> si_place s u \<in> {Outside, AtOnce}))) \<and>
     (si_once s = ONCE_DONE \<longrightarrow> si_news s = 1 \<and> (\<forall>t. si_place s t \<noteq> InInit) \<and>
        (if Exited \<in> set es then si_value s = None \<and> si_atexit s = 0
         else si_value s = Some 0 \<and> si_atexit s = (if no_destroy then 0 else 1))) \<and>
     (Exited \<in> set es \<longrightarrow> si_once s = ONCE_DONE \<and> \<not> no_destroy) \<and> (no_destroy \<longrightarrow> si_atexit s = 0)"

lemma Singleton_inv_static: "Singleton_inv no_destroy [] Singleton_static"
  by (simp add: Singleton_inv_def Singleton_static_def)

lemma past_once_done:
  assumes "Singleton_inv no_destroy es s" and "si_place s t = PastOnce"
  shows "si_once s = ONCE_DONE"
proof (cases "si_once s")
  case PTHREAD_ONCE_INIT
  then have "si_place s t \<in> {Outside, AtOnce}" using assms(1) by (simp add: Singleton_inv_def)
  then show ?thesis using assms(2) by simp
next
  case ONCE_RUNNING
  then obtain r where "si_place s r = InInit" "\<forall>u. u \<noteq> r \<longrightarrow> si_place s u \<in> {Outside, AtOnce}" using assms(1) by (auto simp: Singleton_inv_def)
  then show ?thesis using assms(2) by (cases "t = r") auto
qed

lemma in_init_running:
  assumes "Singleton_inv no_destroy es s" and "si_place s t = InInit"
  shows "si_once s = ONCE_RUNNING" "u \<noteq> t \<Longrightarrow> si_place s u \<in> {Outside, AtOnce}"
proof -
  show o: "si_once s = ONCE_RUNNING"
  proof (cases "si_once s")
    case PTHREAD_ONCE_INIT
    then have "si_place s t \<in> {Outside, AtOnce}" using assms(1) by (simp add: Singleton_inv_def)
    then show ?thesis using assms(2) by simp
  qed (use assms in \<open>auto simp: Singleton_inv_def\<close>)
  obtain r where r: "si_place s r = InInit" "\<forall>u. u \<noteq> r \<longrightarrow> si_place s u \<in> {Outside, AtOnce}" using assms(1) o by (auto simp: Singleton_inv_def)
  then have "r = t" using assms(2) by (cases "t = r") auto
  then show "si_place s u \<in> {Outside, AtOnce}" if "u \<noteq> t" using r(2) that by blast
qed

text \<open>A step of a thread that is neither in \<open>init\<close> before nor after it, and changes nothing but its place.\<close>

lemma Singleton_inv_move:
  assumes i: "Singleton_inv no_destroy es s" and e: "e \<noteq> Exited"
    and t: "si_place s t \<noteq> InInit" and p: "p \<noteq> InInit" "p = PastOnce \<Longrightarrow> si_once s = ONCE_DONE"
  shows "Singleton_inv no_destroy (es @ [e]) (s\<lparr>si_place := (si_place s)(t := p)\<rparr>)"
proof (cases "si_once s")
  case PTHREAD_ONCE_INIT
  then show ?thesis using i e p by (cases p) (auto simp: Singleton_inv_def)
next
  case ONCE_RUNNING
  then obtain r where r: "si_place s r = InInit" "\<forall>u. u \<noteq> r \<longrightarrow> si_place s u \<in> {Outside, AtOnce}" using i by (auto simp: Singleton_inv_def)
  have "r \<noteq> t" "p \<in> {Outside, AtOnce}" using r(1) t p ONCE_RUNNING by (cases p; auto)+
  with r have "\<exists>r. ((si_place s)(t := p)) r = InInit \<and> (\<forall>u. u \<noteq> r \<longrightarrow> ((si_place s)(t := p)) u \<in> {Outside, AtOnce})"
    by (intro exI [of _ r]) simp
  then show ?thesis using i e ONCE_RUNNING by (simp add: Singleton_inv_def)
next
  case ONCE_DONE
  then show ?thesis using i e p by (simp add: Singleton_inv_def)
qed

lemma Singleton_inv_step:
  assumes i: "Singleton_inv no_destroy es s" and st: "singleton_step no_destroy s e s'"
  shows "Singleton_inv no_destroy (es @ [e]) s'"
  using st
proof cases
  case (call t)
  then show ?thesis using Singleton_inv_move [OF i, of e t AtOnce] by simp
next
  case (enter t)
  have "\<forall>u. si_place s u \<in> {Outside, AtOnce}" using i enter by (simp add: Singleton_inv_def)
  then have "\<exists>r. ((si_place s)(t := InInit)) r = InInit \<and> (\<forall>u. u \<noteq> r \<longrightarrow> ((si_place s)(t := InInit)) u \<in> {Outside, AtOnce})"
    by (intro exI [of _ t]) simp
  then show ?thesis using i enter by (simp add: Singleton_inv_def)
next
  case (init t)
  note r = in_init_running [OF i \<open>si_place s t = InInit\<close>]
  have "((si_place s)(t := PastOnce)) u \<noteq> InInit" for u using r(2) [of u] by (cases "u = t") auto
  then show ?thesis using i init r(1) by (simp add: Singleton_inv_def Singleton_init_def)
next
  case (pass t)
  then show ?thesis using Singleton_inv_move [OF i, of e t PastOnce] by simp
next
  case (ret t a)
  then show ?thesis using Singleton_inv_move [OF i, of e t Outside] by simp
next
  case (fail t)
  then show ?thesis using i by (cases "Exited \<in> set es") (simp_all add: Singleton_inv_def)
next
  case exit
  then have "si_once s = ONCE_DONE" using i by (cases "si_once s") (simp_all add: Singleton_inv_def)
  then show ?thesis using i exit by (simp add: Singleton_inv_def Singleton_destroy_def split: if_splits)
qed

lemma Singleton_inv_run: "singleton_run no_destroy es s \<Longrightarrow> Singleton_inv no_destroy es s"
  by (induction rule: singleton_run.induct) (auto intro: Singleton_inv_static Singleton_inv_step)

text \<open>When a call returns or fails.\<close>

lemma returned_when:
  assumes i: "Singleton_inv no_destroy es s" and st: "singleton_step no_destroy s (Returned t a) s'"
  shows "a = 0 \<and> Exited \<notin> set es"
proof -
  have p: "si_place s t = PastOnce" "si_value s = Some a" using st by (auto elim: returnedE)
  show ?thesis using i past_once_done [OF i p(1)] p(2) by (cases "Exited \<in> set es") (simp_all add: Singleton_inv_def)
qed

lemma failed_when:
  assumes i: "Singleton_inv no_destroy es s" and st: "singleton_step no_destroy s (AssertionFailed t) s'"
  shows "Exited \<in> set es \<and> \<not> no_destroy"
proof -
  have p: "si_place s t = PastOnce" "si_value s = None" using st by (auto elim: failedE)
  show ?thesis using i past_once_done [OF i p(1)] p(2) by (cases "Exited \<in> set es") (simp_all add: Singleton_inv_def)
qed

text \<open>Each event of a run follows a run of those before it.\<close>

lemma run_event:
  assumes "singleton_run no_destroy (pre @ e # post) s"
  obtains r r' where "Singleton_inv no_destroy pre r" "singleton_step no_destroy r e r'"
proof -
  have "\<exists>r r'. singleton_run no_destroy pre r \<and> singleton_step no_destroy r e r'" using assms
  proof (induction post arbitrary: s rule: rev_induct)
    case Nil
    then show ?case by (cases rule: singleton_run.cases) auto
  next
    case (snoc f post)
    from snoc.prems obtain s0 where "singleton_run no_destroy (pre @ e # post) s0"
      by (cases rule: singleton_run.cases) (auto simp flip: append_Cons append_assoc)
    then show ?case by (rule snoc.IH)
  qed
  then show thesis using that Singleton_inv_run by blast
qed

section \<open>Properties\<close>



end
