(* ===== verification/Tarsx_Net.thy ===== *)
theory Tarsx_Net
  imports Tarsx_Prelude
begin

text \<open>
  The wrappers around the system calls: \<open>NetworkUtil\<close>, \<open>Socket\<close>, \<open>EndPoint\<close> (\<open>ClientSocket.h\<close>) and
  \<open>Epoller\<close>. The kernel is the environment: a list of the results its calls will give and the log
  of the calls made, each with its result. A negative result stands for \<open>-1\<close> with that \<open>errno\<close>.
  Name resolution is a parameter.
\<close>

unbundle bit_operations_syntax

section \<open>The kernel\<close>

datatype epoll_op = EPOLL_CTL_ADD | EPOLL_CTL_MOD | EPOLL_CTL_DEL

record epoll_event =
  ev_data :: u64
  ev_events :: u32

record sockaddr_in =
  sin_family :: int
  sin_port :: u16
  sin_addr :: u32

datatype syscall =
    Sys_socket bool
  | Sys_close int
  | Sys_getfl int
  | Sys_setfl int int
  | Sys_nodelay int
  | Sys_keepalive int
  | Sys_linger int bool
  | Sys_reuseaddr int
  | Sys_bind int sockaddr_in
  | Sys_getsockname int
  | Sys_listen int int
  | Sys_connect int sockaddr_in
  | Sys_accept int
  | Sys_epoll_create int
  | Sys_epoll_ctl int epoll_op int epoll_event

record Kernel =
  k_results :: "int list"
  k_calls :: "(syscall \<times> int) list"

definition EINTR :: int where "EINTR = 4"
definition EAGAIN :: int where "EAGAIN = 11"
definition EINPROGRESS :: int where "EINPROGRESS = 115"
definition O_NONBLOCK :: int where "O_NONBLOCK = 2048"
definition AF_INET :: int where "AF_INET = 2"
definition PF_LOCAL :: int where "PF_LOCAL = 1"
definition INADDR_NONE :: u32 where "INADDR_NONE = - 1"
definition EAI_AGAIN :: int where "EAI_AGAIN = -3"
definition INVALID_SOCKET :: int where "INVALID_SOCKET = -1"
definition EPOLLIN :: u32 where "EPOLLIN = 1"
definition EPOLLOUT :: u32 where "EPOLLOUT = 4"
definition EPOLLERR :: u32 where "EPOLLERR = 8"
definition EPOLLHUP :: u32 where "EPOLLHUP = 16"
definition EPOLLET :: u32 where "EPOLLET = 0x80000000"

text \<open>A call takes the next result; when none is left \<open>accept\<close> finds no connection waiting and every
  other call succeeds with 0.\<close>

definition sys :: "syscall \<Rightarrow> Kernel \<Rightarrow> int \<times> Kernel" where
  "sys call k =
     (let r = (case k_results k of [] \<Rightarrow> (case call of Sys_accept _ \<Rightarrow> - EAGAIN | _ \<Rightarrow> 0) | r # _ \<Rightarrow> r) in
      (r, k\<lparr>k_results := tl (k_results k), k_calls := k_calls k @ [(call, r)]\<rparr>))"

lemmas net_consts = EINTR_def EAGAIN_def EINPROGRESS_def O_NONBLOCK_def AF_INET_def PF_LOCAL_def
  INADDR_NONE_def EAI_AGAIN_def INVALID_SOCKET_def EPOLLIN_def EPOLLOUT_def EPOLLERR_def EPOLLHUP_def EPOLLET_def

section \<open>NetworkUtil\<close>

definition closeSocketNoThrow :: "int \<Rightarrow> Kernel \<Rightarrow> Kernel" where
  "closeSocketNoThrow fd k = snd (sys (Sys_close fd) k)"

text \<open>A call whose failure ends in a fatal log line. Where the source closes the descriptor first, the
  process ends with it.\<close>

definition sys_or_fatal :: "syscall \<Rightarrow> Kernel \<Rightarrow> Kernel result" where
  "sys_or_fatal call k = (let (r, k1) = sys call k in if r < 0 then Inl Fatal else Inr k1)"

definition set_tcpNoDealy :: "int \<Rightarrow> Kernel \<Rightarrow> Kernel result" where
  "set_tcpNoDealy fd k = sys_or_fatal (Sys_nodelay fd) k"

definition set_keepAlive :: "int \<Rightarrow> Kernel \<Rightarrow> Kernel result" where
  "set_keepAlive fd k = sys_or_fatal (Sys_keepalive fd) k"

definition set_block :: "int \<Rightarrow> bool \<Rightarrow> Kernel \<Rightarrow> Kernel result" where
  "set_block fd block k =
     (let (r, k1) = sys (Sys_getfl fd) k;
          flags = max r (-1);
          flags' = (if block then flags AND NOT O_NONBLOCK else flags OR O_NONBLOCK)
      in sys_or_fatal (Sys_setfl fd flags') k1)"

definition createSocket :: "bool \<Rightarrow> bool \<Rightarrow> Kernel \<Rightarrow> (int \<times> Kernel) result" where
  "createSocket udp local k =
     (let (fd, k1) = sys (Sys_socket local) k in
      if fd < 0 then Inl Fatal
      else if \<not> udp then
        bindE (set_tcpNoDealy fd k1) (\<lambda>k2. bindE (set_keepAlive fd k2) (\<lambda>k3. Inr (fd, k3)))
      else Inr (fd, k1))"

definition NetworkUtil_bind :: "int \<Rightarrow> sockaddr_in \<Rightarrow> Kernel \<Rightarrow> Kernel result" where
  "NetworkUtil_bind fd addr k =
     bindE (sys_or_fatal (Sys_bind fd addr) k) (\<lambda>k1. Inr (snd (sys (Sys_getsockname fd) k1)))"

definition NetworkUtil_connect :: "int \<Rightarrow> sockaddr_in \<Rightarrow> Kernel \<Rightarrow> (bool \<times> Kernel) result" where
  "NetworkUtil_connect fd addr k =
     (let (ret, k1) = sys (Sys_connect fd addr) k in
      if ret = 0 then Inr (True, k1)
      else if ret < 0 \<and> ret \<noteq> - EINPROGRESS then Inl Fatal
      else Inr (False, k1))"

text \<open>
  \<open>getAddress\<close>: \<open>inet_addr\<close> reads a dotted address; otherwise \<open>getaddrinfo\<close> is asked, again as long as
  it answers \<open>EAI_AGAIN\<close> and the retries last. An answer is its code and the first entry of its list:
  the family and the address.
\<close>

type_synonym addrinfo_answer = "int \<times> (int \<times> u32) option"

fun getaddrinfo_retry :: "nat \<Rightarrow> addrinfo_answer list \<Rightarrow> addrinfo_answer \<times> addrinfo_answer list" where
  "getaddrinfo_retry retry [] = ((0, None), [])"
| "getaddrinfo_retry 0 (a # answers) = (a, answers)"
| "getaddrinfo_retry (Suc retry) (a # answers) =
     (if snd a = None \<and> fst a = EAI_AGAIN then getaddrinfo_retry retry answers else (a, answers))"

definition getAddress ::
    "(string \<Rightarrow> u32) \<Rightarrow> addrinfo_answer list \<Rightarrow> string \<Rightarrow> int \<Rightarrow> (sockaddr_in \<times> addrinfo_answer list) result" where
  "getAddress inet_addr answers host port =
     (let addr = \<lparr>sin_family = AF_INET, sin_port = word_of_int port, sin_addr = inet_addr host\<rparr> in
      if sin_addr addr = INADDR_NONE then
        (let ((rs, info), answers') = getaddrinfo_retry 5 answers in
         if rs \<noteq> 0 then Inl Fatal
         else
           (case info of
              None \<Rightarrow> Inl AssertFailed
            | Some (family, a) \<Rightarrow>
                bindE (assertE (family = AF_INET)) (\<lambda>_. Inr (addr\<lparr>sin_addr := a\<rparr>, answers'))))
      else Inr (addr, answers))"

section \<open>EndPoint\<close>

record EndPoint =
  ep_host :: string
  ep_port :: int

definition EndPoint_new :: EndPoint where
  "EndPoint_new = \<lparr>ep_host = '''', ep_port = 0\<rparr>"

definition EndPoint_of :: "string \<Rightarrow> int \<Rightarrow> EndPoint" where
  "EndPoint_of host port = \<lparr>ep_host = host, ep_port = port\<rparr>"

section \<open>Socket\<close>

record Socket =
  sk_fd :: int
  sk_owner :: bool
  sk_domain :: int

definition Socket_new :: Socket where
  "Socket_new = \<lparr>sk_fd = -1, sk_owner = True, sk_domain = AF_INET\<rparr>"

definition Socket_valid :: "Socket \<Rightarrow> bool" where
  "Socket_valid s \<longleftrightarrow> sk_fd s \<noteq> -1"

definition Socket_close :: "Socket \<Rightarrow> Kernel \<Rightarrow> Socket \<times> Kernel" where
  "Socket_close s k =
     (if sk_fd s \<noteq> INVALID_SOCKET
      then (s\<lparr>sk_fd := INVALID_SOCKET\<rparr>, snd (sys (Sys_close (sk_fd s)) k)) else (s, k))"

definition Socket_destroy :: "Socket \<Rightarrow> Kernel \<Rightarrow> Kernel" where
  "Socket_destroy s k = (if sk_owner s then snd (Socket_close s k) else k)"

definition Socket_init :: "int \<Rightarrow> bool \<Rightarrow> int \<Rightarrow> Socket \<Rightarrow> Kernel \<Rightarrow> Socket \<times> Kernel" where
  "Socket_init fd owner domain s k =
     (let k1 = (if sk_owner s then snd (Socket_close s k) else k) in
      (\<lparr>sk_fd = fd, sk_owner = owner, sk_domain = domain\<rparr>, k1))"

definition Socket_createSocket :: "int \<Rightarrow> Socket \<Rightarrow> Kernel \<Rightarrow> (Socket \<times> Kernel) result" where
  "Socket_createSocket domain s k =
     (let (s1, k1) = Socket_close s k in
      bindE (createSocket False (domain = PF_LOCAL) k1) (\<lambda>(fd, k2).
      Inr (s1\<lparr>sk_domain := domain, sk_fd := fd\<rparr>, k2)))"

text \<open>\<open>parseAddr\<close>: \<open>pton\<close> is the answer of \<open>inet_pton\<close> (its code and the address), \<open>byname\<close> that of
  \<open>gethostbyname_r\<close>; when neither gives an address the argument keeps its value.\<close>

definition Socket_parseAddr ::
    "(string \<Rightarrow> int \<times> u32) \<Rightarrow> (string \<Rightarrow> u32 option) \<Rightarrow> string \<Rightarrow> u32 \<Rightarrow> u32" where
  "Socket_parseAddr pton byname addr sinaddr =
     (let (ret, a) = pton addr in
      if ret < 0 then sinaddr
      else if ret = 0 then (case byname addr of None \<Rightarrow> sinaddr | Some b \<Rightarrow> b)
      else a)"

definition Socket_bind ::
    "(string \<Rightarrow> int \<times> u32) \<Rightarrow> (string \<Rightarrow> u32 option) \<Rightarrow> string \<Rightarrow> int \<Rightarrow> Socket \<Rightarrow> Kernel \<Rightarrow> Kernel result" where
  "Socket_bind pton byname seraddr port s k =
     bindE (assertE (sk_domain s = AF_INET)) (\<lambda>_.
     let bindAddr = \<lparr>sin_family = sk_domain s, sin_port = word_of_int port,
                     sin_addr = (if seraddr = '''' then 0 else Socket_parseAddr pton byname seraddr 0)\<rparr>;
         k1 = snd (sys (Sys_reuseaddr (sk_fd s)) k)
     in NetworkUtil_bind (sk_fd s) bindAddr k1)"

definition Socket_listen :: "int \<Rightarrow> Socket \<Rightarrow> Kernel \<Rightarrow> Kernel" where
  "Socket_listen backlog s k = snd (sys (Sys_listen (sk_fd s) backlog) k)"

definition Socket_connect ::
    "(string \<Rightarrow> int \<times> u32) \<Rightarrow> (string \<Rightarrow> u32 option) \<Rightarrow> string \<Rightarrow> u16 \<Rightarrow> Socket \<Rightarrow> Kernel \<Rightarrow> Kernel result" where
  "Socket_connect pton byname ser_addr port s k =
     bindE (assertE (sk_domain s = AF_INET)) (\<lambda>_.
     let host = \<lparr>sin_family = sk_domain s, sin_port = port, sin_addr = Socket_parseAddr pton byname ser_addr 0\<rparr> in
     bindE (NetworkUtil_connect (sk_fd s) host k) (\<lambda>(_, k1). Inr k1))"

text \<open>The loop of \<open>accept\<close>, repeated while a signal interrupts the call.\<close>

function accept_loop :: "int \<Rightarrow> Kernel \<Rightarrow> int \<times> Kernel" where
  "accept_loop fd k =
     (let (r, k1) = sys (Sys_accept fd) k in if r = - EINTR then accept_loop fd k1 else (r, k1))"
  by auto
termination
  by (relation "measure (\<lambda>(fd, k). length (k_results k))")
    (auto simp: sys_def EINTR_def EAGAIN_def Let_def split: list.splits)

declare accept_loop.simps [simp del]

text \<open>The value is the \<open>fd\<close> returned; \<open>errno\<close> is read off a negative result.\<close>

definition Socket_accept :: "Socket \<Rightarrow> Socket \<Rightarrow> Kernel \<Rightarrow> (int \<times> Socket \<times> Kernel) result" where
  "Socket_accept s sock k =
     bindE (assertE (sk_fd sock = INVALID_SOCKET)) (\<lambda>_.
     let (r, k1) = accept_loop (sk_fd s) k in
     Inr (r, sock\<lparr>sk_fd := max r (-1), sk_domain := sk_domain s\<rparr>, k1))"

definition Socket_set_block :: "bool \<Rightarrow> Socket \<Rightarrow> Kernel \<Rightarrow> Kernel result" where
  "Socket_set_block block s k = set_block (sk_fd s) block k"

definition Socket_set_keepAlive :: "Socket \<Rightarrow> Kernel \<Rightarrow> Kernel result" where
  "Socket_set_keepAlive s k = set_keepAlive (sk_fd s) k"

definition Socket_set_tcpNoDelay :: "Socket \<Rightarrow> Kernel \<Rightarrow> Kernel result" where
  "Socket_set_tcpNoDelay s k = set_tcpNoDealy (sk_fd s) k"

definition Socket_set_noCloseWait :: "Socket \<Rightarrow> Kernel \<Rightarrow> Kernel result" where
  "Socket_set_noCloseWait s k = sys_or_fatal (Sys_linger (sk_fd s) True) k"

definition Socket_set_closeWaitDefault :: "Socket \<Rightarrow> Kernel \<Rightarrow> Kernel result" where
  "Socket_set_closeWaitDefault s k = sys_or_fatal (Sys_linger (sk_fd s) False) k"

definition Socket_set_owner :: "bool \<Rightarrow> Socket \<Rightarrow> Socket" where
  "Socket_set_owner owner s = s\<lparr>sk_owner := owner\<rparr>"

text \<open>\<open>recvfrom\<close>, from what the system call gives: a length, the data and the sender's address. \<open>from_addr\<close> and
  \<open>from_port\<close> keep their values on an error; \<open>inet_ntop\<close> is a parameter.\<close>

definition Socket_recvfrom ::
    "(u32 \<Rightarrow> string) \<Rightarrow> int \<times> string \<times> sockaddr_in \<Rightarrow> string \<times> u16 \<Rightarrow> int \<times> string \<times> string \<times> u16" where
  "Socket_recvfrom inet_ntop answer from =
     (let (bytes, buf, p) = answer in
      if 0 \<le> bytes then (bytes, buf, inet_ntop (sin_addr p), sin_port p) else (bytes, buf, from))"

section \<open>Epoller\<close>

record Epoller =
  ep_epollfd :: int
  ep_maxConnections :: int
  ep_events :: "epoll_event list"
  ep_et :: bool

definition Epoller_new :: "bool \<Rightarrow> Epoller" where
  "Epoller_new et = \<lparr>ep_epollfd = -1, ep_maxConnections = 1024, ep_events = [], ep_et = et\<rparr>"

definition Epoller_destroy :: "Epoller \<Rightarrow> Kernel \<Rightarrow> Kernel" where
  "Epoller_destroy e k = (if 0 < ep_epollfd e then snd (sys (Sys_close (ep_epollfd e)) k) else k)"

definition Epoller_create :: "int \<Rightarrow> Epoller \<Rightarrow> Kernel \<Rightarrow> Epoller \<times> Kernel" where
  "Epoller_create maxConnections e k =
     (let (r, k1) = sys (Sys_epoll_create (maxConnections + 1)) k;
          n = nat (maxConnections + 1)
      in (e\<lparr>ep_maxConnections := maxConnections, ep_epollfd := max r (-1),
            ep_events := take n (ep_events e @ replicate (n - length (ep_events e)) \<lparr>ev_data = 0, ev_events = 0\<rparr>)\<rparr>,
          k1))"

definition Epoller_ctrl :: "epoll_op \<Rightarrow> int \<Rightarrow> u64 \<Rightarrow> u32 \<Rightarrow> Epoller \<Rightarrow> Kernel \<Rightarrow> Kernel" where
  "Epoller_ctrl op fd data event e k =
     (let ev = \<lparr>ev_data = data, ev_events = (if ep_et e then event OR EPOLLET else event)\<rparr> in
      snd (sys (Sys_epoll_ctl (ep_epollfd e) op fd ev) k))"

definition Epoller_add :: "int \<Rightarrow> u64 \<Rightarrow> u32 \<Rightarrow> Epoller \<Rightarrow> Kernel \<Rightarrow> Kernel" where
  "Epoller_add fd data event e k = Epoller_ctrl EPOLL_CTL_ADD fd data event e k"

definition Epoller_mod :: "int \<Rightarrow> u64 \<Rightarrow> u32 \<Rightarrow> Epoller \<Rightarrow> Kernel \<Rightarrow> Kernel" where
  "Epoller_mod fd data event e k = Epoller_ctrl EPOLL_CTL_MOD fd data event e k"

definition Epoller_del :: "int \<Rightarrow> u64 \<Rightarrow> u32 \<Rightarrow> Epoller \<Rightarrow> Kernel \<Rightarrow> Kernel" where
  "Epoller_del fd data event e k = Epoller_ctrl EPOLL_CTL_DEL fd data event e k"

text \<open>\<open>wait\<close> stores the events the kernel reports at the front of \<open>events_\<close>.\<close>

definition Epoller_wait :: "epoll_event list \<Rightarrow> Epoller \<Rightarrow> int \<times> Epoller" where
  "Epoller_wait ready e =
     (let evs = take (nat (ep_maxConnections e + 1)) ready in
      (int (length evs), e\<lparr>ep_events := evs @ drop (length evs) (ep_events e)\<rparr>))"

definition Epoller_get :: "int \<Rightarrow> Epoller \<Rightarrow> epoll_event result" where
  "Epoller_get i e =
     bindE (assertE (ep_events e \<noteq> [])) (\<lambda>_.
     if 0 \<le> i \<and> nat i < length (ep_events e) then Inr (ep_events e ! nat i) else Inl OutOfBounds)"

section \<open>Descriptors\<close>

definition closed_fds :: "Kernel \<Rightarrow> int list" where
  "closed_fds k = concat (map (\<lambda>c. case c of (Sys_close fd, _) \<Rightarrow> [fd] | _ \<Rightarrow> []) (k_calls k))"

definition all_succeed :: "Kernel \<Rightarrow> bool" where
  "all_succeed k \<longleftrightarrow> (\<forall>r \<in> set (k_results k). 0 \<le> r)"

lemma sys_succeeds:
  assumes "all_succeed k" and "sys call k = (r, k')" and "\<And>fd. call \<noteq> Sys_accept fd"
  shows "0 \<le> r" "all_succeed k'"
    "closed_fds k' = closed_fds k @ (case call of Sys_close fd \<Rightarrow> [fd] | _ \<Rightarrow> [])"
  using assms by (cases "k_results k"; cases call; auto simp: sys_def all_succeed_def closed_fds_def)+

lemma sys_close_fds:
  assumes "all_succeed k"
  shows "all_succeed (snd (sys (Sys_close fd) k))" "closed_fds (snd (sys (Sys_close fd) k)) = closed_fds k @ [fd]"
  using sys_succeeds [OF assms, of "Sys_close fd" "fst (sys (Sys_close fd) k)" "snd (sys (Sys_close fd) k)"] by auto

lemma sys_or_fatal_ok:
  assumes "all_succeed k" and "\<And>fd. call \<noteq> Sys_accept fd"
  shows "\<exists>k'. sys_or_fatal call k = Inr k' \<and> all_succeed k' \<and>
           closed_fds k' = closed_fds k @ (case call of Sys_close fd \<Rightarrow> [fd] | _ \<Rightarrow> [])"
  using sys_succeeds [OF assms(1) _ assms(2)] by (cases "sys call k") (force simp: sys_or_fatal_def)

lemma createSocket_ok:
  assumes "all_succeed k"
  shows "\<exists>fd k'. createSocket False local k = Inr (fd, k') \<and> 0 \<le> fd \<and> all_succeed k' \<and> closed_fds k' = closed_fds k"
proof -
  obtain fd k1 where s: "sys (Sys_socket local) k = (fd, k1)" by fastforce
  note a = sys_succeeds [OF assms s]
  obtain k2 where k2: "set_tcpNoDealy fd k1 = Inr k2" "all_succeed k2" "closed_fds k2 = closed_fds k1"
    using sys_or_fatal_ok [OF a(2), of "Sys_nodelay fd"] by (auto simp: set_tcpNoDealy_def)
  obtain k3 where "set_keepAlive fd k2 = Inr k3" "all_succeed k3" "closed_fds k3 = closed_fds k2"
    using sys_or_fatal_ok [OF k2(2), of "Sys_keepalive fd"] by (auto simp: set_keepAlive_def)
  then show ?thesis using s a k2 by (simp add: createSocket_def)
qed

text \<open>What an owning \<open>Socket\<close> object goes through between its construction and its destruction: the
  descriptors it takes over, in order.\<close>

datatype socket_op = Op_createSocket | Op_init int | Op_close

fun socket_run :: "socket_op list \<Rightarrow> Socket \<Rightarrow> Kernel \<Rightarrow> (int list \<times> Socket \<times> Kernel) result" where
  "socket_run [] s k = Inr ([], s, k)"
| "socket_run (Op_createSocket # ops) s k =
     bindE (Socket_createSocket AF_INET s k) (\<lambda>(s1, k1).
     bindE (socket_run ops s1 k1) (\<lambda>(fds, s2, k2). Inr (sk_fd s1 # fds, s2, k2)))"
| "socket_run (Op_init fd # ops) s k =
     (let (s1, k1) = Socket_init fd True AF_INET s k in
      bindE (socket_run ops s1 k1) (\<lambda>(fds, s2, k2). Inr (fd # fds, s2, k2)))"
| "socket_run (Op_close # ops) s k = (let (s1, k1) = Socket_close s k in socket_run ops s1 k1)"

definition held :: "Socket \<Rightarrow> int list" where
  "held s = (if sk_fd s = -1 then [] else [sk_fd s])"

lemma Socket_close_fds:
  assumes "all_succeed k" and "Socket_close s k = (s', k')"
  shows "all_succeed k'" "closed_fds k' = closed_fds k @ held s" "held s' = []" "sk_owner s' = sk_owner s"
  using assms sys_close_fds [OF assms(1), of "sk_fd s"]
  by (auto simp: Socket_close_def held_def INVALID_SOCKET_def split: if_splits)

lemma socket_run_fds:
  assumes "all_succeed k" and "sk_owner s" and "\<And>fd. Op_init fd \<in> set ops \<Longrightarrow> fd \<noteq> -1"
  shows "\<exists>fds s' k'. socket_run ops s k = Inr (fds, s', k') \<and> all_succeed k' \<and> sk_owner s' \<and>
           closed_fds k' @ held s' = closed_fds k @ held s @ fds"
  using assms
proof (induction ops arbitrary: s k)
  case Nil
  then show ?case by simp
next
  case (Cons op ops)
  obtain s1 k1 where c: "Socket_close s k = (s1, k1)" by fastforce
  note cl = Socket_close_fds [OF Cons.prems(1) c]
  show ?case
  proof (cases op)
    case Op_createSocket
    obtain fd k2 where f: "createSocket False (AF_INET = PF_LOCAL) k1 = Inr (fd, k2)" "0 \<le> fd" "all_succeed k2"
      "closed_fds k2 = closed_fds k1" using createSocket_ok [OF cl(1)] by blast
    let ?s = "s1\<lparr>sk_domain := AF_INET, sk_fd := fd\<rparr>"
    have "held ?s = [fd]" using f(2) by (simp add: held_def)
    moreover obtain fds s' k' where "socket_run ops ?s k2 = Inr (fds, s', k')" "all_succeed k'" "sk_owner s'"
      "closed_fds k' @ held s' = closed_fds k2 @ held ?s @ fds"
      using Cons.IH [OF f(3), of ?s] Cons.prems cl(4) by auto
    ultimately show ?thesis using Op_createSocket c f cl by (simp add: Socket_createSocket_def)
  next
    case (Op_init fd)
    let ?s = "\<lparr>sk_fd = fd, sk_owner = True, sk_domain = AF_INET\<rparr>"
    have "held ?s = [fd]" using Cons.prems(3) [of fd] Op_init by (simp add: held_def)
    moreover obtain fds s' k' where "socket_run ops ?s k1 = Inr (fds, s', k')" "all_succeed k'" "sk_owner s'"
      "closed_fds k' @ held s' = closed_fds k1 @ held ?s @ fds"
      using Cons.IH [OF cl(1), of ?s] Cons.prems by auto
    ultimately show ?thesis using Op_init c cl Cons.prems(2) by (simp add: Socket_init_def)
  next
    case Op_close
    then show ?thesis using Cons.IH [OF cl(1), of s1] Cons.prems c cl by auto
  qed
qed

section \<open>Properties\<close>

text \<open>C35. An owning \<open>Socket\<close> closes every descriptor it ever held exactly once and in the order it took
  them over, whatever sequence of \<open>createSocket\<close>, \<open>init\<close> and \<open>close\<close> its life is, up to its destruction.\<close>

theorem Socket_closes_once:
  assumes "all_succeed k" and "\<And>fd. Op_init fd \<in> set ops \<Longrightarrow> fd \<noteq> -1"
  shows "\<exists>fds s k'. socket_run ops Socket_new k = Inr (fds, s, k') \<and>
           closed_fds (Socket_destroy s k') = closed_fds k @ fds"
proof -
  have new: "sk_owner Socket_new" "held Socket_new = []" by (simp_all add: Socket_new_def held_def)
  obtain fds s k' where r: "socket_run ops Socket_new k = Inr (fds, s, k')" "all_succeed k'" "sk_owner s"
    "closed_fds k' @ held s = closed_fds k @ fds"
    using socket_run_fds [OF assms(1) new(1), of ops] assms(2) new(2) by auto
  obtain s1 k1 where "Socket_close s k' = (s1, k1)" by fastforce
  then have "closed_fds (Socket_destroy s k') = closed_fds k' @ held s"
    using Socket_close_fds(2) [OF r(2)] r(3) by (simp add: Socket_destroy_def)
  then show ?thesis using r by auto
qed

theorem Socket_closes_once_witness:
  "\<exists>fds s k'. socket_run [Op_createSocket, Op_init 9, Op_close] Socket_new \<lparr>k_results = [5], k_calls = []\<rparr> = Inr (fds, s, k') \<and>
     closed_fds (Socket_destroy s k') = closed_fds \<lparr>k_results = [5], k_calls = []\<rparr> @ fds"
  by (rule Socket_closes_once) (auto simp: all_succeed_def)

end
