(* ===== verification/Tarsx_Buffer.thy ===== *)
theory Tarsx_Buffer
  imports Tarsx_Prelude
begin

text \<open>
  \<open>tarsx::Buffer\<close> (\<open>Buffer.h\<close>, \<open>Buffer.cc\<close>): a growing byte buffer with a read and a write
  position. The positions are 64-bit words, the storage is a memory block; growth, compaction,
  the capacity loop and every \<open>assert\<close> are as in the source. Allocation is taken to succeed.
  The contract is the interface \<open>byte_stream\<close>: a bounded first-in first-out queue of bytes.
\<close>

section \<open>State\<close>

record Buffer =
  readPos :: u64
  writePos :: u64
  capacity :: u64
  buffer :: "char block option"
  highWaterPercent :: u64

definition Buffer_new :: Buffer where
  "Buffer_new = \<lparr>readPos = 0, writePos = 0, capacity = 0, buffer = None, highWaterPercent = 50\<rparr>"

definition MaxBufferSize :: u64 where
  "MaxBufferSize = (- 1) div 2"

definition DefaultSize :: u64 where
  "DefaultSize = 128"

definition kHeaderSize :: u64 where
  "kHeaderSize = 5"

section \<open>Operations\<close>

partial_function (option) roundUp2Power_loop :: "u64 \<Rightarrow> u64 \<Rightarrow> u64 option" where
  "roundUp2Power_loop sz roundUp =
     (if roundUp < sz then roundUp2Power_loop sz (push_bit 1 roundUp) else Some roundUp)"

definition roundUp2Power :: "u64 \<Rightarrow> u64 option" where
  "roundUp2Power sz = (if sz = 0 then Some 0 else roundUp2Power_loop sz 1)"

definition Buffer_readableSize :: "Buffer \<Rightarrow> u64" where
  "Buffer_readableSize b = writePos b - readPos b"

definition Buffer_writableSize :: "Buffer \<Rightarrow> u64" where
  "Buffer_writableSize b = capacity b - writePos b"

definition Buffer_empty :: "Buffer \<Rightarrow> bool" where
  "Buffer_empty b \<longleftrightarrow> Buffer_readableSize b = 0"

definition Buffer_produce :: "u64 \<Rightarrow> Buffer \<Rightarrow> Buffer" where
  "Buffer_produce bytes b = b\<lparr>writePos := writePos b + bytes\<rparr>"

definition Buffer_clear :: "Buffer \<Rightarrow> Buffer" where
  "Buffer_clear b = b\<lparr>readPos := 0, writePos := 0\<rparr>"

definition Buffer_resetBuffer :: "char block option \<Rightarrow> Buffer \<Rightarrow> Buffer" where
  "Buffer_resetBuffer ptr b = b\<lparr>buffer := ptr\<rparr>"

definition Buffer_swap :: "Buffer \<Rightarrow> Buffer \<Rightarrow> Buffer \<times> Buffer" where
  "Buffer_swap a b =
     (a\<lparr>readPos := readPos b, writePos := writePos b, capacity := capacity b, buffer := buffer b\<rparr>,
      b\<lparr>readPos := readPos a, writePos := writePos a, capacity := capacity a, buffer := buffer a\<rparr>)"

text \<open>The capacity loop of \<open>assureSpace\<close>; \<open>None\<close> is a loop that never ends.\<close>

partial_function (option) Buffer_growCapacity :: "u64 \<Rightarrow> u64 \<Rightarrow> u64 \<Rightarrow> u64 \<Rightarrow> u64 result option" where
  "Buffer_growCapacity needsize rp wp cap =
     (if cap - wp + rp < needsize then
        (if cap < DefaultSize then Buffer_growCapacity needsize rp wp DefaultSize
         else if cap \<le> MaxBufferSize then
           (case roundUp2Power cap of
              None \<Rightarrow> None
            | Some newCapacity \<Rightarrow>
                (if cap < newCapacity then Buffer_growCapacity needsize rp wp newCapacity
                 else Buffer_growCapacity needsize rp wp (push_bit 1 newCapacity)))
         else Some (Inl AssertFailed))
      else Some (Inr cap))"

definition Buffer_assureSpace :: "u64 \<Rightarrow> Buffer \<Rightarrow> Buffer result" where
  "Buffer_assureSpace needsize b =
     (if needsize \<le> Buffer_writableSize b then Inr b
      else
        (let dataSize = Buffer_readableSize b; oldcap = capacity b in
         bindE (of_loop (Buffer_growCapacity needsize (readPos b) (writePos b) (capacity b))) (\<lambda>r.
         bindE r (\<lambda>cap.
         bindE
           (if oldcap < cap then
              (if dataSize \<noteq> 0 then
                 bindE (mem_read (buffer b) (unat (readPos b)) (unat dataSize)) (\<lambda>cells.
                 mem_write (Some (new_block (unat cap))) 0 cells)
               else Inr (Some (new_block (unat cap))))
            else
              bindE (assertE (0 < readPos b)) (\<lambda>_.
              bindE (mem_read (buffer b) (unat (readPos b)) (unat dataSize)) (\<lambda>cells.
              mem_write (buffer b) 0 cells)))
           (\<lambda>mem.
         (let b' = (Buffer_resetBuffer mem b)\<lparr>capacity := cap, readPos := 0, writePos := dataSize\<rparr> in
          bindE (assertE (needsize \<le> Buffer_writableSize b')) (\<lambda>_. Inr b')))))))"

definition Buffer_pushData :: "char list option \<Rightarrow> u64 \<Rightarrow> Buffer \<Rightarrow> (u64 \<times> Buffer) result" where
  "Buffer_pushData data sz b =
     (case data of
        None \<Rightarrow> Inr (0, b)
      | Some d \<Rightarrow>
          if sz = 0 then Inr (0, b)
          else if MaxBufferSize \<le> Buffer_readableSize b + sz then Inr (0, b)
          else
            bindE (Buffer_assureSpace sz b) (\<lambda>b1.
            bindE (mem_read (Some (map Some d)) 0 (unat sz)) (\<lambda>cells.
            bindE (mem_write (buffer b1) (unat (writePos b1)) cells) (\<lambda>mem.
            Inr (sz, Buffer_produce sz (b1\<lparr>buffer := mem\<rparr>))))))"

definition Buffer_consume :: "u64 \<Rightarrow> Buffer \<Rightarrow> Buffer result" where
  "Buffer_consume bytes b =
     bindE (assertE (readPos b + bytes \<le> writePos b)) (\<lambda>_.
     let b' = b\<lparr>readPos := readPos b + bytes\<rparr> in
     Inr (if Buffer_empty b' then Buffer_clear b' else b'))"

definition Buffer_popData ::
    "char block option \<Rightarrow> u64 \<Rightarrow> Buffer \<Rightarrow> (u64 \<times> char block option \<times> Buffer) result" where
  "Buffer_popData buf sz b =
     (let dataSize = Buffer_readableSize b in
      if buf = None \<or> sz = 0 \<or> dataSize = 0 then Inr (0, buf, b)
      else
        (let n = (if dataSize < sz then dataSize else sz) in
         bindE (mem_read (buffer b) (unat (readPos b)) (unat n)) (\<lambda>cells.
         bindE (mem_write buf 0 cells) (\<lambda>buf'.
         bindE (Buffer_consume n b) (\<lambda>b'. Inr (n, buf', b'))))))"

text \<open>\<open>peekData\<close>: the address of the first unread byte, as an offset, and the unread size.\<close>

definition Buffer_peekData :: "Buffer \<Rightarrow> u64 \<times> u64" where
  "Buffer_peekData b = (readPos b, Buffer_readableSize b)"

text \<open>Reading \<open>n\<close> bytes behind \<open>peek()\<close>, as the callers of \<open>peek\<close> do.\<close>

definition Buffer_peek :: "nat \<Rightarrow> Buffer \<Rightarrow> char list result" where
  "Buffer_peek n b = bindE (mem_read (buffer b) (unat (readPos b)) n) mem_values"

definition Buffer_shrink :: "Buffer \<Rightarrow> Buffer result" where
  "Buffer_shrink b =
     (if Buffer_empty b then Inr (Buffer_resetBuffer None ((Buffer_clear b)\<lparr>capacity := 0\<rparr>))
      else if capacity b \<le> DefaultSize then Inr b
      else
        (let oldcap = capacity b; dataSize = Buffer_readableSize b in
         if oldcap * highWaterPercent b < dataSize * 100 then Inr b
         else
           bindE (of_loop (roundUp2Power dataSize)) (\<lambda>newcap.
           bindE (mem_read (buffer b) (unat (readPos b)) (unat dataSize)) (\<lambda>cells.
           bindE (mem_write (Some (new_block (unat newcap))) 0 cells) (\<lambda>tmp.
           Inr ((Buffer_resetBuffer tmp b)
                  \<lparr>capacity := newcap, readPos := 0, writePos := dataSize\<rparr>))))))"

section \<open>The capacity loops\<close>

lemma roundUp2Power_loop_returns:
  "k \<le> 63 \<Longrightarrow> unat sz \<le> 2 ^ 63 \<Longrightarrow> k = 0 \<or> 2 ^ (k - 1) < unat sz \<Longrightarrow>
   \<exists>m \<le> 63. roundUp2Power_loop sz (2 ^ k) = Some (2 ^ m) \<and> unat sz \<le> 2 ^ m \<and>
     (m = 0 \<or> 2 ^ (m - 1) < unat sz)"
proof (induction "63 - k" arbitrary: k)
  case 0
  then have "k = 63" by simp
  with 0 have "\<not> (2 ^ k :: u64) < sz" by (simp add: word_less_nat_alt)
  then have "roundUp2Power_loop sz (2 ^ k) = Some (2 ^ k)"
    by (subst roundUp2Power_loop.simps) simp
  with 0 \<open>k = 63\<close> show ?case by (intro exI [of _ k]) simp
next
  case (Suc n)
  then have k: "k < 63" by simp
  show ?case
  proof (cases "(2 ^ k :: u64) < sz")
    case True
    then have "2 ^ (Suc k - 1) < unat sz" using k by (simp add: word_nat)
    moreover have "roundUp2Power_loop sz (2 ^ k) = roundUp2Power_loop sz (2 ^ Suc k)"
      using True by (subst roundUp2Power_loop.simps) (simp add: push_bit_eq_mult mult.commute)
    ultimately show ?thesis using Suc.hyps(1) [of "Suc k"] Suc.hyps(2) k Suc.prems by simp
  next
    case False
    then have "unat sz \<le> 2 ^ k" using k by (simp add: word_nat)
    with False Suc.prems k show ?thesis
      by (intro exI [of _ k]) (simp add: roundUp2Power_loop.simps [of sz "2 ^ k"])
  qed
qed

lemma roundUp2Power_loop_result:
  assumes "roundUp2Power_loop sz p = Some r"
  shows "\<exists>j. r = p * 2 ^ j \<and> sz \<le> r"
proof (rule roundUp2Power_loop.raw_induct [where P = "\<lambda>sz p r. \<exists>j. r = p * 2 ^ j \<and> sz \<le> r", OF _ assms])
  fix f :: "u64 \<Rightarrow> u64 \<Rightarrow> u64 option" and sz p r
  assume IH: "\<And>sz p r. f sz p = Some r \<Longrightarrow> \<exists>j. r = p * 2 ^ j \<and> sz \<le> r"
    and eq: "(if p < sz then f sz (push_bit 1 p) else Some p) = Some r"
  show "\<exists>j. r = p * 2 ^ j \<and> sz \<le> r"
  proof (cases "p < sz")
    case True
    with eq IH [of sz "push_bit 1 p" r] obtain j where "r = push_bit 1 p * 2 ^ j" "sz \<le> r" by auto
    then show ?thesis by (intro exI [of _ "Suc j"]) (simp add: push_bit_eq_mult)
  next
    case False
    with eq show ?thesis by (intro exI [of _ 0]) auto
  qed
qed

lemma unat_pow2_le: "unat ((2::u64) ^ j) \<le> 2 ^ 63"
proof (cases "j < 64")
  case True
  then have "(2::nat) ^ j \<le> 2 ^ 63" by (intro power_increasing) auto
  with True show ?thesis by (simp add: unat_pow2)
next
  case False
  then have "(2::u64) ^ j = 0" by (simp add: exp_eq_zero_iff)
  then show ?thesis by (simp only: unat_0 le0)
qed

lemma roundUp2Power_returns:
  assumes "0 < unat sz" and "unat sz \<le> 2 ^ 63"
  shows "\<exists>m \<le> 63. roundUp2Power sz = Some (2 ^ m) \<and> unat sz \<le> 2 ^ m \<and>
           (m = 0 \<or> 2 ^ (m - 1) < unat sz)"
  using roundUp2Power_loop_returns [of 0 sz] assms by (auto simp: roundUp2Power_def)

lemma roundUp2Power_None: "roundUp2Power sz = None \<longleftrightarrow> 2 ^ 63 < unat sz"
proof
  assume n: "roundUp2Power sz = None"
  then have "sz \<noteq> 0" by (auto simp: roundUp2Power_def)
  then have "0 < unat sz" by (simp add: unat_gt_0)
  show "2 ^ 63 < unat sz"
  proof (rule ccontr)
    assume "\<not> ?thesis"
    with roundUp2Power_returns [of sz] \<open>0 < unat sz\<close> n show False by auto
  qed
next
  assume big: "2 ^ 63 < unat sz"
  show "roundUp2Power sz = None"
  proof (cases "roundUp2Power sz")
    case (Some r)
    with big have "roundUp2Power_loop sz 1 = Some r"
      by (auto simp: roundUp2Power_def split: if_splits)
    from roundUp2Power_loop_result [OF this] obtain j where "sz \<le> 2 ^ j" by auto
    then have "unat sz \<le> 2 ^ 63" using unat_pow2_le [of j] by (simp add: word_le_nat_alt)
    with big show ?thesis by simp
  qed
qed
lemma unat_MaxBufferSize [simp]: "unat MaxBufferSize = 2 ^ 63 - 1"
  by (simp add: MaxBufferSize_def unat_div)

lemma unat_DefaultSize [simp]: "unat DefaultSize = 128"
  by (simp add: DefaultSize_def)

lemma unat_free_space:
  fixes cap wp rp :: u64
  assumes "rp \<le> wp" and "wp \<le> cap"
  shows "unat (cap - wp + rp) = unat cap - (unat wp - unat rp)"
proof -
  have "unat (cap - wp) + unat rp < 2 ^ 64"
    using assms unsigned_less [of cap, where 'a = nat] by (simp add: word_nat)
  with assms show ?thesis by (simp add: unat_add_less unat_sub_le) (simp add: word_nat)
qed

lemma Buffer_growCapacity_returns:
  fixes needsize rp wp cap :: u64
  assumes "rp \<le> wp" and "unat needsize + (unat wp - unat rp) \<le> 2 ^ 63"
    and "wp \<le> cap" and "unat cap \<le> 2 ^ 63"
  shows "\<exists>cap'. Buffer_growCapacity needsize rp wp cap = Some (Inr cap') \<and> cap \<le> cap' \<and>
           unat cap' \<le> 2 ^ 63 \<and> unat needsize + (unat wp - unat rp) \<le> unat cap'"
  using assms(3,4)
proof (induction "2 ^ 64 - unat cap" arbitrary: cap rule: less_induct)
  case less
  note unfold = Buffer_growCapacity.simps [of needsize rp wp cap]
  have step: "\<exists>c. Buffer_growCapacity needsize rp wp cap' = Some (Inr c) \<and> cap \<le> c \<and>
           unat c \<le> 2 ^ 63 \<and> unat needsize + (unat wp - unat rp) \<le> unat c"
    if "cap < cap'" "unat cap' \<le> 2 ^ 63" for cap'
    using less.hyps [of cap'] less.prems that by (fastforce simp: word_nat)
  show ?case
  proof (cases "cap - wp + rp < needsize")
    case False
    then have "unat needsize + (unat wp - unat rp) \<le> unat cap"
      using unat_free_space [OF assms(1) less.prems(1)] less.prems assms(1) by (simp add: word_nat)
    with False less.prems show ?thesis by (simp add: unfold)
  next
    case True
    then have short: "unat cap < unat needsize + (unat wp - unat rp)"
      using unat_free_space [OF assms(1) less.prems(1)] by (simp add: word_nat)
    show ?thesis
    proof (cases "cap < DefaultSize")
      case small: True
      with True step [of DefaultSize] show ?thesis by (simp add: unfold)
    next
      case False
      then have pos: "0 < unat cap" by (simp add: word_nat)
      have cap_max: "cap \<le> MaxBufferSize" using short assms(2) by (simp add: word_nat)
      obtain m where m: "m \<le> 63" "roundUp2Power cap = Some (2 ^ m)" "unat cap \<le> 2 ^ m"
        using roundUp2Power_returns [OF pos less.prems(2)] by auto
      show ?thesis
      proof (cases "cap < 2 ^ m")
        case lt: True
        have "unat ((2::u64) ^ m) \<le> 2 ^ 63" by (rule unat_pow2_le)
        with lt True False cap_max m(2) step [of "2 ^ m"] show ?thesis by (simp add: unfold)
      next
        case ge: False
        then have cap_eq: "unat cap = 2 ^ m" using m by (simp add: word_nat)
        then have "(2::nat) ^ m < 2 ^ 63" using cap_max by (simp add: word_nat)
        then have m62: "Suc m < 64" using power_less_imp_less_exp [of "2::nat" m 63] by simp
        have dbl: "push_bit 1 ((2::u64) ^ m) = 2 ^ Suc m" by (simp add: push_bit_eq_mult mult.commute)
        have "cap < 2 ^ Suc m" using m62 cap_eq by (simp add: word_less_nat_alt unat_pow2 del: power_Suc)
        moreover have "unat ((2::u64) ^ Suc m) \<le> 2 ^ 63" by (rule unat_pow2_le)
        ultimately show ?thesis using True False cap_max m(2) ge step [of "2 ^ Suc m"] dbl
          by (simp add: unfold mult.commute)
      qed
    qed
  qed
qed
section \<open>Abstraction and invariant\<close>

definition Buffer_cells :: "Buffer \<Rightarrow> char block" where
  "Buffer_cells b = (case buffer b of None \<Rightarrow> [] | Some c \<Rightarrow> c)"

definition Buffer_window :: "Buffer \<Rightarrow> char block" where
  "Buffer_window b = take (unat (writePos b) - unat (readPos b)) (drop (unat (readPos b)) (Buffer_cells b))"

definition Buffer_contents :: "Buffer \<Rightarrow> char list" where
  "Buffer_contents b = map the (Buffer_window b)"

definition Buffer_inv :: "Buffer \<Rightarrow> bool" where
  "Buffer_inv b \<longleftrightarrow>
     readPos b \<le> writePos b \<and> writePos b \<le> capacity b \<and> unat (capacity b) \<le> 2 ^ 63 \<and>
     length (Buffer_cells b) = unat (capacity b) \<and>
     (buffer b = None \<longleftrightarrow> capacity b = 0) \<and>
     None \<notin> set (Buffer_window b)"

lemma Buffer_new_inv [simp]: "Buffer_inv Buffer_new" "Buffer_contents Buffer_new = []"
  by (simp_all add: Buffer_inv_def Buffer_new_def Buffer_cells_def Buffer_window_def Buffer_contents_def)

lemma length_Buffer_window:
  "Buffer_inv b \<Longrightarrow> length (Buffer_window b) = unat (writePos b) - unat (readPos b)"
  by (auto simp: Buffer_inv_def Buffer_window_def word_nat)

lemma unat_readableSize:
  "Buffer_inv b \<Longrightarrow> unat (Buffer_readableSize b) = length (Buffer_contents b)"
  by (simp add: Buffer_contents_def length_Buffer_window Buffer_readableSize_def)
     (simp add: Buffer_inv_def word_nat)

lemma unat_writableSize:
  "Buffer_inv b \<Longrightarrow> unat (Buffer_writableSize b) = unat (capacity b) - unat (writePos b)"
  by (simp add: Buffer_writableSize_def Buffer_inv_def word_nat)

lemma length_contents_pos:
  "Buffer_inv b \<Longrightarrow> length (Buffer_contents b) = unat (writePos b) - unat (readPos b)"
  by (simp add: Buffer_contents_def length_Buffer_window)

lemma Buffer_empty_iff: "Buffer_inv b \<Longrightarrow> Buffer_empty b \<longleftrightarrow> Buffer_contents b = []"
  using unat_readableSize [of b] by (auto simp: Buffer_empty_def unat_eq_zero)

lemma Buffer_window_contents:
  "Buffer_inv b \<Longrightarrow> Buffer_window b = map Some (Buffer_contents b)"
  by (simp add: Buffer_contents_def Buffer_inv_def Some_the_map del: map_map)

lemma Buffer_read_prefix:
  assumes "Buffer_inv b" and "capacity b \<noteq> 0" and "n \<le> length (Buffer_contents b)"
  shows "mem_read (buffer b) (unat (readPos b)) n = Inr (map Some (take n (Buffer_contents b)))"
proof -
  obtain c where c: "buffer b = Some c" using assms by (auto simp: Buffer_inv_def)
  then have w: "Buffer_window b = take (unat (writePos b) - unat (readPos b)) (drop (unat (readPos b)) c)"
    by (simp add: Buffer_window_def Buffer_cells_def)
  have n: "n \<le> unat (writePos b) - unat (readPos b)"
    using assms length_contents_pos by simp
  have "map Some (take n (Buffer_contents b)) = take n (Buffer_window b)"
    using assms(1) by (simp add: Buffer_window_contents take_map)
  also have "\<dots> = take n (drop (unat (readPos b)) c)"
    using n by (simp add: w min_def)
  finally have "map Some (take n (Buffer_contents b)) = take n (drop (unat (readPos b)) c)" .
  moreover have "unat (readPos b) + n \<le> length c"
    using assms n c by (auto simp: Buffer_inv_def Buffer_cells_def word_nat)
  ultimately show ?thesis by (simp add: mem_read_def c)
qed

lemma Buffer_compact:
  assumes "Buffer_inv b" and "length c = unat cap" and "unat cap \<le> 2 ^ 63" and "cap \<noteq> 0"
    and "length (Buffer_contents b) \<le> unat cap"
    and "take (length (Buffer_contents b)) c = map Some (Buffer_contents b)"
  defines "b' \<equiv> (Buffer_resetBuffer (Some c) b)
    \<lparr>capacity := cap, readPos := 0, writePos := Buffer_readableSize b\<rparr>"
  shows "Buffer_inv b' \<and> Buffer_contents b' = Buffer_contents b \<and>
         unat (Buffer_writableSize b') = unat cap - length (Buffer_contents b)"
proof -
  have r: "unat (Buffer_readableSize b) = length (Buffer_contents b)"
    by (rule unat_readableSize [OF assms(1)])
  have w: "Buffer_window b' = map Some (Buffer_contents b)"
    using assms(6) by (simp add: b'_def Buffer_window_def Buffer_cells_def Buffer_resetBuffer_def r)
  have inv: "Buffer_inv b'"
    using assms(2-5) r w
    by (simp add: Buffer_inv_def) (simp add: b'_def Buffer_resetBuffer_def Buffer_cells_def word_nat)
  moreover have "unat (Buffer_writableSize b') = unat cap - length (Buffer_contents b)"
    using unat_writableSize [OF inv] by (simp add: b'_def r)
  ultimately show ?thesis by (simp add: Buffer_contents_def w)
qed

lemma Buffer_assureSpace_ok:
  assumes inv: "Buffer_inv b" and need: "unat needsize + length (Buffer_contents b) \<le> 2 ^ 63"
  shows "\<exists>b'. Buffer_assureSpace needsize b = Inr b' \<and> Buffer_inv b' \<and>
           Buffer_contents b' = Buffer_contents b \<and> needsize \<le> Buffer_writableSize b'"
proof (cases "needsize \<le> Buffer_writableSize b")
  case True
  with inv show ?thesis by (simp add: Buffer_assureSpace_def)
next
  case False
  let ?n = "length (Buffer_contents b)"
  have len: "?n = unat (writePos b) - unat (readPos b)" by (rule length_contents_pos [OF inv])
  obtain cap where cap: "Buffer_growCapacity needsize (readPos b) (writePos b) (capacity b) = Some (Inr cap)"
    "capacity b \<le> cap" "unat cap \<le> 2 ^ 63" "unat needsize + ?n \<le> unat cap"
    using Buffer_growCapacity_returns [of "readPos b" "writePos b" needsize "capacity b"] inv need len
    by (auto simp: Buffer_inv_def)
  have nz: "cap \<noteq> 0" using False cap by (auto simp: word_nat)
  have rz: "Buffer_readableSize b = 0 \<longleftrightarrow> Buffer_contents b = []"
    using Buffer_empty_iff [OF inv] by (simp add: Buffer_empty_def)
  have fits: "unat needsize \<le> unat cap - ?n" "?n \<le> unat cap" using cap(4) by simp_all
  note r = unat_readableSize [OF inv]
  show ?thesis
  proof (cases "capacity b < cap")
    case grow: True
    define c where "c = map Some (Buffer_contents b) @ drop ?n (new_block (unat cap))"
    have mem: "(if Buffer_readableSize b \<noteq> 0 then
         bindE (mem_read (buffer b) (unat (readPos b)) (unat (Buffer_readableSize b))) (\<lambda>cells.
         mem_write (Some (new_block (unat cap))) 0 cells)
       else Inr (Some (new_block (unat cap)))) = Inr (Some c)"
    proof (cases "Buffer_contents b = []")
      case True
      then show ?thesis by (simp add: rz c_def)
    next
      case False
      then have "capacity b \<noteq> 0" using inv len by (auto simp: Buffer_inv_def word_nat)
      with False inv cap(4) show ?thesis
        by (simp add: rz r Buffer_read_prefix mem_write_def c_def)
    qed
    have lc: "length c = unat cap" using cap(4) by (simp add: c_def)
    show ?thesis using False cap(1) fits grow mem Buffer_compact [OF inv lc cap(3) nz]
      by (simp add: Buffer_assureSpace_def Let_def word_le_nat_alt) (simp add: c_def)
  next
    case same: False
    then have ceq: "cap = capacity b" using cap(2) by simp
    obtain m where m: "buffer b = Some m" "length m = unat cap"
      using inv nz ceq by (auto simp: Buffer_inv_def Buffer_cells_def)
    define c where "c = map Some (Buffer_contents b) @ drop ?n m"
    have rp: "0 < readPos b"
      using False cap(4) unat_writableSize [OF inv] inv len ceq
      by (auto simp: Buffer_inv_def word_nat)
    have mem: "bindE (mem_read (buffer b) (unat (readPos b)) (unat (Buffer_readableSize b))) (\<lambda>cells.
       mem_write (buffer b) 0 cells) = Inr (Some c)"
      using fits Buffer_read_prefix [OF inv, of ?n] nz ceq m by (simp add: r mem_write_def c_def)
    have lc: "length c = unat cap" using cap(4) m by (simp add: c_def)
    show ?thesis using False cap(1) fits same mem rp ceq Buffer_compact [OF inv lc cap(3) nz]
      by (simp add: Buffer_assureSpace_def Let_def word_le_nat_alt) (simp add: c_def)
  qed
qed
section \<open>The operations on the abstraction\<close>

lemma length_contents_le: "Buffer_inv b \<Longrightarrow> length (Buffer_contents b) \<le> 2 ^ 63"
  using length_contents_pos [of b] by (simp add: Buffer_inv_def word_nat) linarith

lemma capacity_nonzero: "Buffer_inv b \<Longrightarrow> Buffer_contents b \<noteq> [] \<Longrightarrow> capacity b \<noteq> 0"
  using length_contents_pos [of b] by (auto simp: Buffer_inv_def word_nat)

lemma Buffer_append:
  assumes inv: "Buffer_inv b" and n: "sz \<le> Buffer_writableSize b" and d: "length d = unat sz" and nz: "0 < unat sz"
  shows "\<exists>mem. mem_write (buffer b) (unat (writePos b)) (map Some d) = Inr mem \<and>
           Buffer_inv (Buffer_produce sz (b\<lparr>buffer := mem\<rparr>)) \<and>
           Buffer_contents (Buffer_produce sz (b\<lparr>buffer := mem\<rparr>)) = Buffer_contents b @ d"
proof -
  have room: "unat (writePos b) + unat sz \<le> unat (capacity b)"
    using n inv unat_writableSize [OF inv] by (auto simp: word_nat Buffer_inv_def)
  then have nz': "capacity b \<noteq> 0" using nz by auto
  then obtain c where c: "buffer b = Some c" "length c = unat (capacity b)"
    using inv by (auto simp: Buffer_inv_def Buffer_cells_def)
  let ?c = "take (unat (writePos b)) c @ map Some d @ drop (unat (writePos b) + unat sz) c"
  let ?b = "Buffer_produce sz (b\<lparr>buffer := Some ?c\<rparr>)"
  have mem: "mem_write (buffer b) (unat (writePos b)) (map Some d) = Inr (Some ?c)"
    using room c d by (simp add: mem_write_def)
  have cap: "unat (capacity b) \<le> 2 ^ 63" using inv by (simp add: Buffer_inv_def)
  have wp: "unat (writePos b + sz) = unat (writePos b) + unat sz"
    using room cap by (intro unat_add_less) simp
  have le: "unat (readPos b) \<le> unat (writePos b)" using inv by (simp add: Buffer_inv_def word_nat)
  have "Buffer_window ?b = Buffer_window b @ map Some d"
    using drop_take_write [OF le, of "map Some d" c] room c d le
    by (simp add: Buffer_window_def Buffer_cells_def Buffer_produce_def wp)
  moreover from this have "Buffer_inv ?b"
    using inv room c d le nz' wp
    by (simp add: Buffer_inv_def) (simp add: Buffer_produce_def Buffer_cells_def word_nat)
  ultimately show ?thesis using mem by (simp add: Buffer_contents_def)
qed

lemma Buffer_pushData_ok:
  assumes inv: "Buffer_inv b" and nz: "sz \<noteq> 0" and d: "unat sz \<le> length d"
    and fits: "length (Buffer_contents b) + unat sz < 2 ^ 63 - 1"
  shows "\<exists>b'. Buffer_pushData (Some d) sz b = Inr (sz, b') \<and> Buffer_inv b' \<and>
           Buffer_contents b' = Buffer_contents b @ take (unat sz) d"
proof -
  have "unat (Buffer_readableSize b + sz) = length (Buffer_contents b) + unat sz"
    using unat_readableSize [OF inv] fits by (subst unat_add_less) simp_all
  then have guard: "\<not> MaxBufferSize \<le> Buffer_readableSize b + sz"
    using fits by (simp add: word_le_nat_alt)
  obtain b1 where b1: "Buffer_assureSpace sz b = Inr b1" "Buffer_inv b1"
    "Buffer_contents b1 = Buffer_contents b" "sz \<le> Buffer_writableSize b1"
    using Buffer_assureSpace_ok [OF inv, of sz] fits by auto
  have rd: "mem_read (Some (map Some d)) 0 (unat sz) = Inr (map Some (take (unat sz) d))"
    using d by (simp add: mem_read_def take_map)
  have "0 < unat sz" using nz by (simp add: unat_gt_0)
  with Buffer_append [OF b1(2,4), of "take (unat sz) d"] d b1 rd guard nz show ?thesis
    by (auto simp: Buffer_pushData_def)
qed

lemma Buffer_pushData_full:
  assumes inv: "Buffer_inv b" and full: "2 ^ 63 - 1 \<le> length (Buffer_contents b) + length d"
    and sz: "length d < 2 ^ 63" "sz = of_nat (length d)"
  shows "Buffer_pushData (Some d) sz b = Inr (0, b)"
proof -
  have "unat sz = length d" using sz by (simp add: unat_of_nat_small)
  moreover have "length (Buffer_contents b) \<le> 2 ^ 63" by (rule length_contents_le [OF inv])
  ultimately have "unat (Buffer_readableSize b + sz) = length (Buffer_contents b) + length d"
    using unat_readableSize [OF inv] sz(1) by (subst unat_add_less) simp_all
  then have "MaxBufferSize \<le> Buffer_readableSize b + sz" using full by (simp add: word_le_nat_alt)
  then show ?thesis by (simp add: Buffer_pushData_def)
qed

lemma Buffer_consume_ok:
  assumes inv: "Buffer_inv b" and n: "unat n \<le> length (Buffer_contents b)"
  shows "\<exists>b'. Buffer_consume n b = Inr b' \<and> Buffer_inv b' \<and>
           Buffer_contents b' = drop (unat n) (Buffer_contents b) \<and> capacity b' = capacity b"
proof -
  have len: "length (Buffer_contents b) = unat (writePos b) - unat (readPos b)"
    by (rule length_contents_pos [OF inv])
  have le: "unat (readPos b) \<le> unat (writePos b)" using inv by (simp add: Buffer_inv_def word_nat)
  have wpm: "unat (writePos b) < 2 ^ 64" using unsigned_less [of "writePos b", where 'a = nat] by simp
  have rp: "unat (readPos b + n) = unat (readPos b) + unat n"
    using n len le wpm by (subst unat_add_less) simp_all
  let ?b = "b\<lparr>readPos := readPos b + n\<rparr>"
  have w: "Buffer_window ?b = drop (unat n) (Buffer_window b)"
    by (simp add: Buffer_window_def Buffer_cells_def rp drop_take) (simp add: add.commute)
  have inv1: "Buffer_inv ?b"
    using inv n len le w by (simp add: Buffer_inv_def Buffer_cells_def) (auto simp: word_nat rp dest: in_set_dropD)
  have c1: "Buffer_contents ?b = drop (unat n) (Buffer_contents b)"
    by (simp add: Buffer_contents_def w drop_map)
  have guard: "readPos b + n \<le> writePos b" using n len le by (simp add: word_nat rp)
  show ?thesis
  proof (cases "Buffer_empty ?b")
    case True
    then have nil: "drop (unat n) (Buffer_contents b) = []" using Buffer_empty_iff [OF inv1] c1 by simp
    have "Buffer_inv (Buffer_clear ?b)"
      using inv by (auto simp: Buffer_inv_def Buffer_clear_def Buffer_cells_def Buffer_window_def)
    moreover have "Buffer_contents (Buffer_clear ?b) = []"
      by (simp add: Buffer_contents_def Buffer_window_def Buffer_clear_def)
    ultimately show ?thesis using True guard nil
      by (simp add: Buffer_consume_def Let_def) (simp add: Buffer_clear_def)
  next
    case False
    with guard inv1 c1 show ?thesis by (simp add: Buffer_consume_def Let_def)
  qed
qed

lemma Buffer_consume_too_much:
  assumes inv: "Buffer_inv b" and n: "length (Buffer_contents b) < unat n" and small: "unat n < 2 ^ 63"
  shows "Buffer_consume n b = Inl AssertFailed"
proof -
  have "unat (readPos b) \<le> 2 ^ 63" "unat (readPos b) \<le> unat (writePos b)"
    using inv by (auto simp: Buffer_inv_def word_nat)
  then have "unat (readPos b + n) = unat (readPos b) + unat n"
    using small by (subst unat_add_less) simp_all
  then have "\<not> readPos b + n \<le> writePos b"
    using n length_contents_pos [OF inv] by (simp add: word_nat)
  then show ?thesis by (simp add: Buffer_consume_def)
qed

lemma Buffer_popData_ok:
  assumes inv: "Buffer_inv b" and sz: "unat sz \<le> length buf"
  shows "\<exists>b'. Buffer_popData (Some buf) sz b =
             Inr (of_nat (min (unat sz) (length (Buffer_contents b))),
                  Some (map Some (take (unat sz) (Buffer_contents b)) @
                          drop (min (unat sz) (length (Buffer_contents b))) buf), b') \<and>
           Buffer_inv b' \<and> Buffer_contents b' = drop (unat sz) (Buffer_contents b)"
proof (cases "sz = 0 \<or> Buffer_contents b = []")
  case True
  then show ?thesis using inv Buffer_empty_iff [OF inv]
    by (auto simp: Buffer_popData_def Buffer_empty_def Let_def)
next
  case False
  let ?n = "if Buffer_readableSize b < sz then Buffer_readableSize b else sz"
  have r: "unat (Buffer_readableSize b) = length (Buffer_contents b)" by (rule unat_readableSize [OF inv])
  then have n: "unat ?n = min (unat sz) (length (Buffer_contents b))" by (simp add: word_nat min_def)
  have "of_nat (unat ?n) = ?n" by (simp only: of_nat_unat ucast_id)
  then have n2: "?n = of_nat (min (unat sz) (length (Buffer_contents b)))" by (simp only: n)
  have nz: "Buffer_readableSize b \<noteq> 0" using False Buffer_empty_iff [OF inv] by (simp add: Buffer_empty_def)
  have cap: "capacity b \<noteq> 0" using False capacity_nonzero [OF inv] by auto
  have rd: "mem_read (buffer b) (unat (readPos b)) (unat ?n) = Inr (map Some (take (unat sz) (Buffer_contents b)))"
    using Buffer_read_prefix [OF inv cap, of "unat ?n"] n by (simp add: min_def)
  have wr: "mem_write (Some buf) 0 (map Some (take (unat sz) (Buffer_contents b))) =
     Inr (Some (map Some (take (unat sz) (Buffer_contents b)) @ drop (min (unat sz) (length (Buffer_contents b))) buf))"
    using sz by (simp add: mem_write_def min.commute) 
  obtain b' where "Buffer_consume ?n b = Inr b'" "Buffer_inv b'"
      "Buffer_contents b' = drop (unat sz) (Buffer_contents b)"
    using Buffer_consume_ok [OF inv, of ?n] n by (auto simp: min_def split: if_splits)
  then show ?thesis using False nz rd wr n2 by (simp add: Buffer_popData_def Let_def)
qed

lemma Buffer_shrink_ok:
  assumes inv: "Buffer_inv b"
  shows "\<exists>b'. Buffer_shrink b = Inr b' \<and> Buffer_inv b' \<and> Buffer_contents b' = Buffer_contents b"
proof -
  let ?n = "length (Buffer_contents b)"
  have r: "unat (Buffer_readableSize b) = ?n" by (rule unat_readableSize [OF inv])
  consider (empty) "Buffer_contents b = []"
    | (keep) "Buffer_contents b \<noteq> []" "Buffer_shrink b = Inr b"
    | (compact) "Buffer_contents b \<noteq> []" "Buffer_shrink b \<noteq> Inr b" by blast
  then show ?thesis
  proof cases
    case empty
    have "Buffer_inv (Buffer_resetBuffer None (Buffer_clear b\<lparr>capacity := 0\<rparr>))"
      and "Buffer_contents (Buffer_resetBuffer None (Buffer_clear b\<lparr>capacity := 0\<rparr>)) = []"
      by (simp_all add: Buffer_inv_def Buffer_resetBuffer_def Buffer_clear_def Buffer_cells_def
            Buffer_window_def Buffer_contents_def)
    then show ?thesis using empty Buffer_empty_iff [OF inv] by (simp add: Buffer_shrink_def)
  next
    case keep
    then show ?thesis using inv by simp
  next
    case compact
    have n: "0 < ?n" "?n \<le> 2 ^ 63"
      using compact length_contents_le [OF inv] by auto
    obtain m where m: "m \<le> 63" "roundUp2Power (Buffer_readableSize b) = Some (2 ^ m)" "?n \<le> 2 ^ m"
      using roundUp2Power_returns [of "Buffer_readableSize b"] n r by auto
    have um: "unat ((2::u64) ^ m) = 2 ^ m" using m(1) by (intro unat_pow2) simp
    have cap: "capacity b \<noteq> 0" using n capacity_nonzero [OF inv] by auto
    define c where "c = map Some (Buffer_contents b) @ drop ?n (new_block (2 ^ m))"
    have "mem_read (buffer b) (unat (readPos b)) ?n = Inr (map Some (Buffer_contents b))"
      using Buffer_read_prefix [OF inv cap, of ?n] by simp
    moreover have "mem_write (Some (new_block (2 ^ m))) 0 (map Some (Buffer_contents b)) = Inr (Some c)"
      using m(3) by (simp add: mem_write_def c_def)
    ultimately have "Buffer_shrink b = Inr ((Buffer_resetBuffer (Some c) b)
        \<lparr>capacity := 2 ^ m, readPos := 0, writePos := Buffer_readableSize b\<rparr>)"
      using compact m(2) r um Buffer_empty_iff [OF inv]
      by (auto simp: Buffer_shrink_def Let_def split: if_splits)
    then show ?thesis
      using Buffer_compact [OF inv, of c "2 ^ m"] um m(1,3) unat_pow2_le [of m] by (simp add: c_def)
  qed
qed

lemma Buffer_peek_ok:
  assumes "Buffer_inv b" and "Buffer_contents b \<noteq> []" and "n \<le> length (Buffer_contents b)"
  shows "Buffer_peek n b = Inr (take n (Buffer_contents b))"
  using assms Buffer_read_prefix [of b n] capacity_nonzero [of b] by (simp add: Buffer_peek_def)

section \<open>The interface: a bounded stream of bytes\<close>

text \<open>
  What the users of the buffer rely on: pushing appends while the total stays below the limit,
  peeking reads a prefix, consuming drops one.
\<close>

locale byte_stream =
  fixes invar :: "'b \<Rightarrow> bool"
    and contents :: "'b \<Rightarrow> 'c list"
    and push :: "'c list \<Rightarrow> 'b \<Rightarrow> 'b result"
    and peek :: "nat \<Rightarrow> 'b \<Rightarrow> 'c list result"
    and consume :: "nat \<Rightarrow> 'b \<Rightarrow> 'b result"
    and limit :: nat
  assumes push_law: "invar b \<Longrightarrow> xs \<noteq> [] \<Longrightarrow> length (contents b) + length xs < limit \<Longrightarrow>
      \<exists>b'. push xs b = Inr b' \<and> invar b' \<and> contents b' = contents b @ xs"
    and peek_law: "invar b \<Longrightarrow> contents b \<noteq> [] \<Longrightarrow> n \<le> length (contents b) \<Longrightarrow>
      peek n b = Inr (take n (contents b))"
    and consume_law: "invar b \<Longrightarrow> n \<le> length (contents b) \<Longrightarrow> n < limit \<Longrightarrow>
      \<exists>b'. consume n b = Inr b' \<and> invar b' \<and> contents b' = drop n (contents b)"
begin

lemma push_chunks:
  assumes "invar b" and "\<And>xs. xs \<in> set xss \<Longrightarrow> xs \<noteq> []"
    and "length (contents b) + length (concat xss) < limit"
  shows "\<exists>b'. fold_result push xss b = Inr b' \<and> invar b' \<and> contents b' = contents b @ concat xss"
  using assms
proof (induction xss arbitrary: b)
  case Nil
  then show ?case by simp
next
  case (Cons xs xss)
  then obtain b1 where b1: "push xs b = Inr b1" "invar b1" "contents b1 = contents b @ xs"
    using push_law [of b xs] by auto
  with Cons.IH [of b1] Cons.prems show ?case by auto
qed

lemma peek_consume:
  assumes "invar b" and "contents b = xs @ ys" and "contents b \<noteq> []" and "length xs < limit"
  shows "\<exists>b'. peek (length xs) b = Inr xs \<and> consume (length xs) b = Inr b' \<and> invar b' \<and> contents b' = ys"
  using assms peek_law [of b "length xs"] consume_law [of b "length xs"] by auto

lemma push_peek:
  assumes "invar b" and "contents b = []" and "xs \<noteq> []" and "length xs < limit"
  shows "\<exists>b' b''. push xs b = Inr b' \<and> peek (length xs) b' = Inr xs \<and>
           consume (length xs) b' = Inr b'' \<and> invar b'' \<and> contents b'' = []"
  using push_law [of b xs] peek_consume [of _ xs "[]"] assms by fastforce

end

text \<open>
  The calls the clients make: \<open>pushData\<close> with the length of the data and its result ignored,
  \<open>consume\<close> with a count.
\<close>

definition Buffer_push :: "char list \<Rightarrow> Buffer \<Rightarrow> Buffer result" where
  "Buffer_push xs b = bindE (Buffer_pushData (Some xs) (of_nat (length xs)) b) (\<lambda>(_, b'). Inr b')"

definition Buffer_drop :: "nat \<Rightarrow> Buffer \<Rightarrow> Buffer result" where
  "Buffer_drop n b = Buffer_consume (of_nat n) b"

definition Buffer_limit :: nat where
  "Buffer_limit = 2 ^ 63 - 1"

interpretation bstream: byte_stream Buffer_inv Buffer_contents Buffer_push Buffer_peek Buffer_drop Buffer_limit
proof unfold_locales
  fix b :: Buffer and xs :: "char list"
  assume inv: "Buffer_inv b" and ne: "xs \<noteq> []" and lim: "length (Buffer_contents b) + length xs < Buffer_limit"
  have u: "unat (of_nat (length xs) :: u64) = length xs"
    using lim by (intro unat_of_nat_small) (simp add: Buffer_limit_def)
  then have "(of_nat (length xs) :: u64) \<noteq> 0" using ne by (metis length_0_conv unat_0)
  with Buffer_pushData_ok [OF inv this, of xs] u lim
  show "\<exists>b'. Buffer_push xs b = Inr b' \<and> Buffer_inv b' \<and> Buffer_contents b' = Buffer_contents b @ xs"
    by (auto simp: Buffer_push_def Buffer_limit_def)
next
  fix b :: Buffer and n :: nat
  assume "Buffer_inv b" "Buffer_contents b \<noteq> []" "n \<le> length (Buffer_contents b)"
  then show "Buffer_peek n b = Inr (take n (Buffer_contents b))" by (rule Buffer_peek_ok)
next
  fix b :: Buffer and n :: nat
  assume inv: "Buffer_inv b" and n: "n \<le> length (Buffer_contents b)" "n < Buffer_limit"
  have u: "unat (of_nat n :: u64) = n" using n(2) by (intro unat_of_nat_small) (simp add: Buffer_limit_def)
  from Buffer_consume_ok [OF inv, of "of_nat n"] u n(1)
  show "\<exists>b'. Buffer_drop n b = Inr b' \<and> Buffer_inv b' \<and> Buffer_contents b' = drop n (Buffer_contents b)"
    by (auto simp: Buffer_drop_def)
qed

section \<open>Properties\<close>

text \<open>C25. \<open>roundUp2Power\<close> never returns above \<open>2^63\<close> (the shifted bit leaves the word and the
  loop spins on 0); at or below it, it returns, and the result is the least power of two that is
  not below the argument.\<close>

theorem roundUp2Power_spec:
  "(if 2 ^ 63 < unat sz then roundUp2Power sz = None
    else if sz = 0 then roundUp2Power sz = Some 0
    else \<exists>m \<le> 63. roundUp2Power sz = Some (2 ^ m) \<and> unat sz \<le> 2 ^ m \<and>
           (\<forall>k. unat sz \<le> 2 ^ k \<longrightarrow> m \<le> k))"
proof -
  have least: "m \<le> k" if "m = 0 \<or> 2 ^ (m - 1) < unat sz" "unat sz \<le> 2 ^ k" for m k
  proof (rule ccontr)
    assume "\<not> m \<le> k"
    then have "k \<le> m - 1" "m \<noteq> 0" by auto
    with that have "(2::nat) ^ (m - 1) < 2 ^ k" by linarith
    then have "m - 1 < k" by simp
    with \<open>k \<le> m - 1\<close> show False by simp
  qed
  show ?thesis
  proof (cases "2 ^ 63 < unat sz \<or> sz = 0")
    case True
    then show ?thesis using roundUp2Power_None [of sz] by (auto simp: roundUp2Power_def)
  next
    case False
    then have "0 < unat sz" by (simp add: unat_gt_0)
    with False roundUp2Power_returns [of sz] least show ?thesis by auto
  qed
qed

theorem roundUp2Power_spec_witness:
  "\<exists>m. roundUp2Power 5 = Some (2 ^ m) \<and> 5 \<le> (2::nat) ^ m \<and> m \<le> 3"
  using roundUp2Power_spec [of 5] by (auto elim!: allE [where x = "3::nat"])

text \<open>\<open>pushData\<close> on a well-formed buffer whose total stays below \<open>MaxBufferSize\<close> returns the
  size, appends exactly the bytes given, whatever growing or compacting it takes, and keeps the
  buffer well formed: the growth loop ends and none of its assertions fails.\<close>

theorem Buffer_pushData_appends:
  assumes "Buffer_inv b" and "sz \<noteq> 0" and "unat sz \<le> length d"
    and "length (Buffer_contents b) + unat sz < 2 ^ 63 - 1"
  shows "\<exists>b'. Buffer_pushData (Some d) sz b = Inr (sz, b') \<and> Buffer_inv b' \<and>
           Buffer_contents b' = Buffer_contents b @ take (unat sz) d"
  using assms by (rule Buffer_pushData_ok)

theorem Buffer_pushData_appends_witness:
  "\<exists>b'. Buffer_pushData (Some ''abc'') 3 Buffer_new = Inr (3, b') \<and> Buffer_inv b' \<and>
         Buffer_contents b' = ''abc''"
  using Buffer_pushData_appends [of Buffer_new 3 "''abc''"] by simp

text \<open>\<open>popData\<close> copies out the first \<open>min size readable\<close> bytes, leaves the rest of the
  destination as it was, and removes exactly those bytes.\<close>

theorem Buffer_popData_takes:
  assumes "Buffer_inv b" and "unat sz \<le> length buf"
  shows "\<exists>b'. Buffer_popData (Some buf) sz b =
             Inr (of_nat (min (unat sz) (length (Buffer_contents b))),
                  Some (map Some (take (unat sz) (Buffer_contents b)) @
                          drop (min (unat sz) (length (Buffer_contents b))) buf), b') \<and>
           Buffer_inv b' \<and> Buffer_contents b' = drop (unat sz) (Buffer_contents b)"
  using assms by (rule Buffer_popData_ok)

theorem Buffer_popData_takes_witness:
  "\<exists>b'. Buffer_popData (Some [None, None]) 2 Buffer_new = Inr (0, Some [None, None], b') \<and>
         Buffer_inv b' \<and> Buffer_contents b' = []"
  using Buffer_popData_takes [of Buffer_new 2 "[None, None]"] by simp

text \<open>\<open>shrink\<close> never fails and never changes the unread bytes.\<close>

theorem Buffer_shrink_keeps:
  assumes "Buffer_inv b"
  shows "\<exists>b'. Buffer_shrink b = Inr b' \<and> Buffer_inv b' \<and> Buffer_contents b' = Buffer_contents b"
  using assms by (rule Buffer_shrink_ok)

theorem Buffer_shrink_keeps_witness:
  "\<exists>b'. Buffer_shrink Buffer_new = Inr b' \<and> Buffer_inv b' \<and> Buffer_contents b' = []"
  using Buffer_shrink_keeps [of Buffer_new] by simp

end
