(* ===== verification/Tarsx_Wire.thy ===== *)
theory Tarsx_Wire
  imports Tarsx_Prelude "HOL-Library.Sublist"
begin

unbundle bit_operations_syntax

text \<open>
  The request protocol: a frame is a 4-byte length in network order, a colon, and the body
  \<open>id:function:arguments\<close> (\<open>ObjectProxy.cc\<close> writes it, \<open>Connection.cc\<close> reads it,
  \<open>parseRequest\<close> in \<open>ServantProxy.h\<close> takes the body apart). The host is little-endian (x86-64):
  an integer is stored with its low byte first, and \<open>htonl\<close> reverses the bytes.
\<close>

section \<open>Bytes of an integer\<close>

definition byte_at :: "nat \<Rightarrow> u32 \<Rightarrow> char" where
  "byte_at i w = char_of (unat w div 256 ^ i mod 256)"

text \<open>\<open>*reinterpret_cast<int32_t*>(p) = w\<close> and \<open>*static_cast<const int32_t*>(p)\<close>.\<close>

definition store32 :: "u32 \<Rightarrow> char list" where
  "store32 w = [byte_at 0 w, byte_at 1 w, byte_at 2 w, byte_at 3 w]"

fun load32 :: "char list \<Rightarrow> u32" where
  "load32 [] = 0"
| "load32 (c # cs) = of_nat (of_char c) + 256 * load32 cs"

definition htonl :: "u32 \<Rightarrow> u32" where
  "htonl w = load32 (rev (store32 w))"

definition ntohl :: "u32 \<Rightarrow> u32" where
  "ntohl w = load32 (rev (store32 w))"

text \<open>The header of a message of \<open>n\<close> bytes, and the length a header announces.\<close>

definition header :: "nat \<Rightarrow> char list" where
  "header n = store32 (htonl (of_nat n))"

definition header_length :: "char list \<Rightarrow> i32" where
  "header_length cs = ntohl (load32 cs)"

subsection \<open>Round trips\<close>

fun horner :: "char list \<Rightarrow> nat" where
  "horner [] = 0"
| "horner (c # cs) = of_char c + 256 * horner cs"

lemma load32_horner: "load32 cs = of_nat (horner cs)"
  by (induction cs) auto

lemma of_char_bound: "(of_char c :: nat) < 256"
  using of_char_mod_256 [of c, where 'a = nat] mod_less_divisor [of 256 "of_char c :: nat"] by simp

lemma base256_bound:
  fixes a b c d :: nat
  shows "a < 256 \<Longrightarrow> b < 256 \<Longrightarrow> c < 256 \<Longrightarrow> d < 256 \<Longrightarrow>
     a + 256 * (b + 256 * (c + 256 * d)) < 4294967296"
  by simp

lemma base256_digits:
  fixes n :: nat
  assumes "n = 256 * q1 + r0" "q1 = 256 * q2 + r1" "q2 = 256 * q3 + r2"
  shows "r0 + 256 * (r1 + 256 * (r2 + 256 * q3)) = n"
  using assms by simp

lemma base256_div:
  fixes a x :: nat
  assumes "a < 256"
  shows "(a + 256 * x) div 256 = x" "(a + 256 * x) mod 256 = a"
  using assms by simp_all

lemma load_store32 [simp]: "load32 (store32 w) = w"
proof -
  define n where "n = unat w"
  have n: "n < 4294967296" using unsigned_less [of w, where 'a = nat] by (simp add: n_def)
  have "horner (store32 w) = n mod 256 + 256 * (n div 256 mod 256 + 256 * (n div 65536 mod 256 + 256 * (n div 16777216 mod 256)))"
    by (simp add: store32_def byte_at_def n_def [symmetric])
  also have "\<dots> = n"
  proof -
    have "n div 16777216 < 256" using n by (simp add: less_mult_imp_div_less)
    moreover have "n div 65536 = 256 * (n div 65536 div 256) + n div 65536 mod 256"
      "n div 256 = 256 * (n div 256 div 256) + n div 256 mod 256" "n = 256 * (n div 256) + n mod 256" by simp_all
    moreover have "n div 65536 div 256 = n div 16777216" "n div 256 div 256 = n div 65536"
      by (simp_all add: div_mult2_eq [symmetric])
    ultimately have "n mod 256 + 256 * (n div 256 mod 256 + 256 * (n div 65536 mod 256 + 256 * (n div 16777216))) = n"
      by (intro base256_digits) simp_all
    then show ?thesis using \<open>n div 16777216 < 256\<close> by simp
  qed
  finally show ?thesis by (simp add: load32_horner n_def)
qed

lemma store_load32:
  assumes "length bs = 4"
  shows "store32 (load32 bs) = bs"
proof -
  obtain a b c d where bs: "bs = [a, b, c, d]"
    using assms by (auto simp: numeral_eq_Suc length_Suc_conv)
  define n where "n = horner bs"
  have bound: "(of_char a :: nat) < 256" "(of_char b :: nat) < 256" "(of_char c :: nat) < 256" "(of_char d :: nat) < 256"
    by (rule of_char_bound)+
  have n: "n = of_char a + 256 * (of_char b + 256 * (of_char c + 256 * of_char d))"
    by (simp add: n_def bs)
  have u: "unat (load32 bs) = n"
  proof -
    have "n < 4294967296" unfolding n using bound by (rule base256_bound)
    then show ?thesis unfolding load32_horner n_def [symmetric] by (intro unat_of_nat_small) simp
  qed
  have d1: "n div 256 = of_char b + 256 * (of_char c + 256 * of_char d)" and m1: "n mod 256 = of_char a"
    unfolding n by (rule base256_div [OF bound(1)])+
  have d2: "n div 256 div 256 = of_char c + 256 * of_char d" and m2: "n div 256 mod 256 = of_char b"
    unfolding d1 by (rule base256_div [OF bound(2)])+
  have d3: "n div 256 div 256 div 256 = of_char d" and m3: "n div 256 div 256 mod 256 = of_char c"
    unfolding d2 by (rule base256_div [OF bound(3)])+
  have e: "n div 65536 = n div 256 div 256" "n div 16777216 = n div 256 div 256 div 256"
    by (simp_all add: div_mult2_eq [symmetric])
  have "store32 (load32 bs) = map char_of [n mod 256, n div 256 mod 256, n div 65536 mod 256, n div 16777216 mod 256]"
    by (simp add: store32_def byte_at_def u)
  also have "\<dots> = bs" unfolding e m1 m2 m3 d3 using bound bs by simp
  finally show ?thesis .
qed

lemma length_store32 [simp]: "length (store32 w) = 4"
  by (simp add: store32_def)

lemma ntohl_htonl [simp]: "ntohl (htonl w) = w"
  by (simp add: ntohl_def htonl_def store_load32)

lemma length_header [simp]: "length (header n) = 4"
  by (simp add: header_def)

lemma header_round_trip [simp]: "header_length (header n) = of_nat n"
  by (simp add: header_length_def header_def)

section \<open>Numbers as text\<close>

definition digit :: "nat \<Rightarrow> char" where
  "digit d = char_of (48 + d)"

definition is_digit :: "char \<Rightarrow> bool" where
  "is_digit c \<longleftrightarrow> 48 \<le> (of_char c :: nat) \<and> (of_char c :: nat) \<le> 57"

definition digit_value :: "char \<Rightarrow> int" where
  "digit_value c = int (of_char c) - 48"

text \<open>\<open>std::to_string\<close> of an integer.\<close>

fun digits :: "nat \<Rightarrow> string" where
  "digits n = (if n < 10 then [digit n] else digits (n div 10) @ [digit (n mod 10)])"

declare digits.simps [simp del]

definition to_string :: "int \<Rightarrow> string" where
  "to_string n = (if n < 0 then ''-'' @ digits (nat (- n)) else digits (nat n))"

text \<open>\<open>atoi\<close>: white space, a sign, digits up to the first other character.\<close>

fun atoi_digits :: "int \<Rightarrow> string \<Rightarrow> int" where
  "atoi_digits acc [] = acc"
| "atoi_digits acc (c # cs) = (if is_digit c then atoi_digits (10 * acc + digit_value c) cs else acc)"

definition is_space :: "char \<Rightarrow> bool" where
  "is_space c \<longleftrightarrow> c = CHR '' '' \<or> (9 \<le> (of_char c :: nat) \<and> (of_char c :: nat) \<le> 13)"

definition atoi :: "string \<Rightarrow> int" where
  "atoi s =
     (case dropWhile is_space s of
        [] \<Rightarrow> 0
      | c # cs \<Rightarrow>
          if c = CHR ''-'' then - atoi_digits 0 cs
          else if c = CHR ''+'' then atoi_digits 0 cs
          else atoi_digits 0 (c # cs))"

lemma digit_facts:
  assumes "d < 10"
  shows "(of_char (digit d) :: nat) = 48 + d" "is_digit (digit d)" "digit_value (digit d) = int d"
proof -
  show o: "(of_char (digit d) :: nat) = 48 + d" using assms by (simp add: digit_def)
  then show "is_digit (digit d)" using assms by (simp add: is_digit_def)
  from o show "digit_value (digit d) = int d" by (simp add: digit_value_def)
qed

lemma digits_all: "c \<in> set (digits n) \<Longrightarrow> is_digit c"
  by (induction n rule: digits.induct) (subst (asm) digits.simps, auto simp: digit_facts split: if_splits)

lemma digits_nonempty [simp]: "digits n \<noteq> []"
  by (subst digits.simps) simp

lemma is_digit_excludes:
  assumes "is_digit c"
  shows "c \<noteq> CHR '':''" "c \<noteq> CHR ''-''" "c \<noteq> CHR ''+''" "\<not> is_space c"
  using assms by (auto simp: is_digit_def is_space_def)

lemma atoi_digits_append:
  "(\<And>c. c \<in> set ds \<Longrightarrow> is_digit c) \<Longrightarrow> atoi_digits acc (ds @ rest) = atoi_digits (atoi_digits acc ds) rest"
  by (induction ds arbitrary: acc) auto

lemma atoi_digits_digits: "atoi_digits 0 (digits n) = int n"
proof (induction n rule: digits.induct)
  case (1 n)
  show ?case
  proof (cases "n < 10")
    case True
    then show ?thesis by (simp add: digits.simps [of n] digit_facts)
  next
    case False
    then have "atoi_digits 0 (digits n) = 10 * atoi_digits 0 (digits (n div 10)) + int (n mod 10)"
      by (simp add: digits.simps [of n] atoi_digits_append digits_all digit_facts)
    with 1 False have "atoi_digits 0 (digits n) = 10 * int (n div 10) + int (n mod 10)" by simp
    also have "\<dots> = int (10 * (n div 10) + n mod 10)" by (simp only: of_nat_add of_nat_mult of_nat_numeral)
    finally show ?thesis by simp
  qed
qed

lemma atoi_digits_stop:
  "rest = [] \<or> \<not> is_digit (hd rest) \<Longrightarrow> atoi_digits acc rest = acc"
  by (cases rest) auto

lemma atoi_to_string:
  assumes "rest = [] \<or> \<not> is_digit (hd rest)"
  shows "atoi (to_string n @ rest) = n"
proof -
  have d: "atoi_digits 0 (digits k @ rest) = int k" for k
    using atoi_digits_append [of "digits k" 0 rest] digits_all atoi_digits_stop [OF assms]
    by (simp add: atoi_digits_digits)
  obtain c cs where c: "digits (nat n) = c # cs" by (cases "digits (nat n)") auto
  then have "is_digit c" using digits_all [of c "nat n"] by simp
  note ex = is_digit_excludes [OF this]
  show ?thesis
  proof (cases "n < 0")
    case True
    then show ?thesis using d [of "nat (- n)"] by (simp add: to_string_def atoi_def is_space_def)
  next
    case False
    then show ?thesis using d [of "nat n"] c ex by (simp add: to_string_def atoi_def)
  qed
qed

lemma to_string_no_colon: "CHR '':'' \<notin> set (to_string n)"
proof -
  have "CHR '':'' \<notin> set (digits k)" for k using digits_all [of "CHR '':''" k] by (auto simp: is_digit_def)
  then show ?thesis by (simp add: to_string_def)
qed

section \<open>Requests\<close>

text \<open>\<open>find(":")\<close>, \<open>substr(0, pos)\<close> and \<open>substr(pos + 1)\<close>; \<open>None\<close> is \<open>npos\<close>, for which \<open>pos + 1\<close> is 0.\<close>

definition find_colon :: "string \<Rightarrow> nat option" where
  "find_colon s = (if CHR '':'' \<in> set s then Some (length (takeWhile (\<lambda>c. c \<noteq> CHR '':'') s)) else None)"

definition substr_before :: "nat option \<Rightarrow> string \<Rightarrow> string" where
  "substr_before pos s = (case pos of None \<Rightarrow> s | Some p \<Rightarrow> take p s)"

definition substr_after :: "nat option \<Rightarrow> string \<Rightarrow> string" where
  "substr_after pos s = (case pos of None \<Rightarrow> s | Some p \<Rightarrow> drop (Suc p) s)"

definition parseRequest :: "string \<Rightarrow> nat option \<times> string \<times> nat option \<times> string" where
  "parseRequest request =
     (let pos = find_colon request;
          requestBody = substr_after pos request;
          posMethod = find_colon requestBody;
          method = substr_before posMethod requestBody
      in (pos, requestBody, posMethod, method))"

lemma find_colon_split:
  assumes "CHR '':'' \<notin> set xs"
  shows "find_colon (xs @ CHR '':'' # ys) = Some (length xs)"
    "substr_before (find_colon (xs @ CHR '':'' # ys)) (xs @ CHR '':'' # ys) = xs"
    "substr_after (find_colon (xs @ CHR '':'' # ys)) (xs @ CHR '':'' # ys) = ys"
proof -
  have "takeWhile (\<lambda>c. c \<noteq> CHR '':'') (xs @ CHR '':'' # ys) = xs"
    using assms by (simp add: takeWhile_append2 takeWhile_tail takeWhile_eq_all_conv)
      (metis (mono_tags, lifting) append_Nil2 takeWhile.simps(2) takeWhile_append2)
  then show f: "find_colon (xs @ CHR '':'' # ys) = Some (length xs)" by (simp add: find_colon_def)
  show "substr_before (find_colon (xs @ CHR '':'' # ys)) (xs @ CHR '':'' # ys) = xs"
    "substr_after (find_colon (xs @ CHR '':'' # ys)) (xs @ CHR '':'' # ys) = ys"
    by (simp_all add: f substr_before_def substr_after_def)
qed

lemma substr_before_no_colon:
  "CHR '':'' \<notin> set xs \<Longrightarrow> substr_before (find_colon xs) xs = xs"
  by (simp add: find_colon_def substr_before_def)

text \<open>The body of a request (\<open>ObjectProxy::sendReqMessage\<close> on the text \<open>ServantProxy::tars_invoke\<close>
  built) and its frame.\<close>

definition request_text :: "string \<Rightarrow> string \<Rightarrow> string" where
  "request_text func_name request = func_name @ '':'' @ request"

definition request_body :: "i32 \<Rightarrow> string \<Rightarrow> string" where
  "request_body requestId request = to_string (sint requestId) @ '':'' @ request"

definition frame :: "string \<Rightarrow> string" where
  "frame temp = header (length temp) @ '':'' @ temp"

lemma length_frame [simp]: "length (frame m) = 5 + length m"
  by (simp add: frame_def)

lemma frame_nonempty [simp]: "frame m \<noteq> []"
  by (simp add: frame_def)

lemma frame_parts:
  "take 4 (frame m) = header (length m)" "drop 5 (frame m) = m"
proof -
  show "take 4 (frame m) = header (length m)" by (simp add: frame_def)
  have "frame m = (header (length m) @ '':'') @ m" by (simp add: frame_def)
  moreover have "length (header (length m) @ '':'') = 5" by simp
  ultimately show "drop 5 (frame m) = m" by (metis append_eq_conv_conj)
qed

lemma parse_request_body:
  assumes "CHR '':'' \<notin> set func"
  shows "parseRequest (request_body i (request_text func req)) =
    (Some (length (to_string (sint i))), request_text func req, Some (length func), func)"
proof -
  note a = find_colon_split [OF to_string_no_colon, of "sint i" "request_text func req"]
  note b = find_colon_split [OF assms, of req]
  show ?thesis
    unfolding parseRequest_def request_body_def Let_def using a b by (simp add: request_text_def)
qed

lemma length_digits: "k < 10 ^ n \<Longrightarrow> 0 < n \<Longrightarrow> length (digits k) \<le> n"
proof (induction k arbitrary: n rule: digits.induct)
  case (1 k)
  show ?case
  proof (cases "k < 10")
    case False
    then obtain j where j: "n = Suc j" "0 < j" using 1(2,3) by (cases n; cases "n - 1") auto
    have "length (digits (k div 10)) \<le> j" using 1(1) [OF False, of j] 1(2) j by (simp add: less_mult_imp_div_less mult.commute)
    then show ?thesis using False j by (subst digits.simps) simp
  qed (use 1(3) in \<open>subst digits.simps, simp\<close>)
qed

lemma length_to_string: "length (to_string (sint (r :: u32))) \<le> 11"
proof -
  have "- (2 ^ 31) \<le> sint r \<and> sint r < 2 ^ 31" using sint_range_size [of r] by (simp add: word_size)
  then have "nat (sint r) < 10 ^ 10" "nat (- sint r) < 10 ^ 10" by auto
  then show ?thesis using length_digits [of "nat (sint r)" 10] length_digits [of "nat (- sint r)" 10]
    by (simp add: to_string_def)
qed

lemma frame_small:
  assumes "length req < 2 ^ 30"
  shows "length (frame (request_body rid req)) < 2 ^ 31"
  using assms length_to_string [of rid] by (simp add: request_body_def)

section \<open>Properties\<close>


end
