(* ===== verification/Tarsx_Connection.thy ===== *)
theory Tarsx_Connection
  imports Tarsx_Buffer Tarsx_Wire
begin

text \<open>
  \<open>tarsx::Connection\<close> (\<open>Connection.h\<close>, \<open>Connection.cc\<close>) and the messages of \<open>Message.h\<close> it makes: a
  server-side TCP connection. \<open>recv\<close> reads what the socket has into the buffer and cuts complete
  frames off it; \<open>send\<close> writes a response, or the queued slices when the socket is writable. The
  socket is a parameter: the results of its \<open>read\<close>, \<open>send\<close> and \<open>writev\<close> calls in order.
\<close>

section \<open>Messages\<close>

datatype EM_CLOSE_T = EM_CLIENT_CLOSE | EM_SERVER_CLOSE | EM_SERVER_TIMEOUT_CLOSE

record tagRecvData =
  rd_uid :: u32
  rd_buffer :: string
  rd_ip :: string
  rd_port :: u16
  rd_recvTimestamp :: int
  rd_overload :: bool
  rd_closed :: bool
  rd_fd :: int
  rd_adapter :: "nat option"
  rd_closeType :: EM_CLOSE_T

record tagSendData =
  sd_cmd :: char
  sd_uid :: u32
  sd_buffer :: string
  sd_ip :: string
  sd_port :: u16

text \<open>A slice: the memory behind \<open>data\<close>, the number of bytes of it still to send, its length.\<close>

record Slice =
  sl_data :: "char list"
  sl_dataLen :: nat
  sl_len :: nat

section \<open>The socket\<close>

datatype read_result = RData "char list" | RAgain | RClosed | RError

datatype write_result = Wrote nat | WAgain | WInterrupted | WError

section \<open>State\<close>

text \<open>\<open>bindAdapter_\<close> points to an adapter object; \<open>close_\<close> has no initial value in the source,
  so the constructor takes whatever the memory held.\<close>

record Connection =
  con_bindAdapter :: "nat option"
  con_fd :: int
  con_uid :: u32
  con_listenfd :: int
  con_ip :: string
  con_port :: u16
  con_close :: bool
  con_recvBuffer :: Buffer
  con_sendBuffer :: "Slice list"

definition Connection_new :: "bool \<Rightarrow> nat option \<Rightarrow> int \<Rightarrow> int \<Rightarrow> string \<Rightarrow> u16 \<Rightarrow> Connection result" where
  "Connection_new memory bind_adapter listenfd fd ip port =
     bindE (assertE (fd \<noteq> -1)) (\<lambda>_.
     Inr \<lparr>con_bindAdapter = bind_adapter, con_fd = fd, con_uid = 0, con_listenfd = listenfd,
          con_ip = ip, con_port = port, con_close = memory, con_recvBuffer = Buffer_new,
          con_sendBuffer = []\<rparr>)"

definition Connection_init :: "u32 \<Rightarrow> Connection \<Rightarrow> Connection" where
  "Connection_init uid c = c\<lparr>con_uid := uid\<rparr>"

definition Connection_set_close :: "Connection \<Rightarrow> bool \<times> Connection" where
  "Connection_set_close c = (con_sendBuffer c = [], c\<lparr>con_close := True\<rparr>)"

definition Connection_close :: "Connection \<Rightarrow> Connection" where
  "Connection_close c =
     (if con_listenfd c \<noteq> -1 \<and> con_fd c \<noteq> -1 then c\<lparr>con_fd := -1\<rparr> else c)"

definition Connection_destroy :: "Connection \<Rightarrow> unit result" where
  "Connection_destroy c = (if con_listenfd c \<noteq> -1 then assertE (con_fd c = -1) else Inr ())"

text \<open>A closed connection may be destroyed.\<close>

lemma Connection_close_destroy: "Connection_destroy (Connection_close c) = Inr ()"
  by (simp add: Connection_destroy_def Connection_close_def)

section \<open>Receiving\<close>

definition read_size :: nat where
  "read_size = 32 * 1024"

text \<open>The read loop of \<open>recv\<close>: the flag is \<open>return -1\<close> (closed or failed), the list what the socket
  still has. With nothing left the socket answers \<open>EAGAIN\<close>.\<close>

fun recv_fill :: "read_result list \<Rightarrow> Buffer \<Rightarrow> (bool \<times> read_result list \<times> Buffer) result" where
  "recv_fill [] b = Inr (False, [], b)"
| "recv_fill (RAgain # rs) b = Inr (False, rs, b)"
| "recv_fill (RError # rs) b = Inr (True, rs, b)"
| "recv_fill (RClosed # rs) b = Inr (True, rs, b)"
| "recv_fill (RData d # rs) b =
     (if d = [] then Inr (True, rs, b)
      else
        bindE (Buffer_pushData (Some d) (of_nat (length d)) b) (\<lambda>(_, b1).
        if length d < read_size then Inr (False, rs, b1) else recv_fill rs b1))"

text \<open>One turn of the frame loop, once the header is there: the length is signed, is widened to
  \<open>size_t\<close> in the comparison, and is the size of the string built.\<close>

definition take_frame :: "i32 \<Rightarrow> Buffer \<Rightarrow> (string \<times> Buffer) result" where
  "take_frame len b =
     bindE (Buffer_consume kHeaderSize b) (\<lambda>b1.
     if sint len < 0 then Inl Exception
     else
       bindE (Buffer_peek (nat (sint len)) b1) (\<lambda>req.
       bindE (Buffer_consume (scast len) b1) (\<lambda>b2.
       Inr (req, b2))))"

partial_function (option) recv_parse :: "Buffer \<Rightarrow> string list \<Rightarrow> (string list \<times> Buffer) result option" where
  "recv_parse b queue =
     (if Buffer_readableSize b < kHeaderSize - 1 then Some (Inr (queue, b))
      else
        (case Buffer_peek 4 b of
           Inl e \<Rightarrow> Some (Inl e)
         | Inr be32 \<Rightarrow>
             let len = header_length be32 in
             if scast len + kHeaderSize \<le> Buffer_readableSize b then
               (case take_frame len b of
                  Inl e \<Rightarrow> Some (Inl e)
                | Inr (req, b2) \<Rightarrow> recv_parse b2 (queue @ [req]))
             else Some (Inr (queue, b))))"

definition recv_message :: "Connection \<Rightarrow> string \<Rightarrow> tagRecvData" where
  "recv_message c req =
     \<lparr>rd_uid = con_uid c, rd_buffer = req, rd_ip = con_ip c, rd_port = con_port c, rd_recvTimestamp = 0,
      rd_overload = False, rd_closed = False, rd_fd = con_fd c, rd_adapter = con_bindAdapter c,
      rd_closeType = EM_CLIENT_CLOSE\<rparr>"

definition Connection_recv ::
    "read_result list \<Rightarrow> Connection \<Rightarrow> (int \<times> tagRecvData list \<times> read_result list \<times> Connection) result" where
  "Connection_recv reads c =
     bindE (recv_fill reads (con_recvBuffer c)) (\<lambda>(closed, reads', b).
     if closed then Inr (-1, [], reads', c\<lparr>con_recvBuffer := b\<rparr>)
     else if con_listenfd c \<noteq> -1 then
       bindE (of_loop (recv_parse b [])) (\<lambda>r.
       bindE r (\<lambda>(reqs, b').
       Inr (int (length reqs), map (recv_message c) reqs, reads', c\<lparr>con_recvBuffer := b'\<rparr>)))
     else Inr (0, [], reads', c\<lparr>con_recvBuffer := b\<rparr>))"

section \<open>Sending\<close>

text \<open>\<open>tcpSend\<close> and \<open>tcpWriteV\<close>: the value returned and the bytes the socket took.\<close>

definition Connection_tcpSend :: "write_result \<Rightarrow> string \<Rightarrow> int \<times> string" where
  "Connection_tcpSend w data =
     (if data = [] then (0, [])
      else case w of
        Wrote n \<Rightarrow> (int n, take n data)
      | WAgain \<Rightarrow> (0, [])
      | WInterrupted \<Rightarrow> (0, [])
      | WError \<Rightarrow> (-1, []))"

definition Connection_tcpWriteV :: "nat \<Rightarrow> write_result \<Rightarrow> string list \<Rightarrow> (int \<times> string) result" where
  "Connection_tcpWriteV maxIOVcount w buffers =
     bindE (assertE (length buffers \<le> maxIOVcount)) (\<lambda>_.
     Inr (case w of
        Wrote n \<Rightarrow> (int n, take n (concat buffers))
      | WAgain \<Rightarrow> (0, [])
      | WInterrupted \<Rightarrow> (-1, [])
      | WError \<Rightarrow> (-1, [])))"

definition slice_bytes :: "Slice \<Rightarrow> string" where
  "slice_bytes sl = take (sl_dataLen sl) (sl_data sl)"

text \<open>\<open>send(slices)\<close>: \<open>iov\<close> is \<open>sysconf(_SC_IOV_MAX)\<close>; a socket with no result left is not writable.
  The value returned, the bytes taken and the results left.\<close>

function send_slices ::
    "nat \<Rightarrow> write_result list \<Rightarrow> nat \<Rightarrow> Slice list \<Rightarrow> (int \<times> string \<times> write_result list) result" where
  "send_slices iov ws sent slices =
     (if slices = [] then Inr (int sent, [], ws)
      else
        (let vc = min (length slices) (max iov 16); batch = take vc slices;
             expectSent = sum_list (map sl_dataLen batch);
             (w, ws') = (case ws of [] \<Rightarrow> (WAgain, []) | w # ws' \<Rightarrow> (w, ws'))
         in
         bindE (assertE (\<forall>sl \<in> set batch. 0 < sl_dataLen sl)) (\<lambda>_.
         bindE (Connection_tcpWriteV (max iov 16) w (map slice_bytes batch)) (\<lambda>(bytes, out).
         if bytes = -1 then Inr (-1, out, ws')
         else if bytes = 0 then Inr (int sent, out, ws')
         else if bytes = int expectSent then
           bindE (send_slices iov ws' (sent + expectSent) (drop vc slices)) (\<lambda>(ret, out', ws'').
           Inr (ret, out @ out', ws''))
         else Inr (int sent + bytes, out, ws')))))"
  by pat_completeness auto
termination by (relation "measure (\<lambda>(iov, ws, sent, slices). length slices)") auto

declare send_slices.simps [simp del]

text \<open>\<open>adjustSlices\<close>: the loop runs over copies of the slices. A slice sent in part has its memory
  moved down, while its \<open>dataLen\<close> is changed in the copy only.\<close>

fun adjust_loop :: "nat \<Rightarrow> Slice list \<Rightarrow> (nat \<times> Slice list) result" where
  "adjust_loop skip [] = Inr (0, [])"
| "adjust_loop skip (sl # rest) =
     bindE (assertE (0 < sl_dataLen sl)) (\<lambda>_.
     if sl_dataLen sl \<le> skip then
       bindE (adjust_loop (skip - sl_dataLen sl) rest) (\<lambda>(n, rest'). Inr (Suc n, sl # rest'))
     else if skip \<noteq> 0 then
       Inr (0, sl\<lparr>sl_data := take (sl_dataLen sl - skip) (drop skip (sl_data sl)) @
                      drop (sl_dataLen sl - skip) (sl_data sl)\<rparr> # rest)
     else Inr (0, sl # rest))"

definition adjustSlices :: "nat \<Rightarrow> Slice list \<Rightarrow> Slice list result" where
  "adjustSlices to_skipped_bytes slices =
     bindE (adjust_loop to_skipped_bytes slices) (\<lambda>(skippedVecs, slices'). Inr (drop skippedVecs slices'))"

definition size_max :: nat where
  "size_max = 2 ^ 64 - 1"

definition clearSlices :: "Slice list \<Rightarrow> Slice list result" where
  "clearSlices slices = adjustSlices size_max slices"

text \<open>The common end of \<open>send\<close>.\<close>

definition send_finish :: "Connection \<Rightarrow> (int \<times> Connection) result" where
  "send_finish c =
     (let to_send_bytes = sum_list (map sl_dataLen (con_sendBuffer c)) in
      if 8 * 1024 \<le> to_send_bytes then
        bindE (clearSlices (con_sendBuffer c)) (\<lambda>slices. Inr (-2, c\<lparr>con_sendBuffer := slices\<rparr>))
      else if con_close c \<and> con_sendBuffer c = [] then Inr (-2, c)
      else Inr (0, c))"

text \<open>\<open>send(buffer, ip, port)\<close> and \<open>send()\<close>: the value returned, the bytes the socket took, the
  connection. The address arguments are not used.\<close>

definition Connection_send_data :: "write_result \<Rightarrow> string \<Rightarrow> Connection \<Rightarrow> (int \<times> string \<times> Connection) result" where
  "Connection_send_data w msg c =
     (let (bytes, out) = Connection_tcpSend w msg in
      if bytes = -1 then Inr (-1, out, c)
      else bindE (send_finish c) (\<lambda>(ret, c'). Inr (ret, out, c')))"

definition Connection_send_queued ::
    "nat \<Rightarrow> write_result list \<Rightarrow> Connection \<Rightarrow> (int \<times> string \<times> write_result list \<times> Connection) result" where
  "Connection_send_queued iov ws c =
     (if con_sendBuffer c = [] then Inr (0, [], ws, c)
      else
        bindE (send_slices iov ws 0 (con_sendBuffer c)) (\<lambda>(bytes, out, ws').
        if bytes = -1 then Inr (-1, out, ws', c)
        else
          bindE (adjustSlices (nat bytes) (con_sendBuffer c)) (\<lambda>slices.
          bindE (send_finish (c\<lparr>con_sendBuffer := slices\<rparr>)) (\<lambda>(ret, c').
          Inr (ret, out, ws', c')))))"

section \<open>Cutting frames off the buffer\<close>

lemma nat_sint_small:
  assumes "n < 2 ^ 31"
  shows "sint (of_nat n :: i32) = int n"
proof -
  have "signed_take_bit 31 (int n) = int n"
    using assms by (intro signed_take_bit_int_eq_self) auto
  then show ?thesis by (simp add: signed_of_nat)
qed

lemma unat_scast_small:
  assumes "n < 2 ^ 31"
  shows "unat (scast (of_nat n :: i32) :: u64) = n"
    "unat (scast (of_nat n :: i32) + kHeaderSize) = n + 5"
proof -
  have "(scast (of_nat n :: i32) :: u64) = of_nat n"
    using nat_sint_small [OF assms] by (simp add: scast_eq)
  moreover have "unat (of_nat n :: u64) = n" using assms by (intro unat_of_nat_small) simp
  ultimately show *: "unat (scast (of_nat n :: i32) :: u64) = n" by simp
  show "unat (scast (of_nat n :: i32) + kHeaderSize) = n + 5"
    using * assms by (subst unat_add_less) (simp_all add: kHeaderSize_def)
qed

lemma consume_capacity: "Buffer_consume n b = Inr b' \<Longrightarrow> capacity b' = capacity b"
  by (auto simp: Buffer_consume_def Buffer_clear_def Let_def result_simps split: if_splits)

lemma unat_kHeaderSize [simp]: "unat kHeaderSize = 5" "unat (kHeaderSize - 1) = 4"
  by (simp_all add: kHeaderSize_def)

lemma take_frame_ok:
  assumes inv: "Buffer_inv b" and c: "Buffer_contents b = frame m @ rest" and m: "length m < 2 ^ 31"
  shows "\<exists>b'. take_frame (of_nat (length m)) b = Inr (m, b') \<and> Buffer_inv b' \<and> Buffer_contents b' = rest"
proof -
  have cap: "capacity b \<noteq> 0" using c by (intro capacity_nonzero [OF inv]) simp
  obtain b1 where b1: "Buffer_consume kHeaderSize b = Inr b1" "Buffer_inv b1" "Buffer_contents b1 = m @ rest"
    using Buffer_consume_ok [OF inv, of kHeaderSize] c frame_parts(2) [of m] by auto
  have "Buffer_peek (length m) b1 = Inr m"
    using Buffer_read_prefix [OF b1(2), of "length m"] cap consume_capacity [OF b1(1)] b1(3)
    by (simp add: Buffer_peek_def)
  moreover obtain b2 where "Buffer_consume (scast (of_nat (length m) :: i32)) b1 = Inr b2" "Buffer_inv b2"
    "Buffer_contents b2 = rest"
    using Buffer_consume_ok [OF b1(2), of "scast (of_nat (length m) :: i32)"] unat_scast_small(1) [OF m] b1(3) by auto
  ultimately show ?thesis
    using b1(1) nat_sint_small [OF m] by (simp add: take_frame_def)
qed

text \<open>A buffer with an incomplete frame is left as it is.\<close>

definition incomplete :: "string \<Rightarrow> bool" where
  "incomplete part \<longleftrightarrow> (\<exists>m. strict_prefix part (frame m) \<and> length m < 2 ^ 31)"

lemma incomplete_Nil [simp]: "incomplete []"
  unfolding incomplete_def by (intro exI [of _ "[]"]) (simp add: strict_prefix_def not_sym [OF frame_nonempty])

lemma recv_parse_incomplete:
  assumes inv: "Buffer_inv b" and part: "incomplete (Buffer_contents b)"
  shows "recv_parse b queue = Some (Inr (queue, b))"
proof -
  obtain m where m: "strict_prefix (Buffer_contents b) (frame m)" "length m < 2 ^ 31"
    using part by (auto simp: incomplete_def)
  have len: "length (Buffer_contents b) < 5 + length m"
    using prefix_length_less [OF m(1)] by simp
  have r: "unat (Buffer_readableSize b) = length (Buffer_contents b)" by (rule unat_readableSize [OF inv])
  show ?thesis
  proof (cases "length (Buffer_contents b) < 4")
    case True
    then show ?thesis by (subst recv_parse.simps) (simp add: word_less_nat_alt r)
  next
    case False
    then have ne: "Buffer_contents b \<noteq> []" by auto
    obtain ys where ys: "frame m = Buffer_contents b @ ys" using m(1) by (auto simp: strict_prefix_def prefix_def)
    then have "take 4 (Buffer_contents b) = header (length m)" using False frame_parts(1) [of m] by simp
    then have p: "Buffer_peek 4 b = Inr (header (length m))"
      using Buffer_peek_ok [OF inv ne, of 4] False by simp
    have "\<not> scast (of_nat (length m) :: i32) + kHeaderSize \<le> Buffer_readableSize b"
      using unat_scast_small(2) [OF m(2)] len by (simp add: word_le_nat_alt r)
    then show ?thesis using p by (subst recv_parse.simps) (simp add: Let_def)
  qed
qed

text \<open>Complete frames come off one by one, in order; what follows them stays.\<close>

lemma recv_parse_frames:
  assumes "Buffer_inv b" and "Buffer_contents b = concat (map frame ms) @ part" and "incomplete part"
    and "\<And>m. m \<in> set ms \<Longrightarrow> length m < 2 ^ 31"
  shows "\<exists>b'. recv_parse b queue = Some (Inr (queue @ ms, b')) \<and> Buffer_inv b' \<and> Buffer_contents b' = part"
  using assms
proof (induction ms arbitrary: b queue)
  case Nil
  then show ?case using recv_parse_incomplete [of b queue] by simp
next
  case (Cons m ms)
  have m: "length m < 2 ^ 31" using Cons.prems(4) by simp
  have c: "Buffer_contents b = frame m @ (concat (map frame ms) @ part)" using Cons.prems(2) by simp
  have r: "unat (Buffer_readableSize b) = length (Buffer_contents b)" by (rule unat_readableSize [OF Cons.prems(1)])
  have p: "Buffer_peek 4 b = Inr (header (length m))"
    using Buffer_peek_ok [OF Cons.prems(1), of 4] c frame_parts(1) [of m] length_frame [of m]
    by (cases "Buffer_contents b = []") auto
  have g: "scast (of_nat (length m) :: i32) + kHeaderSize \<le> Buffer_readableSize b"
    using unat_scast_small(2) [OF m] by (simp add: word_le_nat_alt r c)
  obtain b1 where b1: "take_frame (of_nat (length m)) b = Inr (m, b1)" "Buffer_inv b1"
    "Buffer_contents b1 = concat (map frame ms) @ part"
    using take_frame_ok [OF Cons.prems(1) c m] by blast
  have "recv_parse b queue = recv_parse b1 (queue @ [m])"
    using p g b1(1) by (subst recv_parse.simps) (simp add: Let_def word_less_nat_alt r c)
  then show ?case using Cons.IH [OF b1(2,3) Cons.prems(3), of "queue @ [m]"] Cons.prems(4) by simp
qed

section \<open>Streams of frames\<close>

text \<open>What a framing needs so that a stream can be cut anywhere: no frame is empty.\<close>

locale framing =
  fixes enc :: "'m \<Rightarrow> 'b list"
  assumes enc_nonempty: "enc m \<noteq> []"
begin

lemma prefix_split:
  "prefix p (concat (map enc ms)) \<Longrightarrow>
   \<exists>done_ms todo part. ms = done_ms @ todo \<and> p = concat (map enc done_ms) @ part \<and>
     (part = [] \<or> (\<exists>m rest. todo = m # rest \<and> strict_prefix part (enc m)))"
proof (induction ms arbitrary: p)
  case Nil
  then show ?case by simp
next
  case (Cons m ms)
  show ?case
  proof (cases "prefix (enc m) p")
    case True
    then obtain q where q: "p = enc m @ q" by (auto simp: prefix_def)
    then have "prefix q (concat (map enc ms))" using Cons.prems by simp
    then obtain done_ms todo part where *: "ms = done_ms @ todo" "q = concat (map enc done_ms) @ part"
      "part = [] \<or> (\<exists>m rest. todo = m # rest \<and> strict_prefix part (enc m))" using Cons.IH by blast
    then show ?thesis using q by (intro exI [of _ "m # done_ms"] exI [of _ todo] exI [of _ part]) simp
  next
    case False
    then have "strict_prefix p (enc m)" using Cons.prems
      by (metis concat.simps(2) list.simps(9) prefixI prefix_order.less_le prefix_same_cases)
    then show ?thesis by (intro exI [of _ "[]"] exI [of _ "m # ms"] exI [of _ p]) auto
  qed
qed

end

interpretation frames: framing frame
  by unfold_locales (rule frame_nonempty)

section \<open>A stream of requests\<close>

text \<open>The calls of \<open>recv\<close> that a run of events makes: what they put into the queues, until one
  reports that the connection is gone.\<close>

fun recv_calls ::
    "nat \<Rightarrow> read_result list \<Rightarrow> Connection \<Rightarrow> (tagRecvData list \<times> read_result list \<times> Connection) result" where
  "recv_calls 0 reads c = Inr ([], reads, c)"
| "recv_calls (Suc n) reads c =
     bindE (Connection_recv reads c) (\<lambda>(ret, queue, reads', c').
     if ret < 0 then Inr (queue, reads', c')
     else bindE (recv_calls n reads' c') (\<lambda>(queue', reads'', c''). Inr (queue @ queue', reads'', c'')))"

lemma recv_fill_data:
  assumes "Buffer_inv b" and "\<And>d. d \<in> set chunks \<Longrightarrow> d \<noteq> []"
    and "length (Buffer_contents b) + length (concat chunks) < Buffer_limit"
  shows "\<exists>got left b'. chunks = got @ left \<and> (chunks \<noteq> [] \<longrightarrow> got \<noteq> []) \<and>
           recv_fill (map RData chunks) b = Inr (False, map RData left, b') \<and>
           Buffer_inv b' \<and> Buffer_contents b' = Buffer_contents b @ concat got"
  using assms
proof (induction chunks arbitrary: b)
  case Nil
  then show ?case by simp
next
  case (Cons d chunks)
  have d: "d \<noteq> []" using Cons.prems(2) by simp
  obtain b1 where p: "Buffer_push d b = Inr b1" and b1: "Buffer_inv b1" "Buffer_contents b1 = Buffer_contents b @ d"
    using bstream.push_law [OF Cons.prems(1) d] Cons.prems(3) by auto
  obtain r where r: "Buffer_pushData (Some d) (of_nat (length d)) b = Inr (r, b1)"
    using p by (auto simp: Buffer_push_def result_simps)
  show ?case
  proof (cases "length d < read_size")
    case True
    then show ?thesis using d r b1 by (intro exI [of _ "[d]"] exI [of _ chunks] exI [of _ b1]) simp
  next
    case False
    obtain got left b2 where "chunks = got @ left" "recv_fill (map RData chunks) b1 = Inr (False, map RData left, b2)"
      "Buffer_inv b2" "Buffer_contents b2 = Buffer_contents b1 @ concat got"
      using Cons.IH [OF b1(1)] Cons.prems(2,3) b1(2) by (metis add.assoc append_eq_appendI concat.simps(2) length_append list.set_intros(2))
    then show ?thesis using False d r b1(2)
      by (intro exI [of _ "d # got"] exI [of _ left] exI [of _ b2]) simp
  qed
qed

lemma Connection_recv_frames:
  assumes inv: "Buffer_inv (con_recvBuffer c)" and fd: "con_listenfd c \<noteq> -1"
    and ch: "\<And>d. d \<in> set chunks \<Longrightarrow> d \<noteq> []"
    and stream: "Buffer_contents (con_recvBuffer c) @ concat chunks = concat (map frame ms)"
    and lim: "length (concat (map frame ms)) < Buffer_limit"
    and ms: "\<And>m. m \<in> set ms \<Longrightarrow> length m < 2 ^ 31"
  shows "\<exists>got left ms1 ms2 b'. chunks = got @ left \<and> (chunks \<noteq> [] \<longrightarrow> got \<noteq> []) \<and> ms = ms1 @ ms2 \<and>
           Connection_recv (map RData chunks) c =
             Inr (int (length ms1), map (recv_message c) ms1, map RData left, c\<lparr>con_recvBuffer := b'\<rparr>) \<and>
           Buffer_inv b' \<and> Buffer_contents b' @ concat left = concat (map frame ms2) \<and>
           (left = [] \<longrightarrow> ms2 = [])"
proof -
  have len: "length (Buffer_contents (con_recvBuffer c)) + length (concat chunks) < Buffer_limit"
    using stream lim by (metis length_append)
  obtain got left b1 where f: "chunks = got @ left" "chunks \<noteq> [] \<longrightarrow> got \<noteq> []"
    "recv_fill (map RData chunks) (con_recvBuffer c) = Inr (False, map RData left, b1)" "Buffer_inv b1"
    and b1: "Buffer_contents b1 = Buffer_contents (con_recvBuffer c) @ concat got"
    using recv_fill_data [OF inv ch len] by blast
  have whole: "Buffer_contents b1 @ concat left = concat (map frame ms)" using b1 stream f(1) by simp
  then have "prefix (Buffer_contents b1) (concat (map frame ms))" by (metis prefixI)
  then obtain ms1 ms2 part where s: "ms = ms1 @ ms2" "Buffer_contents b1 = concat (map frame ms1) @ part"
    "part = [] \<or> (\<exists>m rest. ms2 = m # rest \<and> strict_prefix part (frame m))"
    using frames.prefix_split by blast
  have inc: "incomplete part" using s(3)
  proof
    assume "part = []"
    then show ?thesis by simp
  next
    assume "\<exists>m rest. ms2 = m # rest \<and> strict_prefix part (frame m)"
    then show ?thesis unfolding incomplete_def using s(1) ms by auto
  qed
  obtain b2 where b2: "recv_parse b1 [] = Some (Inr (ms1, b2))" "Buffer_inv b2" "Buffer_contents b2 = part"
    using recv_parse_frames [OF f(4) s(2) inc, of "[]"] ms s(1) by auto
  have "part @ concat left = concat (map frame ms2)" using whole s(1,2) by simp
  moreover have "ms2 = []" if "left = []"
    using s(3) calculation that by (cases ms2) (auto simp: strict_prefix_def prefix_def)
  moreover have "Connection_recv (map RData chunks) c =
      Inr (int (length ms1), map (recv_message c) ms1, map RData left, c\<lparr>con_recvBuffer := b2\<rparr>)"
    using f(3) b2(1) fd by (simp add: Connection_recv_def)
  ultimately show ?thesis using f(1,2) s(1) b2(2,3) by blast
qed

lemma recv_message_buffer [simp]: "recv_message (c\<lparr>con_recvBuffer := b\<rparr>) = recv_message c"
  by (rule ext) (simp add: recv_message_def)

lemma recv_calls_frames:
  assumes "Buffer_inv (con_recvBuffer c)" and "con_listenfd c \<noteq> -1"
    and "\<And>d. d \<in> set chunks \<Longrightarrow> d \<noteq> []"
    and "Buffer_contents (con_recvBuffer c) @ concat chunks = concat (map frame ms)"
    and "length (concat (map frame ms)) < Buffer_limit"
    and "\<And>m. m \<in> set ms \<Longrightarrow> length m < 2 ^ 31" and "length chunks < n"
  shows "\<exists>b'. recv_calls n (map RData chunks) c = Inr (map (recv_message c) ms, [], c\<lparr>con_recvBuffer := b'\<rparr>) \<and>
           Buffer_inv b' \<and> Buffer_contents b' = []"
  using assms
proof (induction n arbitrary: c chunks ms)
  case 0
  then show ?case by simp
next
  case (Suc n)
  obtain got left ms1 ms2 b1 where f: "chunks = got @ left" "chunks \<noteq> [] \<longrightarrow> got \<noteq> []" "ms = ms1 @ ms2"
    "Connection_recv (map RData chunks) c =
       Inr (int (length ms1), map (recv_message c) ms1, map RData left, c\<lparr>con_recvBuffer := b1\<rparr>)"
    "Buffer_inv b1" "Buffer_contents b1 @ concat left = concat (map frame ms2)" "left = [] \<longrightarrow> ms2 = []"
    using Connection_recv_frames [OF Suc.prems(1-6)] by blast
  show ?case
  proof (cases "n = 0")
    case True
    then have "left = []" using Suc.prems(7) f(1) by simp
    then have "ms2 = []" using f(7) by simp
    then show ?thesis using f \<open>left = []\<close> True by (intro exI [of _ b1]) auto
  next
    case False
    have "length left < n" using Suc.prems(7) f(1,2) False by (cases got) auto
    then obtain b' where "recv_calls n (map RData left) (c\<lparr>con_recvBuffer := b1\<rparr>) =
        Inr (map (recv_message c) ms2, [], c\<lparr>con_recvBuffer := b'\<rparr>)" "Buffer_inv b'" "Buffer_contents b' = []"
      using Suc.IH [of "c\<lparr>con_recvBuffer := b1\<rparr>" left ms2] Suc.prems f(1,3,5,6) by auto
    then show ?thesis using f(3,4) by (intro exI [of _ b']) simp
  qed
qed

section \<open>Queued slices\<close>

abbreviation slices_total :: "Slice list \<Rightarrow> nat" where
  "slices_total slices \<equiv> sum_list (map sl_dataLen slices)"

definition slices_ok :: "Slice list \<Rightarrow> bool" where
  "slices_ok slices \<longleftrightarrow> (\<forall>sl \<in> set slices. 0 < sl_dataLen sl \<and> sl_dataLen sl \<le> length (sl_data sl))"

lemma slices_ok_simps [simp]:
  "slices_ok []"
  "slices_ok (sl # slices) \<longleftrightarrow> 0 < sl_dataLen sl \<and> sl_dataLen sl \<le> length (sl_data sl) \<and> slices_ok slices"
  "slices_ok (xs @ ys) \<longleftrightarrow> slices_ok xs \<and> slices_ok ys"
  by (auto simp: slices_ok_def)

lemma slices_ok_take: "slices_ok slices \<Longrightarrow> slices_ok (take n slices) \<and> slices_ok (drop n slices)"
  by (metis append_take_drop_id slices_ok_simps(3))

lemma length_slice_bytes: "slices_ok slices \<Longrightarrow> length (concat (map slice_bytes slices)) = slices_total slices"
  by (induction slices) (auto simp: slice_bytes_def)

lemma adjust_loop_whole:
  "slices_ok pre \<Longrightarrow> adjust_loop (slices_total pre + k) (pre @ post) =
     bindE (adjust_loop k post) (\<lambda>(n, post'). Inr (length pre + n, pre @ post'))"
proof (induction pre)
  case Nil
  then show ?case by (cases "adjust_loop k post") auto
next
  case (Cons sl pre)
  then show ?case by (cases "adjust_loop k post") (auto simp: add.assoc)
qed

lemma adjustSlices_whole:
  assumes "slices_ok pre" and "slices_ok post"
  shows "adjustSlices (slices_total pre) (pre @ post) = Inr post"
  using adjust_loop_whole [OF assms(1), of 0 post] assms(2)
  by (cases post) (auto simp: adjustSlices_def)

lemma adjust_loop_all:
  "slices_ok slices \<Longrightarrow> slices_total slices \<le> k \<Longrightarrow> adjust_loop k slices = Inr (length slices, slices)"
  by (induction slices arbitrary: k) auto

lemma clearSlices_ok: "slices_ok slices \<Longrightarrow> slices_total slices \<le> size_max \<Longrightarrow> clearSlices slices = Inr []"
  by (simp add: clearSlices_def adjustSlices_def adjust_loop_all)

lemma adjustSlices_within:
  assumes "slices_ok pre" and "0 < k" and "k < sl_dataLen sl"
  shows "adjustSlices (slices_total pre + k) (pre @ sl # post) =
    Inr (sl\<lparr>sl_data := take (sl_dataLen sl - k) (drop k (sl_data sl)) @ drop (sl_dataLen sl - k) (sl_data sl)\<rparr> # post)"
  using adjust_loop_whole [OF assms(1), of k "sl # post"] assms(2,3) by (simp add: adjustSlices_def)

lemma unat_negative_length:
  assumes "-5 \<le> sint len" and "sint len < 0"
  shows "unat (scast (len :: i32) + kHeaderSize) \<le> 5"
proof -
  have w: "scast len + kHeaderSize = (word_of_int (sint len + 5) :: u64)"
    unfolding scast_eq kHeaderSize_def by simp
  have "uint (scast len + kHeaderSize) = (sint len + 5) mod 2 ^ 64" unfolding w by (simp only: uint_word_of_int) simp
  moreover have "sint len + 5 < 2 ^ 64" using assms(2) by (rule less_trans [OF add_strict_right_mono]) simp
  moreover have "0 \<le> sint len + 5" using assms(1) by linarith
  ultimately have "uint (scast len + kHeaderSize) = sint len + 5" by (metis mod_pos_pos_trivial)
  then have "uint (scast len + kHeaderSize) \<le> 5" using assms(2) by linarith
  then show ?thesis unfolding unat_eq_nat_uint nat_le_iff by simp
qed

section \<open>Properties\<close>

text \<open>C13. However the network cuts the stream, the calls of \<open>recv\<close> deliver the requests the client
  framed, complete, in order and once each, and leave the buffer empty.\<close>

theorem Connection_recv_round_trip:
  assumes "Buffer_inv (con_recvBuffer c)" and "Buffer_contents (con_recvBuffer c) = []"
    and "con_listenfd c \<noteq> -1"
    and "\<And>d. d \<in> set chunks \<Longrightarrow> d \<noteq> []"
    and "concat chunks = concat (map frame ms)"
    and "length (concat (map frame ms)) < Buffer_limit"
    and "\<And>m. m \<in> set ms \<Longrightarrow> length m < 2 ^ 31" and "length chunks < n"
  shows "\<exists>b'. recv_calls n (map RData chunks) c =
             Inr (map (recv_message c) ms, [], c\<lparr>con_recvBuffer := b'\<rparr>) \<and>
           Buffer_inv b' \<and> Buffer_contents b' = []"
  using assms by (intro recv_calls_frames) auto

definition sample_connection :: Connection where
  "sample_connection =
     \<lparr>con_bindAdapter = Some 0, con_fd = 7, con_uid = 1, con_listenfd = 3, con_ip = ''10.0.0.1'', con_port = 9000,
      con_close = False, con_recvBuffer = Buffer_new, con_sendBuffer = []\<rparr>"

lemma sample_connection_simps [simp]:
  "con_recvBuffer sample_connection = Buffer_new" "con_listenfd sample_connection = 3"
  "con_sendBuffer sample_connection = []" "con_close sample_connection = False"
  by (simp_all add: sample_connection_def)

theorem Connection_recv_round_trip_witness:
  "\<exists>b'. recv_calls 3 (map RData [take 2 (frame ''1:f:ab''), drop 2 (frame ''1:f:ab'') @ frame ''2:f:c'']) sample_connection =
      Inr (map (recv_message sample_connection) [''1:f:ab'', ''2:f:c''], [],
        sample_connection\<lparr>con_recvBuffer := b'\<rparr>) \<and>
    Buffer_inv b' \<and> Buffer_contents b' = []"
proof (rule Connection_recv_round_trip)
  fix d
  assume "d \<in> set [take 2 (frame ''1:f:ab''), drop 2 (frame ''1:f:ab'') @ frame ''2:f:c'']"
  then show "d \<noteq> []" by auto
next
  fix m
  assume "m \<in> set [''1:f:ab'', ''2:f:c'']"
  then show "length m < 2 ^ 31" by auto
qed (simp_all add: Buffer_limit_def)

text \<open>A header whose signed length lies between -5 and -1 passes the test for a complete frame,
  because the sum with the header size wraps: the construction of the request then throws.\<close>

theorem recv_parse_negative_length:
  assumes "Buffer_inv b" and "5 \<le> length (Buffer_contents b)"
    and "-5 \<le> sint (header_length (take 4 (Buffer_contents b)))"
    and "sint (header_length (take 4 (Buffer_contents b))) < 0"
  shows "recv_parse b queue = Some (Inl Exception)"
proof -
  let ?len = "header_length (take 4 (Buffer_contents b))"
  have r: "unat (Buffer_readableSize b) = length (Buffer_contents b)" by (rule unat_readableSize [OF assms(1)])
  have "Buffer_contents b \<noteq> []" using assms(2) by auto
  then have p: "Buffer_peek 4 b = Inr (take 4 (Buffer_contents b))" using assms(2) by (intro Buffer_peek_ok [OF assms(1)]) auto
  obtain b1 where "Buffer_consume kHeaderSize b = Inr b1"
    using Buffer_consume_ok [OF assms(1), of kHeaderSize] assms(2) by auto
  then have t: "take_frame ?len b = Inl Exception" using assms(4) by (simp add: take_frame_def)
  have "unat (scast ?len + kHeaderSize) \<le> 5"
    using assms(3,4) by (rule unat_negative_length)
  then have g: "scast ?len + kHeaderSize \<le> Buffer_readableSize b"
    using assms(2) by (simp only: word_le_nat_alt r)
  have "\<not> Buffer_readableSize b < kHeaderSize - 1" using assms(2) by (simp add: word_less_nat_alt r)
  then show ?thesis using p t g by (subst recv_parse.simps) (simp only: Let_def if_False if_True sum.case)
qed

definition bad_frame :: string where
  "bad_frame = store32 (htonl (-1)) @ '':''"

theorem recv_parse_negative_length_witness:
  "\<exists>b. Buffer_push bad_frame Buffer_new = Inr b \<and> recv_parse b [] = Some (Inl Exception)"
proof -
  have l: "length bad_frame = 5" by (simp add: bad_frame_def store32_def)
  obtain b where b: "Buffer_push bad_frame Buffer_new = Inr b" "Buffer_inv b" "Buffer_contents b = bad_frame"
    using bstream.push_law [of Buffer_new bad_frame] l by (cases "bad_frame = []") (auto simp: Buffer_limit_def)
  have "header_length (take 4 bad_frame) = -1" by (simp add: bad_frame_def store32_def header_length_def flip: store32_def)
  then have "recv_parse b [] = Some (Inl Exception)"
    using b(2,3) l by (intro recv_parse_negative_length) auto
  then show ?thesis using b(1) by blast
qed

text \<open>A response is offered to the socket once: the call returns what \<open>close_\<close> decides whatever the
  number of bytes taken, nothing is queued, and the next \<open>EPOLLOUT\<close> sends none of the rest.\<close>

theorem Connection_send_once:
  assumes "con_sendBuffer c = []" and "msg \<noteq> []" and "n \<le> length msg"
  shows "Connection_send_data (Wrote n) msg c = Inr (if con_close c then -2 else 0, take n msg, c) \<and>
         Connection_send_queued iov ws c = Inr (0, [], ws, c)"
  using assms by (simp add: Connection_send_data_def Connection_tcpSend_def Connection_send_queued_def send_finish_def)

theorem Connection_send_once_witness:
  "Connection_send_data (Wrote 2) ''abc'' sample_connection = Inr (0, ''ab'', sample_connection) \<and>
   Connection_send_queued 16 [Wrote 1] sample_connection = Inr (0, [], [Wrote 1], sample_connection)"
  using Connection_send_once [of sample_connection "''abc''" 2 16 "[Wrote 1]"] by simp

text \<open>\<open>adjustSlices\<close> drops exactly the slices that were sent when the count ends at a slice; when it
  ends inside one, that slice keeps its old length, so the bytes counted as unsent do not shrink.\<close>

theorem adjustSlices_spec:
  assumes "slices_ok (pre @ sl # post)" and "k < sl_dataLen sl"
  shows "\<exists>sl'. adjustSlices (slices_total pre + k) (pre @ sl # post) = Inr (sl' # post) \<and>
           sl_dataLen sl' = sl_dataLen sl \<and> (k = 0 \<longrightarrow> sl' = sl) \<and>
           take (sl_dataLen sl - k) (sl_data sl') = drop k (slice_bytes sl)"
proof (cases "k = 0")
  case True
  then show ?thesis using adjustSlices_whole [of pre "sl # post"] assms(1) by (simp add: slice_bytes_def)
next
  case False
  then show ?thesis using adjustSlices_within [of pre k sl post] assms
    by (auto simp: slice_bytes_def drop_take min_def)
qed

theorem adjustSlices_spec_witness:
  "\<exists>sl'. adjustSlices 3 [\<lparr>sl_data = ''ab'', sl_dataLen = 2, sl_len = 2\<rparr>, \<lparr>sl_data = ''cde'', sl_dataLen = 3, sl_len = 3\<rparr>] = Inr [sl'] \<and>
     sl_dataLen sl' = 3 \<and> take 2 (sl_data sl') = ''de''"
  using adjustSlices_spec [of "[\<lparr>sl_data = ''ab'', sl_dataLen = 2, sl_len = 2\<rparr>]" "\<lparr>sl_data = ''cde'', sl_dataLen = 3, sl_len = 3\<rparr>" "[]" 1]
  by (auto simp: slice_bytes_def)

end
