(* ===== verification/Tarsx_Monitor.thy ===== *)
theory Tarsx_Monitor
  imports Tarsx_Prelude
begin

text \<open>
  The locking layer: \<open>Mutex\<close> (an error-checking pthread mutex), \<open>Condition\<close>, \<open>Monitor\<close> (also
  called \<open>ThreadLock\<close>) and the scoped \<open>Lock\<close>. A monitor counts the \<open>notify()\<close> calls made while
  it is held and delivers them when it is released. Threads are numbers; the threads blocked in
  \<open>pthread_cond_wait\<close> and those woken but not yet running are part of the state, and which
  waiting thread a signal wakes is left open.
\<close>

type_synonym tid = nat

section \<open>Mutex\<close>

definition EPERM :: int where "EPERM = 1"
definition EBUSY :: int where "EBUSY = 16"
definition EINVAL :: int where "EINVAL = 22"
definition EDEADLK :: int where "EDEADLK = 35"
definition ETIMEDOUT :: int where "ETIMEDOUT = 110"

lemmas errno_defs = EPERM_def EBUSY_def EINVAL_def EDEADLK_def ETIMEDOUT_def

text \<open>The pthread calls on a mutex of type \<open>PTHREAD_MUTEX_ERRORCHECK\<close> with a given owner: the
  return code and the new owner; \<open>None\<close> when the call blocks.\<close>

definition pthread_mutex_lock :: "tid \<Rightarrow> tid option \<Rightarrow> (int \<times> tid option) option" where
  "pthread_mutex_lock t owner =
     (case owner of None \<Rightarrow> Some (0, Some t)
      | Some u \<Rightarrow> if u = t then Some (EDEADLK, owner) else None)"

definition pthread_mutex_trylock :: "tid \<Rightarrow> tid option \<Rightarrow> int \<times> tid option" where
  "pthread_mutex_trylock t owner = (if owner = None then (0, Some t) else (EBUSY, owner))"

definition pthread_mutex_unlock :: "tid \<Rightarrow> tid option \<Rightarrow> int \<times> tid option" where
  "pthread_mutex_unlock t owner = (if owner = Some t then (0, None) else (EPERM, owner))"

definition Mutex_lock :: "tid \<Rightarrow> tid option \<Rightarrow> tid option option result" where
  "Mutex_lock t owner =
     (case pthread_mutex_lock t owner of
        None \<Rightarrow> Inr None
      | Some (rc, owner') \<Rightarrow> if rc \<noteq> 0 then Inl Fatal else Inr (Some owner'))"

definition Mutex_tryLock :: "tid \<Rightarrow> tid option \<Rightarrow> (bool \<times> tid option) result" where
  "Mutex_tryLock t owner =
     (let (rc, owner') = pthread_mutex_trylock t owner in
      if rc \<noteq> 0 \<and> rc \<noteq> EBUSY then Inl Fatal else Inr (rc = 0, owner'))"

definition Mutex_unlock :: "tid \<Rightarrow> tid option \<Rightarrow> tid option result" where
  "Mutex_unlock t owner =
     (let (rc, owner') = pthread_mutex_unlock t owner in
      if rc \<noteq> 0 then Inl Fatal else Inr owner')"

text \<open>The constructor, from the return codes of its four pthread calls, and the destructor:
  \<open>pthread_mutex_destroy\<close> refuses a mutex that is held.\<close>

definition Mutex_new :: "int list \<Rightarrow> tid option result" where
  "Mutex_new rcs = bindE (assertE (list_all (\<lambda>rc. rc = 0) rcs)) (\<lambda>_. Inr None)"

definition pthread_mutex_destroy :: "tid option \<Rightarrow> int" where
  "pthread_mutex_destroy owner = (if owner = None then 0 else EBUSY)"

definition Mutex_destroy :: "tid option \<Rightarrow> unit result" where
  "Mutex_destroy owner = (if pthread_mutex_destroy owner \<noteq> 0 then Inl Fatal else Inr ())"

section \<open>Condition\<close>

datatype cond_op = Signal | Broadcast

text \<open>Which threads still wait after some signals and broadcasts: a signal wakes one waiting
  thread, any of them, and is lost when none waits.\<close>

inductive cond_run :: "cond_op list \<Rightarrow> tid set \<Rightarrow> tid set \<Rightarrow> bool" where
  cr_done: "cond_run [] w w"
| cr_lost: "cond_run ops {} w' \<Longrightarrow> cond_run (Signal # ops) {} w'"
| cr_wake: "t \<in> w \<Longrightarrow> cond_run ops (w - {t}) w' \<Longrightarrow> cond_run (Signal # ops) w w'"
| cr_all: "cond_run ops {} w' \<Longrightarrow> cond_run (Broadcast # ops) w w'"

inductive_cases cond_run_NilE: "cond_run [] w w'"
inductive_cases cond_run_SignalE: "cond_run (Signal # ops) w w'"
inductive_cases cond_run_BroadcastE: "cond_run (Broadcast # ops) w w'"

text \<open>\<open>Condition::abstime\<close>: the absolute deadline of a wait of some milliseconds, from the
  \<open>gettimeofday\<close> reading, as seconds and nanoseconds. The microseconds are taken with the
  bitwise \<open>&\<close>, as the source has it.\<close>

definition Condition_abstime :: "int \<times> int \<Rightarrow> int \<Rightarrow> int \<times> int" where
  "Condition_abstime tv millsecond =
     (let it = fst tv * 1000000 + millsecond * 1000 + snd tv in
      (it div 1000000, and it 1000000 * 1000))"

text \<open>What \<open>timedWait\<close> makes of the return code of \<open>pthread_cond_timedwait\<close>.\<close>

definition Condition_timedWait :: "int \<Rightarrow> bool result" where
  "Condition_timedWait rc =
     (if rc \<noteq> 0 then (if rc = 22 then Inr False else if rc \<noteq> ETIMEDOUT then Inl Fatal else Inr False)
      else Inr True)"

definition Condition_wait :: "int \<Rightarrow> unit result" where
  "Condition_wait rc = (if rc \<noteq> 0 then Inl Fatal else Inr ())"

text \<open>The other operations, from the return codes of the pthread calls they make.\<close>

definition Condition_new :: "int list \<Rightarrow> unit result" where
  "Condition_new rcs = (if list_all (\<lambda>rc. rc = 0) rcs then Inr () else Inl Fatal)"

definition Condition_destroy :: "int \<Rightarrow> unit result" where
  "Condition_destroy rc = (if rc \<noteq> 0 then Inl Fatal else Inr ())"

definition Condition_signal :: "int \<Rightarrow> cond_op result" where
  "Condition_signal rc = (if rc \<noteq> 0 then Inl Fatal else Inr Signal)"

definition Condition_broadcast :: "int \<Rightarrow> cond_op result" where
  "Condition_broadcast rc = (if rc \<noteq> 0 then Inl Fatal else Inr Broadcast)"

section \<open>Monitor\<close>

record Monitor =
  mon_notify :: int
  mon_owner :: "tid option"
  mon_waiting :: "tid set"
  mon_woken :: "tid set"

definition Monitor_new :: Monitor where
  "Monitor_new = \<lparr>mon_notify = 0, mon_owner = None, mon_waiting = {}, mon_woken = {}\<rparr>"

definition Monitor_notifyImpl :: "int \<Rightarrow> cond_op list" where
  "Monitor_notifyImpl notify =
     (if notify \<noteq> 0 then (if notify = -1 then [Broadcast] else replicate (nat notify) Signal) else [])"

definition Monitor_lock :: "tid \<Rightarrow> Monitor \<Rightarrow> Monitor option result" where
  "Monitor_lock t m =
     bindE (Mutex_lock t (mon_owner m)) (\<lambda>r.
     Inr (map_option (\<lambda>owner. m\<lparr>mon_owner := owner, mon_notify := 0\<rparr>) r))"

definition Monitor_tryLock :: "tid \<Rightarrow> Monitor \<Rightarrow> (bool \<times> Monitor) result" where
  "Monitor_tryLock t m =
     bindE (Mutex_tryLock t (mon_owner m)) (\<lambda>(ok, owner).
     Inr (ok, if ok then m\<lparr>mon_owner := owner, mon_notify := 0\<rparr> else m\<lparr>mon_owner := owner\<rparr>))"

text \<open>\<open>unlock\<close>: the condition-variable calls it makes, and the released monitor.\<close>

definition Monitor_unlock :: "tid \<Rightarrow> Monitor \<Rightarrow> (cond_op list \<times> Monitor) result" where
  "Monitor_unlock t m =
     bindE (Mutex_unlock t (mon_owner m)) (\<lambda>owner.
     Inr (Monitor_notifyImpl (mon_notify m), m\<lparr>mon_owner := owner\<rparr>))"

text \<open>\<open>wait\<close> and \<open>timedWait\<close>, up to the point where \<open>pthread_cond_wait\<close> has released the mutex
  and blocked, and from the point where it has taken the mutex again.\<close>

definition Monitor_wait_enter :: "tid \<Rightarrow> Monitor \<Rightarrow> (cond_op list \<times> Monitor) result" where
  "Monitor_wait_enter t m =
     bindE (Mutex_unlock t (mon_owner m)) (\<lambda>owner.
     Inr (Monitor_notifyImpl (mon_notify m), m\<lparr>mon_owner := owner\<rparr>))"

definition Monitor_wait_exit :: "tid \<Rightarrow> Monitor \<Rightarrow> Monitor" where
  "Monitor_wait_exit t m = m\<lparr>mon_owner := Some t, mon_notify := 0\<rparr>"

definition Monitor_notify :: "Monitor \<Rightarrow> Monitor" where
  "Monitor_notify m = (if mon_notify m \<noteq> -1 then m\<lparr>mon_notify := mon_notify m + 1\<rparr> else m)"

definition Monitor_notifyAll :: "Monitor \<Rightarrow> Monitor" where
  "Monitor_notifyAll m = m\<lparr>mon_notify := -1\<rparr>"

section \<open>Threads on a monitor\<close>

text \<open>Delivering condition-variable calls: the threads that no longer wait are woken.\<close>

definition deliver :: "tid set \<Rightarrow> Monitor \<Rightarrow> Monitor" where
  "deliver w' m = m\<lparr>mon_waiting := w', mon_woken := mon_woken m \<union> (mon_waiting m - w')\<rparr>"

definition idle :: "tid \<Rightarrow> Monitor \<Rightarrow> bool" where
  "idle t m \<longleftrightarrow> t \<notin> mon_waiting m \<and> t \<notin> mon_woken m"

inductive mon_step :: "Monitor \<Rightarrow> Monitor \<Rightarrow> bool" where
  lock: "idle t m \<Longrightarrow> Monitor_lock t m = Inr (Some m') \<Longrightarrow> mon_step m m'"
| try_lock: "idle t m \<Longrightarrow> Monitor_tryLock t m = Inr (ok, m') \<Longrightarrow> mon_step m m'"
| notify: "mon_owner m = Some t \<Longrightarrow> mon_step m (Monitor_notify m)"
| notify_all: "mon_owner m = Some t \<Longrightarrow> mon_step m (Monitor_notifyAll m)"
| unlock: "Monitor_unlock t m = Inr (ops, m1) \<Longrightarrow> cond_run ops (mon_waiting m1) w' \<Longrightarrow>
    mon_step m (deliver w' m1)"
| wait: "Monitor_wait_enter t m = Inr (ops, m1) \<Longrightarrow> cond_run ops (mon_waiting m1) w' \<Longrightarrow>
    mon_step m ((deliver w' m1)\<lparr>mon_waiting := insert t w'\<rparr>)"
| expire: "t \<in> mon_waiting m \<Longrightarrow> mon_step m (deliver (mon_waiting m - {t}) m)"
| resume: "t \<in> mon_woken m \<Longrightarrow> mon_owner m = None \<Longrightarrow>
    mon_step m ((Monitor_wait_exit t m)\<lparr>mon_woken := mon_woken m - {t}\<rparr>)"

inductive mon_reach :: "Monitor \<Rightarrow> bool" where
  init: "mon_reach Monitor_new"
| step: "mon_reach m \<Longrightarrow> mon_step m m' \<Longrightarrow> mon_reach m'"

definition mon_inv :: "Monitor \<Rightarrow> bool" where
  "mon_inv m \<longleftrightarrow>
     -1 \<le> mon_notify m \<and> finite (mon_waiting m) \<and> (\<forall>t \<in> mon_waiting m. t \<notin> mon_woken m) \<and>
     (\<forall>t. mon_owner m = Some t \<longrightarrow> idle t m)"

lemma cond_run_subset: "cond_run ops w w' \<Longrightarrow> w' \<subseteq> w"
  by (induction rule: cond_run.induct) auto

lemma cond_run_broadcast: "cond_run [Broadcast] w w' \<longleftrightarrow> w' = {}"
  by (auto elim!: cond_run_BroadcastE cond_run_NilE intro: cond_run.intros)

lemma cond_run_signals:
  "finite w \<Longrightarrow> cond_run (replicate n Signal) w w' \<Longrightarrow> card w' = card w - n"
proof (induction n arbitrary: w)
  case 0
  then show ?case by (auto elim: cond_run_NilE)
next
  case (Suc n)
  from Suc.prems(2) show ?case
    by (auto elim!: cond_run_SignalE dest: Suc.IH [rotated] simp: Suc.prems(1))
qed

lemma Mutex_unlock_Inr: "Mutex_unlock t owner = Inr owner' \<longleftrightarrow> owner = Some t \<and> owner' = None"
  by (auto simp: Mutex_unlock_def pthread_mutex_unlock_def errno_defs)

lemma Mutex_lock_Inr_Some: "Mutex_lock t owner = Inr (Some owner') \<longleftrightarrow> owner = None \<and> owner' = Some t"
  by (auto simp: Mutex_lock_def pthread_mutex_lock_def errno_defs split: option.splits)

lemma Mutex_tryLock_Inr:
  "Mutex_tryLock t owner = Inr (ok, owner') \<longleftrightarrow>
     (if owner = None then ok \<and> owner' = Some t else \<not> ok \<and> owner' = owner)"
  by (auto simp: Mutex_tryLock_def pthread_mutex_trylock_def errno_defs)

lemmas mutex_simps = Mutex_unlock_Inr Mutex_lock_Inr_Some Mutex_tryLock_Inr
lemmas monitor_defs = Monitor_lock_def Monitor_tryLock_def Monitor_unlock_def Monitor_wait_enter_def
  Monitor_wait_exit_def Monitor_notify_def Monitor_notifyAll_def deliver_def idle_def

lemma mon_step_inv: "mon_step m m' \<Longrightarrow> mon_inv m \<Longrightarrow> mon_inv m'"
proof (induction rule: mon_step.induct)
  case (unlock t m ops m1 w')
  then show ?case using cond_run_subset [OF unlock(2)] finite_subset [OF cond_run_subset [OF unlock(2)]]
    by (auto simp: mon_inv_def monitor_defs mutex_simps result_simps)
next
  case (wait t m ops m1 w')
  then show ?case using cond_run_subset [OF wait(2)] finite_subset [OF cond_run_subset [OF wait(2)]]
    by (auto simp: mon_inv_def monitor_defs mutex_simps result_simps)
qed (auto simp: mon_inv_def monitor_defs mutex_simps result_simps split: if_splits)

lemma mon_reach_inv: "mon_reach m \<Longrightarrow> mon_inv m"
proof (induction rule: mon_reach.induct)
  case init
  show ?case by (simp add: mon_inv_def Monitor_new_def)
next
  case (step m m')
  then show ?case by (blast intro: mon_step_inv)
qed

lemma Monitor_lock_self: "mon_owner m = Some t \<Longrightarrow> Monitor_lock t m = Inl Fatal"
  by (simp add: Monitor_lock_def Mutex_lock_def pthread_mutex_lock_def errno_defs)

lemma and_1000000_le: "0 \<le> x \<Longrightarrow> 0 \<le> and x 1000000 \<and> and x 1000000 \<le> (1000000 :: int)"
  by (simp add: AND_upper2')

section \<open>The scoped lock\<close>

text \<open>\<open>Lock\<close>: \<open>acquired_\<close> records whether this object holds the monitor. The constructor and
  \<open>acquire\<close> block while another thread holds it (\<open>None\<close>); acquiring twice or releasing what is
  not held is a fatal log line.\<close>

definition Lock_new :: "tid \<Rightarrow> Monitor \<Rightarrow> (bool \<times> Monitor) option result" where
  "Lock_new t m = bindE (Monitor_lock t m) (\<lambda>r. Inr (map_option (Pair True) r))"

definition Lock_acquire :: "tid \<Rightarrow> bool \<Rightarrow> Monitor \<Rightarrow> (bool \<times> Monitor) option result" where
  "Lock_acquire t acquired m =
     (if acquired then Inl Fatal
      else bindE (Monitor_lock t m) (\<lambda>r. Inr (map_option (Pair True) r)))"

definition Lock_tryAcquire :: "tid \<Rightarrow> Monitor \<Rightarrow> (bool \<times> Monitor) result" where
  "Lock_tryAcquire t m = Monitor_tryLock t m"

definition Lock_release :: "tid \<Rightarrow> bool \<Rightarrow> Monitor \<Rightarrow> (cond_op list \<times> bool \<times> Monitor) result" where
  "Lock_release t acquired m =
     (if \<not> acquired then Inl Fatal
      else bindE (Monitor_unlock t m) (\<lambda>(ops, m'). Inr (ops, False, m')))"

definition Lock_destroy :: "tid \<Rightarrow> bool \<Rightarrow> Monitor \<Rightarrow> (cond_op list \<times> Monitor) result" where
  "Lock_destroy t acquired m = (if acquired then Monitor_unlock t m else Inr ([], m))"

text \<open>A critical section \<open>{ Lock lock(m); ... }\<close> whose body makes \<open>k\<close> calls of \<open>notify\<close>: the
  calls reach the condition variable when the scope ends, and not before.\<close>

lemma Lock_scope:
  assumes "mon_owner m = None"
  shows "\<exists>m1. Lock_new t m = Inr (Some (True, m1)) \<and>
           Lock_destroy t True ((Monitor_notify ^^ k) m1) =
             Inr (replicate k Signal, m\<lparr>mon_owner := None, mon_notify := int k\<rparr>)"
proof -
  let ?m = "m\<lparr>mon_owner := Some t, mon_notify := 0\<rparr>"
  have "Monitor_lock t m = Inr (Some ?m)"
    using assms by (simp add: Monitor_lock_def Mutex_lock_def pthread_mutex_lock_def)
  moreover have n: "(Monitor_notify ^^ k) ?m = m\<lparr>mon_owner := Some t, mon_notify := int k\<rparr>"
    by (induction k) (simp_all add: Monitor_notify_def add.commute)
  ultimately show ?thesis
    by (simp add: Lock_new_def Lock_destroy_def Monitor_unlock_def Mutex_unlock_def
          pthread_mutex_unlock_def Monitor_notifyImpl_def)
qed

section \<open>Properties\<close>


text \<open>Thread 1 waits, thread 2 holds the monitor and has called \<open>notify()\<close> once.\<close>

definition sample_monitor :: Monitor where
  "sample_monitor = \<lparr>mon_notify = 1, mon_owner = Some 2, mon_waiting = {1}, mon_woken = {}\<rparr>"

lemma sample_monitor_reach: "mon_reach sample_monitor"
proof -
  let ?a = "\<lparr>mon_notify = 0, mon_owner = Some 1, mon_waiting = {}, mon_woken = {}\<rparr>"
  let ?b = "\<lparr>mon_notify = 0, mon_owner = None, mon_waiting = {1}, mon_woken = {}\<rparr>"
  let ?c = "\<lparr>mon_notify = 0, mon_owner = Some 2, mon_waiting = {1}, mon_woken = {}\<rparr>"
  have s1: "mon_step Monitor_new ?a"
    by (rule mon_step.lock [of 1])
       (simp_all add: idle_def Monitor_new_def Monitor_lock_def Mutex_lock_def pthread_mutex_lock_def)
  have s2: "mon_step ?a ?b"
    using mon_step.wait [of 1 ?a "[]" "?a\<lparr>mon_owner := None\<rparr>" "{}"]
    by (simp add: Monitor_wait_enter_def Mutex_unlock_def pthread_mutex_unlock_def
          Monitor_notifyImpl_def deliver_def cond_run.cr_done)
  have s3: "mon_step ?b ?c"
    by (rule mon_step.lock [of 2])
       (simp_all add: idle_def Monitor_lock_def Mutex_lock_def pthread_mutex_lock_def)
  have s4: "mon_step ?c sample_monitor"
    using mon_step.notify [of ?c 2] by (simp add: Monitor_notify_def sample_monitor_def)
  show ?thesis
    by (rule mon_reach.step [OF mon_reach.step [OF mon_reach.step [OF mon_reach.step [OF mon_reach.init s1] s2] s3] s4])
qed


text \<open>The deadline \<open>abstime\<close> computes has the right second, a fraction between 0 and one whole
  second, and so lies within one second of the requested one.\<close>

theorem Condition_abstime_within_second:
  assumes "0 \<le> sec" and "0 \<le> usec" and "0 \<le> ms"
  shows "let (s, ns) = Condition_abstime (sec, usec) ms; us = sec * 1000000 + ms * 1000 + usec in
         s = us div 1000000 \<and> 0 \<le> ns \<and> ns \<le> 1000000000 \<and>
         \<bar>(s * 1000000000 + ns) - us * 1000\<bar> \<le> 1000000000"
proof -
  define us where "us = sec * 1000000 + ms * 1000 + usec"
  have "us = (us div 1000000) * 1000000 + us mod 1000000" by simp
  moreover have "0 \<le> us mod 1000000" "us mod 1000000 < 1000000" by simp_all
  moreover have "0 \<le> and us 1000000 \<and> and us 1000000 \<le> 1000000"
    using assms by (intro and_1000000_le) (simp add: us_def)
  ultimately have "0 \<le> and us 1000000 * 1000 \<and> and us 1000000 * 1000 \<le> 1000000000 \<and>
      \<bar>(us div 1000000 * 1000000000 + and us 1000000 * 1000) - us * 1000\<bar> \<le> 1000000000"
    by linarith
  then show ?thesis by (simp add: Condition_abstime_def Let_def us_def)
qed

theorem Condition_abstime_within_second_witness:
  "let (s, ns) = Condition_abstime (5, 20) 3; us = 5 * 1000000 + 3 * 1000 + 20 in
   s = us div 1000000 \<and> 0 \<le> ns \<and> ns \<le> 1000000000 \<and>
   \<bar>(s * 1000000000 + ns) - us * 1000\<bar> \<le> 1000000000"
  using Condition_abstime_within_second [of 5 20 3] by simp


end
