(* ===== verification/Tarsx_ThreadDeque.thy ===== *)
theory Tarsx_ThreadDeque
  imports Tarsx_Monitor
begin

text \<open>
  \<open>tarsx::ThreadDeque<T, D>\<close> (\<open>ThreadDeque.hpp\<close>): the locked deque between threads. It carries
  received messages from the network thread to the servant threads, responses back, and the ids
  of coroutines to wake. Every member function holds the monitor for its whole body, so it is
  one atomic step here; each returns the number of \<open>notify()\<close> calls it makes, which the monitor
  delivers when the scope ends (\<open>Lock_scope\<close>). The contract is the interface \<open>transfer_queue\<close>.
\<close>

section \<open>State and operations\<close>

record 'a ThreadDeque =
  td_deque :: "'a list"
  td_size :: nat

definition ThreadDeque_new :: "'a ThreadDeque" where
  "ThreadDeque_new = \<lparr>td_deque = [], td_size = 0\<rparr>"

text \<open>What a call that may wait does: returns at once, waits without limit, or waits a given
  time; after either wait the operation returns without looking at the deque again.\<close>

datatype wait_kind = NoWait | WaitForever | WaitFor u64

definition wait_of :: "u64 \<Rightarrow> wait_kind" where
  "wait_of millsecond =
     (if millsecond = 0 then NoWait else if millsecond = -1 then WaitForever else WaitFor millsecond)"

text \<open>\<open>pop_front\<close>: \<open>None\<close> is the \<open>nullptr\<close> it returns on an empty deque, waited or not.\<close>

definition ThreadDeque_pop_front ::
    "u64 \<Rightarrow> 'a ThreadDeque \<Rightarrow> (wait_kind \<times> 'a option \<times> 'a ThreadDeque) result" where
  "ThreadDeque_pop_front millsecond d =
     (case td_deque d of
        [] \<Rightarrow> Inr (wait_of millsecond, None, d)
      | front # rest \<Rightarrow>
          bindE (assertE (0 < td_size d)) (\<lambda>_.
          Inr (NoWait, Some front, d\<lparr>td_deque := rest, td_size := td_size d - 1\<rparr>)))"

definition ThreadDeque_push_back :: "'a \<Rightarrow> 'a ThreadDeque \<Rightarrow> nat \<times> 'a ThreadDeque" where
  "ThreadDeque_push_back x d = (1, d\<lparr>td_deque := td_deque d @ [x], td_size := Suc (td_size d)\<rparr>)"

fun ThreadDeque_push_back_all :: "'a list \<Rightarrow> 'a ThreadDeque \<Rightarrow> nat \<times> 'a ThreadDeque" where
  "ThreadDeque_push_back_all [] d = (0, d)"
| "ThreadDeque_push_back_all (x # xs) d =
     (let (n, d') = ThreadDeque_push_back_all xs
             (d\<lparr>td_deque := td_deque d @ [x], td_size := Suc (td_size d)\<rparr>)
      in (Suc n, d'))"

definition ThreadDeque_push_front :: "'a \<Rightarrow> 'a ThreadDeque \<Rightarrow> nat \<times> 'a ThreadDeque" where
  "ThreadDeque_push_front x d = (1, d\<lparr>td_deque := x # td_deque d, td_size := Suc (td_size d)\<rparr>)"

fun ThreadDeque_push_front_all :: "'a list \<Rightarrow> 'a ThreadDeque \<Rightarrow> nat \<times> 'a ThreadDeque" where
  "ThreadDeque_push_front_all [] d = (0, d)"
| "ThreadDeque_push_front_all (x # xs) d =
     (let (n, d') = ThreadDeque_push_front_all xs
             (d\<lparr>td_deque := x # td_deque d, td_size := Suc (td_size d)\<rparr>)
      in (Suc n, d'))"

text \<open>\<open>swap\<close>: the flag, the caller's deque afterwards, and the state.\<close>

definition ThreadDeque_swap ::
    "'a list \<Rightarrow> u64 \<Rightarrow> 'a ThreadDeque \<Rightarrow> wait_kind \<times> bool \<times> 'a list \<times> 'a ThreadDeque" where
  "ThreadDeque_swap deque millsecond d =
     (if td_deque d = [] then (wait_of millsecond, False, deque, d)
      else (NoWait, True, td_deque d, d\<lparr>td_deque := deque, td_size := length deque\<rparr>))"

definition ThreadDeque_clear :: "'a ThreadDeque \<Rightarrow> 'a ThreadDeque" where
  "ThreadDeque_clear d = d\<lparr>td_deque := [], td_size := 0\<rparr>"

definition ThreadDeque_empty :: "'a ThreadDeque \<Rightarrow> bool" where
  "ThreadDeque_empty d \<longleftrightarrow> td_deque d = []"

definition ThreadDeque_inv :: "'a ThreadDeque \<Rightarrow> bool" where
  "ThreadDeque_inv d \<longleftrightarrow> td_size d = length (td_deque d)"

section \<open>What the operations do\<close>

lemma ThreadDeque_new_inv [simp]: "ThreadDeque_inv ThreadDeque_new" "td_deque ThreadDeque_new = []"
  by (simp_all add: ThreadDeque_inv_def ThreadDeque_new_def)

lemma ThreadDeque_push_back_all_eq:
  "ThreadDeque_push_back_all xs d =
     (length xs, d\<lparr>td_deque := td_deque d @ xs, td_size := td_size d + length xs\<rparr>)"
  by (induction xs arbitrary: d) simp_all

lemma ThreadDeque_push_front_all_eq:
  "ThreadDeque_push_front_all xs d =
     (length xs, d\<lparr>td_deque := rev xs @ td_deque d, td_size := td_size d + length xs\<rparr>)"
  by (induction xs arbitrary: d) simp_all

lemma ThreadDeque_pop_front_ok:
  assumes "ThreadDeque_inv d"
  shows "ThreadDeque_pop_front ms d =
     Inr (case td_deque d of
            [] \<Rightarrow> (wait_of ms, None, d)
          | x # xs \<Rightarrow> (NoWait, Some x, d\<lparr>td_deque := xs, td_size := length xs\<rparr>))"
  using assms by (auto simp: ThreadDeque_pop_front_def ThreadDeque_inv_def split: list.splits)

lemma ThreadDeque_inv_preserved:
  assumes "ThreadDeque_inv d"
  shows "ThreadDeque_inv (snd (ThreadDeque_push_back x d))"
    and "ThreadDeque_inv (snd (ThreadDeque_push_back_all xs d))"
    and "ThreadDeque_inv (snd (ThreadDeque_push_front x d))"
    and "ThreadDeque_inv (snd (ThreadDeque_push_front_all xs d))"
    and "ThreadDeque_inv (snd (snd (snd (ThreadDeque_swap xs ms d))))"
    and "ThreadDeque_inv (ThreadDeque_clear d)"
    and "ThreadDeque_pop_front ms d = Inr (w, r, d') \<Longrightarrow> ThreadDeque_inv d'"
  using assms
  by (auto simp: ThreadDeque_inv_def ThreadDeque_push_back_def ThreadDeque_push_front_def
        ThreadDeque_push_back_all_eq ThreadDeque_push_front_all_eq ThreadDeque_swap_def
        ThreadDeque_clear_def ThreadDeque_pop_front_def split: list.splits)

section \<open>The interface: handing batches over\<close>

text \<open>Producers append single elements or batches, the consumer takes everything at once
  (\<open>swap\<close> with an empty deque) or one element.\<close>

datatype 'a transfer_op = Put 'a | PutAll "'a list" | Take | TakeAll

fun puts :: "'a transfer_op list \<Rightarrow> 'a list" where
  "puts [] = []"
| "puts (Put x # ops) = x # puts ops"
| "puts (PutAll xs # ops) = xs @ puts ops"
| "puts (Take # ops) = puts ops"
| "puts (TakeAll # ops) = puts ops"

fun transfer_run ::
    "('a \<Rightarrow> 'q \<Rightarrow> 'q) \<Rightarrow> ('a list \<Rightarrow> 'q \<Rightarrow> 'q) \<Rightarrow> ('q \<Rightarrow> 'a list \<times> 'q) \<Rightarrow> ('q \<Rightarrow> 'a list \<times> 'q) \<Rightarrow>
     'a transfer_op list \<Rightarrow> 'q \<Rightarrow> 'a list \<times> 'q" where
  "transfer_run put putAll takeOne takeAll [] q = ([], q)"
| "transfer_run put putAll takeOne takeAll (Put x # ops) q =
     transfer_run put putAll takeOne takeAll ops (put x q)"
| "transfer_run put putAll takeOne takeAll (PutAll xs # ops) q =
     transfer_run put putAll takeOne takeAll ops (putAll xs q)"
| "transfer_run put putAll takeOne takeAll (Take # ops) q =
     (let (xs, q1) = takeOne q; (ys, q2) = transfer_run put putAll takeOne takeAll ops q1 in (xs @ ys, q2))"
| "transfer_run put putAll takeOne takeAll (TakeAll # ops) q =
     (let (xs, q1) = takeAll q; (ys, q2) = transfer_run put putAll takeOne takeAll ops q1 in (xs @ ys, q2))"

locale transfer_queue =
  fixes invar :: "'q \<Rightarrow> bool"
    and items :: "'q \<Rightarrow> 'a list"
    and put :: "'a \<Rightarrow> 'q \<Rightarrow> 'q"
    and putAll :: "'a list \<Rightarrow> 'q \<Rightarrow> 'q"
    and takeOne :: "'q \<Rightarrow> 'a list \<times> 'q"
    and takeAll :: "'q \<Rightarrow> 'a list \<times> 'q"
  assumes put_law: "invar q \<Longrightarrow> invar (put x q) \<and> items (put x q) = items q @ [x]"
    and putAll_law: "invar q \<Longrightarrow> invar (putAll xs q) \<and> items (putAll xs q) = items q @ xs"
    and takeOne_law: "invar q \<Longrightarrow> takeOne q = (xs, q') \<Longrightarrow>
      invar q' \<and> items q = xs @ items q' \<and> length xs = min 1 (length (items q))"
    and takeAll_law: "invar q \<Longrightarrow> takeAll q = (xs, q') \<Longrightarrow> invar q' \<and> xs = items q \<and> items q' = []"
begin

text \<open>Nothing is lost, duplicated or reordered, whatever the interleaving.\<close>

lemma run_exactly_once:
  "invar q \<Longrightarrow> transfer_run put putAll takeOne takeAll ops q = (out, q') \<Longrightarrow>
   invar q' \<and> out @ items q' = items q @ puts ops"
proof (induction ops arbitrary: q out q')
  case Nil
  then show ?case by simp
next
  case (Cons op ops)
  show ?case
  proof (cases op)
    case (Put x)
    with put_law [OF Cons.prems(1), of x] Cons.IH [of "put x q" out q'] Cons.prems show ?thesis by simp
  next
    case (PutAll xs)
    with putAll_law [OF Cons.prems(1), of xs] Cons.IH [of "putAll xs q" out q'] Cons.prems show ?thesis by simp
  next
    case Take
    obtain xs q1 where t: "takeOne q = (xs, q1)" by (cases "takeOne q")
    obtain ys q2 where r: "transfer_run put putAll takeOne takeAll ops q1 = (ys, q2)"
      by (cases "transfer_run put putAll takeOne takeAll ops q1")
    have o: "out = xs @ ys" "q' = q2" using Take Cons.prems(2) t r by simp_all
    have "invar q2 \<and> ys @ items q2 = items q1 @ puts ops"
      by (rule Cons.IH [OF _ r]) (use takeOne_law [OF Cons.prems(1) t] in blast)
    with takeOne_law [OF Cons.prems(1) t] o Take show ?thesis by (metis append.assoc puts.simps(4))
  next
    case TakeAll
    obtain xs q1 where t: "takeAll q = (xs, q1)" by (cases "takeAll q")
    obtain ys q2 where r: "transfer_run put putAll takeOne takeAll ops q1 = (ys, q2)"
      by (cases "transfer_run put putAll takeOne takeAll ops q1")
    have o: "out = xs @ ys" "q' = q2" using TakeAll Cons.prems(2) t r by simp_all
    have "invar q2 \<and> ys @ items q2 = items q1 @ puts ops"
      by (rule Cons.IH [OF _ r]) (use takeAll_law [OF Cons.prems(1) t] in blast)
    with takeAll_law [OF Cons.prems(1) t] o TakeAll show ?thesis by (metis append.assoc append_Nil puts.simps(5))
  qed
qed

lemma take_after_put:
  assumes "invar q" and "items q = []" and "takeOne (put x q) = (xs, q')"
  shows "xs = [x]"
proof -
  from put_law [OF assms(1), of x] assms(2) have "invar (put x q)" "items (put x q) = [x]" by auto
  with takeOne_law [OF _ assms(3)] show ?thesis by (auto simp: Cons_eq_append_conv)
qed

end

text \<open>The calls as the clients make them: a polling \<open>pop_front(0)\<close> and a \<open>swap\<close> with an empty
  deque.\<close>

definition ThreadDeque_poll :: "'a ThreadDeque \<Rightarrow> 'a list \<times> 'a ThreadDeque" where
  "ThreadDeque_poll d =
     (case ThreadDeque_pop_front 0 d of Inr (_, Some x, d') \<Rightarrow> ([x], d') | _ \<Rightarrow> ([], d))"

definition ThreadDeque_drain :: "'a ThreadDeque \<Rightarrow> 'a list \<times> 'a ThreadDeque" where
  "ThreadDeque_drain d = (let (_, _, out, d') = ThreadDeque_swap [] 0 d in (out, d'))"

interpretation tdeque: transfer_queue ThreadDeque_inv td_deque
  "\<lambda>x d. snd (ThreadDeque_push_back x d)" "\<lambda>xs d. snd (ThreadDeque_push_back_all xs d)"
  ThreadDeque_poll ThreadDeque_drain
proof unfold_locales
  fix d d' :: "'a ThreadDeque" and x :: 'a and xs ys :: "'a list"
  assume inv: "ThreadDeque_inv d"
  show "ThreadDeque_inv (snd (ThreadDeque_push_back x d)) \<and>
      td_deque (snd (ThreadDeque_push_back x d)) = td_deque d @ [x]"
    using inv by (simp add: ThreadDeque_push_back_def ThreadDeque_inv_def)
  show "ThreadDeque_inv (snd (ThreadDeque_push_back_all xs d)) \<and>
      td_deque (snd (ThreadDeque_push_back_all xs d)) = td_deque d @ xs"
    using inv by (simp add: ThreadDeque_push_back_all_eq ThreadDeque_inv_def)
  show "ThreadDeque_inv d' \<and> td_deque d = ys @ td_deque d' \<and> length ys = min 1 (length (td_deque d))"
    if "ThreadDeque_poll d = (ys, d')"
    using that inv
    by (auto simp: ThreadDeque_poll_def ThreadDeque_pop_front_ok ThreadDeque_inv_def split: list.splits)
  show "ThreadDeque_inv d' \<and> ys = td_deque d \<and> td_deque d' = []" if "ThreadDeque_drain d = (ys, d')"
    using that inv
    by (auto simp: ThreadDeque_drain_def ThreadDeque_swap_def ThreadDeque_inv_def Let_def split: if_splits)
qed

section \<open>Properties\<close>

text \<open>C11. Whatever producers and the consumer do to a fresh deque, and in whatever order, the
  elements taken so far followed by those still inside are exactly the elements put in, in
  order: each is handed over exactly once.\<close>

theorem ThreadDeque_exactly_once:
  assumes "transfer_run (\<lambda>x d. snd (ThreadDeque_push_back x d))
             (\<lambda>xs d. snd (ThreadDeque_push_back_all xs d)) ThreadDeque_poll ThreadDeque_drain
             ops ThreadDeque_new = (out, d')"
  shows "out @ td_deque d' = puts ops \<and> td_size d' = length (td_deque d')"
  using tdeque.run_exactly_once [OF ThreadDeque_new_inv(1) assms] by (simp add: ThreadDeque_inv_def)

theorem ThreadDeque_exactly_once_witness:
  "[1, 2, 3] @ td_deque \<lparr>td_deque = [4 :: nat], td_size = 1\<rparr> =
     puts [Put 1, PutAll [2, 3], Take, TakeAll, Put 4] \<and>
   td_size \<lparr>td_deque = [4 :: nat], td_size = 1\<rparr> = length (td_deque \<lparr>td_deque = [4 :: nat], td_size = 1\<rparr>)"
  by (rule ThreadDeque_exactly_once)
     (simp add: ThreadDeque_push_back_def ThreadDeque_push_back_all_eq ThreadDeque_poll_def
        ThreadDeque_pop_front_def ThreadDeque_drain_def ThreadDeque_swap_def ThreadDeque_new_def Let_def)



end
