(* ===== verification/Tarsx_Server.thy ===== *)
theory Tarsx_Server
  imports Tarsx_Net Tarsx_Connection Tarsx_ThreadDeque
begin

text \<open>
  The network thread of a server: \<open>BindAdapter\<close> (the queue of received requests of one listening
  address) and \<open>NetThread\<close> (\<open>NetThread.h\<close>, \<open>NetThread.cc\<close>), the loop that accepts connections, cuts
  requests off them, hands those to the adapters and writes the responses. Adapters are shared
  objects and live in a store, referred to by number. Bytes to read, results of writes and peers of
  accepted connections come from the environment.
\<close>

unbundle bit_operations_syntax

section \<open>Adapters\<close>

text \<open>The handle group, a \<open>weak_ptr\<close>, is known by its name.\<close>

record BindAdapter =
  ba_name :: string
  ba_endpoint :: EndPoint
  ba_socket :: Socket
  ba_receiveBuffer :: "tagRecvData ThreadDeque"
  ba_handleGroup :: "string option"
  ba_handleGroupName :: string
  ba_handleNum :: int
  ba_heartBeatTime :: int

definition BindAdapter_new :: BindAdapter where
  "BindAdapter_new =
     \<lparr>ba_name = [], ba_endpoint = EndPoint_new, ba_socket = Socket_new, ba_receiveBuffer = ThreadDeque_new,
      ba_handleGroup = None, ba_handleGroupName = [], ba_handleNum = 0, ba_heartBeatTime = 0\<rparr>"

definition BindAdapter_set_endpoint :: "string \<Rightarrow> int \<Rightarrow> BindAdapter \<Rightarrow> BindAdapter" where
  "BindAdapter_set_endpoint host port a = a\<lparr>ba_endpoint := \<lparr>ep_host = host, ep_port = port\<rparr>\<rparr>"

text \<open>The flag says whether the monitor of the handle group is notified.\<close>

definition insertRecvDeque :: "tagRecvData list \<Rightarrow> bool \<Rightarrow> BindAdapter \<Rightarrow> bool \<times> BindAdapter" where
  "insertRecvDeque deque pushback a =
     (ba_handleGroup a \<noteq> None,
      a\<lparr>ba_receiveBuffer := snd (if pushback then ThreadDeque_push_back_all deque (ba_receiveBuffer a)
                                 else ThreadDeque_push_front_all deque (ba_receiveBuffer a))\<rparr>)"

definition waitForRecvQueue :: "u32 \<Rightarrow> BindAdapter \<Rightarrow> (tagRecvData option \<times> BindAdapter) result" where
  "waitForRecvQueue wait_time a =
     bindE (ThreadDeque_pop_front (ucast wait_time) (ba_receiveBuffer a)) (\<lambda>(_, r, d).
     Inr (r, a\<lparr>ba_receiveBuffer := d\<rparr>))"

section \<open>Surroundings\<close>

record World =
  w_kernel :: Kernel
  w_adapters :: "BindAdapter list"
  w_reads :: "int \<Rightarrow> read_result list"
  w_writes :: "int \<Rightarrow> write_result list"
  w_sent :: "int \<Rightarrow> string"
  w_notified :: "string list"
  w_peer :: "int \<Rightarrow> string \<times> u16"
  w_memory :: bool

definition deref :: "'a option \<Rightarrow> 'a result" where
  "deref p = (case p of None \<Rightarrow> Inl NullDeref | Some x \<Rightarrow> Inr x)"

lemma deref_simps [simp]: "deref None = Inl NullDeref" "deref (Some x) = Inr x"
  by (simp_all add: deref_def)

definition adapter_at :: "nat option \<Rightarrow> World \<Rightarrow> BindAdapter result" where
  "adapter_at p w = bindE (deref p) (\<lambda>i. if i < length (w_adapters w) then Inr (w_adapters w ! i) else Inl OutOfBounds)"

definition put_adapter :: "nat \<Rightarrow> BindAdapter \<Rightarrow> World \<Rightarrow> World" where
  "put_adapter i a w = w\<lparr>w_adapters := (w_adapters w)[i := a]\<rparr>"

definition adapter_insert :: "nat option \<Rightarrow> tagRecvData list \<Rightarrow> World \<Rightarrow> World result" where
  "adapter_insert p deque w =
     bindE (adapter_at p w) (\<lambda>a.
     let (notify, a') = insertRecvDeque deque True a in
     Inr ((put_adapter (the p) a' w)
            \<lparr>w_notified := w_notified w @ (if notify then [the (ba_handleGroup a)] else [])\<rparr>))"

section \<open>The network thread\<close>

text \<open>\<open>connectionUids_\<close> may hold null pointers: \<open>operator[]\<close> makes an entry for an unknown uid.
  \<open>freeSize_\<close> has no initial value in the source.\<close>

record NetThread =
  nt_epoller :: Epoller
  nt_shutdownSock :: Socket
  nt_notifySocket :: Socket
  nt_listenSocket :: Socket
  nt_connectionUids :: "u32 \<rightharpoonup> Connection option"
  nt_free :: "u32 list"
  nt_freeSize :: u64
  nt_sendBuffer :: "tagSendData ThreadDeque"
  nt_listeners :: "(int \<times> nat option) list"
  nt_terminate :: bool

definition ET_LISTEN :: int where "ET_LISTEN = 1"
definition ET_CLOSE :: int where "ET_CLOSE = 2"
definition ET_NOTIFY :: int where "ET_NOTIFY = 3"
definition ET_NET :: int where "ET_NET = 0"

lemmas et_consts = ET_LISTEN_def ET_CLOSE_def ET_NOTIFY_def ET_NET_def

definition H64 :: "int \<Rightarrow> u64" where
  "H64 x = push_bit 32 (word_of_int x)"

definition NetThread_new :: "u64 \<Rightarrow> Kernel \<Rightarrow> (NetThread \<times> Kernel) result" where
  "NetThread_new memory k =
     bindE (Socket_createSocket AF_INET Socket_new k) (\<lambda>(shutdown, k1).
     bindE (Socket_createSocket AF_INET Socket_new k1) (\<lambda>(notify, k2).
     Inr (\<lparr>nt_epoller = Epoller_new True, nt_shutdownSock = shutdown, nt_notifySocket = notify,
           nt_listenSocket = Socket_new, nt_connectionUids = Map.empty, nt_free = [], nt_freeSize = memory,
           nt_sendBuffer = ThreadDeque_new, nt_listeners = [], nt_terminate = False\<rparr>, k2)))"

definition NetThread_createEpoll :: "int \<Rightarrow> NetThread \<Rightarrow> Kernel \<Rightarrow> NetThread \<times> Kernel" where
  "NetThread_createEpoll number nt k =
     (let total = 2000;
          (ep, k1) = Epoller_create number (nt_epoller nt) k;
          k2 = Epoller_add (sk_fd (nt_shutdownSock nt)) (H64 ET_CLOSE) EPOLLIN ep k1;
          k3 = Epoller_add (sk_fd (nt_notifySocket nt)) (H64 ET_NOTIFY) EPOLLIN ep k2;
          lfd = sk_fd (nt_listenSocket nt);
          k4 = Epoller_add lfd (H64 ET_LISTEN OR word_of_int lfd) EPOLLIN ep k3;
          k5 = fold (\<lambda>(fd, _). Epoller_add fd (H64 ET_LISTEN OR word_of_int fd) EPOLLIN ep) (nt_listeners nt) k4
      in (nt\<lparr>nt_epoller := ep, nt_free := nt_free nt @ map of_nat [1..<Suc total],
             nt_freeSize := nt_freeSize nt + of_nat total\<rparr>, k5))"

text \<open>\<open>bind(end_point, socket)\<close> and \<open>bind(bind_adapter)\<close>; the resolver is a parameter.\<close>

definition bind_socket ::
    "(string \<Rightarrow> int \<times> u32) \<Rightarrow> (string \<Rightarrow> u32 option) \<Rightarrow> EndPoint \<Rightarrow> Socket \<Rightarrow> Kernel \<Rightarrow> (Socket \<times> Kernel) result" where
  "bind_socket pton byname end_point s k =
     bindE (Socket_createSocket AF_INET s k) (\<lambda>(s1, k1).
     bindE (Socket_bind pton byname (ep_host end_point) (ep_port end_point) s1 k1) (\<lambda>k2.
     bindE (Socket_set_keepAlive s1 (Socket_listen 100 s1 k2)) (\<lambda>k3.
     bindE (Socket_set_tcpNoDelay s1 k3) (\<lambda>k4.
     bindE (Socket_set_noCloseWait s1 k4) (\<lambda>k5.
     bindE (Socket_set_block False s1 k5) (\<lambda>k6. Inr (s1, k6)))))))"

definition set_listener :: "int \<Rightarrow> nat option \<Rightarrow> NetThread \<Rightarrow> NetThread" where
  "set_listener fd p nt = nt\<lparr>nt_listeners := filter (\<lambda>l. fst l \<noteq> fd) (nt_listeners nt) @ [(fd, p)]\<rparr>"

definition NetThread_bind ::
    "(string \<Rightarrow> int \<times> u32) \<Rightarrow> (string \<Rightarrow> u32 option) \<Rightarrow> nat \<Rightarrow> NetThread \<Rightarrow> World \<Rightarrow> (int \<times> NetThread \<times> World) result" where
  "NetThread_bind pton byname i nt w =
     bindE (adapter_at (Some i) w) (\<lambda>a.
     bindE (bind_socket pton byname (ba_endpoint a) (ba_socket a) (w_kernel w)) (\<lambda>(s, k).
     Inr (sk_fd s, set_listener (sk_fd s) (Some i) nt,
          (put_adapter i (a\<lparr>ba_socket := s\<rparr>) w)\<lparr>w_kernel := k\<rparr>)))"

definition addTConnection :: "Connection \<Rightarrow> NetThread \<Rightarrow> Kernel \<Rightarrow> (NetThread \<times> Kernel) result" where
  "addTConnection c nt k =
     (case nt_free nt of
        [] \<Rightarrow> Inl BadIterator
      | uid # rest \<Rightarrow>
          let c' = Connection_init uid c in
          Inr (nt\<lparr>nt_free := rest, nt_freeSize := nt_freeSize nt - 1,
                  nt_connectionUids := (nt_connectionUids nt)(uid \<mapsto> Some c')\<rparr>,
               Epoller_add (con_fd c') (ucast (con_uid c')) EPOLLIN (nt_epoller nt) k))"

text \<open>\<open>listeners_[listenfd]\<close>.\<close>

definition listener_of :: "int \<Rightarrow> NetThread \<Rightarrow> nat option \<times> NetThread" where
  "listener_of fd nt =
     (case map_of (nt_listeners nt) fd of Some p \<Rightarrow> (p, nt) | None \<Rightarrow> (None, set_listener fd None nt))"

definition NetThread_accept :: "int \<Rightarrow> NetThread \<Rightarrow> World \<Rightarrow> (bool \<times> NetThread \<times> World) result" where
  "NetThread_accept listenfd nt w =
     (let client0 = Socket_set_owner False Socket_new;
          (receive, k0) = Socket_init listenfd False AF_INET Socket_new (w_kernel w)
      in
      bindE (Socket_accept receive client0 k0) (\<lambda>(ret, client, k1).
      if 0 < ret then
        (let (ip, port) = w_peer w (sk_fd client) in
         bindE (Socket_set_block False client k1) (\<lambda>k2.
         bindE (Socket_set_keepAlive client k2) (\<lambda>k3.
         bindE (Socket_set_tcpNoDelay client k3) (\<lambda>k4.
         bindE (Socket_set_closeWaitDefault client k4) (\<lambda>k5.
         let (p, nt1) = listener_of listenfd nt in
         bindE (Connection_new (w_memory w) p listenfd (sk_fd client) ip port) (\<lambda>c.
         bindE (addTConnection c nt1 k5) (\<lambda>(nt2, k6). Inr (True, nt2, w\<lparr>w_kernel := k6\<rparr>))))))))
      else Inr (ret \<noteq> - EAGAIN, nt, w\<lparr>w_kernel := k1\<rparr>)))"

section \<open>Reading and writing connections\<close>

text \<open>\<open>connectionUids_[uid]\<close>, and the object behind a pointer of the map after a change.\<close>

definition conn_lookup :: "u32 \<Rightarrow> NetThread \<Rightarrow> Connection option \<times> NetThread" where
  "conn_lookup uid nt =
     (case nt_connectionUids nt uid of
        Some c \<Rightarrow> (c, nt)
      | None \<Rightarrow> (None, nt\<lparr>nt_connectionUids := (nt_connectionUids nt)(uid \<mapsto> None)\<rparr>))"

definition put_conn :: "Connection \<Rightarrow> NetThread \<Rightarrow> NetThread" where
  "put_conn c nt =
     (if nt_connectionUids nt (con_uid c) = None then nt
      else nt\<lparr>nt_connectionUids := (nt_connectionUids nt)(con_uid c \<mapsto> Some c)\<rparr>)"

definition conRecv :: "Connection option \<Rightarrow> World \<Rightarrow> (int \<times> tagRecvData list \<times> Connection \<times> World) result" where
  "conRecv connection w =
     bindE (deref connection) (\<lambda>c.
     bindE (Connection_recv (w_reads w (con_fd c)) c) (\<lambda>(ret, deque, reads, c').
     Inr (ret, deque, c', w\<lparr>w_reads := (w_reads w)(con_fd c := reads)\<rparr>)))"

definition conSend_data :: "Connection option \<Rightarrow> string \<Rightarrow> World \<Rightarrow> (int \<times> Connection \<times> World) result" where
  "conSend_data connection msg w =
     bindE (deref connection) (\<lambda>c.
     let (wr, rest) = (case w_writes w (con_fd c) of [] \<Rightarrow> (WAgain, []) | wr # rest \<Rightarrow> (wr, rest)) in
     bindE (Connection_send_data wr msg c) (\<lambda>(ret, out, c').
     Inr (ret, c', w\<lparr>w_writes := (w_writes w)(con_fd c := rest),
                     w_sent := (w_sent w)(con_fd c := w_sent w (con_fd c) @ out)\<rparr>)))"

definition IOV_MAX :: nat where
  "IOV_MAX = 1024"

definition conSend :: "Connection option \<Rightarrow> World \<Rightarrow> (int \<times> Connection \<times> World) result" where
  "conSend connection w =
     bindE (deref connection) (\<lambda>c.
     bindE (Connection_send_queued IOV_MAX (w_writes w (con_fd c)) c) (\<lambda>(ret, out, rest, c').
     Inr (ret, c', w\<lparr>w_writes := (w_writes w)(con_fd c := rest),
                     w_sent := (w_sent w)(con_fd c := w_sent w (con_fd c) @ out)\<rparr>)))"

definition close_message :: "EM_CLOSE_T \<Rightarrow> Connection \<Rightarrow> tagRecvData" where
  "close_message closeType c =
     \<lparr>rd_uid = con_uid c, rd_buffer = [], rd_ip = con_ip c, rd_port = con_port c, rd_recvTimestamp = 0,
      rd_overload = False, rd_closed = True, rd_fd = con_fd c, rd_adapter = None, rd_closeType = closeType\<rparr>"

text \<open>\<open>delConnection\<close>; the flag \<open>eraseList\<close> is not used. The uid does not go back to \<open>free_\<close>.\<close>

definition delConnection ::
    "Connection option \<Rightarrow> EM_CLOSE_T \<Rightarrow> NetThread \<Rightarrow> World \<Rightarrow> (Connection \<times> NetThread \<times> World) result" where
  "delConnection connection closeType nt w =
     bindE (deref connection) (\<lambda>c.
     if con_listenfd c \<noteq> -1 then
       bindE (adapter_insert (con_bindAdapter c) [close_message closeType c] w) (\<lambda>w1.
       let k1 = Epoller_del (con_fd c) (ucast (con_uid c)) 0 (nt_epoller nt) (w_kernel w1);
           k2 = (if con_fd c \<noteq> -1 then snd (sys (Sys_close (con_fd c)) k1) else k1)
       in Inr (Connection_close c, nt\<lparr>nt_connectionUids := (nt_connectionUids nt)(con_uid c := None)\<rparr>,
               w1\<lparr>w_kernel := k2\<rparr>))
     else Inr (c, nt, w))"

section \<open>Events\<close>

definition has_event :: "u32 \<Rightarrow> epoll_event \<Rightarrow> bool" where
  "has_event flag ev \<longleftrightarrow> ev_events ev AND flag \<noteq> 0"

text \<open>The \<open>EPOLLIN\<close> branch of \<open>processNet\<close>.\<close>

definition processNet_in ::
    "Connection option \<Rightarrow> NetThread \<Rightarrow> World \<Rightarrow> (Connection option \<times> NetThread \<times> World) result" where
  "processNet_in connection nt w =
     bindE (conRecv connection w) (\<lambda>(ret, recv_deque, c1, w1).
     bindE (if ret < 0 then delConnection (Some c1) EM_CLIENT_CLOSE (put_conn c1 nt) w1
            else Inr (c1, put_conn c1 nt, w1)) (\<lambda>(c2, nt2, w2).
     bindE (if recv_deque \<noteq> [] then adapter_insert (con_bindAdapter c2) recv_deque w2 else Inr w2) (\<lambda>w3.
     Inr (Some c2, nt2, w3))))"

definition processNet :: "epoll_event \<Rightarrow> NetThread \<Rightarrow> World \<Rightarrow> (NetThread \<times> World) result" where
  "processNet ev nt w =
     (let (connection, nt1) = conn_lookup (ucast (ev_data ev)) nt in
      if has_event EPOLLERR ev \<or> has_event EPOLLHUP ev then
        bindE (delConnection connection EM_SERVER_CLOSE nt1 w) (\<lambda>(_, nt2, w2). Inr (nt2, w2))
      else
        bindE (if has_event EPOLLIN ev then processNet_in connection nt1 w else Inr (connection, nt1, w))
          (\<lambda>(connection2, nt2, w2).
        if has_event EPOLLOUT ev then
          bindE (conSend connection2 w2) (\<lambda>(_, c3, w3). Inr (put_conn c3 nt2, w3))
        else Inr (nt2, w2)))"

definition pipe_message :: "tagSendData \<Rightarrow> NetThread \<times> World \<Rightarrow> (NetThread \<times> World) result" where
  "pipe_message send_msg s =
     (let (nt, w) = s in
      if sd_cmd send_msg = CHR ''s'' then
        (let (connection, nt1) = conn_lookup (sd_uid send_msg) nt in
         bindE (conSend_data connection (sd_buffer send_msg) w) (\<lambda>(_, c, w1). Inr (put_conn c nt1, w1)))
      else if sd_cmd send_msg = CHR ''c'' then
        (let (connection, nt1) = conn_lookup (sd_uid send_msg) nt in
         case connection of
           None \<Rightarrow> Inr (nt1, w)
         | Some c \<Rightarrow>
             let (empty, c1) = Connection_set_close c in
             if empty then
               bindE (delConnection (Some c1) EM_SERVER_CLOSE (put_conn c1 nt1) w) (\<lambda>(_, nt2, w2). Inr (nt2, w2))
             else Inr (put_conn c1 nt1, w))
      else Inl AssertFailed)"

definition processPipe :: "NetThread \<Rightarrow> World \<Rightarrow> (NetThread \<times> World) result" where
  "processPipe nt w =
     (let (_, _, send_deque, d) = ThreadDeque_swap [] 0 (nt_sendBuffer nt) in
      fold_result pipe_message send_deque (nt\<lparr>nt_sendBuffer := d\<rparr>, w))"

text \<open>Handing work to the thread: \<open>recvNeedToSendFromServer\<close>, \<open>close\<close>, \<open>terminate\<close>.\<close>

definition pipe_push :: "tagSendData \<Rightarrow> NetThread \<Rightarrow> Kernel \<Rightarrow> NetThread \<times> Kernel" where
  "pipe_push msg nt k =
     (nt\<lparr>nt_sendBuffer := snd (ThreadDeque_push_back msg (nt_sendBuffer nt))\<rparr>,
      Epoller_mod (sk_fd (nt_notifySocket nt)) (H64 ET_NOTIFY) EPOLLOUT (nt_epoller nt) k)"

definition recvNeedToSendFromServer ::
    "u32 \<Rightarrow> string \<Rightarrow> string \<Rightarrow> u16 \<Rightarrow> NetThread \<Rightarrow> Kernel \<Rightarrow> NetThread \<times> Kernel" where
  "recvNeedToSendFromServer uid msg ip port nt k =
     (if nt_terminate nt then (nt, k)
      else pipe_push \<lparr>sd_cmd = CHR ''s'', sd_uid = uid, sd_buffer = msg, sd_ip = ip, sd_port = port\<rparr> nt k)"

definition NetThread_close :: "u32 \<Rightarrow> NetThread \<Rightarrow> Kernel \<Rightarrow> NetThread \<times> Kernel" where
  "NetThread_close uid nt k =
     pipe_push \<lparr>sd_cmd = CHR ''c'', sd_uid = uid, sd_buffer = [], sd_ip = [], sd_port = 0\<rparr> nt k"

definition NetThread_terminate :: "NetThread \<Rightarrow> Kernel \<Rightarrow> NetThread \<times> Kernel" where
  "NetThread_terminate nt k =
     (let k1 = Epoller_mod (sk_fd (nt_shutdownSock nt)) (H64 ET_CLOSE) EPOLLOUT (nt_epoller nt) k;
          k2 = fold (\<lambda>(fd, _). Epoller_mod fd (H64 ET_CLOSE) EPOLLOUT (nt_epoller nt)) (nt_listeners nt) k1
      in (nt\<lparr>nt_terminate := True\<rparr>, k2))"

section \<open>The loop\<close>

text \<open>How much of the kernel's list of results is left: every call uses up at most one.\<close>

definition fewer :: "Kernel \<Rightarrow> Kernel \<Rightarrow> bool" where
  "fewer k' k \<longleftrightarrow> length (k_results k') \<le> length (k_results k)"

lemma fewer_trans [trans]: "fewer k3 k2 \<Longrightarrow> fewer k2 k1 \<Longrightarrow> fewer k3 k1"
  by (simp add: fewer_def)

lemma fewer_sys: "sys call k = (r, k') \<Longrightarrow> fewer k' k"
  by (auto simp: sys_def fewer_def Let_def)

lemma fewer_snd_sys [simp]: "fewer (snd (sys call k)) k"
  using fewer_sys by (metis prod.collapse)

lemma fewer_sys_or_fatal: "sys_or_fatal call k = Inr k' \<Longrightarrow> fewer k' k"
  by (auto simp: sys_or_fatal_def dest: fewer_sys split: prod.splits if_splits)

lemma fewer_set_block: "set_block fd b k = Inr k' \<Longrightarrow> fewer k' k"
  by (auto simp: set_block_def Let_def dest!: fewer_sys fewer_sys_or_fatal intro: fewer_trans split: prod.splits)

lemma accept_loop_shrinks:
  "accept_loop fd k = (r, k') \<Longrightarrow> r \<noteq> - EAGAIN \<Longrightarrow> length (k_results k') < length (k_results k)"
proof (induction fd k rule: accept_loop.induct)
  case (1 fd k)
  obtain r1 k1 where s: "sys (Sys_accept fd) k = (r1, k1)" by fastforce
  show ?case
  proof (cases "r1 = - EINTR")
    case True
    then have "length (k_results k') < length (k_results k1)"
      using 1 s by (simp add: accept_loop.simps [of fd k])
    then show ?thesis using fewer_sys [OF s] by (simp add: fewer_def)
  next
    case False
    then have "r1 = r" "k1 = k'" using 1(2) s by (simp_all add: accept_loop.simps [of fd k])
    then show ?thesis using s 1(3) by (cases "k_results k") (auto simp: sys_def Let_def)
  qed
qed

lemma Socket_accept_shrinks:
  "Socket_accept s c k = Inr (r, c', k') \<Longrightarrow> r \<noteq> - EAGAIN \<Longrightarrow> length (k_results k') < length (k_results k)"
  by (auto simp: Socket_accept_def result_simps dest: accept_loop_shrinks split: prod.splits)

lemma fewer_addTConnection: "addTConnection c nt k = Inr (nt', k') \<Longrightarrow> fewer k' k"
  by (auto simp: addTConnection_def Epoller_add_def Epoller_ctrl_def Let_def split: list.splits)

lemma NetThread_accept_shrinks:
  assumes "NetThread_accept listenfd nt w = Inr (True, nt', w')"
  shows "length (k_results (w_kernel w')) < length (k_results (w_kernel w))"
proof -
  obtain receive k0 where i: "Socket_init listenfd False AF_INET Socket_new (w_kernel w) = (receive, k0)" by fastforce
  have k0: "k0 = w_kernel w" using i by (auto simp: Socket_init_def Socket_new_def Socket_close_def INVALID_SOCKET_def)
  obtain ret client k1 where a: "Socket_accept receive (Socket_set_owner False Socket_new) k0 = Inr (ret, client, k1)"
    using assms i by (auto simp: NetThread_accept_def result_simps Let_def)
  have ne: "ret \<noteq> - EAGAIN" using assms i a
    by (cases "0 < ret") (auto simp: NetThread_accept_def EAGAIN_def)
  have "fewer (w_kernel w') k1"
  proof (cases "0 < ret")
    case True
    obtain p nt1 where l: "listener_of listenfd nt = (p, nt1)" by fastforce
    show ?thesis using True assms i a l
      by (auto simp: NetThread_accept_def result_simps Socket_set_block_def Socket_set_keepAlive_def
          Socket_set_tcpNoDelay_def Socket_set_closeWaitDefault_def set_keepAlive_def set_tcpNoDealy_def
          dest!: fewer_set_block fewer_sys_or_fatal fewer_addTConnection split: prod.splits) (simp add: fewer_def)
  next
    case False
    then show ?thesis using assms i a by (auto simp: NetThread_accept_def fewer_def)
  qed
  with Socket_accept_shrinks [OF a ne] k0 show ?thesis by (simp add: fewer_def)
qed

function accept_all :: "int \<Rightarrow> NetThread \<Rightarrow> World \<Rightarrow> (NetThread \<times> World) result" where
  "accept_all listenfd nt w =
     bindE (NetThread_accept listenfd nt w) (\<lambda>(ret, nt1, w1).
     if ret then accept_all listenfd nt1 w1 else Inr (nt1, w1))"
  by auto
termination
  by (relation "measure (\<lambda>(fd, nt, w). length (k_results (w_kernel w)))") (auto dest: NetThread_accept_shrinks)

declare accept_all.simps [simp del]

text \<open>One event: the upper half of its data is its kind, the lower half a listening descriptor or a uid.\<close>

definition NetThread_event :: "epoll_event \<Rightarrow> NetThread \<Rightarrow> World \<Rightarrow> (NetThread \<times> World) result" where
  "NetThread_event ev nt w =
     (let h = uint (drop_bit 32 (ev_data ev)) in
      if h = ET_LISTEN then
        (if has_event EPOLLIN ev then accept_all (sint (ucast (ev_data ev) :: i32)) nt w else Inr (nt, w))
      else if h = ET_CLOSE then Inr (nt, w)
      else if h = ET_NOTIFY then processPipe nt w
      else if h = ET_NET then processNet ev nt w
      else Inr (nt, w))"

text \<open>\<open>run\<close>: one list of reported events for each \<open>wait\<close>.\<close>

fun NetThread_run :: "epoll_event list list \<Rightarrow> NetThread \<Rightarrow> World \<Rightarrow> (NetThread \<times> World) result" where
  "NetThread_run [] nt w = Inr (nt, w)"
| "NetThread_run (ready # readies) nt w =
     (if nt_terminate nt then Inr (nt, w)
      else
        (let (ev_num, ep) = Epoller_wait ready (nt_epoller nt) in
         bindE (fold_result (\<lambda>i (nt, w). bindE (Epoller_get (int i) (nt_epoller nt)) (\<lambda>ev. NetThread_event ev nt w))
                  [0..<nat ev_num] (nt\<lparr>nt_epoller := ep\<rparr>, w)) (\<lambda>(nt1, w1).
         NetThread_run readies nt1 w1)))"

section \<open>Ids of connections\<close>

lemma free_conn_lookup: "conn_lookup uid nt = (c, nt') \<Longrightarrow> nt_free nt' = nt_free nt"
  by (auto simp: conn_lookup_def split: option.splits)

lemma free_put_conn [simp]: "nt_free (put_conn c nt) = nt_free nt"
  by (simp add: put_conn_def)

lemma free_delConnection: "delConnection c t nt w = Inr (c', nt', w') \<Longrightarrow> nt_free nt' = nt_free nt"
  by (auto simp: delConnection_def result_simps Let_def split: if_splits)

lemma free_processNet_in: "processNet_in c nt w = Inr (c', nt', w') \<Longrightarrow> nt_free nt' = nt_free nt"
  by (auto simp: processNet_in_def result_simps split: if_splits dest!: free_delConnection)

lemma free_processNet:
  assumes "processNet ev nt w = Inr (nt', w')"
  shows "nt_free nt' = nt_free nt"
proof -
  obtain c nt1 where l: "conn_lookup (ucast (ev_data ev)) nt = (c, nt1)" by fastforce
  have f: "nt_free nt1 = nt_free nt" by (rule free_conn_lookup [OF l])
  show ?thesis using assms l f
    by (auto simp: processNet_def result_simps split: if_splits dest!: free_delConnection free_processNet_in)
qed

lemma free_pipe_message:
  assumes "pipe_message m (nt, w) = Inr (nt', w')"
  shows "nt_free nt' = nt_free nt"
proof -
  obtain c nt1 where l: "conn_lookup (sd_uid m) nt = (c, nt1)" by fastforce
  have f: "nt_free nt1 = nt_free nt" by (rule free_conn_lookup [OF l])
  show ?thesis using assms l f
    by (auto simp: pipe_message_def result_simps Let_def split: if_splits option.splits prod.splits dest!: free_delConnection)
qed

lemma free_processPipe:
  assumes "processPipe nt w = Inr (nt', w')"
  shows "nt_free nt' = nt_free nt"
proof -
  obtain x y ds d where s: "ThreadDeque_swap [] 0 (nt_sendBuffer nt) = (x, y, ds, d)" by (metis prod_cases4)
  have "nt_free (fst s2) = nt_free nt" if "fold_result pipe_message ds s1 = Inr s2" "nt_free (fst s1) = nt_free nt" for s1 s2
    using that(1,2) by (rule fold_result_inv) (metis free_pipe_message prod.collapse)
  from this [of "(nt\<lparr>nt_sendBuffer := d\<rparr>, w)" "(nt', w')"] show ?thesis using assms s by (simp add: processPipe_def)
qed

lemma free_accept:
  assumes "NetThread_accept listenfd nt w = Inr (b, nt', w')"
  shows "suffix (nt_free nt') (nt_free nt)"
proof -
  obtain p nt1 where l: "listener_of listenfd nt = (p, nt1)" by fastforce
  then have f: "nt_free nt1 = nt_free nt" by (auto simp: listener_of_def set_listener_def split: option.splits)
  have a: "suffix (nt_free nt2) (nt_free nt)" if "addTConnection c nt1 k = Inr (nt2, k2)" for c k nt2 k2
    using that f by (auto simp: addTConnection_def Let_def suffix_ConsI split: list.splits)
  show ?thesis using assms l a
    by (auto simp: NetThread_accept_def result_simps split: prod.splits if_splits)
qed

lemma free_accept_all:
  "accept_all listenfd nt w = Inr (nt', w') \<Longrightarrow> suffix (nt_free nt') (nt_free nt)"
proof (induction listenfd nt w arbitrary: nt' w' rule: accept_all.induct)
  case (1 listenfd nt w)
  obtain b nt1 w1 where a: "NetThread_accept listenfd nt w = Inr (b, nt1, w1)"
    using "1.prems" by (subst (asm) accept_all.simps) (auto simp: result_simps)
  show ?case
  proof (cases b)
    case True
    then have "accept_all listenfd nt1 w1 = Inr (nt', w')" using "1.prems" a by (simp add: accept_all.simps [of listenfd nt])
    then have "suffix (nt_free nt') (nt_free nt1)" using "1.IH" [OF a] True by blast
    then show ?thesis using free_accept [OF a] by (rule suffix_order.trans)
  next
    case False
    then show ?thesis using "1.prems" a free_accept [OF a] by (simp add: accept_all.simps [of listenfd nt])
  qed
qed

lemma free_event: "NetThread_event ev nt w = Inr (nt', w') \<Longrightarrow> suffix (nt_free nt') (nt_free nt)"
  by (auto simp: NetThread_event_def Let_def dest: free_accept_all free_processPipe free_processNet split: if_splits)

lemma free_run: "NetThread_run readies nt w = Inr (nt', w') \<Longrightarrow> suffix (nt_free nt') (nt_free nt)"
proof (induction readies arbitrary: nt w)
  case Nil
  then show ?case by simp
next
  case (Cons ready readies)
  obtain n ep where e: "Epoller_wait ready (nt_epoller nt) = (n, ep)" by fastforce
  let ?f = "\<lambda>i (nt, w). bindE (Epoller_get (int i) (nt_epoller nt)) (\<lambda>ev. NetThread_event ev nt w)"
  show ?case
  proof (cases "nt_terminate nt")
    case True
    then show ?thesis using Cons.prems by simp
  next
    case False
    then obtain nt1 w1 where r: "fold_result ?f [0..<nat n] (nt\<lparr>nt_epoller := ep\<rparr>, w) = Inr (nt1, w1)"
      "NetThread_run readies nt1 w1 = Inr (nt', w')" using Cons.prems e by (auto simp: result_simps)
    have "suffix (nt_free (fst (nt1, w1))) (nt_free nt)"
      by (rule fold_result_inv [OF r(1), where I = "\<lambda>s. suffix (nt_free (fst s)) (nt_free nt)"])
        (auto simp: result_simps, metis free_event suffix_order.trans)
    then show ?thesis using Cons.IH [OF r(2)] by (auto intro: suffix_order.trans)
  qed
qed

section \<open>A request comes in, a response goes out\<close>

text \<open>A connection the thread knows, between two requests, whose adapter exists.\<close>

definition conn_ready :: "Connection \<Rightarrow> nat \<Rightarrow> NetThread \<Rightarrow> World \<Rightarrow> bool" where
  "conn_ready c i nt w \<longleftrightarrow>
     nt_connectionUids nt (con_uid c) = Some (Some c) \<and> con_bindAdapter c = Some i \<and> i < length (w_adapters w) \<and>
     con_listenfd c \<noteq> -1 \<and> Buffer_inv (con_recvBuffer c) \<and> Buffer_contents (con_recvBuffer c) = [] \<and>
     con_sendBuffer c = []"

definition in_event :: "Connection \<Rightarrow> epoll_event" where
  "in_event c = \<lparr>ev_data = ucast (con_uid c), ev_events = EPOLLIN\<rparr>"

lemma ucast_back [simp]: "ucast (ucast (w :: u32) :: u64) = w"
  by transfer simp

lemma in_event_flags [simp]:
  "\<not> has_event EPOLLERR (in_event c)" "\<not> has_event EPOLLHUP (in_event c)" "has_event EPOLLIN (in_event c)"
  "\<not> has_event EPOLLOUT (in_event c)" "ucast (ev_data (in_event c)) = con_uid c"
  by (simp_all add: has_event_def in_event_def net_consts)

lemma adapter_insert_ok:
  assumes "i < length (w_adapters w)"
  shows "\<exists>w'. adapter_insert (Some i) deque w = Inr w' \<and>
    w_adapters w' = (w_adapters w)[i := (w_adapters w ! i)\<lparr>ba_receiveBuffer := snd (ThreadDeque_push_back_all deque (ba_receiveBuffer (w_adapters w ! i)))\<rparr>] \<and>
    w_reads w' = w_reads w \<and> w_writes w' = w_writes w \<and> w_sent w' = w_sent w \<and> w_kernel w' = w_kernel w"
  using assms by (simp add: adapter_insert_def adapter_at_def insertRecvDeque_def put_adapter_def)

lemma Connection_recv_one:
  assumes "Buffer_inv (con_recvBuffer c)" and "Buffer_contents (con_recvBuffer c) = []" and "con_listenfd c \<noteq> -1"
    and "length body < 2 ^ 31"
  shows "\<exists>b. Connection_recv [RData (frame body)] c = Inr (1, [recv_message c body], [], c\<lparr>con_recvBuffer := b\<rparr>) \<and>
    Buffer_inv b \<and> Buffer_contents b = []"
proof -
  have pre: "\<And>d. d \<in> set [frame body] \<Longrightarrow> d \<noteq> []" "\<And>m. m \<in> set [body] \<Longrightarrow> length m < 2 ^ 31"
    "Buffer_contents (con_recvBuffer c) @ concat [frame body] = concat (map frame [body])"
    "length (concat (map frame [body])) < Buffer_limit"
    using assms by (auto simp: Buffer_limit_def)
  obtain got left ms1 ms2 b where f: "[frame body] = got @ left" "got \<noteq> []" "[body] = ms1 @ ms2"
    "Connection_recv (map RData [frame body]) c =
       Inr (int (length ms1), map (recv_message c) ms1, map RData left, c\<lparr>con_recvBuffer := b\<rparr>)"
    "Buffer_inv b" "Buffer_contents b @ concat left = concat (map frame ms2)" "left = [] \<longrightarrow> ms2 = []"
    using Connection_recv_frames [OF assms(1,3) pre(1,3,4,2)] by blast
  then have "left = []" by (metis append_is_Nil_conv append_eq_Cons_conv)
  then have "ms2 = []" "ms1 = [body]" using f(3,7) by auto
  then show ?thesis using f \<open>left = []\<close> by auto
qed

lemma processNet_request:
  assumes ready: "conn_ready c i nt w" and reads: "w_reads w (con_fd c) = [RData (frame body)]"
    and len: "length body < 2 ^ 31"
  shows "\<exists>b' w'. processNet (in_event c) nt w = Inr (put_conn (c\<lparr>con_recvBuffer := b'\<rparr>) nt, w') \<and>
    conn_ready (c\<lparr>con_recvBuffer := b'\<rparr>) i (put_conn (c\<lparr>con_recvBuffer := b'\<rparr>) nt) w' \<and>
    w_adapters w' = (w_adapters w)[i := (w_adapters w ! i)\<lparr>ba_receiveBuffer := snd (ThreadDeque_push_back_all [recv_message c body] (ba_receiveBuffer (w_adapters w ! i)))\<rparr>] \<and>
    w_writes w' = w_writes w \<and> w_sent w' = w_sent w \<and> w_kernel w' = w_kernel w"
proof -
  have r: "nt_connectionUids nt (con_uid c) = Some (Some c)" "con_bindAdapter c = Some i" "i < length (w_adapters w)"
    "con_listenfd c \<noteq> -1" "Buffer_inv (con_recvBuffer c)" "Buffer_contents (con_recvBuffer c) = []" "con_sendBuffer c = []"
    using ready by (simp_all add: conn_ready_def)
  obtain b where f: "Connection_recv [RData (frame body)] c = Inr (1, [recv_message c body], [], c\<lparr>con_recvBuffer := b\<rparr>)"
    "Buffer_inv b" "Buffer_contents b = []"
    using Connection_recv_one [OF r(5,6,4) len] by blast
  let ?c = "c\<lparr>con_recvBuffer := b\<rparr>" and ?w = "w\<lparr>w_reads := (w_reads w)(con_fd c := [])\<rparr>"
  have recv: "conRecv (Some c) w = Inr (1, [recv_message c body], ?c, ?w)"
    using f(1) reads by (simp add: conRecv_def)
  obtain w' where w': "adapter_insert (Some i) [recv_message c body] ?w = Inr w'"
    "w_adapters w' = (w_adapters w)[i := (w_adapters w ! i)\<lparr>ba_receiveBuffer := snd (ThreadDeque_push_back_all [recv_message c body] (ba_receiveBuffer (w_adapters w ! i)))\<rparr>]"
    "w_writes w' = w_writes w" "w_sent w' = w_sent w" "w_kernel w' = w_kernel w"
    using adapter_insert_ok [of i ?w "[recv_message c body]"] r(3) by auto
  have "processNet (in_event c) nt w = Inr (put_conn ?c nt, w')"
    using r(1,2) recv w'(1) by (simp add: processNet_def processNet_in_def conn_lookup_def)
  moreover have "conn_ready ?c i (put_conn ?c nt) w'"
    using r w'(2) f(2,3) by (simp add: conn_ready_def put_conn_def)
  ultimately show ?thesis using w' by blast
qed

text \<open>A response in the pipe of a thread that knows the connection, and a socket that takes it whole.\<close>

definition response_to :: "Connection \<Rightarrow> string \<Rightarrow> tagSendData" where
  "response_to c msg = \<lparr>sd_cmd = CHR ''s'', sd_uid = con_uid c, sd_buffer = msg, sd_ip = con_ip c, sd_port = con_port c\<rparr>"

lemma processPipe_response:
  assumes ready: "conn_ready c i nt w" and q: "td_deque (nt_sendBuffer nt) = [response_to c msg]"
    and wr: "w_writes w (con_fd c) = Wrote n # rest" and n: "msg \<noteq> []" "n \<le> length msg"
  shows "\<exists>nt' w'. processPipe nt w = Inr (nt', w') \<and> conn_ready c i nt' w' \<and>
    w_sent w' (con_fd c) = w_sent w (con_fd c) @ take n msg \<and> td_deque (nt_sendBuffer nt') = []"
proof -
  have r: "nt_connectionUids nt (con_uid c) = Some (Some c)" "con_sendBuffer c = []"
    using ready by (simp_all add: conn_ready_def)
  have "Connection_send_data (Wrote n) msg c = Inr (if con_close c then -2 else 0, take n msg, c)"
    using r(2) n by (simp add: Connection_send_data_def Connection_tcpSend_def send_finish_def)
  then show ?thesis using ready r(1) q wr
    by (simp add: processPipe_def ThreadDeque_swap_def pipe_message_def response_to_def conn_lookup_def
        conSend_data_def put_conn_def conn_ready_def)
qed

lemma accept_full:
  assumes "nt_free nt = []" and "all_succeed (w_kernel w)" and "k_results (w_kernel w) = fd # rs" and "0 < fd"
  shows "NetThread_accept listenfd nt w = Inl BadIterator"
proof -
  obtain receive k0 where i: "Socket_init listenfd False AF_INET Socket_new (w_kernel w) = (receive, k0)" by fastforce
  have k0: "k0 = w_kernel w" using i by (auto simp: Socket_init_def Socket_new_def Socket_close_def INVALID_SOCKET_def)
  let ?k = "(w_kernel w)\<lparr>k_results := rs, k_calls := k_calls (w_kernel w) @ [(Sys_accept (sk_fd receive), fd)]\<rparr>"
  let ?s = "(Socket_set_owner False Socket_new)\<lparr>sk_fd := fd, sk_domain := sk_domain receive\<rparr>"
  have "Socket_accept receive (Socket_set_owner False Socket_new) k0 = Inr (fd, ?s, ?k)"
    using assms(3,4) k0 by (simp add: Socket_accept_def accept_loop.simps sys_def EINTR_def Socket_set_owner_def
        Socket_new_def INVALID_SOCKET_def)
  moreover have succ: "all_succeed ?k" using assms(2,3) by (simp add: all_succeed_def)
  obtain r k where g: "sys (Sys_getfl fd) ?k = (r, k)" by fastforce
  have "all_succeed k" using sys_succeeds(2) [OF succ g] by simp
  then obtain k2 where k2: "Socket_set_block False ?s ?k = Inr k2" "all_succeed k2"
    using sys_or_fatal_ok [of k] g by (fastforce simp: Socket_set_block_def set_block_def)
  moreover obtain k3 where k3: "Socket_set_keepAlive ?s k2 = Inr k3" "all_succeed k3"
    using sys_or_fatal_ok [OF k2(2), of "Sys_keepalive fd"] by (auto simp: Socket_set_keepAlive_def set_keepAlive_def)
  moreover obtain k4 where k4: "Socket_set_tcpNoDelay ?s k3 = Inr k4" "all_succeed k4"
    using sys_or_fatal_ok [OF k3(2), of "Sys_nodelay fd"] by (auto simp: Socket_set_tcpNoDelay_def set_tcpNoDealy_def)
  moreover obtain k5 where "Socket_set_closeWaitDefault ?s k4 = Inr k5"
    using sys_or_fatal_ok [OF k4(2), of "Sys_linger fd False"] by (auto simp: Socket_set_closeWaitDefault_def)
  moreover obtain p nt1 where l: "listener_of listenfd nt = (p, nt1)" by fastforce
  moreover have "nt_free nt1 = []"
    using l assms(1) by (auto simp: listener_of_def set_listener_def split: option.splits)
  moreover obtain ip port where "w_peer w fd = (ip, port)" by fastforce
  ultimately show ?thesis using i assms(4)
    by (simp add: NetThread_accept_def Connection_new_def addTConnection_def)
qed

section \<open>Properties\<close>


definition sample_adapter :: BindAdapter where
  "sample_adapter = BindAdapter_new\<lparr>ba_name := ''HelloAdapter'', ba_handleGroup := Some ''HelloAdapter''\<rparr>"

definition sample_world :: World where
  "sample_world =
     \<lparr>w_kernel = \<lparr>k_results = [9], k_calls = []\<rparr>, w_adapters = [sample_adapter], w_reads = (\<lambda>_. []),
      w_writes = (\<lambda>_. []), w_sent = (\<lambda>_. []), w_notified = [], w_peer = (\<lambda>_. (''10.0.0.1'', 4000)), w_memory = False\<rparr>"

definition sample_thread :: NetThread where
  "sample_thread =
     \<lparr>nt_epoller = Epoller_new True, nt_shutdownSock = Socket_new, nt_notifySocket = Socket_new,
      nt_listenSocket = Socket_new, nt_connectionUids = [1 \<mapsto> Some sample_connection], nt_free = [], nt_freeSize = 0,
      nt_sendBuffer = ThreadDeque_new, nt_listeners = [(3, Some 0)], nt_terminate = False\<rparr>"

lemma sample_ready: "conn_ready sample_connection 0 sample_thread sample_world"
  by (simp add: conn_ready_def sample_thread_def sample_world_def sample_connection_def)


text \<open>C37. A response for a connection that has been closed meanwhile kills the thread: after
  \<open>delConnection\<close> the id is looked up with \<open>operator[]\<close>, which makes a null entry, and the null
  pointer is used.\<close>

theorem NetThread_response_after_close:
  assumes "conn_ready c i nt w" and "td_deque (nt_sendBuffer nt) = []" and "\<not> nt_terminate nt"
  shows "\<exists>c' nt' w'. delConnection (Some c) closeType nt w = Inr (c', nt', w') \<and>
    (let (nt2, k2) = recvNeedToSendFromServer (con_uid c) msg ip port nt' (w_kernel w')
     in processPipe nt2 (w'\<lparr>w_kernel := k2\<rparr>) = Inl NullDeref)"
proof -
  have r: "con_bindAdapter c = Some i" "i < length (w_adapters w)" "con_listenfd c \<noteq> -1"
    using assms(1) by (simp_all add: conn_ready_def)
  obtain w1 where "adapter_insert (Some i) [close_message closeType c] w = Inr w1"
    using adapter_insert_ok [OF r(2)] by blast
  then show ?thesis using r assms(2,3)
    by (simp add: delConnection_def recvNeedToSendFromServer_def pipe_push_def processPipe_def
        ThreadDeque_push_back_def ThreadDeque_swap_def pipe_message_def conn_lookup_def conSend_data_def Let_def)
qed

theorem NetThread_response_after_close_witness:
  "\<exists>c' nt' w'. delConnection (Some sample_connection) EM_CLIENT_CLOSE sample_thread sample_world = Inr (c', nt', w') \<and>
    (let (nt2, k2) = recvNeedToSendFromServer (con_uid sample_connection) ''1:ok'' [] 0 nt' (w_kernel w')
     in processPipe nt2 (w'\<lparr>w_kernel := k2\<rparr>) = Inl NullDeref)"
  by (rule NetThread_response_after_close [OF sample_ready]) (simp_all add: sample_thread_def)

end
