(* ===== verification/Tarsx_Servants.thy ===== *)
theory Tarsx_Servants
  imports Tarsx_Wire "HOL-Library.List_Lexorder" "HOL-Library.Char_ord"
begin

text \<open>
  The services: the dispatchers \<open>HelloImp\<close>, \<open>ServerImp\<close>, \<open>NodeImp\<close>, \<open>AdminServant\<close> and \<open>RegisterImp\<close>,
  the \<open>Registry\<close>, the table of servants \<open>ServantHelperManager\<close> (\<open>ServantManager.h\<close>) and the heartbeat
  helper \<open>TarsNodeFHelper\<close> with \<open>ServerInfo\<close> (\<open>NodeF.h\<close>). A dispatcher takes the request and the
  response buffer and gives its return value and the buffer.
\<close>

section \<open>Method tables\<close>

text \<open>\<open>std::equal_range\<close> on a sorted array: the two binary searches of the library.\<close>

function lower_bound :: "'a::linorder list \<Rightarrow> 'a \<Rightarrow> nat \<Rightarrow> nat \<Rightarrow> nat" where
  "lower_bound xs v first len =
     (if len = 0 then first
      else
        (let half = len div 2; mid = first + half in
         if xs ! mid < v then lower_bound xs v (mid + 1) (len - half - 1) else lower_bound xs v first half))"
  by auto
termination by (relation "measure (\<lambda>(xs, v, first, len). len)") auto

function upper_bound :: "'a::linorder list \<Rightarrow> 'a \<Rightarrow> nat \<Rightarrow> nat \<Rightarrow> nat" where
  "upper_bound xs v first len =
     (if len = 0 then first
      else
        (let half = len div 2; mid = first + half in
         if v < xs ! mid then upper_bound xs v first half else upper_bound xs v (mid + 1) (len - half - 1)))"
  by auto
termination by (relation "measure (\<lambda>(xs, v, first, len). len)") auto

declare lower_bound.simps [simp del] upper_bound.simps [simp del]

definition equal_range :: "'a::linorder list \<Rightarrow> 'a \<Rightarrow> nat \<times> nat" where
  "equal_range xs v = (lower_bound xs v 0 (length xs), upper_bound xs v 0 (length xs))"

text \<open>The index a dispatcher switches on, \<open>None\<close> when it reports an unknown method.\<close>

definition dispatch_index :: "string list \<Rightarrow> string \<Rightarrow> nat option" where
  "dispatch_index names method =
     (let r = equal_range names method in if fst r = snd r then None else Some (fst r))"

section \<open>Dispatchers\<close>

text \<open>The id of a request, in front of the first colon.\<close>

definition request_id :: "string \<Rightarrow> string" where
  "request_id req = substr_before (find_colon req) req"

definition Hello_all :: "string list" where
  "Hello_all = [''test'', ''testHello'']"

text \<open>\<open>test\<close> and \<open>testHello\<close> build a response and then assign the request to the buffer.\<close>

definition Hello_test :: "string \<Rightarrow> string \<Rightarrow> int \<times> string" where
  "Hello_test req b = (let response = request_id req @ '':'' @ ''test response'' in (0, req))"

definition Hello_testHello :: "string \<Rightarrow> string \<Rightarrow> int \<times> string" where
  "Hello_testHello req b = (let response = request_id req @ '':'' @ ''testHello response'' in (0, req))"

definition HelloImp :: "string \<Rightarrow> string \<Rightarrow> int \<times> string" where
  "HelloImp request b =
     (let requestBody = substr_after (find_colon request) request;
          method = substr_before (find_colon requestBody) requestBody
      in case dispatch_index Hello_all method of
           None \<Rightarrow> (-3, b)
         | Some i \<Rightarrow>
             if i = 0 then Hello_test request b
             else if i = 1 then Hello_testHello request b
             else (0, b))"

definition ServerF_all :: "string list" where
  "ServerF_all = [''keepAlive'', ''reportVersion'']"

definition Server_keepAlive :: "string \<Rightarrow> string \<Rightarrow> int \<times> string" where
  "Server_keepAlive req b = (-1, request_id req @ '':'' @ ''I have received'')"

definition ServerImp :: "string \<Rightarrow> string \<Rightarrow> int \<times> string" where
  "ServerImp request b =
     (let (_, _, _, method) = parseRequest request in
      case dispatch_index ServerF_all method of
        None \<Rightarrow> (-3, b)
      | Some i \<Rightarrow> if i = 0 then Server_keepAlive request b else if i = 1 then (-3, b) else (0, b))"

definition Node_all :: "string list" where
  "Node_all = [''startServer'', ''stopServer'']"

definition NodeImp :: "string \<Rightarrow> string \<Rightarrow> int \<times> string" where
  "NodeImp request b =
     (let (_, _, _, method) = parseRequest request in
      case dispatch_index Node_all method of None \<Rightarrow> (-3, b) | Some i \<Rightarrow> (0, b))"

definition AdminF_all :: "string list" where
  "AdminF_all = [''notify'', ''shutdown'']"

text \<open>The flag says whether \<open>shutdown2\<close> ran, that is whether \<open>Application::terminate\<close> was called.\<close>

definition AdminServant :: "string \<Rightarrow> string \<Rightarrow> int \<times> string \<times> bool" where
  "AdminServant request b =
     (let (_, _, _, method) = parseRequest request in
      case dispatch_index AdminF_all method of
        None \<Rightarrow> (-3, b, False)
      | Some i \<Rightarrow> if i = 0 then (0, b, False) else if i = 1 then (0, b, True) else (0, b, False))"

section \<open>Registry\<close>

type_synonym address = "string \<times> int"
type_synonym Registry = "string \<rightharpoonup> address set"

text \<open>\<open>allServants_[name]\<close>: the entry, made empty when it was not there.\<close>

definition Registry_entry :: "string \<Rightarrow> Registry \<Rightarrow> address set \<times> Registry" where
  "Registry_entry name r = (case r name of None \<Rightarrow> ({}, r(name \<mapsto> {})) | Some s \<Rightarrow> (s, r))"

text \<open>The set is copied out of the map (\<open>auto\<close>), and the copy is changed.\<close>

definition addServantAddress :: "string \<Rightarrow> string \<Rightarrow> int \<Rightarrow> Registry \<Rightarrow> Registry" where
  "addServantAddress name ip port r =
     (let (servant_set, r1) = Registry_entry name r; servant_set = insert (ip, port) servant_set in r1)"

definition delServantAddress :: "string \<Rightarrow> string \<Rightarrow> int \<Rightarrow> Registry \<Rightarrow> Registry result" where
  "delServantAddress name ip port r =
     (let (servant_set, r1) = Registry_entry name r in
      if (ip, port) \<in> servant_set
      then (let servant_set = servant_set - {(ip, port)} in Inr r1)
      else Inl BadIterator)"

text \<open>\<open>sregex_token_iterator\<close> with -1 on the separator \<open>:\<close>: the pieces between the matches; the piece
  behind the last match only when it is not empty.\<close>

fun split_colon :: "string \<Rightarrow> string \<Rightarrow> string list" where
  "split_colon acc [] = [rev acc]"
| "split_colon acc (c # cs) = (if c = CHR '':'' then rev acc # split_colon [] cs else split_colon (c # acc) cs)"

definition tokens :: "string \<Rightarrow> string list" where
  "tokens request =
     (let v = split_colon [] request in if 1 < length v \<and> last v = [] then butlast v else v)"

definition vec_at :: "'a list \<Rightarrow> nat \<Rightarrow> 'a result" where
  "vec_at v i = (if i < length v then Inr (v ! i) else Inl OutOfBounds)"

definition registerServant :: "string list \<Rightarrow> string \<Rightarrow> Registry \<Rightarrow> (int \<times> string \<times> Registry) result" where
  "registerServant request b r =
     bindE (vec_at request 2) (\<lambda>name.
     bindE (vec_at request 3) (\<lambda>ip.
     bindE (vec_at request 4) (\<lambda>port.
     bindE (vec_at request 0) (\<lambda>rid.
     Inr (-1, rid @ '':registed!'', addServantAddress name ip (atoi port) r)))))"

definition deleteServant :: "string \<Rightarrow> string \<Rightarrow> int \<times> string" where
  "deleteServant request b = (-1, b)"

definition RegisterImp :: "string \<Rightarrow> string \<Rightarrow> Registry \<Rightarrow> (int \<times> string \<times> Registry) result" where
  "RegisterImp request b r =
     (let v = tokens request in
      bindE (vec_at v 1) (\<lambda>method.
      if method = ''registerServant'' then registerServant v b r
      else if method = ''deleteServant'' then (let (ret, b') = deleteServant request b in Inr (ret, b', r))
      else Inr (-3, b, r)))"

section \<open>Servant table\<close>

text \<open>A \<open>dispatcFunc\<close> is a \<open>std::function\<close>: \<open>None\<close> is an empty one.\<close>

record 'f ServantHelperManager =
  servantMap :: "string \<rightharpoonup> 'f option"
  adapterServant :: "string \<rightharpoonup> string"
  servantAdapter :: "string \<rightharpoonup> string"

definition ServantHelperManager_new :: "'f ServantHelperManager" where
  "ServantHelperManager_new = \<lparr>servantMap = Map.empty, adapterServant = Map.empty, servantAdapter = Map.empty\<rparr>"

definition addServant :: "string \<Rightarrow> 'f option \<Rightarrow> bool \<Rightarrow> 'f ServantHelperManager \<Rightarrow> 'f ServantHelperManager result" where
  "addServant name func check m =
     (if check \<and> servantAdapter m name \<noteq> None then Inl Exception
      else Inr (m\<lparr>servantMap := (servantMap m)(name \<mapsto> func)\<rparr>))"

definition set_adapter_servant :: "string \<Rightarrow> string \<Rightarrow> 'f ServantHelperManager \<Rightarrow> 'f ServantHelperManager" where
  "set_adapter_servant adapter servant m =
     m\<lparr>adapterServant := (adapterServant m)(adapter \<mapsto> servant),
       servantAdapter := (servantAdapter m)(servant \<mapsto> adapter)\<rparr>"

definition get_adapter_servant :: "string \<Rightarrow> 'f ServantHelperManager \<Rightarrow> string" where
  "get_adapter_servant adapter m =
     (case adapterServant m adapter of Some s \<Rightarrow> s | None \<Rightarrow> ''(NO TARSX PROTOCOL)'')"

definition get_servant_adapter :: "string \<Rightarrow> 'f ServantHelperManager \<Rightarrow> string" where
  "get_servant_adapter servant m = (case servantAdapter m servant of Some s \<Rightarrow> s | None \<Rightarrow> [])"

definition get_funcByName :: "string \<Rightarrow> 'f ServantHelperManager \<Rightarrow> 'f option \<times> 'f ServantHelperManager" where
  "get_funcByName name m =
     (case servantMap m name of
        Some f \<Rightarrow> (f, m)
      | None \<Rightarrow> (None, m\<lparr>servantMap := (servantMap m)(name \<mapsto> None)\<rparr>))"

section \<open>Heartbeats\<close>

record ServerInfo =
  si_application :: string
  si_serverName :: string
  si_adapter :: string
  si_pid :: int

definition ServerInfo_default :: ServerInfo where
  "ServerInfo_default = \<lparr>si_application = [], si_serverName = [], si_adapter = [], si_pid = 0\<rparr>"

text \<open>The text \<open>keepAlive_async\<close> invokes \<open>keepAlive\<close> with.\<close>

definition keepAlive_request :: "ServerInfo \<Rightarrow> string" where
  "keepAlive_request si =
     si_application si @ '':'' @ si_serverName si @ '':'' @ to_string (si_pid si) @ '':'' @ si_adapter si"

text \<open>\<open>nodeProxy_\<close> is known by the end point it was made for.\<close>

record TarsNodeFHelper =
  tn_nodeProxy :: "(string \<times> u16) option"
  tn_serverInfo :: ServerInfo
  tn_adapterSet :: "string set"

definition TarsNodeFHelper_new :: TarsNodeFHelper where
  "TarsNodeFHelper_new = \<lparr>tn_nodeProxy = None, tn_serverInfo = ServerInfo_default, tn_adapterSet = {}\<rparr>"

definition set_nodeInfo :: "int \<Rightarrow> string \<Rightarrow> string \<Rightarrow> string \<Rightarrow> TarsNodeFHelper \<Rightarrow> TarsNodeFHelper" where
  "set_nodeInfo getpid node app server h =
     (let h1 =
        (if node \<noteq> [] then
           (let pos = find_colon node; host = substr_before pos node; portstr = substr_after pos node in
            h\<lparr>tn_nodeProxy := Some (host, word_of_int (atoi portstr))\<rparr>)
         else h)
      in h1\<lparr>tn_serverInfo := (tn_serverInfo h1)\<lparr>si_application := app, si_serverName := server, si_pid := getpid\<rparr>\<rparr>)"

text \<open>The requests handed to \<open>tars_invoke_async("keepAlive", ...)\<close>, in the order of the \<open>std::set\<close>.\<close>

definition TarsNodeFHelper_keepAlive :: "string \<Rightarrow> TarsNodeFHelper \<Rightarrow> string list \<times> TarsNodeFHelper" where
  "TarsNodeFHelper_keepAlive adapter h =
     (if tn_nodeProxy h = None then ([], h)
      else
        (let h1 = h\<lparr>tn_adapterSet := insert adapter (tn_adapterSet h)\<rparr> in
         if adapter \<noteq> ''AdminAdapter'' then ([], h1)
         else
           (map (\<lambda>name. keepAlive_request ((tn_serverInfo h)\<lparr>si_adapter := name\<rparr>))
              (sorted_list_of_set (tn_adapterSet h1)),
            h1\<lparr>tn_adapterSet := {}\<rparr>)))"

section \<open>Binary search\<close>

text \<open>The position \<open>r\<close> splits a list at a property that only its first \<open>r\<close> elements have.\<close>

definition splits_at :: "('a \<Rightarrow> bool) \<Rightarrow> 'a list \<Rightarrow> nat \<Rightarrow> bool" where
  "splits_at P xs r \<longleftrightarrow> r \<le> length xs \<and> (\<forall>i < length xs. P (xs ! i) \<longleftrightarrow> i < r)"

lemma sorted_nth_le: "sorted xs \<Longrightarrow> i \<le> j \<Longrightarrow> j < length xs \<Longrightarrow> xs ! i \<le> xs ! j"
  by (rule sorted_nth_mono)

lemma splits_atI:
  assumes "r \<le> length xs" and "\<And>i. i < r \<Longrightarrow> P (xs ! i)" and "\<And>i. r \<le> i \<Longrightarrow> i < length xs \<Longrightarrow> \<not> P (xs ! i)"
  shows "splits_at P xs r"
  using assms unfolding splits_at_def by (metis leI)

lemma lower_bound_splits:
  assumes "sorted xs" and "first + len \<le> length xs"
    and "\<And>i. i < first \<Longrightarrow> xs ! i < v" and "\<And>i. first + len \<le> i \<Longrightarrow> i < length xs \<Longrightarrow> \<not> xs ! i < v"
  shows "splits_at (\<lambda>x. x < v) xs (lower_bound xs v first len)"
  using assms
proof (induction len arbitrary: first rule: less_induct)
  case (less len)
  let ?half = "len div 2" and ?mid = "first + len div 2"
  show ?case
  proof (cases "len = 0")
    case True
    then have "splits_at (\<lambda>x. x < v) xs first" using less.prems(2-4) by (intro splits_atI) simp_all
    then show ?thesis using True by (simp add: lower_bound.simps)
  next
    case False
    then have h: "?half < len" "?mid < length xs" using less.prems(2) by simp_all
    note mono = sorted_nth_le [OF less.prems(1)]
    show ?thesis
    proof (cases "xs ! ?mid < v")
      case True
      have "xs ! i < v" if "i < ?mid + 1" for i using mono [of i ?mid] that h(2) True by (simp add: le_less_trans)
      then have "splits_at (\<lambda>x. x < v) xs (lower_bound xs v (?mid + 1) (len - ?half - 1))"
        using less.prems h(1) by (intro less.IH) simp_all
      then show ?thesis using False True by (simp add: lower_bound.simps [of xs v first len] Let_def)
    next
      case F: False
      have "\<not> xs ! i < v" if "?mid \<le> i" "i < length xs" for i using mono [of ?mid i] that F by auto
      then have "splits_at (\<lambda>x. x < v) xs (lower_bound xs v first ?half)"
        using less.prems h by (intro less.IH) simp_all
      then show ?thesis using False F by (simp add: lower_bound.simps [of xs v first len] Let_def)
    qed
  qed
qed

lemma upper_bound_splits:
  assumes "sorted xs" and "first + len \<le> length xs"
    and "\<And>i. i < first \<Longrightarrow> xs ! i \<le> v" and "\<And>i. first + len \<le> i \<Longrightarrow> i < length xs \<Longrightarrow> \<not> xs ! i \<le> v"
  shows "splits_at (\<lambda>x. x \<le> v) xs (upper_bound xs v first len)"
  using assms
proof (induction len arbitrary: first rule: less_induct)
  case (less len)
  let ?half = "len div 2" and ?mid = "first + len div 2"
  show ?case
  proof (cases "len = 0")
    case True
    then have "splits_at (\<lambda>x. x \<le> v) xs first" using less.prems(2-4) by (intro splits_atI) simp_all
    then show ?thesis using True by (simp add: upper_bound.simps)
  next
    case False
    then have h: "?half < len" "?mid < length xs" using less.prems(2) by simp_all
    note mono = sorted_nth_le [OF less.prems(1)]
    show ?thesis
    proof (cases "v < xs ! ?mid")
      case True
      have "\<not> xs ! i \<le> v" if "?mid \<le> i" "i < length xs" for i using mono [of ?mid i] that True by auto
      then have "splits_at (\<lambda>x. x \<le> v) xs (upper_bound xs v first ?half)"
        using less.prems h by (intro less.IH) simp_all
      then show ?thesis using False True by (simp add: upper_bound.simps [of xs v first len] Let_def)
    next
      case F: False
      have "xs ! i \<le> v" if "i < ?mid + 1" for i using mono [of i ?mid] that h(2) F by simp
      then have "splits_at (\<lambda>x. x \<le> v) xs (upper_bound xs v (?mid + 1) (len - ?half - 1))"
        using less.prems h(1) by (intro less.IH) simp_all
      then show ?thesis using False F by (simp add: upper_bound.simps [of xs v first len] Let_def)
    qed
  qed
qed

text \<open>Linear search, the reference.\<close>

fun index_of :: "'a list \<Rightarrow> 'a \<Rightarrow> nat option" where
  "index_of [] v = None"
| "index_of (x # xs) v = (if x = v then Some 0 else map_option Suc (index_of xs v))"

lemma index_of_nth: "distinct xs \<Longrightarrow> i < length xs \<Longrightarrow> index_of xs (xs ! i) = Some i"
  by (induction xs arbitrary: i) (auto simp: nth_Cons split: nat.splits)

lemma index_of_None: "index_of xs v = None \<longleftrightarrow> v \<notin> set xs"
  by (induction xs) auto

lemma dispatch_index_eq:
  assumes "sorted names" and "distinct names"
  shows "dispatch_index names method = index_of names method"
proof -
  let ?lo = "lower_bound names method 0 (length names)" and ?hi = "upper_bound names method 0 (length names)"
  have lo: "splits_at (\<lambda>x. x < method) names ?lo" by (rule lower_bound_splits [OF assms(1)]) auto
  have hi: "splits_at (\<lambda>x. x \<le> method) names ?hi" by (rule upper_bound_splits [OF assms(1)]) auto
  have range: "names ! i = method \<longleftrightarrow> ?lo \<le> i \<and> i < ?hi" if "i < length names" for i
    using lo hi that unfolding splits_at_def by (metis leD leI le_less order_less_le)
  have le: "?lo \<le> ?hi" using lo hi unfolding splits_at_def by (metis leI less_le order_less_le_trans linorder_not_less)
  show ?thesis
  proof (cases "?lo = ?hi")
    case True
    then have "method \<notin> set names" using range by (metis in_set_conv_nth leD)
    then show ?thesis using True by (simp add: dispatch_index_def equal_range_def index_of_None [THEN iffD2])
  next
    case False
    then have "?lo < length names" using le hi by (auto simp: splits_at_def)
    moreover from this have "names ! ?lo = method" using range False le by auto
    ultimately have "index_of names method = Some ?lo" using index_of_nth [OF assms(2)] by metis
    then show ?thesis using False by (simp add: dispatch_index_def equal_range_def)
  qed
qed

lemma tables_sorted:
  "sorted Hello_all" "sorted ServerF_all" "sorted Node_all" "sorted AdminF_all"
  "distinct Hello_all" "distinct ServerF_all" "distinct Node_all" "distinct AdminF_all"
  by (code_simp)+

lemmas dispatch_tables = dispatch_index_eq [OF tables_sorted(1,5)] dispatch_index_eq [OF tables_sorted(2,6)]
  dispatch_index_eq [OF tables_sorted(3,7)] dispatch_index_eq [OF tables_sorted(4,8)]

section \<open>Replies\<close>

text \<open>The request a client sends under an id, and its parts as a dispatcher sees them.\<close>

lemma request_id_body: "request_id (request_body i text) = to_string (sint i)"
  unfolding request_id_def request_body_def using find_colon_split(2) [OF to_string_no_colon] by simp

lemma method_of_body:
  assumes "CHR '':'' \<notin> set func"
  shows "substr_before (find_colon (substr_after (find_colon (request_body i (request_text func req))) (request_body i (request_text func req))))
           (substr_after (find_colon (request_body i (request_text func req))) (request_body i (request_text func req))) = func"
  using parse_request_body [OF assms, of i req] unfolding parseRequest_def Let_def prod.inject by blast

lemma HelloImp_body:
  assumes "CHR '':'' \<notin> set func"
  shows "HelloImp (request_body i (request_text func req)) b =
    (if func = ''test'' \<or> func = ''testHello'' then (0, request_body i (request_text func req)) else (-3, b))"
  unfolding HelloImp_def Let_def method_of_body [OF assms] dispatch_tables(1)
  by (auto simp: Hello_all_def Hello_test_def Hello_testHello_def)

lemma ServerImp_body:
  assumes "CHR '':'' \<notin> set func"
  shows "ServerImp (request_body i (request_text func req)) b =
    (if func = ''keepAlive'' then (-1, to_string (sint i) @ '':I have received'') else (-3, b))"
  unfolding ServerImp_def parse_request_body [OF assms] dispatch_tables(2)
  by (auto simp: ServerF_all_def Server_keepAlive_def request_id_body)

lemma AdminServant_body:
  assumes "CHR '':'' \<notin> set func"
  shows "AdminServant (request_body i (request_text func req)) b =
    (if func = ''notify'' then (0, b, False) else if func = ''shutdown'' then (0, b, True) else (-3, b, False))"
  unfolding AdminServant_def parse_request_body [OF assms] dispatch_tables(4) by (auto simp: AdminF_all_def)

section \<open>The registry\<close>

definition Registry_bare :: "Registry \<Rightarrow> bool" where
  "Registry_bare r \<longleftrightarrow> (\<forall>name s. r name = Some s \<longrightarrow> s = {})"

lemma bare_entry: "Registry_bare r \<Longrightarrow> Registry_entry name r = (s, r') \<Longrightarrow> s = {} \<and> Registry_bare r'"
  unfolding Registry_bare_def Registry_entry_def
  by (cases "r name") (metis fun_upd_apply option.inject prod.inject option.simps(4,5))+

lemma bare_add: "Registry_bare r \<Longrightarrow> Registry_bare (addServantAddress name ip port r)"
  using bare_entry [of r name] by (cases "Registry_entry name r") (simp add: addServantAddress_def)

lemma bare_RegisterImp:
  assumes "Registry_bare r" and "RegisterImp request b r = Inr (ret, b', r')"
  shows "Registry_bare r'"
  using assms by (auto simp: RegisterImp_def registerServant_def Let_def deleteServant_def result_simps bare_add split: if_splits)

lemma bare_delete: "Registry_bare r \<Longrightarrow> delServantAddress name ip port r = Inl BadIterator"
  using bare_entry [of r name] by (cases "Registry_entry name r") (simp add: delServantAddress_def)

text \<open>The requests a registry server answers, one after the other.\<close>

fun register_all :: "string list \<Rightarrow> Registry \<Rightarrow> Registry result" where
  "register_all [] r = Inr r"
| "register_all (request # requests) r = bindE (RegisterImp request [] r) (\<lambda>(_, _, r1). register_all requests r1)"

lemma bare_register_all: "register_all requests r = Inr r' \<Longrightarrow> Registry_bare r \<Longrightarrow> Registry_bare r'"
proof (induction requests arbitrary: r)
  case (Cons request requests)
  then show ?case by (auto simp: result_simps dest: bare_RegisterImp)
qed simp

lemma split_colon_append: "CHR '':'' \<notin> set xs \<Longrightarrow> split_colon acc (xs @ CHR '':'' # ys) = (rev acc @ xs) # split_colon [] ys"
  by (induction xs arbitrary: acc) auto

lemma split_colon_last: "CHR '':'' \<notin> set xs \<Longrightarrow> split_colon acc xs = [rev acc @ xs]"
  by (induction xs arbitrary: acc) auto

lemma RegisterImp_body:
  assumes "CHR '':'' \<notin> set name" and "CHR '':'' \<notin> set ip" and "CHR '':'' \<notin> set port" and "port \<noteq> []"
  shows "RegisterImp (request_body i (request_text ''registerServant'' (name @ '':'' @ ip @ '':'' @ port))) b r =
    Inr (-1, to_string (sint i) @ '':registed!'', addServantAddress name ip (atoi port) r)"
proof -
  have "split_colon [] (request_body i (request_text ''registerServant'' (name @ '':'' @ ip @ '':'' @ port))) =
      [to_string (sint i), ''registerServant'', name, ip, port]"
    using split_colon_append [OF to_string_no_colon, of "[]" "sint i"] split_colon_append [of "''registerServant''" "[]"]
      split_colon_append [OF assms(1), of "[]"] split_colon_append [OF assms(2), of "[]"] split_colon_last [OF assms(3), of "[]"]
    by (simp add: request_body_def request_text_def)
  then show ?thesis using assms(4) by (simp add: RegisterImp_def tokens_def registerServant_def vec_at_def)
qed

section \<open>Heartbeat batches\<close>

fun keepAlive_all :: "string list \<Rightarrow> TarsNodeFHelper \<Rightarrow> string list \<times> TarsNodeFHelper" where
  "keepAlive_all [] h = ([], h)"
| "keepAlive_all (a # as) h =
     (let (out, h1) = TarsNodeFHelper_keepAlive a h; (out', h2) = keepAlive_all as h1 in (out @ out', h2))"

lemma keepAlive_all_collects:
  assumes "tn_nodeProxy h \<noteq> None" and "''AdminAdapter'' \<notin> set as"
  shows "keepAlive_all as h = ([], h\<lparr>tn_adapterSet := tn_adapterSet h \<union> set as\<rparr>)"
  using assms
proof (induction as arbitrary: h)
  case (Cons a as)
  then have "TarsNodeFHelper_keepAlive a h = ([], h\<lparr>tn_adapterSet := insert a (tn_adapterSet h)\<rparr>)"
    by (auto simp: TarsNodeFHelper_keepAlive_def)
  then show ?case using Cons by (simp add: Un_insert_left)
qed simp

section \<open>Properties\<close>

text \<open>C34. The binary search the dispatchers do in their sorted method tables finds what a linear search
  finds: the index of the method, or nothing exactly when the table does not have it.\<close>

theorem dispatch_index_is_lookup:
  assumes "sorted names" and "distinct names"
  shows "dispatch_index names method = index_of names method"
  using assms by (rule dispatch_index_eq)

theorem dispatch_index_is_lookup_witness:
  "dispatch_index Hello_all ''testHello'' = Some 1 \<and> dispatch_index Hello_all ''tess'' = None"
  using dispatch_index_is_lookup [OF tables_sorted(1,5), of "''testHello''"]
    dispatch_index_is_lookup [OF tables_sorted(1,5), of "''tess''"] by (simp add: Hello_all_def)

text \<open>The hello service returns the request itself as its response to a known method, not the text
  it builds; the heartbeat service answers under the id of the request; an unknown method gets -3 and
  an empty response from either.\<close>

theorem dispatchers_reply:
  assumes "CHR '':'' \<notin> set func"
  shows "HelloImp (request_body i (request_text func req)) [] =
           (if func = ''test'' \<or> func = ''testHello'' then (0, request_body i (request_text func req)) else (-3, [])) \<and>
         ServerImp (request_body i (request_text func req)) [] =
           (if func = ''keepAlive'' then (-1, to_string (sint i) @ '':I have received'') else (-3, []))"
  using HelloImp_body [OF assms] ServerImp_body [OF assms] by blast

theorem dispatchers_reply_witness:
  "HelloImp (request_body 7 (request_text ''test'' ''x'')) [] = (0, request_body 7 (request_text ''test'' ''x''))"
  using dispatchers_reply [of "''test''" 7 "''x''"] by simp

text \<open>The registry stores nothing: whatever requests it has answered, every address set it holds is
  empty, and deleting any address erases through the end iterator.\<close>

theorem Registry_stores_nothing:
  assumes "register_all requests Map.empty = Inr r"
  shows "r name \<in> {None, Some {}} \<and> delServantAddress name ip port r = Inl BadIterator"
proof -
  have "Registry_bare r" using bare_register_all [OF assms] by (simp add: Registry_bare_def)
  then show ?thesis using bare_delete [of r name ip port] unfolding Registry_bare_def
    by (cases "r name") simp_all
qed

theorem Registry_stores_nothing_witness:
  "\<exists>r. register_all [request_body 1 (request_text ''registerServant'' ''test:127.0.0.1:9877'')] Map.empty = Inr r \<and>
     r ''test'' \<in> {None, Some {}} \<and> delServantAddress ''test'' ''127.0.0.1'' 9877 r = Inl BadIterator"
proof -
  have "register_all [request_body 1 (request_text ''registerServant'' ''test:127.0.0.1:9877'')] Map.empty =
      Inr (addServantAddress ''test'' ''127.0.0.1'' (atoi ''9877'') Map.empty)"
    using RegisterImp_body [of "''test''" "''127.0.0.1''" "''9877''" 1 "[]"] by simp
  then show ?thesis using Registry_stores_nothing by blast
qed

text \<open>Heartbeats are batched: nothing is sent until the admin adapter reports, and then one request
  per distinct adapter that reported since, in order of their names.\<close>

theorem keepAlive_batches:
  assumes "tn_nodeProxy h \<noteq> None" and "tn_adapterSet h = {}" and "''AdminAdapter'' \<notin> set as"
  shows "keepAlive_all (as @ [''AdminAdapter'']) h =
    (map (\<lambda>name. keepAlive_request ((tn_serverInfo h)\<lparr>si_adapter := name\<rparr>))
       (sorted_list_of_set (insert ''AdminAdapter'' (set as))), h)"
proof -
  have app: "keepAlive_all (as @ bs) h = (let (o1, h1) = keepAlive_all as h; (o2, h2) = keepAlive_all bs h1 in (o1 @ o2, h2))"
    for bs by (induction as arbitrary: h) (auto simp: Let_def split: prod.splits)
  show ?thesis using keepAlive_all_collects [OF assms(1,3)] assms(1,2)
    by (auto simp: app TarsNodeFHelper_keepAlive_def Let_def)
qed

definition sample_helper :: TarsNodeFHelper where
  "sample_helper = set_nodeInfo 42 ''127.0.0.1:19386'' ''TestApp'' ''Hello'' TarsNodeFHelper_new"

lemma sample_helper_fields:
  "tn_nodeProxy sample_helper \<noteq> None" "tn_adapterSet sample_helper = {}"
  by (simp_all add: sample_helper_def set_nodeInfo_def TarsNodeFHelper_new_def Let_def)

theorem keepAlive_batches_witness:
  "keepAlive_all ([''HelloAdapter'', ''HelloAdapter''] @ [''AdminAdapter'']) sample_helper =
     (map (\<lambda>name. keepAlive_request ((tn_serverInfo sample_helper)\<lparr>si_adapter := name\<rparr>))
        (sorted_list_of_set (insert ''AdminAdapter'' (set [''HelloAdapter'', ''HelloAdapter'']))), sample_helper)"
  by (rule keepAlive_batches [OF sample_helper_fields]) simp

end
