(* ===== verification/Tarsx_CoroList.thy ===== *)
theory Tarsx_CoroList
  imports Tarsx_Prelude
begin

text \<open>
  The intrusive circular doubly linked lists of \<open>CoroutineScheduler.h\<close> (static members of
  \<open>CoroutineInfo\<close>): a list is a head object and the coroutines reached from it by \<open>next_\<close>; every
  coroutine is a member of at most one list. The objects are addresses, the two link fields a
  heap, a null link \<open>None\<close>. The predicate \<open>ring\<close> says which coroutines a head's list holds.
\<close>

section \<open>Objects and links\<close>

datatype CORO_STATUS = CORO_FREE | CORO_ACTIVE | CORO_AVAIL | CORO_INACTIVE | CORO_TIMEOUT

text \<open>The five heads are members of the scheduler (\<open>free_\<close>, \<open>active_\<close>, \<open>avail_\<close>, \<open>inactive_\<close>,
  \<open>timeout_\<close>, named here by the status of their members); a coroutine object is known by the
  number of the \<open>new\<close> that made it; \<open>mainCoro_\<close> is in no list.\<close>

datatype coro_ptr = Head CORO_STATUS | Coro nat | MainCoro

record links =
  nextp :: "coro_ptr \<Rightarrow> coro_ptr option"
  prevp :: "coro_ptr \<Rightarrow> coro_ptr option"

definition links_new :: links where
  "links_new = \<lparr>nextp = (\<lambda>_. None), prevp = (\<lambda>_. None)\<rparr>"

definition deref :: "'a option \<Rightarrow> 'a result" where
  "deref p = (case p of None \<Rightarrow> Inl NullDeref | Some x \<Rightarrow> Inr x)"

lemma deref_Some [simp]: "deref (Some x) = Inr x"
  by (simp add: deref_def)

definition set_next :: "coro_ptr \<Rightarrow> coro_ptr option \<Rightarrow> links \<Rightarrow> links" where
  "set_next p v h = h\<lparr>nextp := (nextp h)(p := v)\<rparr>"

definition set_prev :: "coro_ptr \<Rightarrow> coro_ptr option \<Rightarrow> links \<Rightarrow> links" where
  "set_prev p v h = h\<lparr>prevp := (prevp h)(p := v)\<rparr>"

lemma links_simps [simp]:
  "nextp (set_next p v h) = (nextp h)(p := v)" "prevp (set_next p v h) = prevp h"
  "prevp (set_prev p v h) = (prevp h)(p := v)" "nextp (set_prev p v h) = nextp h"
  by (simp_all add: set_next_def set_prev_def)

section \<open>Operations\<close>

definition coroutineHeadInit :: "coro_ptr \<Rightarrow> links \<Rightarrow> links" where
  "coroutineHeadInit coro h = set_prev coro (Some coro) (set_next coro (Some coro) h)"

definition coroutineHeadEmpty :: "coro_ptr \<Rightarrow> links \<Rightarrow> bool" where
  "coroutineHeadEmpty coro_head h \<longleftrightarrow> nextp h coro_head = Some coro_head"

text \<open>The inner insertion and removal take pointers that may be null: \<open>next\<close> is written through
  first, \<open>prev\<close> last.\<close>

definition coroutineAdd_between ::
    "coro_ptr \<Rightarrow> coro_ptr option \<Rightarrow> coro_ptr option \<Rightarrow> links \<Rightarrow> links result" where
  "coroutineAdd_between coro prev nxt h =
     bindE (deref nxt) (\<lambda>n.
     let h1 = set_prev n (Some coro) h;
         h2 = set_next coro nxt h1;
         h3 = set_prev coro prev h2
     in bindE (deref prev) (\<lambda>p. Inr (set_next p (Some coro) h3)))"

definition coroutineAdd :: "coro_ptr \<Rightarrow> coro_ptr \<Rightarrow> links \<Rightarrow> links result" where
  "coroutineAdd new_coro coro_head h =
     coroutineAdd_between new_coro (Some coro_head) (nextp h coro_head) h"

definition coroutineAddTail :: "coro_ptr \<Rightarrow> coro_ptr \<Rightarrow> links \<Rightarrow> links result" where
  "coroutineAddTail new_coro coro_head h =
     coroutineAdd_between new_coro (prevp h coro_head) (Some coro_head) h"

definition coroutineDel_between :: "coro_ptr option \<Rightarrow> coro_ptr option \<Rightarrow> links \<Rightarrow> links result" where
  "coroutineDel_between prev nxt h =
     bindE (deref nxt) (\<lambda>n.
     let h1 = set_prev n prev h in
     bindE (deref prev) (\<lambda>p. Inr (set_next p nxt h1)))"

definition coroutineDel :: "coro_ptr \<Rightarrow> links \<Rightarrow> links result" where
  "coroutineDel coro h =
     bindE (coroutineDel_between (prevp h coro) (nextp h coro) h) (\<lambda>h1.
     Inr (set_prev coro None (set_next coro None h1)))"

definition coroutineMove :: "coro_ptr \<Rightarrow> coro_ptr \<Rightarrow> links \<Rightarrow> links result" where
  "coroutineMove coro coro_head h = bindE (coroutineDel coro h) (coroutineAdd coro coro_head)"

definition coroutineMoveTail :: "coro_ptr \<Rightarrow> coro_ptr \<Rightarrow> links \<Rightarrow> links result" where
  "coroutineMoveTail coro coro_head h = bindE (coroutineDel coro h) (coroutineAddTail coro coro_head)"

section \<open>Segments and rings\<close>

fun lseg :: "links \<Rightarrow> coro_ptr \<Rightarrow> coro_ptr list \<Rightarrow> coro_ptr \<Rightarrow> bool" where
  "lseg h a [] b \<longleftrightarrow> nextp h a = Some b \<and> prevp h b = Some a"
| "lseg h a (x # xs) b \<longleftrightarrow> nextp h a = Some x \<and> prevp h x = Some a \<and> lseg h x xs b"

definition ring :: "links \<Rightarrow> coro_ptr \<Rightarrow> coro_ptr list \<Rightarrow> bool" where
  "ring h a xs \<longleftrightarrow> lseg h a xs a \<and> distinct (a # xs)"

lemma lseg_append: "lseg h a (xs @ x # ys) b \<longleftrightarrow> lseg h a xs x \<and> lseg h x ys b"
  by (induction xs arbitrary: a) auto

lemma lseg_frame:
  "(\<And>p. p = a \<or> p \<in> set xs \<Longrightarrow> nextp h' p = nextp h p) \<Longrightarrow>
   (\<And>p. p = b \<or> p \<in> set xs \<Longrightarrow> prevp h' p = prevp h p) \<Longrightarrow>
   lseg h' a xs b \<longleftrightarrow> lseg h a xs b"
  by (induction xs arbitrary: a) auto

lemma lseg_frameI:
  "lseg h a xs b \<Longrightarrow> \<forall>p \<in> set (a # xs). nextp h' p = nextp h p \<Longrightarrow>
   \<forall>p \<in> set (b # xs). prevp h' p = prevp h p \<Longrightarrow> lseg h' a xs b"
  using lseg_frame [of a xs h' h b] by auto

lemma ring_frame:
  assumes "\<And>p. p \<in> set (a # xs) \<Longrightarrow> nextp h' p = nextp h p \<and> prevp h' p = prevp h p"
  shows "ring h' a xs \<longleftrightarrow> ring h a xs"
  using lseg_frame [of a xs h' h a] assms by (auto simp: ring_def)

lemma lseg_first: "lseg h a xs b \<Longrightarrow> nextp h a = Some (case xs of [] \<Rightarrow> b | x # _ \<Rightarrow> x)"
  by (cases xs) auto

lemma lseg_last: "lseg h a xs b \<Longrightarrow> prevp h b = Some (if xs = [] then a else last xs)"
  by (induction xs arbitrary: a) auto

lemma ring_HeadInit: "ring (coroutineHeadInit a h) a []"
  by (simp add: ring_def coroutineHeadInit_def)

lemma ring_HeadEmpty: "ring h a xs \<Longrightarrow> coroutineHeadEmpty a h \<longleftrightarrow> xs = []"
  by (auto simp: ring_def coroutineHeadEmpty_def dest: lseg_first split: list.splits)

lemma ring_first: "ring h a (x # xs) \<Longrightarrow> nextp h a = Some x"
  by (simp add: ring_def)

lemma AddTail_ok:
  assumes r: "ring h a xs" and c: "c \<notin> set (a # xs)"
  shows "\<exists>h'. coroutineAddTail c a h = Inr h' \<and> ring h' a (xs @ [c]) \<and>
     (\<forall>p. p \<notin> set (c # a # xs) \<longrightarrow> nextp h' p = nextp h p \<and> prevp h' p = prevp h p)"
proof -
  define l where "l = (if xs = [] then a else last xs)"
  have pv: "prevp h a = Some l" using r lseg_last [of h a xs a] by (simp add: ring_def l_def)
  have l: "l \<in> set (a # xs)" by (simp add: l_def)
  define h' where "h' = set_next l (Some c) (set_prev c (Some l) (set_next c (Some a) (set_prev a (Some c) h)))"
  have eq: "coroutineAddTail c a h = Inr h'"
    by (simp add: coroutineAddTail_def coroutineAdd_between_def Let_def pv h'_def)
  have "lseg h' a (xs @ [c]) a"
  proof (cases xs rule: rev_cases)
    case Nil
    then show ?thesis using c by (auto simp: h'_def l_def)
  next
    case (snoc ys y)
    then have y: "l = y" "lseg h a ys y" "distinct (a # ys @ [y])"
      using r by (auto simp: l_def ring_def lseg_append)
    then have "lseg h' a ys y" using c snoc by - (rule lseg_frameI [of h], auto simp: h'_def)
    then show ?thesis using c y(1,3) snoc by (auto simp: lseg_append h'_def)
  qed
  moreover have "distinct (a # xs)" using r by (simp add: ring_def)
  moreover have "nextp h' p = nextp h p \<and> prevp h' p = prevp h p" if "p \<notin> set (c # a # xs)" for p
    using that l by (auto simp: h'_def)
  ultimately show ?thesis using eq c unfolding ring_def by (intro exI [of _ h']) auto
qed

lemma Add_ok:
  assumes r: "ring h a xs" and c: "c \<notin> set (a # xs)"
  shows "\<exists>h'. coroutineAdd c a h = Inr h' \<and> ring h' a (c # xs) \<and>
     (\<forall>p. p \<notin> set (c # a # xs) \<longrightarrow> nextp h' p = nextp h p \<and> prevp h' p = prevp h p)"
proof -
  define n where "n = (case xs of [] \<Rightarrow> a | x # _ \<Rightarrow> x)"
  have nx: "nextp h a = Some n" using r lseg_first [of h a xs a] by (simp add: ring_def n_def)
  have n: "n \<in> set (a # xs)" by (simp add: n_def split: list.split)
  define h' where "h' = set_next a (Some c) (set_prev c (Some a) (set_next c (Some n) (set_prev n (Some c) h)))"
  have eq: "coroutineAdd c a h = Inr h'"
    by (simp add: coroutineAdd_def coroutineAdd_between_def Let_def nx h'_def)
  have "lseg h' a (c # xs) a"
  proof (cases xs)
    case Nil
    then show ?thesis using c by (auto simp: h'_def n_def)
  next
    case (Cons y ys)
    then have y: "n = y" "lseg h y ys a" "distinct (a # y # ys)"
      using r by (auto simp: n_def ring_def)
    then have "lseg h' y ys a" using c Cons by - (rule lseg_frameI [of h], auto simp: h'_def)
    then show ?thesis using c y(1,3) Cons by (auto simp: h'_def)
  qed
  moreover have "distinct (a # xs)" using r by (simp add: ring_def)
  moreover have "nextp h' p = nextp h p \<and> prevp h' p = prevp h p" if "p \<notin> set (c # a # xs)" for p
    using that n by (auto simp: h'_def)
  ultimately show ?thesis using eq c unfolding ring_def by (intro exI [of _ h']) auto
qed

lemma Del_ok:
  assumes r: "ring h a (xs @ c # ys)"
  shows "\<exists>h'. coroutineDel c h = Inr h' \<and> ring h' a (xs @ ys) \<and> nextp h' c = None \<and> prevp h' c = None \<and>
     (\<forall>p. p \<notin> set (c # a # xs @ ys) \<longrightarrow> nextp h' p = nextp h p \<and> prevp h' p = prevp h p)"
proof -
  have seg: "lseg h a xs c" "lseg h c ys a" and dist: "distinct (a # xs @ c # ys)"
    using r by (auto simp: ring_def lseg_append)
  define p where "p = (if xs = [] then a else last xs)"
  define n where "n = (case ys of [] \<Rightarrow> a | y # _ \<Rightarrow> y)"
  have pn: "prevp h c = Some p" "nextp h c = Some n"
    using lseg_last [OF seg(1)] lseg_first [OF seg(2)] by (auto simp: p_def n_def)
  have mem: "p \<in> set (a # xs)" "n \<in> set (a # ys)" by (auto simp: p_def n_def split: list.split)
  define h' where "h' = set_prev c None (set_next c None (set_next p (Some n) (set_prev n (Some p) h)))"
  have eq: "coroutineDel c h = Inr h'"
    by (simp add: coroutineDel_def coroutineDel_between_def Let_def pn h'_def)
  have left: "lseg h' a zs p" if "xs = zs @ [p]" for zs
    using that seg(1) dist mem(2) by - (rule lseg_frameI [of h], auto simp: h'_def lseg_append)
  have right: "lseg h' n zs a" if "ys = n # zs" for zs
    using that seg(2) dist mem(1) by - (rule lseg_frameI [of h], auto simp: h'_def)
  have link: "nextp h' p = Some n" "prevp h' n = Some p"
    using mem dist by (auto simp: h'_def)
  have "lseg h' a (xs @ ys) a"
  proof (cases xs rule: rev_cases)
    case Nil
    then have "p = a" by (simp add: p_def)
    show ?thesis
    proof (cases ys)
      case Nil
      then show ?thesis using \<open>xs = []\<close> link \<open>p = a\<close> by (simp add: n_def)
    next
      case (Cons y zs)
      then have "y = n" by (simp add: n_def)
      then show ?thesis using right Cons \<open>xs = []\<close> link \<open>p = a\<close> by simp
    qed
  next
    case (snoc zs y)
    then have "y = p" by (simp add: p_def)
    have l: "lseg h' a zs p" using left snoc \<open>y = p\<close> by simp
    show ?thesis
    proof (cases ys)
      case Nil
      then show ?thesis using l snoc link \<open>y = p\<close> by (simp add: lseg_append n_def)
    next
      case (Cons y' zs')
      then have "y' = n" by (simp add: n_def)
      then show ?thesis using l right Cons snoc link \<open>y = p\<close> by (simp add: lseg_append)
    qed
  qed
  moreover have "nextp h' q = nextp h q \<and> prevp h' q = prevp h q" if "q \<notin> set (c # a # xs @ ys)" for q
    using that mem by (auto simp: h'_def)
  moreover have "nextp h' c = None" "prevp h' c = None" by (simp_all add: h'_def)
  ultimately show ?thesis using eq dist unfolding ring_def by (intro exI [of _ h']) auto
qed

section \<open>The five lists as an interface\<close>

text \<open>
  What the scheduler relies on: five disjoint lists of coroutines, insertion at the tail of one,
  removal from the one a coroutine is in, the test for emptiness and the first member. No
  operation follows a null link.
\<close>

type_synonym coro_lists = "CORO_STATUS \<Rightarrow> nat list"

definition lists_disjoint :: "coro_lists \<Rightarrow> bool" where
  "lists_disjoint L \<longleftrightarrow> (\<forall>st. distinct (L st)) \<and> (\<forall>st st'. st \<noteq> st' \<longrightarrow> set (L st) \<inter> set (L st') = {})"

definition lists_move :: "nat \<Rightarrow> CORO_STATUS \<Rightarrow> CORO_STATUS \<Rightarrow> coro_lists \<Rightarrow> coro_lists" where
  "lists_move c st st' L = (let L1 = L(st := remove1 c (L st)) in L1(st' := L1 st' @ [c]))"

definition lists_total :: "coro_lists \<Rightarrow> nat" where
  "lists_total L = length (L CORO_FREE) + length (L CORO_ACTIVE) + length (L CORO_AVAIL) +
     length (L CORO_INACTIVE) + length (L CORO_TIMEOUT)"

locale status_lists =
  fixes rel :: "'h \<Rightarrow> coro_lists \<Rightarrow> bool"
    and addTail :: "nat \<Rightarrow> CORO_STATUS \<Rightarrow> 'h \<Rightarrow> 'h result"
    and del :: "nat \<Rightarrow> 'h \<Rightarrow> 'h result"
    and first :: "CORO_STATUS \<Rightarrow> 'h \<Rightarrow> coro_ptr option"
  assumes disjoint_law: "rel h L \<Longrightarrow> lists_disjoint L"
    and add_law: "rel h L \<Longrightarrow> (\<And>st'. c \<notin> set (L st')) \<Longrightarrow>
      \<exists>h'. addTail c st h = Inr h' \<and> rel h' (L(st := L st @ [c]))"
    and del_law: "rel h L \<Longrightarrow> c \<in> set (L st) \<Longrightarrow>
      \<exists>h'. del c h = Inr h' \<and> rel h' (L(st := remove1 c (L st)))"
    and first_law: "rel h L \<Longrightarrow> first st h = Some (case L st of [] \<Rightarrow> Head st | c # _ \<Rightarrow> Coro c)"
begin

lemma absent_after_del:
  assumes "rel h L" and "c \<in> set (L st)"
  shows "c \<notin> set ((L(st := remove1 c (L st))) st')"
  using disjoint_law [OF assms(1)] assms(2) by (auto simp: lists_disjoint_def)

lemma move_ok:
  assumes "rel h L" and "c \<in> set (L st)"
  shows "\<exists>h1 h2. del c h = Inr h1 \<and> addTail c st' h1 = Inr h2 \<and> rel h2 (lists_move c st st' L)"
proof -
  obtain h1 where h1: "del c h = Inr h1" "rel h1 (L(st := remove1 c (L st)))"
    using del_law [OF assms] by blast
  from add_law [OF h1(2) absent_after_del [OF assms], of st'] h1(1)
  show ?thesis unfolding lists_move_def Let_def by blast
qed

lemma empty_iff: "rel h L \<Longrightarrow> first st h = Some (Head st) \<longleftrightarrow> L st = []"
  using first_law [of h L st] by (auto split: list.splits)

end

definition rings :: "links \<Rightarrow> coro_lists \<Rightarrow> bool" where
  "rings h L \<longleftrightarrow> (\<forall>st. ring h (Head st) (map Coro (L st))) \<and> lists_disjoint L"

definition links_addTail :: "nat \<Rightarrow> CORO_STATUS \<Rightarrow> links \<Rightarrow> links result" where
  "links_addTail c st h = coroutineAddTail (Coro c) (Head st) h"

definition links_del :: "nat \<Rightarrow> links \<Rightarrow> links result" where
  "links_del c h = coroutineDel (Coro c) h"

definition links_first :: "CORO_STATUS \<Rightarrow> links \<Rightarrow> coro_ptr option" where
  "links_first st h = nextp h (Head st)"

lemma rings_other:
  assumes "rings h L" and "lists_disjoint L'" and "ring h' (Head st) (map Coro (L' st))"
    and "\<And>st'. st' \<noteq> st \<Longrightarrow> L' st' = L st'"
    and "\<And>p. p \<notin> set (Coro c # Head st # map Coro (L st)) \<Longrightarrow> nextp h' p = nextp h p \<and> prevp h' p = prevp h p"
    and "\<And>st'. st' \<noteq> st \<Longrightarrow> c \<notin> set (L st')"
  shows "rings h' L'"
  unfolding rings_def
proof (intro conjI allI)
  fix st'
  show "ring h' (Head st') (map Coro (L' st'))"
  proof (cases "st' = st")
    case False
    then have "ring h (Head st') (map Coro (L st'))" using assms(1) by (simp add: rings_def)
    moreover have "set (L st') \<inter> set (L st) = {}"
      using assms(1) False by (simp add: rings_def lists_disjoint_def)
    moreover have "p \<notin> set (Coro c # Head st # map Coro (L st))" if "p \<in> set (Head st' # map Coro (L st'))" for p
      using that False assms(6) [OF False] calculation(2) by auto
    ultimately have "ring h' (Head st') (map Coro (L st'))"
      using assms(5) by (subst ring_frame [where h = h]) blast+
    then show ?thesis using assms(4) [OF False] by simp
  qed (use assms(3) in simp)
qed (rule assms(2))

interpretation coros: status_lists rings links_addTail links_del links_first
proof unfold_locales
  fix h L c st
  assume r: "rings h L"
  then show "lists_disjoint L" by (simp add: rings_def)
  have rg: "ring h (Head st) (map Coro (L st))" for st using r by (simp add: rings_def)
  show "links_first st h = Some (case L st of [] \<Rightarrow> Head st | c # _ \<Rightarrow> Coro c)"
    using rg [of st] by (cases "L st") (auto simp: links_first_def ring_def)
  show "\<exists>h'. links_addTail c st h = Inr h' \<and> rings h' (L(st := L st @ [c]))"
    if "\<And>st'. c \<notin> set (L st')"
  proof -
    have "Coro c \<notin> set (Head st # map Coro (L st))" using that by auto
    from AddTail_ok [OF rg this] obtain h' where h': "links_addTail c st h = Inr h'"
      "ring h' (Head st) (map Coro (L st) @ [Coro c])"
      "\<And>p. p \<notin> set (Coro c # Head st # map Coro (L st)) \<Longrightarrow> nextp h' p = nextp h p \<and> prevp h' p = prevp h p"
      by (auto simp: links_addTail_def)
    have "lists_disjoint (L(st := L st @ [c]))"
      using r that by (auto simp: rings_def lists_disjoint_def)
    with h' that have "rings h' (L(st := L st @ [c]))"
      by (intro rings_other [OF r _ _ _ h'(3)]) auto
    with h'(1) show ?thesis by blast
  qed
  show "\<exists>h'. links_del c h = Inr h' \<and> rings h' (L(st := remove1 c (L st)))" if c: "c \<in> set (L st)"
  proof -
    obtain xs ys where xy: "L st = xs @ c # ys" "c \<notin> set xs" using split_list_first [OF c] by blast
    have rm: "remove1 c (L st) = xs @ ys" using xy by (simp add: remove1_append)
    have "ring h (Head st) (map Coro xs @ Coro c # map Coro ys)" using rg [of st] xy by simp
    from Del_ok [OF this] obtain h' where h': "links_del c h = Inr h'"
      "ring h' (Head st) (map Coro (xs @ ys))"
      "\<And>p. p \<notin> set (Coro c # Head st # map Coro (L st)) \<Longrightarrow> nextp h' p = nextp h p \<and> prevp h' p = prevp h p"
      by (auto simp: links_del_def xy)
    have d: "lists_disjoint (L(st := remove1 c (L st)))"
      using r unfolding rings_def lists_disjoint_def by (auto simp: disjoint_iff)
    have "c \<notin> set (L st')" if "st' \<noteq> st" for st'
      using r c that unfolding rings_def lists_disjoint_def by (auto simp: disjoint_iff)
    with h' d have "rings h' (L(st := remove1 c (L st)))"
      by (intro rings_other [OF r d _ _ h'(3)]) (auto simp: rm)
    with h'(1) show ?thesis by blast
  qed
qed

lemma rings_init:
  "rings (fold (\<lambda>st h. coroutineHeadInit (Head st) h)
     [CORO_ACTIVE, CORO_AVAIL, CORO_INACTIVE, CORO_TIMEOUT, CORO_FREE] links_new) (\<lambda>_. [])"
  unfolding rings_def
proof (intro conjI allI)
  fix st show "ring (fold (\<lambda>st h. coroutineHeadInit (Head st) h)
     [CORO_ACTIVE, CORO_AVAIL, CORO_INACTIVE, CORO_TIMEOUT, CORO_FREE] links_new) (Head st) (map Coro [])"
    by (cases st) (simp_all add: ring_def coroutineHeadInit_def)
qed (simp add: lists_disjoint_def)

section \<open>Properties\<close>

text \<open>Moving a coroutine between lists is safe: \<open>coroutineMoveTail\<close> on a member of one of the five
  lists follows no null link, takes it out of its list, puts it at the end of the other, and
  leaves every other list and the order of all other members as they were.\<close>

theorem coroutineMoveTail_moves:
  assumes "rings h L" and "c \<in> set (L st)"
  shows "\<exists>h'. coroutineMoveTail (Coro c) (Head st') h = Inr h' \<and> rings h' (lists_move c st st' L)"
  using coros.move_ok [OF assms, of st']
  by (auto simp: coroutineMoveTail_def links_del_def links_addTail_def)

theorem coroutineMoveTail_moves_witness:
  "\<exists>h h'. rings h ((\<lambda>_. [])(CORO_FREE := [1, 2, 3])) \<and>
     coroutineMoveTail (Coro 2) (Head CORO_AVAIL) h = Inr h' \<and>
     rings h' ((\<lambda>_. [])(CORO_FREE := [1, 3], CORO_AVAIL := [2]))"
proof -
  obtain h1 where h1: "rings h1 ((\<lambda>_. [])(CORO_FREE := [] @ [1]))"
    using coros.add_law [OF rings_init, of 1 CORO_FREE] by auto
  then obtain h2 where h2: "rings h2 ((\<lambda>_. [])(CORO_FREE := [1] @ [2]))"
    using coros.add_law [OF h1, of 2 CORO_FREE] by auto
  then obtain h3 where h3: "rings h3 ((\<lambda>_. [])(CORO_FREE := [1, 2] @ [3]))"
    using coros.add_law [OF h2, of 3 CORO_FREE] by auto
  have "lists_move 2 CORO_FREE CORO_AVAIL ((\<lambda>_. [])(CORO_FREE := [1, 2, 3])) =
      (\<lambda>_. [])(CORO_FREE := [1, 3], CORO_AVAIL := [2])"
    by (simp add: lists_move_def Let_def)
  with h3 coroutineMoveTail_moves [of h3 "(\<lambda>_. [])(CORO_FREE := [1, 2, 3])" 2 CORO_FREE CORO_AVAIL]
  show ?thesis by auto
qed

end
