(* ===== verification/Tarsx_Coroutine.thy ===== *)
theory Tarsx_Coroutine
  imports Tarsx_CoroList Tarsx_ThreadDeque
begin

text \<open>
  \<open>CoroutineScheduler\<close> (\<open>CoroutineScheduler.h\<close>, \<open>.cc\<close>): the pool of coroutines of a servant
  thread, their stacks, and the scheduling loop over the five lists of \<open>Tarsx_CoroList\<close>. A
  coroutine body is what it does between two switches, a \<open>slice\<close>: it creates coroutines, then
  gives up the processor in one of three ways. The machine code of the switch itself
  (\<open>make_fcontext\<close>, \<open>jump_fcontext\<close>) is the parameter \<open>resume\<close>, which says what slice the rest of
  a body runs next; the clock, the page size, the stack limit and \<open>mmap\<close> are parameters too.
\<close>

section \<open>Stacks\<close>

record stack_context =
  ctx_size :: u64
  ctx_sp :: u64

text \<open>The system values: page size (\<open>sysconf\<close>), hard stack limit (\<open>None\<close> for \<open>RLIM_INFINITY\<close>).\<close>

record stack_limits =
  pagesize :: nat
  rlim_max :: "u64 option"

text \<open>\<open>static_cast<float>\<close> of an integer: 24 significant bits, round to nearest, ties to even.
  Dividing by the page size, a power of two, is exact.\<close>

fun float_exponent :: "nat \<Rightarrow> nat" where
  "float_exponent n = (if n < 16777216 then 0 else Suc (float_exponent (n div 2)))"

declare float_exponent.simps [simp del]

definition float_of :: "nat \<Rightarrow> nat" where
  "float_of n =
     (let e = float_exponent n; q = n div 2 ^ e; r = 2 * (n mod 2 ^ e)
      in (if 2 ^ e < r \<or> r = 2 ^ e \<and> odd q then q + 1 else q) * 2 ^ e)"

definition page_count :: "stack_limits \<Rightarrow> u64 \<Rightarrow> nat" where
  "page_count lim stacksize = (float_of (unat stacksize) + pagesize lim - 1) div pagesize lim"

definition is_stack_unbound :: "stack_limits \<Rightarrow> bool" where
  "is_stack_unbound lim \<longleftrightarrow> rlim_max lim = None"

text \<open>\<open>fcontext_t\<close> has eight 8-byte registers, a 16-byte stack descriptor and 8 bytes of
  floating point control words.\<close>

definition minimum_stacksize :: u64 where
  "minimum_stacksize = 8 * 1024 + 88 + 15"

definition maximum_stacksize :: "stack_limits \<Rightarrow> u64 result" where
  "maximum_stacksize lim = (case rlim_max lim of None \<Rightarrow> Inl AssertFailed | Some m \<Rightarrow> Inr m)"

definition default_stacksize :: "stack_limits \<Rightarrow> u64 result" where
  "default_stacksize lim =
     (let sz = 8 * minimum_stacksize in
      if is_stack_unbound lim then Inr sz
      else
        bindE (maximum_stacksize lim) (\<lambda>m.
        bindE (assertE (minimum_stacksize \<le> m)) (\<lambda>_.
        Inr (if m = sz then sz else min sz m))))"

definition fits_limit :: "stack_limits \<Rightarrow> u64 \<Rightarrow> bool" where
  "fits_limit lim sz \<longleftrightarrow> (case rlim_max lim of None \<Rightarrow> True | Some m \<Rightarrow> sz \<le> m)"

text \<open>\<open>allocate\<close>: \<open>None\<close> is the return value -1, when \<open>mmap\<close> fails.\<close>

definition allocate :: "stack_limits \<Rightarrow> u64 option \<Rightarrow> u64 \<Rightarrow> stack_context option result" where
  "allocate lim mapped sz =
     bindE (assertE (minimum_stacksize \<le> sz)) (\<lambda>_.
     bindE (assertE (is_stack_unbound lim \<or> fits_limit lim sz)) (\<lambda>_.
     let pages = of_nat (page_count lim sz) + 1;
         size' = pages * of_nat (pagesize lim)
     in
     bindE (assertE (0 < sz \<and> 0 < size')) (\<lambda>_.
     case mapped of
       None \<Rightarrow> Inr None
     | Some limit \<Rightarrow> Inr (Some \<lparr>ctx_size = size', ctx_sp = limit + size'\<rparr>))))"

text \<open>\<open>deallocate\<close>: the range unmapped.\<close>

definition deallocate :: "stack_limits \<Rightarrow> stack_context \<Rightarrow> (u64 \<times> u64) result" where
  "deallocate lim ctx =
     bindE (assertE (ctx_sp ctx \<noteq> 0)) (\<lambda>_.
     bindE (assertE (minimum_stacksize \<le> ctx_size ctx)) (\<lambda>_.
     bindE (assertE (is_stack_unbound lim \<or> fits_limit lim (ctx_size ctx))) (\<lambda>_.
     Inr (ctx_sp ctx - ctx_size ctx, ctx_size ctx))))"

section \<open>Coroutines and the scheduler\<close>

text \<open>What a body does until it switches back: \<open>SCreate b k\<close> calls \<open>createCoroutine\<close> on \<open>b\<close> and goes
  on with \<open>k\<close> of the id; it ends with \<open>yield(flag)\<close>, \<open>sleep(ms)\<close> or by returning (an exception of
  the body is caught and ends it the same way).\<close>

datatype 'c slice =
    SCreate 'c "u32 \<Rightarrow> 'c slice"
  | SYield bool 'c
  | SSleep int 'c
  | SReturn

record 'c CoroutineInfo =
  ci_uid :: u32
  ci_status :: CORO_STATUS
  ci_stack :: stack_context
  ci_body :: "'c option"

record 'c CoroutineScheduler =
  terminal :: bool
  poolSize :: u32
  stackSize :: u64
  currentSize :: u32
  usedSize :: u32
  uniqId :: u32
  currentCoro :: "coro_ptr option"
  allCoro :: "nat option list"
  coroLinks :: links
  coroInfo :: "nat \<Rightarrow> 'c CoroutineInfo option"
  newCoros :: nat
  activeCoroQueue :: "u32 ThreadDeque"
  needActiveCoroId :: "u32 list"
  timeoutCoroId :: "(int \<times> u32) list"
  clockReads :: nat

text \<open>The surroundings of a scheduler: \<open>mmap\<close> for the stack of the \<open>n\<close>-th coroutine object, the
  \<open>n\<close>-th reading of the clock.\<close>

record 'c sched_env =
  resume :: "'c \<Rightarrow> 'c slice"
  clock :: "nat \<Rightarrow> int"
  limits :: stack_limits
  mmap :: "nat \<Rightarrow> u64 option"

definition CoroutineScheduler_new :: "'c CoroutineScheduler" where
  "CoroutineScheduler_new =
     \<lparr>terminal = False, poolSize = 1000, stackSize = 128 * 1024, currentSize = 0, usedSize = 0,
      uniqId = 0, currentCoro = None, allCoro = replicate 1000 None,
      coroLinks = fold (\<lambda>st h. coroutineHeadInit (Head st) h)
        [CORO_ACTIVE, CORO_AVAIL, CORO_INACTIVE, CORO_TIMEOUT, CORO_FREE] links_new,
      coroInfo = (\<lambda>_. None), newCoros = 0, activeCoroQueue = ThreadDeque_new,
      needActiveCoroId = [], timeoutCoroId = [], clockReads = 0\<rparr>"

text \<open>Access to the objects: a head or \<open>mainCoro_\<close> has no body to switch to and no id of its own.\<close>

definition info_of :: "nat \<Rightarrow> 'c CoroutineScheduler \<Rightarrow> 'c CoroutineInfo result" where
  "info_of c s = (case coroInfo s c of None \<Rightarrow> Inl Uninitialised | Some info \<Rightarrow> Inr info)"

definition as_coro :: "coro_ptr option \<Rightarrow> nat result" where
  "as_coro p =
     (case p of None \<Rightarrow> Inl AssertFailed | Some (Coro c) \<Rightarrow> Inr c | Some _ \<Rightarrow> Inl Uninitialised)"

definition coro_at :: "u32 \<Rightarrow> 'c CoroutineScheduler \<Rightarrow> nat result" where
  "coro_at coroId s =
     (if unat coroId < length (allCoro s)
      then (case allCoro s ! unat coroId of None \<Rightarrow> Inl AssertFailed | Some c \<Rightarrow> Inr c)
      else Inl OutOfBounds)"

definition update_info ::
    "nat \<Rightarrow> ('c CoroutineInfo \<Rightarrow> 'c CoroutineInfo) \<Rightarrow> 'c CoroutineScheduler \<Rightarrow> 'c CoroutineScheduler" where
  "update_info c f s = s\<lparr>coroInfo := (coroInfo s)(c := map_option f (coroInfo s c))\<rparr>"

definition list_empty :: "CORO_STATUS \<Rightarrow> 'c CoroutineScheduler \<Rightarrow> bool" where
  "list_empty st s \<longleftrightarrow> coroutineHeadEmpty (Head st) (coroLinks s)"

subsection \<open>Moving between the lists\<close>

definition moveTo :: "nat \<Rightarrow> CORO_STATUS \<Rightarrow> 'c CoroutineScheduler \<Rightarrow> 'c CoroutineScheduler result" where
  "moveTo c st s =
     bindE (coroutineDel (Coro c) (coroLinks s)) (\<lambda>h1.
     bindE (coroutineAddTail (Coro c) (Head st) h1) (\<lambda>h2.
     Inr (update_info c (\<lambda>i. i\<lparr>ci_status := st\<rparr>) s\<lparr>coroLinks := h2\<rparr>)))"

definition moveToActive :: "nat \<Rightarrow> 'c CoroutineScheduler \<Rightarrow> 'c CoroutineScheduler result" where
  "moveToActive c s =
     bindE (info_of c s) (\<lambda>i.
     if ci_status i = CORO_INACTIVE then moveTo c CORO_ACTIVE s
     else if ci_status i = CORO_TIMEOUT then moveTo c CORO_ACTIVE s
     else Inr s)"

definition moveToAvail :: "nat \<Rightarrow> 'c CoroutineScheduler \<Rightarrow> 'c CoroutineScheduler result" where
  "moveToAvail c s =
     bindE (info_of c s) (\<lambda>i.
     if ci_status i = CORO_INACTIVE then moveTo c CORO_AVAIL s
     else Inr s)"

definition moveToInactive :: "nat \<Rightarrow> 'c CoroutineScheduler \<Rightarrow> 'c CoroutineScheduler result" where
  "moveToInactive c s =
     bindE (info_of c s) (\<lambda>i.
     if ci_status i = CORO_ACTIVE then moveTo c CORO_INACTIVE s
     else if ci_status i = CORO_AVAIL then moveTo c CORO_INACTIVE s
     else Inr s)"

definition moveToTimeout :: "nat \<Rightarrow> 'c CoroutineScheduler \<Rightarrow> 'c CoroutineScheduler result" where
  "moveToTimeout c s =
     bindE (info_of c s) (\<lambda>i.
     if ci_status i = CORO_ACTIVE then moveTo c CORO_TIMEOUT s
     else if ci_status i = CORO_AVAIL then moveTo c CORO_TIMEOUT s
     else Inr s)"

definition moveToFreeList :: "nat \<Rightarrow> 'c CoroutineScheduler \<Rightarrow> 'c CoroutineScheduler result" where
  "moveToFreeList c s =
     bindE (info_of c s) (\<lambda>i.
     if ci_status i = CORO_ACTIVE then moveTo c CORO_FREE s
     else if ci_status i = CORO_AVAIL then moveTo c CORO_FREE s
     else if ci_status i = CORO_INACTIVE then moveTo c CORO_FREE s
     else if ci_status i = CORO_TIMEOUT then moveTo c CORO_FREE s
     else Inr s)"

subsection \<open>Creating coroutines\<close>

definition CoroutineScheduler_generateId ::
    "'c CoroutineScheduler \<Rightarrow> (u32 \<times> 'c CoroutineScheduler) result" where
  "CoroutineScheduler_generateId s =
     (let i = increment_nonzero (uniqId s) in
      bindE (assertE (i \<le> poolSize s)) (\<lambda>_. Inr (i, s\<lparr>uniqId := i\<rparr>)))"

text \<open>A coroutine object with its stack and id goes into \<open>allCoro_\<close> and at the end of \<open>free_\<close>.\<close>

definition add_free ::
    "nat \<Rightarrow> u32 \<Rightarrow> stack_context \<Rightarrow> 'c CoroutineScheduler \<Rightarrow> 'c CoroutineScheduler result" where
  "add_free c i ctx s =
     (if unat i < length (allCoro s)
      then
        bindE (coroutineAddTail (Coro c) (Head CORO_FREE) (coroLinks s)) (\<lambda>h.
        Inr (s\<lparr>allCoro := (allCoro s)[unat i := Some c],
               coroInfo := (coroInfo s)(c \<mapsto> \<lparr>ci_uid = i, ci_status = CORO_FREE, ci_stack = ctx, ci_body = None\<rparr>),
               coroLinks := h\<rparr>))
      else Inl OutOfBounds)"

text \<open>The loop of \<open>init\<close>: the stack is allocated before the id is drawn. The count is the number of
  coroutines made.\<close>

fun init_loop :: "'c sched_env \<Rightarrow> nat \<Rightarrow> nat \<Rightarrow> 'c CoroutineScheduler \<Rightarrow> (nat \<times> 'c CoroutineScheduler) result" where
  "init_loop env 0 succ s = Inr (succ, s)"
| "init_loop env (Suc n) succ s =
     (let c = newCoros s; s1 = s\<lparr>newCoros := Suc c\<rparr> in
      bindE (allocate (limits env) (mmap env c) (stackSize s1)) (\<lambda>ret.
      case ret of
        None \<Rightarrow> Inr (succ, s1)
      | Some ctx \<Rightarrow>
          bindE (CoroutineScheduler_generateId s1) (\<lambda>(i, s2).
          bindE (add_free c i ctx s2) (init_loop env n (Suc succ)))))"

definition CoroutineScheduler_init ::
    "'c sched_env \<Rightarrow> u32 \<Rightarrow> u64 \<Rightarrow> 'c CoroutineScheduler \<Rightarrow> 'c CoroutineScheduler result" where
  "CoroutineScheduler_init env pool stack s =
     (if pool = 0 then Inr s
      else
        (let cur = (if pool \<le> 100 then pool else 100);
             s1 = s\<lparr>terminal := False, poolSize := pool, stackSize := stack, currentSize := cur,
                    allCoro := (if allCoro s = [] then [] else replicate (unat (pool + 1)) None),
                    usedSize := 0, uniqId := 0\<rparr>
         in
         bindE (init_loop env (unat cur) 0 s1) (\<lambda>(succ, s2).
         Inr (s2\<lparr>currentSize := of_nat succ, currentCoro := Some MainCoro\<rparr>))))"

text \<open>The loop of \<open>increaseCoroPoolSize\<close>: the id is drawn before the stack is allocated.\<close>

fun increase_loop :: "'c sched_env \<Rightarrow> nat \<Rightarrow> nat \<Rightarrow> 'c CoroutineScheduler \<Rightarrow> (nat \<times> 'c CoroutineScheduler) result" where
  "increase_loop env 0 succ s = Inr (succ, s)"
| "increase_loop env (Suc n) succ s =
     (let c = newCoros s; s1 = s\<lparr>newCoros := Suc c\<rparr> in
      bindE (CoroutineScheduler_generateId s1) (\<lambda>(i, s2).
      bindE (allocate (limits env) (mmap env c) (stackSize s2)) (\<lambda>ret.
      case ret of
        None \<Rightarrow> Inr (succ, s2)
      | Some ctx \<Rightarrow> bindE (add_free c i ctx s2) (increase_loop env n (Suc succ)))))"

text \<open>The flag is whether it returns 0.\<close>

definition increaseCoroPoolSize ::
    "'c sched_env \<Rightarrow> 'c CoroutineScheduler \<Rightarrow> (bool \<times> 'c CoroutineScheduler) result" where
  "increaseCoroPoolSize env s =
     (let inc = (if 100 < poolSize s - currentSize s then 100 else poolSize s - currentSize s) in
      if inc = 0 then Inr (False, s)
      else
        bindE (increase_loop env (unat inc) 0 s) (\<lambda>(succ, s1).
        if succ = 0 then Inr (False, s1)
        else Inr (True, s1\<lparr>currentSize := currentSize s1 + of_nat succ\<rparr>)))"

definition registerFunc :: "nat \<Rightarrow> 'c \<Rightarrow> 'c CoroutineScheduler \<Rightarrow> 'c CoroutineScheduler" where
  "registerFunc c callback s = update_info c (\<lambda>i. i\<lparr>ci_body := Some callback\<rparr>) s"

definition take_free :: "'c \<Rightarrow> 'c CoroutineScheduler \<Rightarrow> (u32 \<times> 'c CoroutineScheduler) result" where
  "take_free callback s =
     bindE (as_coro (nextp (coroLinks s) (Head CORO_FREE))) (\<lambda>c.
     bindE (coroutineDel (Coro c) (coroLinks s)) (\<lambda>h1.
     let s1 = update_info c (\<lambda>i. i\<lparr>ci_status := CORO_AVAIL\<rparr>) s\<lparr>coroLinks := h1, usedSize := usedSize s + 1\<rparr> in
     bindE (coroutineAddTail (Coro c) (Head CORO_AVAIL) h1) (\<lambda>h2.
     let s2 = registerFunc c callback (s1\<lparr>coroLinks := h2\<rparr>) in
     bindE (info_of c s2) (\<lambda>i. Inr (ci_uid i, s2)))))"

definition createCoroutine ::
    "'c sched_env \<Rightarrow> 'c \<Rightarrow> 'c CoroutineScheduler \<Rightarrow> (u32 \<times> 'c CoroutineScheduler) result" where
  "createCoroutine env callback s =
     (if currentSize s \<le> usedSize s \<or> list_empty CORO_FREE s
      then
        bindE (increaseCoroPoolSize env s) (\<lambda>(ok, s1).
        if ok then take_free callback s1 else Inr (0, s1))
      else take_free callback s)"

subsection \<open>Waking coroutines\<close>

definition putbyself :: "u32 \<Rightarrow> 'c CoroutineScheduler \<Rightarrow> 'c CoroutineScheduler" where
  "putbyself coroId s =
     (if terminal s then s else s\<lparr>needActiveCoroId := needActiveCoroId s @ [coroId]\<rparr>)"

definition CoroutineScheduler_put :: "u32 \<Rightarrow> 'c CoroutineScheduler \<Rightarrow> 'c CoroutineScheduler" where
  "CoroutineScheduler_put coroId s =
     (if terminal s then s
      else s\<lparr>activeCoroQueue := snd (ThreadDeque_push_back coroId (activeCoroQueue s))\<rparr>)"

definition CoroutineScheduler_terminate :: "'c CoroutineScheduler \<Rightarrow> 'c CoroutineScheduler" where
  "CoroutineScheduler_terminate s = s\<lparr>terminal := True\<rparr>"

definition move_id ::
    "(nat \<Rightarrow> 'c CoroutineScheduler \<Rightarrow> 'c CoroutineScheduler result) \<Rightarrow> u32 \<Rightarrow> 'c CoroutineScheduler \<Rightarrow>
     'c CoroutineScheduler result" where
  "move_id move coroId s = bindE (coro_at coroId s) (\<lambda>c. move c s)"

definition wakeupbyself :: "'c CoroutineScheduler \<Rightarrow> 'c CoroutineScheduler result" where
  "wakeupbyself s =
     (if terminal s then Inr s
      else
        bindE (fold_result (move_id moveToAvail) (needActiveCoroId s) s) (\<lambda>s1.
        Inr (s1\<lparr>needActiveCoroId := []\<rparr>)))"

definition wakeup :: "'c CoroutineScheduler \<Rightarrow> 'c CoroutineScheduler result" where
  "wakeup s =
     (if terminal s then Inr s
      else if 0 < td_size (activeCoroQueue s) then
        (let (_, _, coroIds, d) = ThreadDeque_swap [] 0 (activeCoroQueue s) in
         fold_result (move_id moveToActive) coroIds (s\<lparr>activeCoroQueue := d\<rparr>))
      else Inr s)"

fun wakeup_expired ::
    "int \<Rightarrow> (int \<times> u32) list \<Rightarrow> 'c CoroutineScheduler \<Rightarrow> 'c CoroutineScheduler result" where
  "wakeup_expired now [] s = Inr (s\<lparr>timeoutCoroId := []\<rparr>)"
| "wakeup_expired now ((t, coroId) # rest) s =
     (if now < t then Inr (s\<lparr>timeoutCoroId := (t, coroId) # rest\<rparr>)
      else bindE (move_id moveToActive coroId s) (wakeup_expired now rest))"

definition wakeupbytimeout :: "'c sched_env \<Rightarrow> 'c CoroutineScheduler \<Rightarrow> 'c CoroutineScheduler result" where
  "wakeupbytimeout env s =
     (if terminal s then Inr s
      else if timeoutCoroId s = [] then Inr s
      else
        (let now = clock env (clockReads s); s1 = s\<lparr>clockReads := Suc (clockReads s)\<rparr>
         in wakeup_expired now (timeoutCoroId s1) s1))"

subsection \<open>Running coroutines\<close>

text \<open>What a running coroutine does to give up the processor; its body goes on with \<open>rest\<close>.\<close>

definition CoroutineScheduler_yield ::
    "bool \<Rightarrow> 'c \<Rightarrow> nat \<Rightarrow> 'c CoroutineScheduler \<Rightarrow> 'c CoroutineScheduler result" where
  "CoroutineScheduler_yield flag rest c s =
     bindE (info_of c s) (\<lambda>i.
     let s1 = (if flag then putbyself (ci_uid i) s else s) in
     bindE (moveToInactive c s1) (\<lambda>s2.
     Inr (update_info c (\<lambda>i. i\<lparr>ci_body := Some rest\<rparr>) s2\<lparr>currentCoro := Some MainCoro\<rparr>)))"

text \<open>\<open>timeoutCoroId_\<close> is a multimap: an entry goes behind the entries not later.\<close>

definition timer_insert :: "int \<Rightarrow> u32 \<Rightarrow> (int \<times> u32) list \<Rightarrow> (int \<times> u32) list" where
  "timer_insert t i ts = takeWhile (\<lambda>e. fst e \<le> t) ts @ (t, i) # dropWhile (\<lambda>e. fst e \<le> t) ts"

definition CoroutineScheduler_sleep ::
    "'c sched_env \<Rightarrow> int \<Rightarrow> 'c \<Rightarrow> nat \<Rightarrow> 'c CoroutineScheduler \<Rightarrow> 'c CoroutineScheduler result" where
  "CoroutineScheduler_sleep env sleeptime rest c s =
     bindE (info_of c s) (\<lambda>i.
     let now = clock env (clockReads s);
         timeout = now + (if 0 \<le> sleeptime then sleeptime else - sleeptime);
         s1 = s\<lparr>clockReads := Suc (clockReads s),
                timeoutCoroId := timer_insert timeout (ci_uid i) (timeoutCoroId s)\<rparr>
     in
     bindE (moveToTimeout c s1) (\<lambda>s2.
     Inr (update_info c (\<lambda>i. i\<lparr>ci_body := Some rest\<rparr>) s2\<lparr>currentCoro := Some MainCoro\<rparr>)))"

text \<open>The end of \<open>corotineProc\<close>, after the body has returned or thrown.\<close>

definition corotineProc_end :: "nat \<Rightarrow> 'c CoroutineScheduler \<Rightarrow> 'c CoroutineScheduler result" where
  "corotineProc_end c s =
     bindE (moveToFreeList c (s\<lparr>usedSize := usedSize s - 1\<rparr>)) (\<lambda>s1.
     Inr (update_info c (\<lambda>i. i\<lparr>ci_body := None\<rparr>) s1\<lparr>currentCoro := Some MainCoro\<rparr>))"

primrec run_slice ::
    "'c sched_env \<Rightarrow> nat \<Rightarrow> 'c slice \<Rightarrow> 'c CoroutineScheduler \<Rightarrow> 'c CoroutineScheduler result" where
  "run_slice env c (SCreate b k) = (\<lambda>s.
     bindE (createCoroutine env b s) (\<lambda>(i, s1). run_slice env c (k i) s1))"
| "run_slice env c (SYield flag rest) = CoroutineScheduler_yield flag rest c"
| "run_slice env c (SSleep ms rest) = CoroutineScheduler_sleep env ms rest c"
| "run_slice env c SReturn = corotineProc_end c"

text \<open>\<open>switchCoro(&mainCoro_, coro)\<close>: control comes back when the coroutine's slice ends.\<close>

definition switchCoro :: "'c sched_env \<Rightarrow> nat \<Rightarrow> 'c CoroutineScheduler \<Rightarrow> 'c CoroutineScheduler result" where
  "switchCoro env c s =
     bindE (info_of c s) (\<lambda>i.
     case ci_body i of
       None \<Rightarrow> Inl Uninitialised
     | Some b \<Rightarrow> run_slice env c (resume env b) (s\<lparr>currentCoro := Some (Coro c)\<rparr>))"

text \<open>The loops over \<open>active_\<close> and \<open>avail_\<close>: at most \<open>n\<close> switches to the first member. The list is
  the coroutines switched to, in order.\<close>

fun run_list ::
    "'c sched_env \<Rightarrow> CORO_STATUS \<Rightarrow> nat \<Rightarrow> 'c CoroutineScheduler \<Rightarrow> (nat list \<times> 'c CoroutineScheduler) result" where
  "run_list env st 0 s = Inr ([], s)"
| "run_list env st (Suc n) s =
     (if list_empty st s then Inr ([], s)
      else
        bindE (as_coro (nextp (coroLinks s) (Head st))) (\<lambda>c.
        bindE (switchCoro env c s) (\<lambda>s1.
        bindE (run_list env st n s1) (\<lambda>(cs, s2). Inr (c # cs, s2)))))"

definition wakeups :: "'c sched_env \<Rightarrow> 'c CoroutineScheduler \<Rightarrow> 'c CoroutineScheduler result" where
  "wakeups env s = bindE (bindE (wakeupbytimeout env s) wakeupbyself) wakeup"

definition tars_run ::
    "'c sched_env \<Rightarrow> 'c CoroutineScheduler \<Rightarrow> (nat list \<times> 'c CoroutineScheduler) result" where
  "tars_run env s =
     (if terminal s then Inr ([], s)
      else
        bindE (wakeups env s) (\<lambda>s1.
        bindE (run_list env CORO_ACTIVE 100 s1) (\<lambda>(ran1, s2).
        bindE (run_list env CORO_AVAIL 100 s2) (\<lambda>(ran2, s3).
        Inr (ran1 @ ran2, s3)))))"

subsection \<open>The loop of a thread of its own\<close>

definition destroy_at :: "stack_limits \<Rightarrow> 'c CoroutineScheduler \<Rightarrow> nat \<Rightarrow> unit \<Rightarrow> unit result" where
  "destroy_at lim s i u =
     (if i < length (allCoro s)
      then (case allCoro s ! i of
              None \<Rightarrow> Inr ()
            | Some c \<Rightarrow>
                bindE (info_of c s) (\<lambda>info.
                bindE (deallocate lim (ci_stack info)) (\<lambda>_. Inr ())))
      else Inl OutOfBounds)"

definition CoroutineScheduler_destroy :: "stack_limits \<Rightarrow> 'c CoroutineScheduler \<Rightarrow> unit result" where
  "CoroutineScheduler_destroy lim s =
     (if allCoro s = [] then Inr ()
      else fold_result (destroy_at lim s) [1..<Suc (unat (poolSize s))] ())"

text \<open>One turn of \<open>run\<close>'s loop after the wait.\<close>

definition run_turn ::
    "'c sched_env \<Rightarrow> 'c CoroutineScheduler \<Rightarrow> (nat list \<times> 'c CoroutineScheduler) result" where
  "run_turn env s =
     bindE (wakeups env s) (\<lambda>s1.
     bindE (run_list env CORO_ACTIVE 100 s1) (\<lambda>(ran1, s2).
     bindE (run_list env CORO_AVAIL 1 s2) (\<lambda>(ran2, s3).
     Inr (ran1 @ ran2, s3))))"

text \<open>\<open>run\<close>: \<open>others i\<close> is what other threads did to the scheduler (\<open>put\<close>, \<open>terminate\<close>) before the
  \<open>i\<close>-th turn, while this thread waited or ran.\<close>

partial_function (option) CoroutineScheduler_run ::
    "'c sched_env \<Rightarrow> (nat \<Rightarrow> 'c CoroutineScheduler \<Rightarrow> 'c CoroutineScheduler) \<Rightarrow> nat \<Rightarrow>
     'c CoroutineScheduler \<Rightarrow> 'c CoroutineScheduler result option" where
  "CoroutineScheduler_run env others i s =
     (if terminal s then Some (bindE (CoroutineScheduler_destroy (limits env) s) (\<lambda>_. Inr s))
      else
        (case run_turn env (others i s) of
           Inl e \<Rightarrow> Some (Inl e)
         | Inr (_, s1) \<Rightarrow>
             if usedSize s1 = 0 then Some (bindE (CoroutineScheduler_destroy (limits env) s1) (\<lambda>_. Inr s1))
             else CoroutineScheduler_run env others (Suc i) s1))"

section \<open>Well-formed schedulers\<close>

text \<open>\<open>sched_core s L\<close>: the links of \<open>s\<close> form the five lists \<open>L\<close>; each member of a list has that
  list's status, an id under which \<open>allCoro_\<close> finds it, and a body unless it is free; \<open>allCoro_\<close>
  holds nothing else; the ids waiting to be woken are in use. \<open>sched_rel\<close> adds the count of the
  coroutines in use.\<close>

definition coro_ok :: "'c CoroutineScheduler \<Rightarrow> CORO_STATUS \<Rightarrow> nat \<Rightarrow> bool" where
  "coro_ok s st c \<longleftrightarrow>
     (\<exists>i. coroInfo s c = Some i \<and> ci_status i = st \<and> ci_uid i \<noteq> 0 \<and>
          unat (ci_uid i) < length (allCoro s) \<and> allCoro s ! unat (ci_uid i) = Some c \<and>
          c < newCoros s \<and> (st \<noteq> CORO_FREE \<longrightarrow> ci_body i \<noteq> None))"

definition id_known :: "'c CoroutineScheduler \<Rightarrow> u32 \<Rightarrow> bool" where
  "id_known s i \<longleftrightarrow> unat i < length (allCoro s) \<and> allCoro s ! unat i \<noteq> None"

definition waking_ids :: "'c CoroutineScheduler \<Rightarrow> u32 set" where
  "waking_ids s = set (needActiveCoroId s) \<union> snd ` set (timeoutCoroId s) \<union> set (td_deque (activeCoroQueue s))"

definition sched_core :: "'c CoroutineScheduler \<Rightarrow> coro_lists \<Rightarrow> bool" where
  "sched_core s L \<longleftrightarrow>
     rings (coroLinks s) L \<and>
     (\<forall>st. \<forall>c \<in> set (L st). coro_ok s st c) \<and>
     (\<forall>i < length (allCoro s). \<forall>c. allCoro s ! i = Some c \<longrightarrow> (\<exists>st. c \<in> set (L st))) \<and>
     length (allCoro s) = Suc (unat (poolSize s)) \<and>
     (\<forall>i. unat (uniqId s) < i \<longrightarrow> i < length (allCoro s) \<longrightarrow> allCoro s ! i = None) \<and>
     currentSize s \<le> poolSize s \<and>
     (\<forall>i \<in> waking_ids s. id_known s i) \<and>
     sorted (map fst (timeoutCoroId s)) \<and>
     ThreadDeque_inv (activeCoroQueue s)"

definition sched_rel :: "'c CoroutineScheduler \<Rightarrow> coro_lists \<Rightarrow> bool" where
  "sched_rel s L \<longleftrightarrow>
     sched_core s L \<and> uniqId s = currentSize s \<and> unat (currentSize s) = lists_total L \<and>
     unat (usedSize s) + length (L CORO_FREE) = lists_total L"

lemma core_disjoint: "sched_core s L \<Longrightarrow> lists_disjoint L"
  by (simp add: sched_core_def rings_def)

lemma core_member: "sched_core s L \<Longrightarrow> c \<in> set (L st) \<Longrightarrow> coro_ok s st c"
  by (simp add: sched_core_def)

lemma core_info:
  assumes "sched_core s L" and "c \<in> set (L st)"
  obtains i where "coroInfo s c = Some i" "info_of c s = Inr i" "ci_status i = st"
    "st \<noteq> CORO_FREE \<Longrightarrow> ci_body i \<noteq> None"
  using core_member [OF assms] by (auto simp: coro_ok_def info_of_def)

lemma core_empty: "sched_core s L \<Longrightarrow> list_empty st s \<longleftrightarrow> L st = []"
  using ring_HeadEmpty [of "coroLinks s" "Head st" "map Coro (L st)"]
  by (simp add: sched_core_def rings_def list_empty_def)

lemma core_first:
  "sched_core s L \<Longrightarrow> L st = c # cs \<Longrightarrow> as_coro (nextp (coroLinks s) (Head st)) = Inr c"
  using coros.first_law [of "coroLinks s" L st]
  by (simp add: sched_core_def links_first_def as_coro_def)

lemma core_known:
  assumes "sched_core s L" and "id_known s i"
  obtains c st where "coro_at i s = Inr c" "c \<in> set (L st)"
  using assms by (fastforce simp: sched_core_def id_known_def coro_at_def)

lemma in_one_list:
  "lists_disjoint L \<Longrightarrow> c \<in> set (L st) \<Longrightarrow> c \<in> set (L st') \<Longrightarrow> st = st'"
  by (auto simp: lists_disjoint_def disjoint_iff)

lemma lists_move_mem:
  "lists_disjoint L \<Longrightarrow> c \<in> set (L st) \<Longrightarrow>
   d \<in> set (lists_move c st st' L st'') \<longleftrightarrow> (if d = c then st'' = st' else d \<in> set (L st''))"
  by (auto simp: lists_move_def Let_def lists_disjoint_def disjoint_iff)

lemma lists_move_length:
  assumes "c \<in> set (L st)"
  shows "length (lists_move c st st' L st'') + of_bool (st'' = st) = length (L st'') + of_bool (st'' = st')"
proof -
  have "0 < length (L st)" using assms by (cases "L st") auto
  with assms show ?thesis by (auto simp: lists_move_def Let_def length_remove1)
qed

lemma lists_move_total:
  "c \<in> set (L st) \<Longrightarrow> lists_total (lists_move c st st' L) = lists_total L"
  using lists_move_length [of c L st st' CORO_FREE] lists_move_length [of c L st st' CORO_ACTIVE]
    lists_move_length [of c L st st' CORO_AVAIL] lists_move_length [of c L st st' CORO_INACTIVE]
    lists_move_length [of c L st st' CORO_TIMEOUT]
  by (cases st; cases st'; simp add: lists_total_def)

lemma core_update:
  assumes core: "sched_core s L"
    and same: "allCoro s' = allCoro s" "poolSize s' = poolSize s" "uniqId s' = uniqId s"
    and bound: "currentSize s' \<le> poolSize s"
    and waking: "\<And>i. i \<in> waking_ids s' \<Longrightarrow> id_known s i"
    and timers: "sorted (map fst (timeoutCoroId s'))" and queue: "ThreadDeque_inv (activeCoroQueue s')"
    and links: "rings (coroLinks s') L'"
    and members: "\<And>st c. c \<in> set (L' st) \<Longrightarrow> coro_ok s' st c"
    and keep: "\<And>st c. c \<in> set (L st) \<Longrightarrow> \<exists>st'. c \<in> set (L' st')"
  shows "sched_core s' L'"
  unfolding sched_core_def same
proof (intro conjI allI impI ballI)
  fix i c assume "i < length (allCoro s)" "allCoro s ! i = Some c"
  then have "\<exists>st. c \<in> set (L st)" using core unfolding sched_core_def by blast
  then show "\<exists>st. c \<in> set (L' st)" using keep by blast
next
  fix i assume "i \<in> waking_ids s'"
  then show "id_known s' i" using waking [of i] by (simp add: id_known_def same)
qed (use core bound links members timers queue in \<open>simp_all add: sched_core_def\<close>)

lemma moveTo_ok:
  assumes core: "sched_core s L" and c: "c \<in> set (L st)" and st: "st = CORO_FREE \<Longrightarrow> st' = CORO_FREE"
  shows "\<exists>h. moveTo c st' s = Inr (update_info c (\<lambda>i. i\<lparr>ci_status := st'\<rparr>) s\<lparr>coroLinks := h\<rparr>) \<and>
     sched_core (update_info c (\<lambda>i. i\<lparr>ci_status := st'\<rparr>) s\<lparr>coroLinks := h\<rparr>) (lists_move c st st' L)"
proof -
  note dj = core_disjoint [OF core]
  obtain h1 h2 where h: "coroutineDel (Coro c) (coroLinks s) = Inr h1"
    "coroutineAddTail (Coro c) (Head st') h1 = Inr h2" "rings h2 (lists_move c st st' L)"
    using coros.move_ok [of "coroLinks s" L c st st'] core c
    by (auto simp: sched_core_def links_del_def links_addTail_def)
  define s' where "s' = update_info c (\<lambda>i. i\<lparr>ci_status := st'\<rparr>) s\<lparr>coroLinks := h2\<rparr>"
  have f: "allCoro s' = allCoro s" "poolSize s' = poolSize s" "uniqId s' = uniqId s" "currentSize s' = currentSize s"
    "waking_ids s' = waking_ids s" "timeoutCoroId s' = timeoutCoroId s"
    "activeCoroQueue s' = activeCoroQueue s" "newCoros s' = newCoros s" "coroLinks s' = h2"
    by (simp_all add: s'_def update_info_def waking_ids_def)
  have ok: "coro_ok s' st'' d" if d: "d \<in> set (lists_move c st st' L st'')" for st'' d
  proof (cases "d = c")
    case True
    then have "st'' = st'" using d lists_move_mem [OF dj c, of d st' st''] by simp
    with True core_member [OF core c] st show ?thesis
      by (auto simp: coro_ok_def f) (auto simp: s'_def update_info_def)
  next
    case False
    then have "d \<in> set (L st'')" using d lists_move_mem [OF dj c, of d st' st''] by simp
    then have "coro_ok s st'' d" by (rule core_member [OF core])
    with False show ?thesis by (auto simp: coro_ok_def f) (auto simp: s'_def update_info_def)
  qed
  have "sched_core s' (lists_move c st st' L)"
  proof (rule core_update [OF core])
    show "\<exists>st''. d \<in> set (lists_move c st st' L st'')" if "d \<in> set (L st2)" for st2 d
      using that lists_move_mem [OF dj c, of d st'] by metis
  qed (use core ok h(3) in \<open>auto simp: f sched_core_def\<close>)
  moreover have "moveTo c st' s = Inr s'" by (simp add: moveTo_def h s'_def)
  ultimately show ?thesis unfolding s'_def by blast
qed

text \<open>Moving a coroutine changes only links and coroutine objects.\<close>

definition steady :: "'c CoroutineScheduler \<Rightarrow> 'c CoroutineScheduler \<Rightarrow> bool" where
  "steady s s' \<longleftrightarrow> (\<exists>info h. s' = s\<lparr>coroInfo := info, coroLinks := h\<rparr>)"

lemma steady_refl [simp]: "steady s s"
  unfolding steady_def by (rule exI [of _ "coroInfo s"], rule exI [of _ "coroLinks s"]) simp

lemma steady_update [simp]: "steady s (update_info c f s\<lparr>coroLinks := h\<rparr>)"
  by (auto simp: steady_def update_info_def)

lemma steady_trans [trans]: "steady s s' \<Longrightarrow> steady s' s'' \<Longrightarrow> steady s s''"
  unfolding steady_def by (elim exE, simp) (intro exI, rule refl)

lemma steady_fields:
  assumes "steady s s'"
  shows "terminal s' = terminal s" "poolSize s' = poolSize s" "currentSize s' = currentSize s"
    "usedSize s' = usedSize s" "uniqId s' = uniqId s" "allCoro s' = allCoro s" "newCoros s' = newCoros s"
    "activeCoroQueue s' = activeCoroQueue s" "needActiveCoroId s' = needActiveCoroId s"
    "timeoutCoroId s' = timeoutCoroId s" "clockReads s' = clockReads s" "stackSize s' = stackSize s"
    "currentCoro s' = currentCoro s"
  using assms by (auto simp: steady_def)

lemma moveTo_rel:
  assumes rel: "sched_rel s L" and c: "c \<in> set (L st)" and st: "st \<noteq> CORO_FREE" "st' \<noteq> CORO_FREE"
  shows "\<exists>s'. moveTo c st' s = Inr s' \<and> sched_rel s' (lists_move c st st' L) \<and> steady s s'"
proof -
  have core: "sched_core s L" using rel by (simp add: sched_rel_def)
  obtain h where h: "moveTo c st' s = Inr (update_info c (\<lambda>i. i\<lparr>ci_status := st'\<rparr>) s\<lparr>coroLinks := h\<rparr>)"
    "sched_core (update_info c (\<lambda>i. i\<lparr>ci_status := st'\<rparr>) s\<lparr>coroLinks := h\<rparr>) (lists_move c st st' L)"
    using moveTo_ok [OF core c, of st'] st by blast
  define s' where "s' = update_info c (\<lambda>i. i\<lparr>ci_status := st'\<rparr>) s\<lparr>coroLinks := h\<rparr>"
  have f: "uniqId s' = uniqId s" "currentSize s' = currentSize s" "usedSize s' = usedSize s"
    by (simp_all add: s'_def update_info_def)
  have "steady s s'" by (simp add: s'_def)
  moreover have "sched_rel s' (lists_move c st st' L)"
    using h(2) rel lists_move_total [of c L st st'] lists_move_length [of c L st st' CORO_FREE] c st
    unfolding s'_def [symmetric] by (simp add: sched_rel_def f)
  ultimately show ?thesis using h(1) unfolding s'_def by blast
qed

section \<open>Waking coroutines\<close>

definition lists_to_active :: "nat \<Rightarrow> coro_lists \<Rightarrow> coro_lists" where
  "lists_to_active c L =
     (if c \<in> set (L CORO_INACTIVE) then lists_move c CORO_INACTIVE CORO_ACTIVE L
      else if c \<in> set (L CORO_TIMEOUT) then lists_move c CORO_TIMEOUT CORO_ACTIVE L else L)"

definition lists_to_avail :: "nat \<Rightarrow> coro_lists \<Rightarrow> coro_lists" where
  "lists_to_avail c L =
     (if c \<in> set (L CORO_INACTIVE) then lists_move c CORO_INACTIVE CORO_AVAIL L else L)"

definition coro_of :: "'c CoroutineScheduler \<Rightarrow> u32 \<Rightarrow> nat" where
  "coro_of s i = the (allCoro s ! unat i)"

lemma rel_core: "sched_rel s L \<Longrightarrow> sched_core s L"
  by (simp add: sched_rel_def)

lemma rel_disjoint: "sched_rel s L \<Longrightarrow> lists_disjoint L"
  by (rule core_disjoint [OF rel_core])

lemma moveToActive_ok:
  assumes rel: "sched_rel s L" and c: "c \<in> set (L st)"
  shows "\<exists>s'. moveToActive c s = Inr s' \<and> sched_rel s' (lists_to_active c L) \<and> steady s s'"
proof -
  obtain i where i: "info_of c s = Inr i" "ci_status i = st"
    using core_info [OF rel_core [OF rel] c] by metis
  have only: "c \<in> set (L st') \<longleftrightarrow> st' = st" for st'
    using in_one_list [OF rel_disjoint [OF rel] c, of st'] c by auto
  show ?thesis
  proof (cases "st = CORO_INACTIVE \<or> st = CORO_TIMEOUT")
    case True
    then have "lists_to_active c L = lists_move c st CORO_ACTIVE L"
      by (auto simp: lists_to_active_def only)
    moreover have "moveToActive c s = moveTo c CORO_ACTIVE s" using True i by (auto simp: moveToActive_def)
    ultimately show ?thesis using moveTo_rel [OF rel c, of CORO_ACTIVE] True by auto
  next
    case False
    then show ?thesis using rel i by (auto simp: moveToActive_def lists_to_active_def only)
  qed
qed

lemma moveToAvail_ok:
  assumes rel: "sched_rel s L" and c: "c \<in> set (L st)"
  shows "\<exists>s'. moveToAvail c s = Inr s' \<and> sched_rel s' (lists_to_avail c L) \<and> steady s s'"
proof -
  obtain i where i: "info_of c s = Inr i" "ci_status i = st"
    using core_info [OF rel_core [OF rel] c] by metis
  have only: "c \<in> set (L st') \<longleftrightarrow> st' = st" for st'
    using in_one_list [OF rel_disjoint [OF rel] c, of st'] c by auto
  show ?thesis
  proof (cases "st = CORO_INACTIVE")
    case True
    then have "lists_to_avail c L = lists_move c st CORO_AVAIL L"
      by (auto simp: lists_to_avail_def only)
    moreover have "moveToAvail c s = moveTo c CORO_AVAIL s" using True i by (auto simp: moveToAvail_def)
    ultimately show ?thesis using moveTo_rel [OF rel c, of CORO_AVAIL] True by auto
  next
    case False
    then show ?thesis using rel i by (auto simp: moveToAvail_def lists_to_avail_def only)
  qed
qed

text \<open>A list of known ids, woken one after the other.\<close>

lemma wake_ids_ok:
  assumes move: "\<And>s L c st. sched_rel s L \<Longrightarrow> c \<in> set (L st) \<Longrightarrow>
      \<exists>s'. move c s = Inr s' \<and> sched_rel s' (g c L) \<and> steady s s'"
    and rel: "sched_rel s L" and ids: "\<And>i. i \<in> set ids \<Longrightarrow> id_known s i"
  shows "\<exists>s'. fold_result (move_id move) ids s = Inr s' \<and>
     sched_rel s' (fold g (map (coro_of s) ids) L) \<and> steady s s'"
  using rel ids
proof (induction ids arbitrary: s L)
  case Nil
  then show ?case by simp
next
  case (Cons i ids)
  obtain c st where c: "coro_at i s = Inr c" "c \<in> set (L st)"
    using core_known [OF rel_core [OF Cons.prems(1)], of i] Cons.prems(2) by auto
  then have ci: "coro_of s i = c" by (auto simp: coro_at_def coro_of_def split: if_splits option.splits)
  obtain s1 where s1: "move c s = Inr s1" "sched_rel s1 (g c L)" "steady s s1"
    using move [OF Cons.prems(1) c(2)] by blast
  have same: "allCoro s1 = allCoro s" by (rule steady_fields(6) [OF s1(3)])
  then have "coro_of s1 = coro_of s" "\<And>i. i \<in> set ids \<Longrightarrow> id_known s1 i"
    using Cons.prems(2) by (auto simp: coro_of_def id_known_def)
  then obtain s2 where s2: "fold_result (move_id move) ids s1 = Inr s2"
    "sched_rel s2 (fold g (map (coro_of s) ids) (g c L))" "steady s1 s2"
    using Cons.IH [OF s1(2)] by auto
  have "fold_result (move_id move) (i # ids) s = Inr s2"
    using c(1) s1(1) s2(1) by (simp add: move_id_def)
  with s2(2) ci steady_trans [OF s1(3) s2(3)] show ?case by auto
qed

text \<open>A state that differs in the waiting ids, the clock and the running coroutine only.\<close>

lemma rel_update_waiting:
  assumes rel: "sched_rel s L"
    and same: "coroInfo s' = coroInfo s" "coroLinks s' = coroLinks s" "allCoro s' = allCoro s"
      "poolSize s' = poolSize s" "uniqId s' = uniqId s" "currentSize s' = currentSize s"
      "usedSize s' = usedSize s" "newCoros s' = newCoros s"
    and known: "\<And>i. i \<in> waking_ids s' \<Longrightarrow> id_known s i"
    and ok: "sorted (map fst (timeoutCoroId s'))" "ThreadDeque_inv (activeCoroQueue s')"
  shows "sched_rel s' L"
proof -
  have "sched_core s' L"
  proof (rule core_update [OF rel_core [OF rel]])
    show "id_known s i" if "i \<in> waking_ids s'" for i using that by (rule known)
    show "coro_ok s' st c" if "c \<in> set (L st)" for st c
      using core_member [OF rel_core [OF rel] that] by (simp add: coro_ok_def same)
    show "rings (coroLinks s') L" using rel by (simp add: sched_rel_def sched_core_def same)
    show "currentSize s' \<le> poolSize s" using rel by (simp add: sched_rel_def sched_core_def same)
  qed (use ok same in auto)
  with rel show ?thesis by (simp add: sched_rel_def same)
qed

lemma wake_active_ids:
  assumes "sched_rel s L" and "\<And>i. i \<in> set ids \<Longrightarrow> id_known s i"
  shows "\<exists>s'. fold_result (move_id moveToActive) ids s = Inr s' \<and>
     sched_rel s' (fold lists_to_active (map (coro_of s) ids) L) \<and> steady s s'"
  by (rule wake_ids_ok [OF _ assms]) (rule moveToActive_ok)

lemma wake_avail_ids:
  assumes "sched_rel s L" and "\<And>i. i \<in> set ids \<Longrightarrow> id_known s i"
  shows "\<exists>s'. fold_result (move_id moveToAvail) ids s = Inr s' \<and>
     sched_rel s' (fold lists_to_avail (map (coro_of s) ids) L) \<and> steady s s'"
  by (rule wake_ids_ok [OF _ assms]) (rule moveToAvail_ok)

lemma rel_waking: "sched_rel s L \<Longrightarrow> i \<in> waking_ids s \<Longrightarrow> id_known s i"
  by (simp add: sched_rel_def sched_core_def)

lemma rel_timers: "sched_rel s L \<Longrightarrow> sorted (map fst (timeoutCoroId s))"
  by (simp add: sched_rel_def sched_core_def)

lemma rel_queue: "sched_rel s L \<Longrightarrow> ThreadDeque_inv (activeCoroQueue s)"
  by (simp add: sched_rel_def sched_core_def)

lemma steady_known: "steady s s' \<Longrightarrow> id_known s' i = id_known s i" "steady s s' \<Longrightarrow> coro_of s' = coro_of s"
  using steady_fields(6) [of s s'] by (auto simp: id_known_def coro_of_def)

lemma wakeup_expired_ok:
  assumes "sched_rel s L" and "\<And>i. i \<in> snd ` set ts \<Longrightarrow> id_known s i"
  shows "\<exists>s1. wakeup_expired now ts s = Inr (s1\<lparr>timeoutCoroId := dropWhile (\<lambda>e. fst e \<le> now) ts\<rparr>) \<and>
     steady s s1 \<and>
     sched_rel s1 (fold lists_to_active (map (coro_of s \<circ> snd) (takeWhile (\<lambda>e. fst e \<le> now) ts)) L)"
  using assms
proof (induction ts arbitrary: s L)
  case Nil
  then show ?case by (intro exI [of _ s]) simp
next
  case (Cons e ts)
  obtain t i where e: "e = (t, i)" by force
  show ?case
  proof (cases "now < t")
    case True
    then show ?thesis using e Cons.prems(1) by (intro exI [of _ s]) simp
  next
    case False
    have "id_known s i" using Cons.prems(2) e by auto
    then obtain s1 where s1: "move_id moveToActive i s = Inr s1"
      "sched_rel s1 (lists_to_active (coro_of s i) L)" "steady s s1"
      using wake_active_ids [OF Cons.prems(1), of "[i]"] by (auto simp: result_simps)
    have "id_known s1 j" if "j \<in> snd ` set ts" for j
      using Cons.prems(2) [of j] that by (auto simp: steady_known [OF s1(3)])
    from Cons.IH [OF s1(2) this] s1 False e show ?thesis
      by (auto simp: steady_known [OF s1(3)] intro: steady_trans)
  qed
qed

text \<open>The wake-ups of one turn: the coroutines whose timers have expired, the ones that yielded, the
  ones other threads put back.\<close>

definition expired_timers :: "int \<Rightarrow> 'c CoroutineScheduler \<Rightarrow> u32 list" where
  "expired_timers now s = map snd (takeWhile (\<lambda>e. fst e \<le> now) (timeoutCoroId s))"

definition lists_woken :: "int \<Rightarrow> 'c CoroutineScheduler \<Rightarrow> coro_lists \<Rightarrow> coro_lists" where
  "lists_woken now s L =
     fold lists_to_active (map (coro_of s) (td_deque (activeCoroQueue s)))
       (fold lists_to_avail (map (coro_of s) (needActiveCoroId s))
         (fold lists_to_active (map (coro_of s) (expired_timers now s)) L))"

lemma wakeupbytimeout_ok:
  assumes rel: "sched_rel s L" and t: "\<not> terminal s"
  shows "\<exists>s'. wakeupbytimeout env s = Inr s' \<and>
     sched_rel s' (fold lists_to_active (map (coro_of s) (expired_timers (clock env (clockReads s)) s)) L) \<and>
     \<not> terminal s' \<and> coro_of s' = coro_of s \<and> needActiveCoroId s' = needActiveCoroId s \<and>
     activeCoroQueue s' = activeCoroQueue s \<and> usedSize s' = usedSize s \<and> stackSize s' = stackSize s \<and>
     timeoutCoroId s' = dropWhile (\<lambda>e. fst e \<le> clock env (clockReads s)) (timeoutCoroId s)"
proof (cases "timeoutCoroId s = []")
  case True
  then show ?thesis using rel t by (simp add: wakeupbytimeout_def expired_timers_def)
next
  case False
  let ?now = "clock env (clockReads s)"
  define s0 where "s0 = s\<lparr>clockReads := Suc (clockReads s)\<rparr>"
  have k: "id_known s0 = id_known s" "coro_of s0 = coro_of s"
    by (auto simp: s0_def id_known_def coro_of_def fun_eq_iff)
  have rel0: "sched_rel s0 L"
    using rel_waking [OF rel] rel_timers [OF rel] rel_queue [OF rel]
    by (intro rel_update_waiting [OF rel]) (simp_all add: s0_def waking_ids_def)
  obtain s1 where s1: "wakeup_expired ?now (timeoutCoroId s) s0 =
       Inr (s1\<lparr>timeoutCoroId := dropWhile (\<lambda>e. fst e \<le> ?now) (timeoutCoroId s)\<rparr>)" "steady s0 s1"
     "sched_rel s1 (fold lists_to_active (map (coro_of s0 \<circ> snd) (takeWhile (\<lambda>e. fst e \<le> ?now) (timeoutCoroId s))) L)"
    using wakeup_expired_ok [OF rel0, of "timeoutCoroId s" ?now] rel_waking [OF rel] k
    by (auto simp: waking_ids_def)
  note f = steady_fields [OF s1(2)]
  let ?s2 = "s1\<lparr>timeoutCoroId := dropWhile (\<lambda>e. fst e \<le> ?now) (timeoutCoroId s)\<rparr>"
  have "sched_rel ?s2 (fold lists_to_active (map (coro_of s0 \<circ> snd) (takeWhile (\<lambda>e. fst e \<le> ?now) (timeoutCoroId s))) L)"
  proof (rule rel_update_waiting [OF s1(3)])
    show "sorted (map fst (timeoutCoroId ?s2))"
      using rel_timers [OF rel] by simp (metis dropWhile_eq_drop drop_map sorted_wrt_drop)
    show "ThreadDeque_inv (activeCoroQueue ?s2)" using rel_queue [OF s1(3)] by simp
    show "id_known s1 i" if "i \<in> waking_ids ?s2" for i
    proof (rule rel_waking [OF s1(3)])
      have "snd ` set (dropWhile (\<lambda>e. fst e \<le> ?now) (timeoutCoroId s)) \<subseteq> snd ` set (timeoutCoroId s)"
        by (intro image_mono) (auto dest: set_dropWhileD)
      moreover have "timeoutCoroId s1 = timeoutCoroId s" using f by (simp add: s0_def)
      ultimately show "i \<in> waking_ids s1" using that by (auto simp: waking_ids_def)
    qed
  qed simp_all
  then have "sched_rel ?s2 (fold lists_to_active (map (coro_of s) (expired_timers ?now s)) L)"
    by (simp add: expired_timers_def k)
  moreover have "coro_of ?s2 = coro_of s"
    using steady_known(2) [OF s1(2)] k by (simp add: coro_of_def fun_eq_iff)
  moreover have "wakeupbytimeout env s = Inr ?s2"
    using False t s1(1) by (simp add: wakeupbytimeout_def Let_def s0_def)
  moreover have "\<not> terminal ?s2" "needActiveCoroId ?s2 = needActiveCoroId s" "activeCoroQueue ?s2 = activeCoroQueue s"
    "usedSize ?s2 = usedSize s" "stackSize ?s2 = stackSize s" using f t by (simp_all add: s0_def)
  ultimately show ?thesis by (intro exI [of _ ?s2]) simp
qed

lemma wakeupbyself_ok:
  assumes rel: "sched_rel s L" and t: "\<not> terminal s"
  shows "\<exists>s'. wakeupbyself s = Inr s' \<and>
     sched_rel s' (fold lists_to_avail (map (coro_of s) (needActiveCoroId s)) L) \<and>
     \<not> terminal s' \<and> coro_of s' = coro_of s \<and> needActiveCoroId s' = [] \<and>
     activeCoroQueue s' = activeCoroQueue s \<and> timeoutCoroId s' = timeoutCoroId s \<and> usedSize s' = usedSize s \<and>
     stackSize s' = stackSize s"
proof -
  have "id_known s i" if "i \<in> set (needActiveCoroId s)" for i
    using rel_waking [OF rel] that by (simp add: waking_ids_def)
  then obtain s1 where s1: "fold_result (move_id moveToAvail) (needActiveCoroId s) s = Inr s1"
    "sched_rel s1 (fold lists_to_avail (map (coro_of s) (needActiveCoroId s)) L)" "steady s s1"
    using wake_avail_ids [OF rel, of "needActiveCoroId s"] by auto
  note f = steady_fields [OF s1(3)]
  have "sched_rel (s1\<lparr>needActiveCoroId := []\<rparr>) (fold lists_to_avail (map (coro_of s) (needActiveCoroId s)) L)"
    using rel_waking [OF s1(2)] rel_timers [OF s1(2)] rel_queue [OF s1(2)]
    by (intro rel_update_waiting [OF s1(2)]) (auto simp: waking_ids_def)
  moreover have "coro_of (s1\<lparr>needActiveCoroId := []\<rparr>) = coro_of s"
    using steady_known(2) [OF s1(3)] by (simp add: coro_of_def fun_eq_iff)
  ultimately show ?thesis using t s1(1) f by (simp add: wakeupbyself_def)
qed

lemma wakeup_ok:
  assumes rel: "sched_rel s L" and t: "\<not> terminal s"
  shows "\<exists>s'. wakeup s = Inr s' \<and>
     sched_rel s' (fold lists_to_active (map (coro_of s) (td_deque (activeCoroQueue s))) L) \<and>
     \<not> terminal s' \<and> coro_of s' = coro_of s \<and> td_deque (activeCoroQueue s') = [] \<and>
     needActiveCoroId s' = needActiveCoroId s \<and> timeoutCoroId s' = timeoutCoroId s \<and> usedSize s' = usedSize s \<and>
     stackSize s' = stackSize s"
proof (cases "td_deque (activeCoroQueue s) = []")
  case True
  then show ?thesis using rel t rel_queue [OF rel] by (simp add: wakeup_def ThreadDeque_inv_def)
next
  case False
  define d where "d = (activeCoroQueue s)\<lparr>td_deque := [], td_size := 0\<rparr>"
  define s0 where "s0 = s\<lparr>activeCoroQueue := d\<rparr>"
  have rel0: "sched_rel s0 L"
    using rel_waking [OF rel] rel_timers [OF rel]
    by (intro rel_update_waiting [OF rel]) (auto simp: s0_def waking_ids_def d_def ThreadDeque_inv_def)
  have k: "id_known s0 = id_known s" "coro_of s0 = coro_of s"
    by (auto simp: s0_def id_known_def coro_of_def fun_eq_iff)
  have "id_known s0 i" if "i \<in> set (td_deque (activeCoroQueue s))" for i
    using rel_waking [OF rel] that by (simp add: waking_ids_def k)
  then obtain s1 where s1: "fold_result (move_id moveToActive) (td_deque (activeCoroQueue s)) s0 = Inr s1"
    "sched_rel s1 (fold lists_to_active (map (coro_of s) (td_deque (activeCoroQueue s))) L)" "steady s0 s1"
    using wake_active_ids [OF rel0, of "td_deque (activeCoroQueue s)"] by (auto simp: k)
  have "0 < td_size (activeCoroQueue s)" using False rel_queue [OF rel] by (simp add: ThreadDeque_inv_def)
  then have "wakeup s = Inr s1"
    using False t s1(1) by (simp add: wakeup_def ThreadDeque_swap_def s0_def d_def)
  with s1 t k steady_fields [OF s1(3)] steady_known(2) [OF s1(3)] show ?thesis
    by (simp add: s0_def d_def)
qed

lemma wakeups_ok:
  assumes rel: "sched_rel s L" and t: "\<not> terminal s"
  shows "\<exists>s'. wakeups env s = Inr s' \<and> sched_rel s' (lists_woken (clock env (clockReads s)) s L) \<and>
     \<not> terminal s' \<and> needActiveCoroId s' = [] \<and> td_deque (activeCoroQueue s') = [] \<and>
     usedSize s' = usedSize s \<and> stackSize s' = stackSize s \<and>
     timeoutCoroId s' = dropWhile (\<lambda>e. fst e \<le> clock env (clockReads s)) (timeoutCoroId s)"
proof -
  obtain s1 where s1: "wakeupbytimeout env s = Inr s1"
    "sched_rel s1 (fold lists_to_active (map (coro_of s) (expired_timers (clock env (clockReads s)) s)) L)"
    "\<not> terminal s1" "coro_of s1 = coro_of s" "needActiveCoroId s1 = needActiveCoroId s"
    "activeCoroQueue s1 = activeCoroQueue s" "usedSize s1 = usedSize s" "stackSize s1 = stackSize s"
    "timeoutCoroId s1 = dropWhile (\<lambda>e. fst e \<le> clock env (clockReads s)) (timeoutCoroId s)"
    using wakeupbytimeout_ok [OF rel t] by blast
  obtain s2 where s2: "wakeupbyself s1 = Inr s2"
    "sched_rel s2 (fold lists_to_avail (map (coro_of s) (needActiveCoroId s))
       (fold lists_to_active (map (coro_of s) (expired_timers (clock env (clockReads s)) s)) L))"
    "\<not> terminal s2" "coro_of s2 = coro_of s" "needActiveCoroId s2 = []"
    "activeCoroQueue s2 = activeCoroQueue s" "timeoutCoroId s2 = timeoutCoroId s1" "usedSize s2 = usedSize s"
    "stackSize s2 = stackSize s"
    using wakeupbyself_ok [OF s1(2,3)] s1(4-8) by metis
  obtain s3 where s3: "wakeup s2 = Inr s3" "sched_rel s3 (lists_woken (clock env (clockReads s)) s L)"
    "\<not> terminal s3" "td_deque (activeCoroQueue s3) = []" "needActiveCoroId s3 = needActiveCoroId s2"
    "timeoutCoroId s3 = timeoutCoroId s2" "usedSize s3 = usedSize s2"
    "stackSize s3 = stackSize s2"
    using wakeup_ok [OF s2(2,3)] s2(4,6) unfolding lists_woken_def by metis
  have "wakeups env s = Inr s3" by (simp add: wakeups_def s1(1) s2(1) s3(1))
  with s1 s2 s3 show ?thesis by simp
qed

section \<open>Creating coroutines\<close>

text \<open>The surroundings in which no stack allocation fails.\<close>

definition env_ok :: "'c sched_env \<Rightarrow> u64 \<Rightarrow> bool" where
  "env_ok env stack \<longleftrightarrow> (\<forall>n. \<exists>ctx. allocate (limits env) (mmap env n) stack = Inr (Some ctx))"

definition grown :: "'c CoroutineScheduler \<Rightarrow> 'c CoroutineScheduler \<Rightarrow> bool" where
  "grown s s' \<longleftrightarrow>
     (\<exists>a info h n u. s' = s\<lparr>allCoro := a, coroInfo := info, coroLinks := h, newCoros := n, uniqId := u\<rparr>)"

lemma grown_refl [simp]: "grown s s"
  unfolding grown_def
  by (rule exI [of _ "allCoro s"], rule exI [of _ "coroInfo s"], rule exI [of _ "coroLinks s"],
      rule exI [of _ "newCoros s"], rule exI [of _ "uniqId s"]) simp

lemma grown_trans: "grown s s' \<Longrightarrow> grown s' s'' \<Longrightarrow> grown s s''"
  unfolding grown_def by (elim exE, simp) (intro exI, rule refl)

lemma grown_fields:
  assumes "grown s s'"
  shows "terminal s' = terminal s" "poolSize s' = poolSize s" "currentSize s' = currentSize s"
    "usedSize s' = usedSize s" "stackSize s' = stackSize s" "activeCoroQueue s' = activeCoroQueue s"
    "needActiveCoroId s' = needActiveCoroId s" "timeoutCoroId s' = timeoutCoroId s"
    "clockReads s' = clockReads s" "currentCoro s' = currentCoro s" "waking_ids s' = waking_ids s"
  using assms by (auto simp: grown_def waking_ids_def)

lemma generateId_ok:
  assumes "uniqId s < poolSize s"
  shows "CoroutineScheduler_generateId s = Inr (uniqId s + 1, s\<lparr>uniqId := uniqId s + 1\<rparr>)"
    "unat (uniqId s + 1) = Suc (unat (uniqId s))"
proof -
  note inc = increment_nonzero_less [OF assms]
  then show "unat (uniqId s + 1) = Suc (unat (uniqId s))" by simp
  with assms have "uniqId s + 1 \<le> poolSize s" by (simp add: word_le_nat_alt word_less_nat_alt)
  with inc show "CoroutineScheduler_generateId s = Inr (uniqId s + 1, s\<lparr>uniqId := uniqId s + 1\<rparr>)"
    by (simp add: CoroutineScheduler_generateId_def Let_def)
qed

lemma add_free_ok:
  assumes core: "sched_core s L" and room: "uniqId s < poolSize s"
  defines "c \<equiv> newCoros s" and "i \<equiv> uniqId s + 1"
  shows "\<exists>s'. add_free c i ctx (s\<lparr>newCoros := Suc c, uniqId := i\<rparr>) = Inr s' \<and>
     sched_core s' (L(CORO_FREE := L CORO_FREE @ [c])) \<and> uniqId s' = i \<and> grown s s'"
proof -
  let ?L = "L(CORO_FREE := L CORO_FREE @ [c])"
  have i: "unat i = Suc (unat (uniqId s))" unfolding i_def by (rule generateId_ok(2) [OF room])
  then have i0: "i \<noteq> 0" by auto
  have len: "unat i < length (allCoro s)"
    using core room i by (simp add: sched_core_def word_less_nat_alt)
  have none: "allCoro s ! unat i = None" using core len i by (simp add: sched_core_def)
  have fresh: "d \<noteq> c" if "d \<in> set (L st)" for d st
    using core_member [OF core that] by (auto simp: coro_ok_def c_def)
  obtain h where h: "coroutineAddTail (Coro c) (Head CORO_FREE) (coroLinks s) = Inr h" "rings h ?L"
    using coros.add_law [of "coroLinks s" L c CORO_FREE] core fresh
    by (auto simp: sched_core_def links_addTail_def)
  define s' where "s' = s\<lparr>newCoros := Suc c, uniqId := i, allCoro := (allCoro s)[unat i := Some c],
     coroInfo := (coroInfo s)(c \<mapsto> \<lparr>ci_uid = i, ci_status = CORO_FREE, ci_stack = ctx, ci_body = None\<rparr>),
     coroLinks := h\<rparr>"
  have r: "add_free c i ctx (s\<lparr>newCoros := Suc c, uniqId := i\<rparr>) = Inr s'"
    using len h(1) by (simp add: add_free_def s'_def)
  have kn: "id_known s j \<Longrightarrow> id_known s' j" for j
    by (cases "unat j = unat i") (auto simp: id_known_def s'_def)
  have g: "grown s s'" unfolding grown_def s'_def by (intro exI, rule CoroutineScheduler.equality) auto
  have mem: "coro_ok s' st d" if d: "d \<in> set (?L st)" for st d
  proof (cases "d = c")
    case True
    then have "st = CORO_FREE" using d fresh by (auto split: if_splits)
    then show ?thesis using True i0 len by (simp add: coro_ok_def s'_def c_def)
  next
    case False
    then have "d \<in> set (L st)" using d by (auto split: if_splits)
    from core_member [OF core this] obtain info where info: "coroInfo s d = Some info" "ci_status info = st"
      "ci_uid info \<noteq> 0" "unat (ci_uid info) < length (allCoro s)" "allCoro s ! unat (ci_uid info) = Some d"
      "d < newCoros s" "st \<noteq> CORO_FREE \<Longrightarrow> ci_body info \<noteq> None" by (auto simp: coro_ok_def)
    moreover have "unat i \<noteq> unat (ci_uid info)" using none info(5) by auto
    ultimately show ?thesis using False by (auto simp: coro_ok_def s'_def c_def)
  qed
  have "sched_core s' ?L"
    unfolding sched_core_def
  proof (intro conjI allI impI ballI)
    fix j d assume "j < length (allCoro s')" "allCoro s' ! j = Some d"
    then consider "d = c" | "j < length (allCoro s)" "allCoro s ! j = Some d"
      using len by (cases "j = unat i") (auto simp: s'_def)
    then show "\<exists>st. d \<in> set (?L st)"
    proof cases
      case 1
      then show ?thesis by (intro exI [of _ CORO_FREE]) simp
    next
      case 2
      then obtain st where "d \<in> set (L st)" using core unfolding sched_core_def by blast
      then show ?thesis by (intro exI [of _ st]) auto
    qed
  next
    fix j assume "unat (uniqId s') < j" "j < length (allCoro s')"
    then show "allCoro s' ! j = None"
      using core i by (auto simp: s'_def sched_core_def nth_list_update)
  next
    fix j assume "j \<in> waking_ids s'"
    then show "id_known s' j" using kn core grown_fields(11) [OF g] by (simp add: sched_core_def)
  qed (use core h(2) mem grown_fields [OF g] in \<open>auto simp: sched_core_def\<close>,
      simp_all add: s'_def sched_core_def)
  with r g show ?thesis by (intro exI [of _ s']) (simp add: s'_def)
qed

lemma sched_core_cong:
  assumes core: "sched_core s L" and same: "coroInfo s' = coroInfo s" "coroLinks s' = coroLinks s"
      "allCoro s' = allCoro s" "poolSize s' = poolSize s" "uniqId s' = uniqId s"
      "newCoros s' = newCoros s" "waking_ids s' = waking_ids s" "timeoutCoroId s' = timeoutCoroId s"
      "activeCoroQueue s' = activeCoroQueue s"
    and bound: "currentSize s' \<le> poolSize s"
  shows "sched_core s' L"
proof (rule core_update [OF core same(3-5) bound])
  show "coro_ok s' st c" if "c \<in> set (L st)" for st c
    using core_member [OF core that] by (simp add: coro_ok_def same)
qed (use core in \<open>auto simp: same sched_core_def\<close>)

lemma increase_loop_ok:
  assumes "sched_core s L" and "env_ok env (stackSize s)" and "unat (uniqId s) + n \<le> unat (poolSize s)"
  shows "\<exists>s' new. increase_loop env n k s = Inr (k + n, s') \<and>
     sched_core s' (L(CORO_FREE := L CORO_FREE @ new)) \<and> length new = n \<and>
     unat (uniqId s') = unat (uniqId s) + n \<and> grown s s'"
  using assms
proof (induction n arbitrary: s L k)
  case 0
  then show ?case by (intro exI [of _ s] exI [of _ "[]"]) simp
next
  case (Suc n)
  have room: "uniqId s < poolSize s" using Suc.prems(3) by (simp add: word_less_nat_alt)
  define c where "c = newCoros s"
  obtain ctx where a: "allocate (limits env) (mmap env c) (stackSize s) = Inr (Some ctx)"
    using Suc.prems(2) by (auto simp: env_ok_def)
  have gen: "CoroutineScheduler_generateId (s\<lparr>newCoros := Suc c\<rparr>) =
      Inr (uniqId s + 1, s\<lparr>newCoros := Suc c, uniqId := uniqId s + 1\<rparr>)"
    using generateId_ok(1) [of "s\<lparr>newCoros := Suc c\<rparr>"] room by simp
  obtain s1 where s1: "add_free c (uniqId s + 1) ctx (s\<lparr>newCoros := Suc c, uniqId := uniqId s + 1\<rparr>) = Inr s1"
    "sched_core s1 (L(CORO_FREE := L CORO_FREE @ [c]))" "uniqId s1 = uniqId s + 1" "grown s s1"
    using add_free_ok [OF Suc.prems(1) room] unfolding c_def by blast
  note f = grown_fields [OF s1(4)]
  have u: "unat (uniqId s1) = Suc (unat (uniqId s))" using generateId_ok(2) [OF room] s1(3) by simp
  obtain s2 new where s2: "increase_loop env n (Suc k) s1 = Inr (Suc k + n, s2)"
    "sched_core s2 ((L(CORO_FREE := L CORO_FREE @ [c]))(CORO_FREE := (L(CORO_FREE := L CORO_FREE @ [c])) CORO_FREE @ new))"
    "length new = n" "unat (uniqId s2) = unat (uniqId s1) + n" "grown s1 s2"
  proof -
    have "env_ok env (stackSize s1)" "unat (uniqId s1) + n \<le> unat (poolSize s1)"
      using Suc.prems(2,3) u by (simp_all add: f)
    from Suc.IH [OF s1(2) this, of "Suc k"] that show thesis by blast
  qed
  have "increase_loop env (Suc n) k s = Inr (k + Suc n, s2)"
    using a gen s1(1) s2(1) by (simp add: c_def [symmetric] Let_def)
  moreover have "sched_core s2 (L(CORO_FREE := L CORO_FREE @ (c # new)))" using s2(2) by simp
  moreover have "length (c # new) = Suc n" "unat (uniqId s2) = unat (uniqId s) + Suc n" "grown s s2"
    using s2(3,4) u grown_trans [OF s1(4) s2(5)] by simp_all
  ultimately show ?case by blast
qed

lemma init_loop_eq_increase:
  assumes "sched_core s L" and "env_ok env (stackSize s)" and "unat (uniqId s) + n \<le> unat (poolSize s)"
  shows "init_loop env n k s = increase_loop env n k s"
  using assms
proof (induction n arbitrary: s L k)
  case (Suc n)
  have room: "uniqId s < poolSize s" using Suc.prems(3) by (simp add: word_less_nat_alt)
  define c where "c = newCoros s"
  obtain ctx where a: "allocate (limits env) (mmap env c) (stackSize s) = Inr (Some ctx)"
    using Suc.prems(2) by (auto simp: env_ok_def)
  have gen: "CoroutineScheduler_generateId (s\<lparr>newCoros := Suc c\<rparr>) =
      Inr (uniqId s + 1, s\<lparr>newCoros := Suc c, uniqId := uniqId s + 1\<rparr>)"
    using generateId_ok(1) [of "s\<lparr>newCoros := Suc c\<rparr>"] room by simp
  obtain s1 where s1: "add_free c (uniqId s + 1) ctx (s\<lparr>newCoros := Suc c, uniqId := uniqId s + 1\<rparr>) = Inr s1"
    "sched_core s1 (L(CORO_FREE := L CORO_FREE @ [c]))" "uniqId s1 = uniqId s + 1" "grown s s1"
    using add_free_ok [OF Suc.prems(1) room] unfolding c_def by blast
  have u: "unat (uniqId s1) = Suc (unat (uniqId s))" using generateId_ok(2) [OF room] s1(3) by simp
  have "init_loop env n (Suc k) s1 = increase_loop env n (Suc k) s1"
    using Suc.IH [OF s1(2)] Suc.prems(2,3) u grown_fields [OF s1(4)] by simp
  then show ?case using a gen s1(1) by (simp add: c_def [symmetric] Let_def)
qed simp

lemma increase_ok:
  assumes rel: "sched_rel s L" and env: "env_ok env (stackSize s)"
  shows "if currentSize s = poolSize s then increaseCoroPoolSize env s = Inr (False, s)
    else \<exists>s' new. increaseCoroPoolSize env s = Inr (True, s') \<and> sched_rel s' (L(CORO_FREE := L CORO_FREE @ new)) \<and>
      new \<noteq> [] \<and> grown s (s'\<lparr>currentSize := currentSize s\<rparr>)"
proof (cases "currentSize s = poolSize s")
  case True
  then show ?thesis by (simp add: increaseCoroPoolSize_def)
next
  case False
  have core: "sched_core s L" and cur: "currentSize s \<le> poolSize s" and uq: "uniqId s = currentSize s"
    and tot: "unat (currentSize s) = lists_total L" "unat (usedSize s) + length (L CORO_FREE) = lists_total L"
    using rel by (auto simp: sched_rel_def sched_core_def)
  have df: "unat (poolSize s - currentSize s) = unat (poolSize s) - unat (currentSize s)"
    using cur by (rule unat_sub_le)
  define inc where "inc = (if 100 < poolSize s - currentSize s then 100 else poolSize s - currentSize s)"
  have inc0: "inc \<noteq> 0" using False by (auto simp: inc_def)
  have inc: "unat (uniqId s) + unat inc \<le> unat (poolSize s)"
    using cur df uq by (auto simp: inc_def word_nat)
  obtain s1 new where s1: "increase_loop env (unat inc) 0 s = Inr (0 + unat inc, s1)"
    "sched_core s1 (L(CORO_FREE := L CORO_FREE @ new))" "length new = unat inc"
    "unat (uniqId s1) = unat (uniqId s) + unat inc" "grown s s1"
    using increase_loop_ok [OF core env inc, of 0] by blast
  note f = grown_fields [OF s1(5)]
  have n0: "unat inc \<noteq> 0" using inc0 by (simp add: unat_eq_0)
  define s' where "s' = s1\<lparr>currentSize := currentSize s1 + of_nat (unat inc)\<rparr>"
  have r: "increaseCoroPoolSize env s = Inr (True, s')"
    unfolding increaseCoroPoolSize_def Let_def inc_def [symmetric]
    using inc0 s1(1) n0 by (simp add: s'_def del: of_nat_unat)
  have cs: "unat (currentSize s') = unat (currentSize s) + unat inc"
  proof -
    have "unat (currentSize s) + unat inc < 2 ^ 32"
      using inc uq unsigned_less [of "poolSize s", where 'a = nat] by simp
    then show ?thesis by (simp add: s'_def f unat_add_less)
  qed
  have "sched_core s' (L(CORO_FREE := L CORO_FREE @ new))"
    using cs inc uq f by (intro sched_core_cong [OF s1(2)]) (simp_all add: s'_def waking_ids_def word_le_nat_alt)
  moreover have "uniqId s' = currentSize s'"
    using s1(4) cs uq by (simp add: s'_def word_unat_eq_iff)
  ultimately have "sched_rel s' (L(CORO_FREE := L CORO_FREE @ new))"
    using tot cs s1(3) f by (simp add: sched_rel_def lists_total_def) (simp add: s'_def)
  moreover have "new \<noteq> []" using s1(3) n0 by auto
  moreover have "grown s (s'\<lparr>currentSize := currentSize s\<rparr>)"
  proof -
    have "s'\<lparr>currentSize := currentSize s\<rparr> = s1" using f by (simp add: s'_def)
    with s1(5) show ?thesis by simp
  qed
  ultimately show ?thesis using r False by auto
qed

lemma take_free_ok:
  assumes rel: "sched_rel s L" and free: "L CORO_FREE = c # cs"
  shows "\<exists>u s'. take_free b s = Inr (u, s') \<and> sched_rel s' (lists_move c CORO_FREE CORO_AVAIL L) \<and>
     u \<noteq> 0 \<and> coro_at u s' = Inr c \<and> map_option ci_body (coroInfo s' c) = Some (Some b) \<and>
     (\<exists>info h n. s' = s\<lparr>coroInfo := info, coroLinks := h, usedSize := n\<rparr>)"
proof -
  let ?L = "lists_move c CORO_FREE CORO_AVAIL L"
  have core: "sched_core s L" by (rule rel_core [OF rel])
  have c: "c \<in> set (L CORO_FREE)" by (simp add: free)
  note dj = core_disjoint [OF core]
  obtain i where i: "coroInfo s c = Some i" "ci_status i = CORO_FREE" "ci_uid i \<noteq> 0"
    "unat (ci_uid i) < length (allCoro s)" "allCoro s ! unat (ci_uid i) = Some c" "c < newCoros s"
    using core_member [OF core c] by (auto simp: coro_ok_def)
  obtain h1 h2 where h: "coroutineDel (Coro c) (coroLinks s) = Inr h1"
    "coroutineAddTail (Coro c) (Head CORO_AVAIL) h1 = Inr h2" "rings h2 ?L"
    using coros.move_ok [of "coroLinks s" L c CORO_FREE CORO_AVAIL] core c
    by (auto simp: sched_core_def links_del_def links_addTail_def)
  define s' where "s' = s\<lparr>coroInfo := (coroInfo s)(c \<mapsto> i\<lparr>ci_status := CORO_AVAIL, ci_body := Some b\<rparr>),
     coroLinks := h2, usedSize := usedSize s + 1\<rparr>"
  have r: "take_free b s = Inr (ci_uid i, s')"
    using i(1) by (simp add: take_free_def core_first [OF core free] h Let_def registerFunc_def
        update_info_def info_of_def s'_def)
  have core': "sched_core s' ?L"
  proof (rule core_update [OF core])
    show "coro_ok s' st d" if d: "d \<in> set (?L st)" for st d
    proof (cases "d = c")
      case True
      then have "st = CORO_AVAIL" using d lists_move_mem [OF dj c, of d CORO_AVAIL st] by simp
      with True i show ?thesis by (simp add: coro_ok_def s'_def)
    next
      case False
      then have "d \<in> set (L st)" using d lists_move_mem [OF dj c, of d CORO_AVAIL st] by simp
      from core_member [OF core this] False show ?thesis by (simp add: coro_ok_def s'_def)
    qed
    show "\<exists>st'. d \<in> set (?L st')" if "d \<in> set (L st)" for st d
      using that lists_move_mem [OF dj c, of d CORO_AVAIL] by metis
  qed (use core h(3) in \<open>auto simp: s'_def sched_core_def waking_ids_def\<close>)
  have u: "unat (usedSize s') = Suc (unat (usedSize s))"
  proof -
    have "unat (usedSize s) < unat (currentSize s)" using rel free by (simp add: sched_rel_def)
    then show ?thesis
      using unat_add_less [of "usedSize s" 1] unsigned_less [of "currentSize s", where 'a = nat]
      by (simp add: s'_def)
  qed
  have "unat (usedSize s) + length (L CORO_FREE) = lists_total L" using rel by (simp add: sched_rel_def)
  moreover have "length (?L CORO_FREE) + 1 = length (L CORO_FREE)"
    using lists_move_length [of c L CORO_FREE CORO_AVAIL CORO_FREE] c by simp
  moreover have "lists_total ?L = lists_total L" using c by (rule lists_move_total)
  ultimately have "sched_rel s' ?L"
    using rel core' u by (simp add: sched_rel_def) (simp add: s'_def)
  moreover have "coro_at (ci_uid i) s' = Inr c" using i by (simp add: coro_at_def s'_def)
  moreover have "map_option ci_body (coroInfo s' c) = Some (Some b)" by (simp add: s'_def)
  ultimately show ?thesis using r i(3) s'_def by blast
qed

text \<open>\<open>createCoroutine\<close> fails (returns 0) only when the pool is full and no coroutine is free.\<close>

lemma createCoroutine_ok:
  assumes rel: "sched_rel s L" and env: "env_ok env (stackSize s)"
  shows "if L CORO_FREE = [] \<and> currentSize s = poolSize s
    then createCoroutine env b s = Inr (0, s)
    else \<exists>u c new s'. createCoroutine env b s = Inr (u, s') \<and>
      c = hd (L CORO_FREE @ new) \<and>
      sched_rel s' (lists_move c CORO_FREE CORO_AVAIL (L(CORO_FREE := L CORO_FREE @ new))) \<and>
      c \<in> set ((L(CORO_FREE := L CORO_FREE @ new)) CORO_FREE) \<and>
      u \<noteq> 0 \<and> coro_at u s' = Inr c \<and> map_option ci_body (coroInfo s' c) = Some (Some b) \<and>
      stackSize s' = stackSize s \<and> terminal s' = terminal s \<and> clockReads s' = clockReads s \<and>
      needActiveCoroId s' = needActiveCoroId s \<and> timeoutCoroId s' = timeoutCoroId s \<and>
      activeCoroQueue s' = activeCoroQueue s"
proof -
  have core: "sched_core s L" by (rule rel_core [OF rel])
  have tot: "unat (currentSize s) = lists_total L" "unat (usedSize s) + length (L CORO_FREE) = lists_total L"
    using rel by (auto simp: sched_rel_def)
  have guard: "currentSize s \<le> usedSize s \<or> list_empty CORO_FREE s \<longleftrightarrow> L CORO_FREE = []"
    using tot core_empty [OF core, of CORO_FREE] by (cases "L CORO_FREE") (simp_all add: word_le_nat_alt)
  show ?thesis
  proof (cases "L CORO_FREE")
    case (Cons c cs)
    then have eq: "createCoroutine env b s = take_free b s" using guard by (simp add: createCoroutine_def)
    obtain u s' info h k where s': "take_free b s = Inr (u, s')"
      "sched_rel s' (lists_move c CORO_FREE CORO_AVAIL L)" "u \<noteq> 0" "coro_at u s' = Inr c"
      "map_option ci_body (coroInfo s' c) = Some (Some b)"
      "s' = s\<lparr>coroInfo := info, coroLinks := h, usedSize := k\<rparr>"
      using take_free_ok [OF rel Cons, of b] by blast
    have "L(CORO_FREE := L CORO_FREE @ []) = L" by simp
    moreover have "c = hd (L CORO_FREE @ [])" "c \<in> set ((L(CORO_FREE := L CORO_FREE @ [])) CORO_FREE)"
      using Cons by simp_all
    moreover have "stackSize s' = stackSize s" "terminal s' = terminal s" "clockReads s' = clockReads s"
        "needActiveCoroId s' = needActiveCoroId s" "timeoutCoroId s' = timeoutCoroId s"
        "activeCoroQueue s' = activeCoroQueue s" using s'(6) by simp_all
    moreover have "\<not> (L CORO_FREE = [] \<and> currentSize s = poolSize s)" using Cons by simp
    ultimately show ?thesis using s'(1-5) unfolding eq by (simp only: if_False) metis
  next
    case Nil
    show ?thesis
    proof (cases "currentSize s = poolSize s")
      case True
      then show ?thesis using Nil guard increase_ok [OF rel env] by (simp add: createCoroutine_def)
    next
      case False
      then obtain s1 new where s1: "increaseCoroPoolSize env s = Inr (True, s1)"
        "sched_rel s1 (L(CORO_FREE := L CORO_FREE @ new))" "new \<noteq> []" "grown s (s1\<lparr>currentSize := currentSize s\<rparr>)"
        using increase_ok [OF rel env] by auto
      obtain c cs where n: "new = c # cs" using s1(3) by (cases new) auto
      have "(L(CORO_FREE := L CORO_FREE @ new)) CORO_FREE = c # cs" using Nil n by simp
      from take_free_ok [OF s1(2) this, of b] obtain u s' info h k where s': "take_free b s1 = Inr (u, s')"
        "sched_rel s' (lists_move c CORO_FREE CORO_AVAIL (L(CORO_FREE := L CORO_FREE @ new)))"
        "u \<noteq> 0" "coro_at u s' = Inr c" "map_option ci_body (coroInfo s' c) = Some (Some b)"
        "s' = s1\<lparr>coroInfo := info, coroLinks := h, usedSize := k\<rparr>" by blast
      have "createCoroutine env b s = Inr (u, s')" using guard Nil s1(1) s'(1) by (simp add: createCoroutine_def)
      moreover have "c = hd (L CORO_FREE @ new)" using Nil n by simp
      moreover have "c \<in> set ((L(CORO_FREE := L CORO_FREE @ new)) CORO_FREE)" using n by simp
      moreover have "stackSize s' = stackSize s" "terminal s' = terminal s" "clockReads s' = clockReads s"
        "needActiveCoroId s' = needActiveCoroId s" "timeoutCoroId s' = timeoutCoroId s"
        "activeCoroQueue s' = activeCoroQueue s"
        using grown_fields [OF s1(4)] s'(6) by simp_all
      moreover have "\<not> (L CORO_FREE = [] \<and> currentSize s = poolSize s)" using False by simp
      ultimately show ?thesis using s'(2-5) by (simp only: if_False) blast
    qed
  qed
qed

section \<open>Running coroutines\<close>

lemma rel_set_body:
  assumes rel: "sched_rel s L" and c: "c \<in> set (L st)" and x: "st \<noteq> CORO_FREE \<Longrightarrow> x \<noteq> None"
  shows "sched_rel (update_info c (\<lambda>i. i\<lparr>ci_body := x\<rparr>) s\<lparr>currentCoro := cc\<rparr>) L"
proof -
  let ?s = "update_info c (\<lambda>i. i\<lparr>ci_body := x\<rparr>) s\<lparr>currentCoro := cc\<rparr>"
  note core = rel_core [OF rel]
  have "sched_core ?s L"
  proof (rule core_update [OF core])
    show "coro_ok ?s st' d" if d: "d \<in> set (L st')" for st' d
    proof (cases "d = c")
      case True
      then have "st' = st" using in_one_list [OF core_disjoint [OF core] c] d by simp
      with core_member [OF core d] x True show ?thesis by (auto simp: coro_ok_def update_info_def)
    next
      case False
      with core_member [OF core d] show ?thesis by (simp add: coro_ok_def update_info_def)
    qed
  qed (use core in \<open>auto simp: update_info_def sched_core_def waking_ids_def\<close>)
  with rel show ?thesis by (simp add: sched_rel_def update_info_def)
qed

lemma rel_ready:
  assumes rel: "sched_rel s L" and c: "c \<in> set (L st)"
  obtains i where "coroInfo s c = Some i" "info_of c s = Inr i" "ci_status i = st" "id_known s (ci_uid i)"
    "coro_of s (ci_uid i) = c"
  using core_member [OF rel_core [OF rel] c] by (auto simp: coro_ok_def info_of_def id_known_def coro_of_def)

lemma yield_ok:
  assumes rel: "sched_rel s L" and c: "c \<in> set (L st)" and st: "st = CORO_ACTIVE \<or> st = CORO_AVAIL"
  shows "\<exists>s'. CoroutineScheduler_yield flag rest c s = Inr s' \<and>
     sched_rel s' (lists_move c st CORO_INACTIVE L) \<and> stackSize s' = stackSize s \<and> terminal s' = terminal s \<and>
     map_option ci_body (coroInfo s' c) = Some (Some rest)"
proof -
  obtain i where i: "coroInfo s c = Some i" "info_of c s = Inr i" "ci_status i = st" "id_known s (ci_uid i)"
    by (rule rel_ready [OF rel c])
  define s1 where "s1 = (if flag then putbyself (ci_uid i) s else s)"
  have "waking_ids s1 \<subseteq> insert (ci_uid i) (waking_ids s)"
    by (auto simp: s1_def putbyself_def waking_ids_def split: if_splits)
  then have rel1: "sched_rel s1 L"
    using rel_waking [OF rel] rel_timers [OF rel] rel_queue [OF rel] i(4)
    by (intro rel_update_waiting [OF rel]) (auto simp: s1_def putbyself_def)
  have i1: "info_of c s1 = Inr i" using i(2) by (simp add: s1_def putbyself_def info_of_def)
  have "moveToInactive c s1 = moveTo c CORO_INACTIVE s1" using i(3) i1 st by (auto simp: moveToInactive_def)
  moreover obtain s2 where s2: "moveTo c CORO_INACTIVE s1 = Inr s2"
    "sched_rel s2 (lists_move c st CORO_INACTIVE L)" "steady s1 s2"
    using moveTo_rel [OF rel1 c, of CORO_INACTIVE] st by auto
  moreover have c2: "c \<in> set (lists_move c st CORO_INACTIVE L CORO_INACTIVE)"
    using lists_move_mem [OF rel_disjoint [OF rel] c] by simp
  moreover have "coroInfo s2 c \<noteq> None" using core_info [OF rel_core [OF s2(2)] c2] by auto
  moreover have "stackSize s2 = stackSize s" "terminal s2 = terminal s"
    using steady_fields [OF s2(3)] by (auto simp: s1_def putbyself_def)
  ultimately show ?thesis
    using rel_set_body [OF s2(2) c2, of "Some rest"] i(2)
    by (auto simp: CoroutineScheduler_yield_def s1_def [symmetric] Let_def update_info_def)
qed

lemma set_timer_insert [simp]: "set (timer_insert t i ts) = insert (t, i) (set ts)"
  using set_append [of "takeWhile (\<lambda>e. fst e \<le> t) ts" "dropWhile (\<lambda>e. fst e \<le> t) ts"]
  by (simp add: timer_insert_def del: set_append) auto

lemma sorted_timer_insert:
  assumes "sorted (map fst ts)"
  shows "sorted (map fst (timer_insert t i ts))"
  using assms
proof (induction ts)
  case (Cons e ts)
  then show ?case by (auto simp: timer_insert_def dest: set_takeWhileD set_dropWhileD)
qed (simp add: timer_insert_def)

lemma sleep_ok:
  assumes rel: "sched_rel s L" and c: "c \<in> set (L st)" and st: "st = CORO_ACTIVE \<or> st = CORO_AVAIL"
  shows "\<exists>s'. CoroutineScheduler_sleep env ms rest c s = Inr s' \<and>
     sched_rel s' (lists_move c st CORO_TIMEOUT L) \<and> stackSize s' = stackSize s \<and> terminal s' = terminal s \<and>
     map_option ci_body (coroInfo s' c) = Some (Some rest)"
proof -
  obtain i where i: "coroInfo s c = Some i" "info_of c s = Inr i" "ci_status i = st" "id_known s (ci_uid i)"
    by (rule rel_ready [OF rel c])
  define s1 where "s1 = s\<lparr>clockReads := Suc (clockReads s),
     timeoutCoroId := timer_insert (clock env (clockReads s) + (if 0 \<le> ms then ms else - ms)) (ci_uid i) (timeoutCoroId s)\<rparr>"
  have rel1: "sched_rel s1 L"
    using rel_waking [OF rel] rel_timers [OF rel] rel_queue [OF rel] i(4)
    by (intro rel_update_waiting [OF rel]) (auto simp: s1_def waking_ids_def intro!: sorted_timer_insert)
  have i1: "info_of c s1 = Inr i" using i(2) by (simp add: s1_def info_of_def)
  have "moveToTimeout c s1 = moveTo c CORO_TIMEOUT s1" using i(3) i1 st by (auto simp: moveToTimeout_def)
  moreover obtain s2 where s2: "moveTo c CORO_TIMEOUT s1 = Inr s2"
    "sched_rel s2 (lists_move c st CORO_TIMEOUT L)" "steady s1 s2"
    using moveTo_rel [OF rel1 c, of CORO_TIMEOUT] st by auto
  moreover have c2: "c \<in> set (lists_move c st CORO_TIMEOUT L CORO_TIMEOUT)"
    using lists_move_mem [OF rel_disjoint [OF rel] c] by simp
  moreover have "coroInfo s2 c \<noteq> None" using core_info [OF rel_core [OF s2(2)] c2] by auto
  moreover have "stackSize s2 = stackSize s" "terminal s2 = terminal s"
    using steady_fields [OF s2(3)] by (auto simp: s1_def)
  ultimately show ?thesis
    using rel_set_body [OF s2(2) c2, of "Some rest"] i(2)
    by (auto simp: CoroutineScheduler_sleep_def s1_def [symmetric] Let_def update_info_def)
qed

lemma proc_end_ok:
  assumes rel: "sched_rel s L" and c: "c \<in> set (L st)" and st: "st = CORO_ACTIVE \<or> st = CORO_AVAIL"
  shows "\<exists>s'. corotineProc_end c s = Inr s' \<and>
     sched_rel s' (lists_move c st CORO_FREE L) \<and> stackSize s' = stackSize s \<and> terminal s' = terminal s"
proof -
  let ?L = "lists_move c st CORO_FREE L"
  obtain i where i: "coroInfo s c = Some i" "info_of c s = Inr i" "ci_status i = st"
    by (rule rel_ready [OF rel c])
  define s1 where "s1 = s\<lparr>usedSize := usedSize s - 1\<rparr>"
  have core1: "sched_core s1 L"
    using rel by (intro sched_core_cong [OF rel_core [OF rel]]) (auto simp: s1_def waking_ids_def sched_rel_def sched_core_def)
  obtain h where h: "moveTo c CORO_FREE s1 = Inr (update_info c (\<lambda>i. i\<lparr>ci_status := CORO_FREE\<rparr>) s1\<lparr>coroLinks := h\<rparr>)"
    "sched_core (update_info c (\<lambda>i. i\<lparr>ci_status := CORO_FREE\<rparr>) s1\<lparr>coroLinks := h\<rparr>) ?L"
    using moveTo_ok [OF core1 c, of CORO_FREE] by auto
  define s2 where "s2 = update_info c (\<lambda>i. i\<lparr>ci_status := CORO_FREE\<rparr>) s1\<lparr>coroLinks := h\<rparr>"
  have "moveToFreeList c s1 = Inr s2"
    using i h(1) st by (auto simp: moveToFreeList_def s1_def info_of_def s2_def)
  then have r: "corotineProc_end c s = Inr (update_info c (\<lambda>i. i\<lparr>ci_body := None\<rparr>) s2\<lparr>currentCoro := Some MainCoro\<rparr>)"
    by (simp add: corotineProc_end_def s1_def)
  have tot: "unat (usedSize s) + length (L CORO_FREE) = lists_total L" using rel by (simp add: sched_rel_def)
  have "length (L CORO_FREE) + 1 \<le> lists_total L"
    using c st by (cases "L st") (auto simp: lists_total_def)
  then have "unat (usedSize s - 1) + 1 = unat (usedSize s)"
    using tot by (subst unat_sub_le) (auto simp: word_le_nat_alt)
  moreover have "length (?L CORO_FREE) = length (L CORO_FREE) + 1"
    using lists_move_length [of c L st CORO_FREE CORO_FREE] c st by auto
  moreover have "lists_total ?L = lists_total L" using c by (rule lists_move_total)
  moreover have "uniqId s2 = uniqId s" "currentSize s2 = currentSize s" "usedSize s2 = usedSize s - 1"
    by (simp_all add: s2_def s1_def update_info_def)
  ultimately have "sched_rel s2 ?L"
    using rel h(2) tot unfolding s2_def [symmetric] by (simp add: sched_rel_def)
  moreover have "c \<in> set (?L CORO_FREE)" using lists_move_mem [OF rel_disjoint [OF rel] c] by simp
  ultimately show ?thesis
    using r rel_set_body [of s2 ?L c CORO_FREE None] by (auto simp: s2_def s1_def update_info_def)
qed

text \<open>What a slice of coroutine \<open>c\<close> does to the ready lists: it takes \<open>c\<close> out of its list and may add
  new coroutines at the end of \<open>avail_\<close>.\<close>

definition slice_effect :: "nat \<Rightarrow> coro_lists \<Rightarrow> coro_lists \<Rightarrow> bool" where
  "slice_effect c L L' \<longleftrightarrow>
     L' CORO_ACTIVE = remove1 c (L CORO_ACTIVE) \<and>
     (\<exists>new. L' CORO_AVAIL = remove1 c (L CORO_AVAIL) @ new) \<and>
     (\<exists>st. c \<in> set (L' st) \<and> (st = CORO_INACTIVE \<or> st = CORO_TIMEOUT \<or> st = CORO_FREE))"

lemma leave_effect:
  assumes dj: "lists_disjoint L" and c: "c \<in> set (L st)" and st: "st = CORO_ACTIVE \<or> st = CORO_AVAIL"
    and st': "st' = CORO_INACTIVE \<or> st' = CORO_TIMEOUT \<or> st' = CORO_FREE"
  shows "slice_effect c L (lists_move c st st' L)"
proof -
  have "c \<notin> set (L st2)" if "st2 \<noteq> st" for st2 using in_one_list [OF dj c] that by blast
  then have "st = CORO_ACTIVE \<Longrightarrow> remove1 c (L CORO_AVAIL) = L CORO_AVAIL"
    "st = CORO_AVAIL \<Longrightarrow> remove1 c (L CORO_ACTIVE) = L CORO_ACTIVE"
    by (auto intro: remove1_idem)
  with st have "lists_move c st st' L CORO_ACTIVE = remove1 c (L CORO_ACTIVE)"
    "lists_move c st st' L CORO_AVAIL = remove1 c (L CORO_AVAIL) @ []"
    using st' by (auto simp: lists_move_def Let_def)
  moreover have "c \<in> set (lists_move c st st' L st')" using lists_move_mem [OF dj c] by simp
  ultimately show ?thesis unfolding slice_effect_def using st' by blast
qed

lemma create_effect:
  assumes "lists_move d CORO_FREE CORO_AVAIL (L(CORO_FREE := xs)) = L1" and "c \<in> set (L CORO_ACTIVE) \<or> c \<in> set (L CORO_AVAIL)"
    and "slice_effect c L1 L2"
  shows "slice_effect c L L2"
proof -
  have L1: "L1 CORO_ACTIVE = L CORO_ACTIVE" "L1 CORO_AVAIL = L CORO_AVAIL @ [d]"
    using assms(1) by (auto simp: lists_move_def Let_def)
  obtain new where n: "L2 CORO_AVAIL = remove1 c (L CORO_AVAIL @ [d]) @ new"
    using assms(3) L1 by (auto simp: slice_effect_def)
  have "\<exists>new'. remove1 c (L CORO_AVAIL @ [d]) @ new = remove1 c (L CORO_AVAIL) @ new'"
    by (cases "c \<in> set (L CORO_AVAIL)") (auto simp: remove1_append remove1_idem)
  then show ?thesis using assms(3) L1 n by (simp add: slice_effect_def)
qed

lemma run_slice_ok:
  assumes "sched_rel s L" and "env_ok env (stackSize s)" and "c \<in> set (L st)"
    and "st = CORO_ACTIVE \<or> st = CORO_AVAIL"
  shows "\<exists>s' L'. run_slice env c sl s = Inr s' \<and> sched_rel s' L' \<and> slice_effect c L L' \<and>
     stackSize s' = stackSize s \<and> terminal s' = terminal s"
  using assms
proof (induction sl arbitrary: s L)
  case (SCreate b k)
  note create = createCoroutine_ok [OF SCreate.prems(1,2), of b]
  show ?case
  proof (cases "L CORO_FREE = [] \<and> currentSize s = poolSize s")
    case True
    with create have "createCoroutine env b s = Inr (0, s)" by (simp only: if_True)
    moreover obtain s' L' where "run_slice env c (k 0) s = Inr s'" "sched_rel s' L'" "slice_effect c L L'"
      "stackSize s' = stackSize s" "terminal s' = terminal s"
      using SCreate.IH [of "k 0" s L, OF rangeI SCreate.prems] by blast
    ultimately show ?thesis by auto
  next
    case False
    with create obtain u d new s1 where s1: "createCoroutine env b s = Inr (u, s1)"
      "sched_rel s1 (lists_move d CORO_FREE CORO_AVAIL (L(CORO_FREE := L CORO_FREE @ new)))"
      "d \<in> set ((L(CORO_FREE := L CORO_FREE @ new)) CORO_FREE)"
      "stackSize s1 = stackSize s" "terminal s1 = terminal s" by (simp only: if_False) blast
    define L1 where "L1 = lists_move d CORO_FREE CORO_AVAIL (L(CORO_FREE := L CORO_FREE @ new))"
    have c1: "c \<in> set (L1 st)"
      using SCreate.prems(3,4) by (auto simp: L1_def lists_move_def Let_def)
    obtain s' L' where s': "run_slice env c (k u) s1 = Inr s'" "sched_rel s' L'" "slice_effect c L1 L'"
      "stackSize s' = stackSize s1" "terminal s' = terminal s1"
      using SCreate.IH [of "k u" s1 L1, OF rangeI] s1(2,4) SCreate.prems(2,4) c1 unfolding L1_def [symmetric] by auto
    have "slice_effect c L L'"
      using create_effect [OF _ _ s'(3), of d L] SCreate.prems(3,4) unfolding L1_def by blast
    then show ?thesis using s1 s' by auto
  qed
next
  case (SYield flag rest)
  then show ?case
    using yield_ok [OF SYield(1,3,4), of flag rest] leave_effect [OF rel_disjoint [OF SYield(1)] SYield(3,4)]
    by fastforce
next
  case (SSleep ms rest)
  then show ?case
    using sleep_ok [OF SSleep(1,3,4), of env ms rest] leave_effect [OF rel_disjoint [OF SSleep(1)] SSleep(3,4)]
    by fastforce
next
  case SReturn
  then show ?case
    using proc_end_ok [OF SReturn(1,3,4)] leave_effect [OF rel_disjoint [OF SReturn(1)] SReturn(3,4)]
    by fastforce
qed

lemma switchCoro_ok:
  assumes rel: "sched_rel s L" and env: "env_ok env (stackSize s)" and c: "c \<in> set (L st)"
    and st: "st = CORO_ACTIVE \<or> st = CORO_AVAIL"
  shows "\<exists>s' L'. switchCoro env c s = Inr s' \<and> sched_rel s' L' \<and> slice_effect c L L' \<and>
     stackSize s' = stackSize s \<and> terminal s' = terminal s"
proof -
  obtain i where i: "info_of c s = Inr i" "ci_body i \<noteq> None"
    using core_member [OF rel_core [OF rel] c] st by (auto simp: coro_ok_def info_of_def)
  define s0 where "s0 = s\<lparr>currentCoro := Some (Coro c)\<rparr>"
  have "sched_rel s0 L"
    using rel_waking [OF rel] rel_timers [OF rel] rel_queue [OF rel]
    by (intro rel_update_waiting [OF rel]) (auto simp: s0_def waking_ids_def)
  from run_slice_ok [OF this _ c st, of env] env i show ?thesis
    by (auto simp: switchCoro_def s0_def [symmetric]) (auto simp: s0_def)
qed

text \<open>The loop over \<open>active_\<close> resumes its first \<open>n\<close> members in order; the loop over \<open>avail_\<close> too, and may
  go on to coroutines created meanwhile.\<close>

lemma run_active_ok:
  assumes "sched_rel s L" and "env_ok env (stackSize s)"
  shows "\<exists>s' L'. run_list env CORO_ACTIVE n s = Inr (take n (L CORO_ACTIVE), s') \<and> sched_rel s' L' \<and>
     L' CORO_ACTIVE = drop n (L CORO_ACTIVE) \<and> (\<exists>new. L' CORO_AVAIL = L CORO_AVAIL @ new) \<and>
     stackSize s' = stackSize s \<and> terminal s' = terminal s"
  using assms
proof (induction n arbitrary: s L)
  case 0
  then show ?case by (auto intro: exI [of _ s] exI [of _ L])
next
  case (Suc n)
  note core = rel_core [OF Suc.prems(1)]
  show ?case
  proof (cases "L CORO_ACTIVE")
    case Nil
    then show ?thesis
      using Suc.prems(1) core_empty [OF core, of CORO_ACTIVE]
      by (auto intro!: exI [of _ s] exI [of _ L])
  next
    case (Cons c cs)
    then have c: "c \<in> set (L CORO_ACTIVE)" by simp
    obtain s1 L1 where s1: "switchCoro env c s = Inr s1" "sched_rel s1 L1" "slice_effect c L L1"
      "stackSize s1 = stackSize s" "terminal s1 = terminal s"
      using switchCoro_ok [OF Suc.prems(1,2) c] by blast
    have "c \<notin> set (L CORO_AVAIL)" using in_one_list [OF rel_disjoint [OF Suc.prems(1)] c, of CORO_AVAIL] by auto
    then obtain new1 where L1: "L1 CORO_ACTIVE = cs" "L1 CORO_AVAIL = L CORO_AVAIL @ new1"
      using s1(3) Cons by (auto simp: slice_effect_def remove1_idem)
    obtain s2 L2 new2 where s2: "run_list env CORO_ACTIVE n s1 = Inr (take n cs, s2)" "sched_rel s2 L2"
      "L2 CORO_ACTIVE = drop n cs" "L2 CORO_AVAIL = L1 CORO_AVAIL @ new2"
      "stackSize s2 = stackSize s1" "terminal s2 = terminal s1"
      using Suc.IH [OF s1(2)] Suc.prems(2) s1(4) L1(1) by auto
    have "run_list env CORO_ACTIVE (Suc n) s = Inr (take (Suc n) (L CORO_ACTIVE), s2)"
      using Cons core_empty [OF core, of CORO_ACTIVE] core_first [OF core Cons] s1(1) s2(1) by simp
    with s1 s2 L1 Cons show ?thesis by auto
  qed
qed

lemma run_avail_ok:
  assumes "sched_rel s L" and "env_ok env (stackSize s)"
  shows "\<exists>s' L' new. run_list env CORO_AVAIL n s = Inr (take n (L CORO_AVAIL @ new), s') \<and> sched_rel s' L' \<and>
     L' CORO_AVAIL = drop n (L CORO_AVAIL @ new) \<and> L' CORO_ACTIVE = L CORO_ACTIVE \<and>
     stackSize s' = stackSize s \<and> terminal s' = terminal s"
  using assms
proof (induction n arbitrary: s L)
  case 0
  then show ?case by (auto intro: exI [of _ s] exI [of _ L] exI [of _ "[]"])
next
  case (Suc n)
  note core = rel_core [OF Suc.prems(1)]
  show ?case
  proof (cases "L CORO_AVAIL")
    case Nil
    then show ?thesis
      using Suc.prems(1) core_empty [OF core, of CORO_AVAIL]
      by (auto intro!: exI [of _ s] exI [of _ L] exI [of _ "[]"])
  next
    case (Cons c cs)
    then have c: "c \<in> set (L CORO_AVAIL)" by simp
    obtain s1 L1 where s1: "switchCoro env c s = Inr s1" "sched_rel s1 L1" "slice_effect c L L1"
      "stackSize s1 = stackSize s" "terminal s1 = terminal s"
      using switchCoro_ok [OF Suc.prems(1,2) c] by blast
    have "c \<notin> set (L CORO_ACTIVE)" using in_one_list [OF rel_disjoint [OF Suc.prems(1)] c, of CORO_ACTIVE] by auto
    then obtain new1 where L1: "L1 CORO_AVAIL = cs @ new1" "L1 CORO_ACTIVE = L CORO_ACTIVE"
      using s1(3) Cons by (auto simp: slice_effect_def remove1_idem)
    obtain s2 L2 new2 where s2: "run_list env CORO_AVAIL n s1 = Inr (take n (L1 CORO_AVAIL @ new2), s2)" "sched_rel s2 L2"
      "L2 CORO_AVAIL = drop n (L1 CORO_AVAIL @ new2)" "L2 CORO_ACTIVE = L1 CORO_ACTIVE"
      "stackSize s2 = stackSize s1" "terminal s2 = terminal s1"
      using Suc.IH [OF s1(2)] Suc.prems(2) s1(4) by auto
    have "run_list env CORO_AVAIL (Suc n) s = Inr (take (Suc n) (L CORO_AVAIL @ (new1 @ new2)), s2)"
      using Cons core_empty [OF core, of CORO_AVAIL] core_first [OF core Cons] s1(1) s2(1) L1 by simp
    moreover have "L2 CORO_AVAIL = drop (Suc n) (L CORO_AVAIL @ (new1 @ new2))" using s2(3) L1 Cons by simp
    moreover have "L2 CORO_ACTIVE = L CORO_ACTIVE" using s2(4) L1 by simp
    ultimately show ?thesis using s2(2,5,6) s1(4,5) by metis
  qed
qed

lemma lists_move_disjoint:
  assumes dj: "lists_disjoint L" and c: "c \<in> set (L st)"
  shows "lists_disjoint (lists_move c st st' L)"
  unfolding lists_disjoint_def
proof (intro conjI allI impI)
  fix st2
  have d: "distinct (L st2)" for st2 using dj by (simp add: lists_disjoint_def)
  have "c \<notin> set (L st2)" if "st2 \<noteq> st" using in_one_list [OF dj c] that by blast
  then show "distinct (lists_move c st st' L st2)"
    using d by (auto simp: lists_move_def Let_def)
next
  fix st1 st2 :: CORO_STATUS assume "st1 \<noteq> st2"
  then show "set (lists_move c st st' L st1) \<inter> set (lists_move c st st' L st2) = {}"
    using lists_move_mem [OF dj c] in_one_list [OF dj] by (auto split: if_splits)
qed

lemma to_active_mem:
  assumes "lists_disjoint L"
  shows "c \<in> set (lists_to_active d L st) \<longleftrightarrow>
    (if c = d \<and> (d \<in> set (L CORO_INACTIVE) \<or> d \<in> set (L CORO_TIMEOUT)) then st = CORO_ACTIVE else c \<in> set (L st))"
  using lists_move_mem [OF assms, of d CORO_INACTIVE c CORO_ACTIVE st]
    lists_move_mem [OF assms, of d CORO_TIMEOUT c CORO_ACTIVE st]
  by (auto simp: lists_to_active_def)

lemma to_avail_mem:
  assumes "lists_disjoint L"
  shows "c \<in> set (lists_to_avail d L st) \<longleftrightarrow>
    (if c = d \<and> d \<in> set (L CORO_INACTIVE) then st = CORO_AVAIL else c \<in> set (L st))"
  using lists_move_mem [OF assms, of d CORO_INACTIVE c CORO_AVAIL st]
  by (auto simp: lists_to_avail_def)

lemma to_active_disjoint: "lists_disjoint L \<Longrightarrow> lists_disjoint (lists_to_active d L)"
  by (simp add: lists_to_active_def lists_move_disjoint)

lemma to_avail_disjoint: "lists_disjoint L \<Longrightarrow> lists_disjoint (lists_to_avail d L)"
  by (simp add: lists_to_avail_def lists_move_disjoint)

lemma fold_active_mem:
  "lists_disjoint L \<Longrightarrow> lists_disjoint (fold lists_to_active ds L) \<and>
   (c \<in> set (fold lists_to_active ds L st) \<longleftrightarrow>
     (if c \<in> set ds \<and> (c \<in> set (L CORO_INACTIVE) \<or> c \<in> set (L CORO_TIMEOUT)) then st = CORO_ACTIVE
      else c \<in> set (L st)))"
proof (induction ds arbitrary: L)
  case (Cons d ds)
  note IH = Cons.IH [OF to_active_disjoint [OF Cons.prems, of d]]
  have one: "c \<in> set (L CORO_INACTIVE) \<or> c \<in> set (L CORO_TIMEOUT) \<Longrightarrow> c \<notin> set (L CORO_ACTIVE)"
    using in_one_list [OF Cons.prems] by blast
  show ?case using IH one by (auto simp: to_active_mem [OF Cons.prems])
qed simp

lemma fold_avail_mem:
  "lists_disjoint L \<Longrightarrow> lists_disjoint (fold lists_to_avail ds L) \<and>
   (c \<in> set (fold lists_to_avail ds L st) \<longleftrightarrow>
     (if c \<in> set ds \<and> c \<in> set (L CORO_INACTIVE) then st = CORO_AVAIL else c \<in> set (L st)))"
proof (induction ds arbitrary: L)
  case (Cons d ds)
  note IH = Cons.IH [OF to_avail_disjoint [OF Cons.prems, of d]]
  have one: "c \<in> set (L CORO_INACTIVE) \<Longrightarrow> c \<notin> set (L CORO_AVAIL)"
    using in_one_list [OF Cons.prems] by blast
  show ?case using IH one by (auto simp: to_avail_mem [OF Cons.prems])
qed simp

text \<open>The coroutines that must run next: the ready ones, the sleepers whose timer has expired, the
  ones that yielded and wait for their turn, the ones another thread put back.\<close>

definition due :: "int \<Rightarrow> 'c CoroutineScheduler \<Rightarrow> coro_lists \<Rightarrow> nat \<Rightarrow> bool" where
  "due now s L c \<longleftrightarrow>
     c \<in> set (L CORO_ACTIVE) \<or> c \<in> set (L CORO_AVAIL) \<or>
     (c \<in> set (L CORO_TIMEOUT) \<and> c \<in> coro_of s ` (set (expired_timers now s) \<union> set (td_deque (activeCoroQueue s)))) \<or>
     (c \<in> set (L CORO_INACTIVE) \<and> c \<in> coro_of s ` (set (expired_timers now s) \<union>
        set (needActiveCoroId s) \<union> set (td_deque (activeCoroQueue s))))"

lemma woken_ready:
  assumes dj: "lists_disjoint L"
  shows "c \<in> set (lists_woken now s L CORO_ACTIVE) \<union> set (lists_woken now s L CORO_AVAIL) \<longleftrightarrow> due now s L c"
proof -
  define L1 where "L1 = fold lists_to_active (map (coro_of s) (expired_timers now s)) L"
  define L2 where "L2 = fold lists_to_avail (map (coro_of s) (needActiveCoroId s)) L1"
  have eq: "lists_woken now s L = fold lists_to_active (map (coro_of s) (td_deque (activeCoroQueue s))) L2"
    by (simp add: lists_woken_def L1_def L2_def)
  note m1 = fold_active_mem [OF dj, of "map (coro_of s) (expired_timers now s)" c, folded L1_def]
  have dj1: "lists_disjoint L1" using m1 by blast
  note m2 = fold_avail_mem [OF dj1, of "map (coro_of s) (needActiveCoroId s)" c, folded L2_def]
  have dj2: "lists_disjoint L2" using m2 by blast
  note m3 = fold_active_mem [OF dj2, of "map (coro_of s) (td_deque (activeCoroQueue s))" c, folded eq]
  have one: "c \<in> set (L st) \<Longrightarrow> c \<in> set (L st') \<Longrightarrow> st = st'" for st st' using in_one_list [OF dj] by blast
  have x: "c \<in> set (L CORO_TIMEOUT) \<Longrightarrow> c \<notin> set (L CORO_INACTIVE)"
    "c \<in> set (L CORO_ACTIVE) \<Longrightarrow> c \<notin> set (L CORO_INACTIVE) \<and> c \<notin> set (L CORO_TIMEOUT)"
    "c \<in> set (L CORO_AVAIL) \<Longrightarrow> c \<notin> set (L CORO_INACTIVE) \<and> c \<notin> set (L CORO_TIMEOUT)"
    using one by blast+
  define e n q where "e = (c \<in> coro_of s ` set (expired_timers now s))"
    and "n = (c \<in> coro_of s ` set (needActiveCoroId s))" and "q = (c \<in> coro_of s ` set (td_deque (activeCoroQueue s)))"
  note M1 = conjunct2 [OF m1, unfolded set_map e_def [symmetric]]
  note M2 = conjunct2 [OF m2, unfolded set_map n_def [symmetric]]
  note M3 = conjunct2 [OF m3, unfolded set_map q_def [symmetric]]
  have "due now s L c \<longleftrightarrow> c \<in> set (L CORO_ACTIVE) \<or> c \<in> set (L CORO_AVAIL) \<or>
     (c \<in> set (L CORO_TIMEOUT) \<and> (e \<or> q)) \<or> (c \<in> set (L CORO_INACTIVE) \<and> (e \<or> n \<or> q))"
    by (simp add: due_def image_Un e_def n_def q_def disj_assoc)
  then show ?thesis
    unfolding Un_iff M3 M2 M1 using x
    by (cases "c \<in> set (L CORO_INACTIVE)"; cases "c \<in> set (L CORO_TIMEOUT)"; cases e; cases n; cases q) simp_all
qed

lemma tars_run_ok:
  assumes rel: "sched_rel s L" and env: "env_ok env (stackSize s)" and t: "\<not> terminal s"
  defines "L1 \<equiv> lists_woken (clock env (clockReads s)) s L"
  shows "\<exists>s' L' new. tars_run env s = Inr (take 100 (L1 CORO_ACTIVE) @ take 100 (L1 CORO_AVAIL @ new), s') \<and>
     sched_rel s' L' \<and> L' CORO_ACTIVE = drop 100 (L1 CORO_ACTIVE) \<and>
     L' CORO_AVAIL = drop 100 (L1 CORO_AVAIL @ new) \<and>
     stackSize s' = stackSize s \<and> terminal s' = terminal s"
proof -
  obtain s1 where s1: "wakeups env s = Inr s1" "sched_rel s1 L1" "\<not> terminal s1"
    and st: "stackSize s1 = stackSize s"
    using wakeups_ok [OF rel t, of env] unfolding L1_def by blast
  obtain s2 L2 new2 where s2: "run_list env CORO_ACTIVE 100 s1 = Inr (take 100 (L1 CORO_ACTIVE), s2)" "sched_rel s2 L2"
    "L2 CORO_ACTIVE = drop 100 (L1 CORO_ACTIVE)" "L2 CORO_AVAIL = L1 CORO_AVAIL @ new2"
    "stackSize s2 = stackSize s1" "terminal s2 = terminal s1"
    using run_active_ok [OF s1(2), of env 100] env st by auto
  obtain s3 L3 new3 where s3: "run_list env CORO_AVAIL 100 s2 = Inr (take 100 (L2 CORO_AVAIL @ new3), s3)" "sched_rel s3 L3"
    "L3 CORO_AVAIL = drop 100 (L2 CORO_AVAIL @ new3)" "L3 CORO_ACTIVE = L2 CORO_ACTIVE"
    "stackSize s3 = stackSize s2" "terminal s3 = terminal s2"
    using run_avail_ok [OF s2(2), of env 100] env st s2(5) by auto
  have "tars_run env s = Inr (take 100 (L1 CORO_ACTIVE) @ take 100 (L1 CORO_AVAIL @ (new2 @ new3)), s3)"
    using t s1(1) s2(1) s3(1) s2(4) by (simp add: tars_run_def)
  moreover have "L3 CORO_AVAIL = drop 100 (L1 CORO_AVAIL @ (new2 @ new3))" using s3(3) s2(4) by simp
  moreover have "L3 CORO_ACTIVE = drop 100 (L1 CORO_ACTIVE)" using s3(4) s2(3) by simp
  moreover have "stackSize s3 = stackSize s" "terminal s3 = terminal s" using s3(5,6) s2(5,6) st s1(3) t by simp_all
  ultimately show ?thesis using s3(2) by metis
qed

lemma lists_count:
  "lists_total L = length (L CORO_FREE) + n \<Longrightarrow> length (L CORO_ACTIVE) \<le> n \<and> length (L CORO_AVAIL) \<le> n"
  by (simp add: lists_total_def)

lemma init_ok:
  assumes env: "env_ok env stack" and pool: "pool \<noteq> 0" "pool + 1 \<noteq> 0"
  shows "\<exists>s' new. CoroutineScheduler_init env pool stack CoroutineScheduler_new = Inr s' \<and>
     sched_rel s' ((\<lambda>_. [])(CORO_FREE := new)) \<and> length new = min (unat pool) 100 \<and>
     stackSize s' = stack \<and> poolSize s' = pool \<and> \<not> terminal s' \<and> usedSize s' = 0"
proof -
  define cur where "cur = (if pool \<le> 100 then pool else 100)"
  define s1 :: "'a CoroutineScheduler" where "s1 = CoroutineScheduler_new\<lparr>terminal := False, poolSize := pool, stackSize := stack,
     currentSize := cur, allCoro := replicate (unat (pool + 1)) None, usedSize := 0, uniqId := 0\<rparr>"
  have p1: "unat (pool + 1) = Suc (unat pool)" using pool(2) by (metis unatSuc add.commute)
  have cur: "unat cur = min (unat pool) 100" by (auto simp: cur_def word_le_nat_alt)
  have "cur \<le> pool" by (auto simp: cur_def)
  have all: "allCoro s1 = replicate (Suc (unat pool)) None" unfolding s1_def p1 by simp
  have f1: "poolSize s1 = pool" "currentSize s1 = cur" "waking_ids s1 = {}" "timeoutCoroId s1 = []"
    "ThreadDeque_inv (activeCoroQueue s1)"
    by (simp_all add: s1_def CoroutineScheduler_new_def waking_ids_def ThreadDeque_new_def ThreadDeque_inv_def)
  have r1: "rings (coroLinks s1) (\<lambda>_. [])" using rings_init by (simp add: s1_def CoroutineScheduler_new_def)
  have "allCoro s1 ! i = None" if "i < length (allCoro s1)" for i
    using that unfolding all by (simp del: replicate_Suc)
  then have core: "sched_core s1 (\<lambda>_. [])"
    using r1 \<open>cur \<le> pool\<close> by (simp add: sched_core_def f1) (simp add: all)
  have n: "unat (uniqId s1) + unat cur \<le> unat (poolSize s1)" using cur by (simp add: s1_def)
  have env1: "env_ok env (stackSize s1)" using env by (simp add: s1_def)
  obtain s2 new where s2: "increase_loop env (unat cur) 0 s1 = Inr (0 + unat cur, s2)"
    "sched_core s2 ((\<lambda>_. [])(CORO_FREE := [] @ new))" "length new = unat cur"
    "unat (uniqId s2) = unat (uniqId s1) + unat cur" "grown s1 s2"
    using increase_loop_ok [OF core env1 n, of 0] by blast
  have il: "init_loop env (unat cur) 0 s1 = Inr (unat cur, s2)"
    using init_loop_eq_increase [OF core env1 n] s2(1) by simp
  note f = grown_fields [OF s2(5)]
  define s' where "s' = s2\<lparr>currentSize := cur, currentCoro := Some MainCoro\<rparr>"
  have r: "CoroutineScheduler_init env pool stack CoroutineScheduler_new = Inr s'"
    using pool(1) il unfolding s1_def s'_def
    by (simp add: CoroutineScheduler_init_def Let_def cur_def [symmetric]) (simp add: CoroutineScheduler_new_def)
  have u: "uniqId s2 = cur" using s2(4) by (simp add: s1_def word_unat_eq_iff)
  have "sched_core s' ((\<lambda>_. [])(CORO_FREE := new))"
  proof (rule sched_core_cong [of s2])
    show "sched_core s2 ((\<lambda>_. [])(CORO_FREE := new))" using s2(2) by simp
    show "currentSize s' \<le> poolSize s2" using \<open>cur \<le> pool\<close> f(2) f1(1) by (simp add: s'_def)
  qed (simp_all add: s'_def waking_ids_def)
  then have "sched_rel s' ((\<lambda>_. [])(CORO_FREE := new))"
    using u s2(3) f by (simp add: sched_rel_def lists_total_def) (simp add: s'_def s1_def)
  then show ?thesis
    using r s2(3) cur f
    by (intro exI [of _ s'] exI [of _ new]) (simp add: s'_def s1_def)
qed

section \<open>Schedulers in use\<close>

text \<open>What happens to the scheduler of a servant thread: the thread initialises it, creates
  coroutines and calls \<open>tars_run\<close>; other threads \<open>put\<close> back ids they know and may \<open>terminate\<close> it.\<close>

inductive sched_reach :: "'c sched_env \<Rightarrow> u32 \<Rightarrow> u64 \<Rightarrow> 'c CoroutineScheduler \<Rightarrow> bool"
  for env pool stack where
  reach_init: "CoroutineScheduler_init env pool stack CoroutineScheduler_new = Inr s \<Longrightarrow>
     sched_reach env pool stack s"
| reach_create: "sched_reach env pool stack s \<Longrightarrow> createCoroutine env b s = Inr (u, s') \<Longrightarrow>
     sched_reach env pool stack s'"
| reach_run: "sched_reach env pool stack s \<Longrightarrow> tars_run env s = Inr (cs, s') \<Longrightarrow>
     sched_reach env pool stack s'"
| reach_put: "sched_reach env pool stack s \<Longrightarrow> id_known s i \<Longrightarrow>
     sched_reach env pool stack (CoroutineScheduler_put i s)"
| reach_terminate: "sched_reach env pool stack s \<Longrightarrow>
     sched_reach env pool stack (CoroutineScheduler_terminate s)"

lemma createCoroutine_rel:
  assumes "sched_rel s L" and "env_ok env (stackSize s)" and "createCoroutine env b s = Inr (u, s')"
  shows "\<exists>L'. sched_rel s' L' \<and> stackSize s' = stackSize s"
proof (cases "L CORO_FREE = [] \<and> currentSize s = poolSize s")
  case True
  then show ?thesis using createCoroutine_ok [OF assms(1,2), of b] assms(1,3) by auto
next
  case False
  then show ?thesis using createCoroutine_ok [OF assms(1,2), of b] assms(3) by (simp only: if_False) auto
qed

lemma put_rel:
  assumes rel: "sched_rel s L" and i: "id_known s i"
  shows "sched_rel (CoroutineScheduler_put i s) L"
proof (cases "terminal s")
  case True
  then show ?thesis using rel by (simp add: CoroutineScheduler_put_def)
next
  case False
  then have "CoroutineScheduler_put i s =
      s\<lparr>activeCoroQueue := snd (ThreadDeque_push_back i (activeCoroQueue s))\<rparr>" (is "_ = ?s")
    by (simp add: CoroutineScheduler_put_def)
  moreover have "waking_ids ?s = insert i (waking_ids s)"
    by (simp add: waking_ids_def ThreadDeque_push_back_def)
  moreover have "ThreadDeque_inv (activeCoroQueue ?s)"
    using rel_queue [OF rel] by (simp add: ThreadDeque_push_back_def ThreadDeque_inv_def)
  ultimately show ?thesis
    using rel_waking [OF rel] rel_timers [OF rel] i by (auto intro!: rel_update_waiting [OF rel])
qed

lemma terminate_rel:
  assumes rel: "sched_rel s L"
  shows "sched_rel (CoroutineScheduler_terminate s) L"
  using rel_waking [OF rel] rel_timers [OF rel] rel_queue [OF rel]
  by (intro rel_update_waiting [OF rel]) (auto simp: CoroutineScheduler_terminate_def waking_ids_def)

lemma reach_rel:
  assumes "sched_reach env pool stack s" and env: "env_ok env stack" and pool: "pool \<noteq> 0" "pool + 1 \<noteq> 0"
  shows "\<exists>L. sched_rel s L \<and> stackSize s = stack"
  using assms(1)
proof induction
  case (reach_init s)
  then show ?case using init_ok [OF env pool] by fastforce
next
  case (reach_create s b u s')
  then show ?case using createCoroutine_rel env by metis
next
  case (reach_run s cs s')
  then obtain L where L: "sched_rel s L" "stackSize s = stack" by blast
  show ?case
  proof (cases "terminal s")
    case True
    then show ?thesis using reach_run.hyps(2) L by (auto simp: tars_run_def)
  next
    case False
    then show ?thesis using tars_run_ok [OF L(1) _ False, of env] env L(2) reach_run.hyps(2) by auto
  qed
next
  case (reach_put s i)
  then show ?case using put_rel by (fastforce simp: CoroutineScheduler_put_def)
next
  case (reach_terminate s)
  then show ?case using terminate_rel by (fastforce simp: CoroutineScheduler_terminate_def)
qed

section \<open>Stack sizes\<close>

lemma float_of_exact:
  assumes "n \<le> 2 ^ 24"
  shows "float_of n = n"
proof (cases "n = 2 ^ 24")
  case True
  then show ?thesis by (simp add: float_of_def float_exponent.simps [of 16777216] float_exponent.simps [of 8388608])
next
  case False
  with assms have "n < 16777216" by simp
  then show ?thesis by (simp add: float_of_def float_exponent.simps [of n])
qed

lemma ceil_div_bounds:
  fixes n p :: nat
  assumes "0 < p"
  shows "n \<le> (n + p - 1) div p * p" "(n + p - 1) div p * p < n + p"
proof -
  have "(n + p - 1) div p * p + (n + p - 1) mod p = n + p - 1" by simp
  moreover have "(n + p - 1) mod p < p" using assms by simp
  ultimately show "n \<le> (n + p - 1) div p * p" "(n + p - 1) div p * p < n + p" using assms by linarith+
qed

section \<open>Properties\<close>



text \<open>Beyond 16 MiB the page count goes through single precision: asked for one byte more than
  16 MiB, \<open>allocate\<close> leaves only 16 MiB above the guard page. And \<open>deallocate\<close> checks the mapped
  size, not the size asked for, against the stack limit: a stack of exactly the limit is
  allocated and cannot be deallocated.\<close>

theorem stack_size_defects:
  "allocate \<lparr>pagesize = 4096, rlim_max = None\<rparr> (Some 65536) 16777217 =
     Inr (Some \<lparr>ctx_size = 16777216 + 4096, ctx_sp = 65536 + 16777216 + 4096\<rparr>) \<and>
   allocate \<lparr>pagesize = 4096, rlim_max = Some 65536\<rparr> (Some 4096) 65536 =
     Inr (Some \<lparr>ctx_size = 65536 + 4096, ctx_sp = 65536 + 4096 + 4096\<rparr>) \<and>
   deallocate \<lparr>pagesize = 4096, rlim_max = Some 65536\<rparr> \<lparr>ctx_size = 65536 + 4096, ctx_sp = 65536 + 4096 + 4096\<rparr> =
     Inl AssertFailed"
  by (simp add: allocate_def deallocate_def minimum_stacksize_def page_count_def is_stack_unbound_def
      fits_limit_def float_of_def float_exponent.simps [of 16777217] float_exponent.simps [of 8388608]
      float_exponent.simps [of 65536])

text \<open>Surroundings in which the first \<open>n\<close> stack allocations fail and the others succeed.\<close>

definition poor_env :: "nat \<Rightarrow> ('c \<Rightarrow> 'c slice) \<Rightarrow> 'c sched_env" where
  "poor_env n body = \<lparr>resume = body, clock = (\<lambda>_. 0), limits = \<lparr>pagesize = 4096, rlim_max = None\<rparr>,
     mmap = (\<lambda>c. if c < n then None else Some 65536)\<rparr>"

lemma poor_env_allocate:
  "allocate (limits (poor_env n body)) (mmap (poor_env n body) c) 65536 =
   Inr (if c < n then None else Some \<lparr>ctx_size = 69632, ctx_sp = 135168\<rparr>)"
  by (simp add: poor_env_def allocate_def minimum_stacksize_def page_count_def is_stack_unbound_def
      float_of_exact)

lemma poor_env_ok [simp]: "env_ok (poor_env 0 body) 65536"
  by (simp add: env_ok_def poor_env_allocate)

text \<open>A failed allocation costs an id for good: \<open>increaseCoroPoolSize\<close> draws the id before it asks
  for the stack. With a pool of one, after a failed allocation in \<open>init\<close> and one in
  \<open>createCoroutine\<close>, the next \<open>createCoroutine\<close> dies in \<open>generateId\<close>'s assertion, although memory
  is available again and no coroutine exists.\<close>

theorem createCoroutine_burns_ids:
  "bindE (CoroutineScheduler_init (poor_env 2 body) 1 65536 CoroutineScheduler_new) (\<lambda>s.
   bindE (createCoroutine (poor_env 2 body) b s) (\<lambda>(u, s1).
   if u = 0 then createCoroutine (poor_env 2 body) b s1 else Inr (u, s1))) = Inl AssertFailed"
  by (simp add: CoroutineScheduler_init_def CoroutineScheduler_new_def Let_def poor_env_allocate
      createCoroutine_def increaseCoroPoolSize_def CoroutineScheduler_generateId_def
      increment_nonzero_eq assertE_def word_le_nat_alt)

lemma createCoroutine_returns:
  assumes "sched_rel s L" and "env_ok env (stackSize s)"
  shows "\<exists>u s'. createCoroutine env b s = Inr (u, s')"
proof (cases "L CORO_FREE = [] \<and> currentSize s = poolSize s")
  case True
  then show ?thesis using createCoroutine_ok [OF assms, of b] by auto
next
  case False
  then show ?thesis using createCoroutine_ok [OF assms, of b] by (simp only: if_False) blast
qed

lemma due_runs:
  fixes s :: "'c CoroutineScheduler"
  assumes rel: "sched_rel s L" and env: "env_ok env (stackSize s)" and t: "\<not> terminal s"
    and few: "usedSize s \<le> 100" and due: "due (clock env (clockReads s)) s L c"
  shows "\<exists>cs s'. tars_run env s = Inr (cs, s') \<and> c \<in> set cs"
proof -
  define L1 where "L1 = lists_woken (clock env (clockReads s)) s L"
  obtain s1 :: "'c CoroutineScheduler" where s1: "sched_rel s1 L1" "usedSize s1 = usedSize s"
    using wakeups_ok [OF rel t, of env] unfolding L1_def by blast
  have u: "unat (usedSize s) \<le> 100" using few by (simp add: word_le_nat_alt)
  have "lists_total L1 = length (L1 CORO_FREE) + unat (usedSize s)"
    using s1 by (simp add: sched_rel_def)
  from lists_count [OF this] u have "length (L1 CORO_ACTIVE) \<le> 100" "length (L1 CORO_AVAIL) \<le> 100" by simp_all
  moreover have "c \<in> set (L1 CORO_ACTIVE) \<union> set (L1 CORO_AVAIL)"
    using woken_ready [OF rel_disjoint [OF rel], of c "clock env (clockReads s)" s] due by (simp add: L1_def)
  moreover obtain s' new where "tars_run env s = Inr (take 100 (L1 CORO_ACTIVE) @ take 100 (L1 CORO_AVAIL @ new), s')"
    using tars_run_ok [OF rel env t] unfolding L1_def by blast
  ultimately show ?thesis by auto
qed



text \<open>C29. No coroutine that is ready starves: with at most 100 coroutines in use, one call of
  \<open>tars_run\<close> switches to every coroutine that is in \<open>active_\<close> or \<open>avail_\<close>, every sleeper whose
  deadline has passed, every coroutine that yielded to be woken, and every waiting one another
  thread has put back.\<close>

theorem tars_run_runs_due:
  assumes "sched_rel s L" and "env_ok env (stackSize s)" and "\<not> terminal s" and "usedSize s \<le> 100"
  shows "\<exists>cs s'. tars_run env s = Inr (cs, s') \<and> {c. due (clock env (clockReads s)) s L c} \<subseteq> set cs"
proof -
  obtain cs s' where r: "tars_run env s = Inr (cs, s')"
    using tars_run_ok [OF assms(1-3)] by blast
  have "c \<in> set cs" if "due (clock env (clockReads s)) s L c" for c
    using due_runs [OF assms that] r by auto
  with r show ?thesis by blast
qed

text \<open>Coroutines run in order of arrival: \<open>tars_run\<close> first switches to the first 100 of \<open>active_\<close>
  after the wake-ups, in order, then to at most 100 of \<open>avail_\<close>, in order, new coroutines last, and
  leaves the rest of both lists as they were.\<close>

theorem tars_run_order:
  assumes rel: "sched_rel s L" and env: "env_ok env (stackSize s)" and t: "\<not> terminal s"
  shows "\<exists>s' L' new. let L1 = lists_woken (clock env (clockReads s)) s L in
     tars_run env s = Inr (take 100 (L1 CORO_ACTIVE) @ take 100 (L1 CORO_AVAIL @ new), s') \<and>
     sched_rel s' L' \<and> L' CORO_ACTIVE = drop 100 (L1 CORO_ACTIVE) \<and>
     L' CORO_AVAIL = drop 100 (L1 CORO_AVAIL @ new)"
  using tars_run_ok [OF rel env t] unfolding Let_def by blast


text \<open>A scheduler with one ready coroutine, for the witnesses.\<close>

lemma ready_scheduler:
  "\<exists>(s :: nat CoroutineScheduler) L c. sched_rel s L \<and> stackSize s = 65536 \<and> \<not> terminal s \<and>
     usedSize s \<le> 100 \<and> L CORO_AVAIL = [c] \<and> L CORO_FREE \<noteq> []"
proof -
  let ?env = "poor_env 0 (\<lambda>_ :: nat. SReturn)"
  obtain s :: "nat CoroutineScheduler" and new where s: "sched_rel s ((\<lambda>_. [])(CORO_FREE := new))" "length new = 3"
    "stackSize s = 65536" "\<not> terminal s"
    using init_ok [of ?env 65536 3] by auto
  let ?L = "(\<lambda>_. [])(CORO_FREE := new)"
  have env: "env_ok ?env (stackSize s)" using s(3) by simp
  have ne: "\<not> (?L CORO_FREE = [] \<and> currentSize s = poolSize s)" using s(2) by auto
  obtain u c more s' where c: "createCoroutine ?env 0 s = Inr (u, s')"
    "sched_rel s' (lists_move c CORO_FREE CORO_AVAIL (?L(CORO_FREE := ?L CORO_FREE @ more)))"
    "c \<in> set ((?L(CORO_FREE := ?L CORO_FREE @ more)) CORO_FREE)"
    "stackSize s' = stackSize s" "terminal s' = terminal s"
    using createCoroutine_ok [OF s(1) env, of 0] unfolding if_not_P [OF ne] by blast
  define L where "L = lists_move c CORO_FREE CORO_AVAIL (?L(CORO_FREE := ?L CORO_FREE @ more))"
  have L: "L CORO_AVAIL = [c]" "length (L CORO_FREE) + 1 = length (new @ more)" "lists_total L = length (new @ more)"
    using c(3) s(2) by (auto simp: L_def lists_move_def Let_def lists_total_def length_remove1)
  have "unat (usedSize s') + length (L CORO_FREE) = lists_total L"
    using c(2) by (simp add: sched_rel_def L_def)
  with L have "unat (usedSize s') = 1" by simp
  then have "usedSize s' \<le> 100" by (simp add: word_le_nat_alt)
  moreover have "L CORO_FREE \<noteq> []" using L(2) s(2) by auto
  ultimately show ?thesis using c(2,4,5) s(3,4) L(1) unfolding L_def [symmetric] by auto
qed


theorem tars_run_order_witness:
  "\<exists>(s :: nat CoroutineScheduler) cs s'. tars_run (poor_env 0 (\<lambda>_. SReturn)) s = Inr (cs, s')"
proof -
  obtain s :: "nat CoroutineScheduler" and L where s: "sched_rel s L" "stackSize s = 65536" "\<not> terminal s"
    using ready_scheduler by blast
  have "env_ok (poor_env 0 (\<lambda>_ :: nat. SReturn)) (stackSize s)" using s(2) by simp
  from tars_run_order [OF s(1) this s(3)] show ?thesis by (auto simp: Let_def)
qed

theorem tars_run_runs_due_witness:
  "\<exists>(s :: nat CoroutineScheduler) L c cs s'. sched_rel s L \<and> L CORO_AVAIL = [c] \<and>
     tars_run (poor_env 0 (\<lambda>_. SReturn)) s = Inr (cs, s') \<and> c \<in> set cs"
proof -
  obtain s :: "nat CoroutineScheduler" and L c where s: "sched_rel s L" "stackSize s = 65536" "\<not> terminal s"
    "usedSize s \<le> 100" "L CORO_AVAIL = [c]"
    using ready_scheduler by blast
  have "env_ok (poor_env 0 (\<lambda>_ :: nat. SReturn)) (stackSize s)" using s(2) by simp
  moreover have "due t s L c" for t using s(5) by (simp add: due_def)
  ultimately show ?thesis using tars_run_runs_due [OF s(1) _ s(3,4), of "poor_env 0 (\<lambda>_. SReturn)"] s by blast
qed

end
