(* ===== verification/Tarsx_EpollServer.thy ===== *)
theory Tarsx_EpollServer
  imports Tarsx_Server Tarsx_Servants Tarsx_Coroutine
begin

text \<open>
  The server around its network threads: \<open>HandleGroup\<close> (\<open>Message.h\<close>), \<open>EpollServer\<close>, \<open>ServantHandle\<close>
  (the thread that takes requests off the adapters, runs each in a coroutine and sends the response)
  and the start-up in \<open>Application\<close>. The application's own state, which its dispatchers change, is a
  type parameter.
\<close>

section \<open>State\<close>

type_synonym 's dispatcFunc = "string \<Rightarrow> string \<Rightarrow> 's \<Rightarrow> (int \<times> string \<times> 's) result"

record 's ServantHandle =
  sh_servants :: "string \<rightharpoonup> 's dispatcFunc option"
  sh_handleGroup :: "string option"

record 's HandleGroup =
  hg_name :: string
  hg_handles :: "'s ServantHandle list"
  hg_adapters :: "(string \<times> nat) list"

record 's EpollServer =
  es_netThreads :: "NetThread list"
  es_terminate :: bool
  es_netThreadNum :: u32
  es_handleStarted :: bool
  es_handleGroups :: "(string \<times> 's HandleGroup) list"

text \<open>\<open>std::map::operator[]\<close> as an assignment: the entries stay in the order of their keys.\<close>

fun map_put :: "'k::linorder \<Rightarrow> 'v \<Rightarrow> ('k \<times> 'v) list \<Rightarrow> ('k \<times> 'v) list" where
  "map_put k v [] = [(k, v)]"
| "map_put k v ((k', v') # xs) =
     (if k = k' then (k, v) # xs else if k < k' then (k, v) # (k', v') # xs else (k', v') # map_put k v xs)"

section \<open>EpollServer\<close>

fun new_threads :: "nat \<Rightarrow> u64 \<Rightarrow> Kernel \<Rightarrow> (NetThread list \<times> Kernel) result" where
  "new_threads 0 memory k = Inr ([], k)"
| "new_threads (Suc n) memory k =
     bindE (NetThread_new memory k) (\<lambda>(nt, k1).
     bindE (new_threads n memory k1) (\<lambda>(nts, k2). Inr (nt # nts, k2)))"

definition EpollServer_new :: "u32 \<Rightarrow> u64 \<Rightarrow> Kernel \<Rightarrow> ('s EpollServer \<times> Kernel) result" where
  "EpollServer_new net_thread_num memory k =
     bindE (new_threads (unat net_thread_num) memory k) (\<lambda>(nts, k1).
     Inr (\<lparr>es_netThreads = nts, es_terminate = False, es_netThreadNum = net_thread_num,
           es_handleStarted = False, es_handleGroups = []\<rparr>, k1))"

text \<open>The index \<open>fd % netThreads_.size()\<close>, computed in \<open>size_t\<close>.\<close>

definition getNetThreadByfd :: "int \<Rightarrow> 's EpollServer \<Rightarrow> nat" where
  "getNetThreadByfd fd es = unat (word_of_int fd :: u64) mod length (es_netThreads es)"

text \<open>Calling a member of one of the threads.\<close>

definition on_thread ::
    "nat \<Rightarrow> (NetThread \<Rightarrow> Kernel \<Rightarrow> NetThread \<times> Kernel) \<Rightarrow> 's EpollServer \<Rightarrow> World \<Rightarrow> ('s EpollServer \<times> World) result" where
  "on_thread i f es w =
     (if i < length (es_netThreads es) then
        (let (nt, k) = f (es_netThreads es ! i) (w_kernel w) in
         Inr (es\<lparr>es_netThreads := (es_netThreads es)[i := nt]\<rparr>, w\<lparr>w_kernel := k\<rparr>))
      else Inl OutOfBounds)"

definition EpollServer_send ::
    "u32 \<Rightarrow> string \<Rightarrow> string \<Rightarrow> u16 \<Rightarrow> int \<Rightarrow> 's EpollServer \<Rightarrow> World \<Rightarrow> ('s EpollServer \<times> World) result" where
  "EpollServer_send uid msg ip port fd es w =
     on_thread (getNetThreadByfd fd es) (recvNeedToSendFromServer uid msg ip port) es w"

definition EpollServer_close :: "u32 \<Rightarrow> int \<Rightarrow> 's EpollServer \<Rightarrow> World \<Rightarrow> ('s EpollServer \<times> World) result" where
  "EpollServer_close uid fd es w = on_thread (getNetThreadByfd fd es) (NetThread_close uid) es w"

definition EpollServer_bind ::
    "(string \<Rightarrow> int \<times> u32) \<Rightarrow> (string \<Rightarrow> u32 option) \<Rightarrow> nat \<Rightarrow> 's EpollServer \<Rightarrow> World \<Rightarrow> (int \<times> 's EpollServer \<times> World) result" where
  "EpollServer_bind pton byname i es w =
     (case es_netThreads es of
        [] \<Rightarrow> Inl OutOfBounds
      | nt # nts \<Rightarrow>
          bindE (NetThread_bind pton byname i nt w) (\<lambda>(fd, nt', w').
          Inr (fd, es\<lparr>es_netThreads := nt' # nts\<rparr>, w')))"

definition EpollServer_addConnection ::
    "Connection \<Rightarrow> int \<Rightarrow> 's EpollServer \<Rightarrow> World \<Rightarrow> ('s EpollServer \<times> World) result" where
  "EpollServer_addConnection c fd es w =
     (let i = getNetThreadByfd fd es in
      if i < length (es_netThreads es) then
        bindE (addTConnection c (es_netThreads es ! i) (w_kernel w)) (\<lambda>(nt, k).
        Inr (es\<lparr>es_netThreads := (es_netThreads es)[i := nt]\<rparr>, w\<lparr>w_kernel := k\<rparr>))
      else Inl OutOfBounds)"

fun epoll_threads :: "NetThread list \<Rightarrow> Kernel \<Rightarrow> NetThread list \<times> Kernel" where
  "epoll_threads [] k = ([], k)"
| "epoll_threads (nt # nts) k =
     (let (nt', k1) = NetThread_createEpoll 256 nt k; (nts', k2) = epoll_threads nts k1 in (nt' # nts', k2))"

definition EpollServer_createEpoll :: "'s EpollServer \<Rightarrow> World \<Rightarrow> 's EpollServer \<times> World" where
  "EpollServer_createEpoll es w =
     (let (nts, k) = epoll_threads (es_netThreads es) (w_kernel w) in
      (es\<lparr>es_netThreads := nts\<rparr>, w\<lparr>w_kernel := k\<rparr>))"

text \<open>\<open>startHandle\<close>: the handles whose threads it starts.\<close>

definition EpollServer_startHandle :: "'s EpollServer \<Rightarrow> 's ServantHandle list \<times> 's EpollServer" where
  "EpollServer_startHandle es =
     (if \<not> es_handleStarted es
      then (concat (map (\<lambda>(name, g). hg_handles g) (es_handleGroups es)), es\<lparr>es_handleStarted := True\<rparr>)
      else ([], es))"

definition EpollServer_terminate :: "'s EpollServer \<Rightarrow> 's EpollServer" where
  "EpollServer_terminate es = (if \<not> es_terminate es then es\<lparr>es_terminate := True\<rparr> else es)"

definition EpollServer_set_handleGroup ::
    "string \<Rightarrow> int \<Rightarrow> nat \<Rightarrow> 's EpollServer \<Rightarrow> World \<Rightarrow> ('s EpollServer \<times> World) result" where
  "EpollServer_set_handleGroup group_name handleNum i es w =
     bindE (adapter_at (Some i) w) (\<lambda>adapter.
     let groups =
           (case map_of (es_handleGroups es) group_name of
              Some g \<Rightarrow> es_handleGroups es
            | None \<Rightarrow>
                map_put group_name
                  \<lparr>hg_name = group_name,
                   hg_handles = replicate (nat handleNum) \<lparr>sh_servants = Map.empty, sh_handleGroup = Some group_name\<rparr>,
                   hg_adapters = []\<rparr> (es_handleGroups es))
     in
     bindE (deref (map_of groups group_name)) (\<lambda>g.
     Inr (es\<lparr>es_handleGroups := map_put group_name (g\<lparr>hg_adapters := map_put (ba_name adapter) i (hg_adapters g)\<rparr>) groups\<rparr>,
          put_adapter i (adapter\<lparr>ba_handleGroup := Some group_name\<rparr>) w)))"

section \<open>ServantHandle\<close>

text \<open>\<open>init\<close>: the dispatchers of the adapters of the group, looked up by the adapters' names.\<close>

fun init_servants ::
    "(string \<times> nat) list \<Rightarrow> 's ServantHandle \<Rightarrow> 's dispatcFunc ServantHelperManager \<Rightarrow>
     's ServantHandle \<times> 's dispatcFunc ServantHelperManager" where
  "init_servants [] h m = (h, m)"
| "init_servants ((name, adapter) # rest) h m =
     (let (servant_func, m1) = get_funcByName name m in
      init_servants rest (h\<lparr>sh_servants := (sh_servants h)(name \<mapsto> servant_func)\<rparr>) m1)"

definition ServantHandle_init ::
    "'s EpollServer \<Rightarrow> 's ServantHandle \<Rightarrow> 's dispatcFunc ServantHelperManager \<Rightarrow>
     ('s ServantHandle \<times> 's dispatcFunc ServantHelperManager) result" where
  "ServantHandle_init es h m =
     (case sh_handleGroup h of
        None \<Rightarrow> Inl AssertFailed
      | Some name \<Rightarrow>
          (case map_of (es_handleGroups es) name of
             None \<Rightarrow> Inl AssertFailed
           | Some g \<Rightarrow> Inr (init_servants (hg_adapters g) h m)))"

definition set_handleGroup :: "string option \<Rightarrow> 's ServantHandle \<Rightarrow> 's ServantHandle" where
  "set_handleGroup handle_group h = h\<lparr>sh_handleGroup := handle_group\<rparr>"

definition coroutineMemSize :: u64 where
  "coroutineMemSize = 1073741824"

definition coroutineStackSize :: u32 where
  "coroutineStackSize = 1310272"

text \<open>The number of coroutines \<open>run\<close> asks for.\<close>

definition coroutineNum :: u64 where
  "coroutineNum =
     (let n = (if ucast coroutineStackSize < coroutineMemSize
               then coroutineMemSize div ucast (coroutineStackSize * 4) else 1)
      in if n < 1 then 1 else n)"

text \<open>\<open>handle\<close>: dispatch a request and send what the dispatcher left in the buffer.\<close>

definition ServantHandle_handle ::
    "'s ServantHandle \<Rightarrow> tagRecvData \<Rightarrow> 's EpollServer \<Rightarrow> World \<Rightarrow> 's \<Rightarrow> ('s EpollServer \<times> World \<times> 's) result" where
  "ServantHandle_handle h recv_data es w s =
     bindE (adapter_at (rd_adapter recv_data) w) (\<lambda>adapter.
     case sh_servants h (ba_name adapter) of
       None \<Rightarrow> Inl AssertFailed
     | Some None \<Rightarrow> Inl Exception
     | Some (Some func) \<Rightarrow>
         bindE (func (rd_buffer recv_data) [] s) (\<lambda>(_, response, s').
         bindE (EpollServer_send (rd_uid recv_data) response (rd_ip recv_data) (rd_port recv_data) (rd_fd recv_data) es w)
           (\<lambda>(es', w'). Inr (es', w', s'))))"

definition HEART_BEAT_INTERVAL :: int where
  "HEART_BEAT_INTERVAL = 10"

text \<open>\<open>heartbeat\<close>: the requests the node helper sends, at the time \<open>cur\<close> in seconds.\<close>

fun heartbeat_adapters ::
    "int \<Rightarrow> (string \<times> nat) list \<Rightarrow> TarsNodeFHelper \<Rightarrow> World \<Rightarrow> (string list \<times> TarsNodeFHelper \<times> World) result" where
  "heartbeat_adapters cur [] t w = Inr ([], t, w)"
| "heartbeat_adapters cur ((name, i) # rest) t w =
     bindE (adapter_at (Some i) w) (\<lambda>a.
     let (out, t1, w1) =
           (if HEART_BEAT_INTERVAL < \<bar>cur - ba_heartBeatTime a\<bar> then
              (let (out, t1) = TarsNodeFHelper_keepAlive (ba_name a) t in
               (out, t1, put_adapter i (a\<lparr>ba_heartBeatTime := cur\<rparr>) w))
            else ([], t, w))
     in bindE (heartbeat_adapters cur rest t1 w1) (\<lambda>(out', t2, w2). Inr (out @ out', t2, w2)))"

text \<open>What the coroutines of a handle run.\<close>

datatype servant_body = HandleRequest | Handle tagRecvData

text \<open>The polling loop of \<open>handleRequest\<close> for one adapter: at most \<open>loop\<close> requests. The result of
  \<open>createCoroutine\<close> is not looked at.\<close>

fun poll_adapter ::
    "servant_body sched_env \<Rightarrow> nat \<Rightarrow> nat \<Rightarrow> servant_body CoroutineScheduler \<Rightarrow> World \<Rightarrow>
     (bool \<times> servant_body CoroutineScheduler \<times> World) result" where
  "poll_adapter env 0 i s w = Inr (False, s, w)"
| "poll_adapter env (Suc loop) i s w =
     bindE (adapter_at (Some i) w) (\<lambda>adapter.
     bindE (waitForRecvQueue 0 adapter) (\<lambda>(recv, adapter').
     let w1 = put_adapter i adapter' w in
     case recv of
       None \<Rightarrow> Inr (False, s, w1)
     | Some r \<Rightarrow>
         if rd_closed r then poll_adapter env loop i s w1
         else
           bindE (createCoroutine env (Handle (r\<lparr>rd_adapter := Some i\<rparr>)) s) (\<lambda>(_, s1).
           poll_adapter env loop i s1 w1)))"

fun poll_adapters ::
    "servant_body sched_env \<Rightarrow> (string \<times> nat) list \<Rightarrow> bool \<Rightarrow> servant_body CoroutineScheduler \<Rightarrow> World \<Rightarrow>
     (bool \<times> servant_body CoroutineScheduler \<times> World) result" where
  "poll_adapters env [] yield s w = Inr (yield, s, w)"
| "poll_adapters env ((name, i) # rest) yield s w =
     bindE (poll_adapter env 100 i s w) (\<lambda>(yield1, s1, w1). poll_adapters env rest yield1 s1 w1)"

text \<open>One turn of the loop of \<open>handleRequest\<close>, after the wait on the monitor: the flag says whether the
  coroutine yields at its end; the list is what the heartbeat sends.\<close>

definition handleRequest_turn ::
    "servant_body sched_env \<Rightarrow> int \<Rightarrow> (string \<times> nat) list \<Rightarrow> TarsNodeFHelper \<Rightarrow> servant_body CoroutineScheduler \<Rightarrow> World \<Rightarrow>
     (bool \<times> string list \<times> TarsNodeFHelper \<times> servant_body CoroutineScheduler \<times> World) result" where
  "handleRequest_turn env cur adapters t s w =
     (let serverReqEmpty = (0 < td_size (activeCoroQueue s)) in
      bindE (heartbeat_adapters cur adapters t w) (\<lambda>(out, t1, w1).
      if serverReqEmpty then Inr (True, out, t1, s, w1)
      else
        bindE (poll_adapters env adapters False s w1) (\<lambda>(yield, s1, w2).
        Inr (\<not> yield, out, t1, s1, w2))))"

section \<open>Application\<close>

record ServerConfig =
  cfg_application :: string
  cfg_serverName :: string
  cfg_node :: string
  cfg_adapterName :: string
  cfg_servantName :: string
  cfg_adapterIp :: string
  cfg_adapterPort :: int
  cfg_adapterName1 :: string
  cfg_servantName1 :: string
  cfg_adapterIp1 :: string
  cfg_adapterPort1 :: int

record 's App =
  app_server :: "'s EpollServer"
  app_world :: World
  app_manager :: "'s dispatcFunc ServantHelperManager"
  app_helper :: TarsNodeFHelper

text \<open>A new adapter in the store, named after its handle group, with one handle.\<close>

definition make_adapter :: "string \<Rightarrow> string \<Rightarrow> int \<Rightarrow> World \<Rightarrow> nat \<times> World" where
  "make_adapter name host port w =
     (length (w_adapters w),
      w\<lparr>w_adapters := w_adapters w @
          [(BindAdapter_set_endpoint host port BindAdapter_new)
             \<lparr>ba_name := name, ba_handleGroupName := name, ba_handleNum := 1\<rparr>]\<rparr>)"

definition Application_set_handle :: "nat \<Rightarrow> 's App \<Rightarrow> 's App result" where
  "Application_set_handle i app =
     bindE (adapter_at (Some i) (app_world app)) (\<lambda>a.
     bindE (EpollServer_set_handleGroup (ba_handleGroupName a) (ba_handleNum a) i (app_server app) (app_world app)) (\<lambda>(es, w).
     Inr (app\<lparr>app_server := es, app_world := w\<rparr>)))"

definition app_bind ::
    "(string \<Rightarrow> int \<times> u32) \<Rightarrow> (string \<Rightarrow> u32 option) \<Rightarrow> nat \<Rightarrow> 's App \<Rightarrow> 's App result" where
  "app_bind pton byname i app =
     bindE (EpollServer_bind pton byname i (app_server app) (app_world app)) (\<lambda>(_, es, w).
     Inr (app\<lparr>app_server := es, app_world := w\<rparr>))"

definition Application_initializeServer ::
    "(string \<Rightarrow> int \<times> u32) \<Rightarrow> (string \<Rightarrow> u32 option) \<Rightarrow> int \<Rightarrow> u64 \<Rightarrow> 's dispatcFunc \<Rightarrow> ServerConfig \<Rightarrow> World \<Rightarrow> 's App result" where
  "Application_initializeServer pton byname getpid memory admin cfg w0 =
     bindE (EpollServer_new 1 memory (w_kernel w0)) (\<lambda>(es, k).
     let helper = set_nodeInfo getpid (cfg_node cfg) (cfg_application cfg) (cfg_servantName cfg) TarsNodeFHelper_new in
     bindE (addServant ''AdminObj'' (Some admin) False ServantHelperManager_new) (\<lambda>m.
     let m1 = set_adapter_servant ''AdminAdapter'' ''AdminObj'' m;
         (i, w1) = make_adapter ''AdminAdapter'' ''127.0.0.1'' 20002 (w0\<lparr>w_kernel := k\<rparr>)
     in
     bindE (Application_set_handle i \<lparr>app_server = es, app_world = w1, app_manager = m1, app_helper = helper\<rparr>)
       (app_bind pton byname i)))"

text \<open>\<open>bindAdapter\<close>: the adapters made and bound, and the application.\<close>

definition bind_config ::
    "(string \<Rightarrow> int \<times> u32) \<Rightarrow> (string \<Rightarrow> u32 option) \<Rightarrow> string \<Rightarrow> string \<Rightarrow> string \<Rightarrow> int \<Rightarrow> 's App \<Rightarrow> (nat \<times> 's App) result" where
  "bind_config pton byname name servant ip port app =
     (let m = set_adapter_servant name servant (app_manager app);
          (i, w) = make_adapter name ip port (app_world app)
      in bindE (app_bind pton byname i (app\<lparr>app_manager := m, app_world := w\<rparr>)) (\<lambda>app'. Inr (i, app')))"

definition Application_bindAdapter ::
    "(string \<Rightarrow> int \<times> u32) \<Rightarrow> (string \<Rightarrow> u32 option) \<Rightarrow> ServerConfig \<Rightarrow> 's App \<Rightarrow> (nat list \<times> 's App) result" where
  "Application_bindAdapter pton byname cfg app =
     bindE (bind_config pton byname (cfg_adapterName cfg) (cfg_servantName cfg) (cfg_adapterIp cfg) (cfg_adapterPort cfg) app)
       (\<lambda>(i, app1).
     if cfg_servantName1 cfg \<noteq> [] then
       bindE (bind_config pton byname (cfg_adapterName1 cfg) (cfg_servantName1 cfg) (cfg_adapterIp1 cfg) (cfg_adapterPort1 cfg) app1)
         (\<lambda>(j, app2). Inr ([i, j], app2))
     else Inr ([i], app1))"

text \<open>\<open>Application::addServant\<close>, as the \<open>initialize\<close> of the three servers calls it.\<close>

definition Application_addServant :: "string \<Rightarrow> 's dispatcFunc \<Rightarrow> 's App \<Rightarrow> 's App result" where
  "Application_addServant name func app =
     bindE (addServant name (Some func) True (app_manager app)) (\<lambda>m. Inr (app\<lparr>app_manager := m\<rparr>))"

text \<open>\<open>extra_main\<close> without the client part; \<open>func\<close> is the dispatcher \<open>initialize\<close> registers under the
  adapter's name. The handles started, and the application.\<close>

definition Application_extra_main ::
    "(string \<Rightarrow> int \<times> u32) \<Rightarrow> (string \<Rightarrow> u32 option) \<Rightarrow> int \<Rightarrow> u64 \<Rightarrow> 's dispatcFunc \<Rightarrow> 's dispatcFunc \<Rightarrow> ServerConfig \<Rightarrow> World \<Rightarrow>
     ('s ServantHandle list \<times> 's App) result" where
  "Application_extra_main pton byname getpid memory admin func cfg w0 =
     bindE (Application_initializeServer pton byname getpid memory admin cfg w0) (\<lambda>app0.
     bindE (Application_bindAdapter pton byname cfg app0) (\<lambda>(adapters, app1).
     bindE (Application_addServant (cfg_adapterName cfg) func app1) (\<lambda>app2.
     bindE (fold_result Application_set_handle adapters app2) (\<lambda>app3.
     let (handles, es) = EpollServer_startHandle (app_server app3);
         (es', w) = EpollServer_createEpoll es (app_world app3)
     in Inr (handles, app3\<lparr>app_server := es', app_world := w\<rparr>)))))"

section \<open>Maps\<close>

lemma map_of_map_put [simp]: "map_of (map_put k v xs) = (map_of xs)(k \<mapsto> v)"
  by (rule ext, induction xs) auto

lemma fst_map_put: "fst ` set (map_put k v xs) = insert k (fst ` set xs)"
  by (simp flip: dom_map_of_conv_image_fst)

section \<open>From request to response\<close>

text \<open>A server with one network thread, which is what the program makes.\<close>

definition first_thread :: "'s EpollServer \<Rightarrow> NetThread result" where
  "first_thread es = (case es_netThreads es of [] \<Rightarrow> Inl OutOfBounds | nt # _ \<Rightarrow> Inr nt)"

lemma single_thread: "length (es_netThreads es) = 1 \<Longrightarrow> getNetThreadByfd fd es = 0"
  by (simp add: getNetThreadByfd_def)

lemma handle_sends:
  assumes "es_netThreads es = [nt]" and "\<not> nt_terminate nt" and "j < length (w_adapters w)"
    and "sh_servants h (ba_name (w_adapters w ! j)) = Some (Some f)" and "f (rd_buffer r) [] s = Inr (ret, resp, s')"
    and "rd_adapter r = Some j"
  shows "ServantHandle_handle h r es w s =
    Inr (es\<lparr>es_netThreads := [fst (pipe_push \<lparr>sd_cmd = CHR ''s'', sd_uid = rd_uid r, sd_buffer = resp, sd_ip = rd_ip r, sd_port = rd_port r\<rparr> nt (w_kernel w))]\<rparr>,
         w\<lparr>w_kernel := snd (pipe_push \<lparr>sd_cmd = CHR ''s'', sd_uid = rd_uid r, sd_buffer = resp, sd_ip = rd_ip r, sd_port = rd_port r\<rparr> nt (w_kernel w))\<rparr>, s')"
  using assms
  by (simp add: ServantHandle_handle_def adapter_at_def EpollServer_send_def single_thread on_thread_def
      recvNeedToSendFromServer_def split_beta)

section \<open>A full coroutine pool\<close>

text \<open>The adapter store after the first \<open>n\<close> messages of an adapter's queue are gone.\<close>

definition skip_messages :: "nat \<Rightarrow> nat \<Rightarrow> World \<Rightarrow> World" where
  "skip_messages n i w =
     (let a = w_adapters w ! i; q = drop n (td_deque (ba_receiveBuffer a)) in
      put_adapter i (a\<lparr>ba_receiveBuffer := \<lparr>td_deque = q, td_size = length q\<rparr>\<rparr>) w)"

lemma poll_adapter_step:
  assumes "i < length (w_adapters w)" and "ThreadDeque_inv (ba_receiveBuffer (w_adapters w ! i))"
  shows "adapter_at (Some i) w = Inr (w_adapters w ! i)"
    "waitForRecvQueue 0 (w_adapters w ! i) =
      Inr (case td_deque (ba_receiveBuffer (w_adapters w ! i)) of [] \<Rightarrow> None | r # _ \<Rightarrow> Some r,
           w_adapters (skip_messages 1 i w) ! i)"
    "put_adapter i (w_adapters (skip_messages 1 i w) ! i) w = skip_messages 1 i w"
proof -
  let ?a = "w_adapters w ! i"
  show "adapter_at (Some i) w = Inr ?a" using assms(1) by (simp add: adapter_at_def)
  show "put_adapter i (w_adapters (skip_messages 1 i w) ! i) w = skip_messages 1 i w"
    using assms(1) by (simp add: skip_messages_def put_adapter_def Let_def)
  show "waitForRecvQueue 0 ?a = Inr (case td_deque (ba_receiveBuffer ?a) of [] \<Rightarrow> None | r # _ \<Rightarrow> Some r,
      w_adapters (skip_messages 1 i w) ! i)"
  proof (cases "td_deque (ba_receiveBuffer ?a)")
    case Nil
    then have "ba_receiveBuffer ?a = \<lparr>td_deque = [], td_size = 0\<rparr>"
      using assms(2) by (simp add: ThreadDeque_inv_def)
    then have "?a\<lparr>ba_receiveBuffer := \<lparr>td_deque = [], td_size = 0\<rparr>\<rparr> = ?a" by simp
    then show ?thesis using Nil assms
      by (simp add: waitForRecvQueue_def ThreadDeque_pop_front_ok skip_messages_def put_adapter_def)
  next
    case (Cons r q)
    then show ?thesis using assms
      by (simp add: waitForRecvQueue_def ThreadDeque_pop_front_ok skip_messages_def put_adapter_def)
  qed
qed

lemma skip_messages_facts:
  assumes "i < length (w_adapters w)"
  shows "i < length (w_adapters (skip_messages n i w))"
    "td_deque (ba_receiveBuffer (w_adapters (skip_messages n i w) ! i)) = drop n (td_deque (ba_receiveBuffer (w_adapters w ! i)))"
    "ThreadDeque_inv (ba_receiveBuffer (w_adapters (skip_messages n i w) ! i))"
  using assms by (simp_all add: skip_messages_def put_adapter_def Let_def ThreadDeque_inv_def)

lemma poll_adapter_full:
  assumes "\<And>b. createCoroutine env b s = Inr (0, s)" and "i < length (w_adapters w)"
    and "ThreadDeque_inv (ba_receiveBuffer (w_adapters w ! i))" and "length (td_deque (ba_receiveBuffer (w_adapters w ! i))) \<le> n"
  shows "\<exists>w'. poll_adapter env n i s w = Inr (False, s, w') \<and> td_deque (ba_receiveBuffer (w_adapters w' ! i)) = []"
  using assms
proof (induction n arbitrary: w)
  case 0
  then show ?case by simp
next
  case (Suc n)
  note step = poll_adapter_step [OF Suc.prems(2,3)] and skip = skip_messages_facts [OF Suc.prems(2)]
  show ?case
  proof (cases "td_deque (ba_receiveBuffer (w_adapters w ! i))")
    case Nil
    then show ?thesis using step skip(2) [of 1] by simp
  next
    case (Cons r q)
    have "\<exists>w'. poll_adapter env n i s (skip_messages 1 i w) = Inr (False, s, w') \<and> td_deque (ba_receiveBuffer (w_adapters w' ! i)) = []"
      using Suc.prems(1,4) skip(1,3) [of 1] skip(2) [of 1] Cons by (intro Suc.IH) simp_all
    then show ?thesis using step Cons Suc.prems(1) by (simp add: Let_def)
  qed
qed

unbundle bit_operations_syntax

section \<open>The admin adapter\<close>

definition lacks_function :: "string \<Rightarrow> 's dispatcFunc ServantHelperManager \<Rightarrow> bool" where
  "lacks_function name m \<longleftrightarrow> servantMap m name = None \<or> servantMap m name = Some None"

lemma lacks_get_func:
  assumes "lacks_function name m" and "get_funcByName n m = (f, m')"
  shows "lacks_function name m'" "n = name \<Longrightarrow> f = None"
  using assms by (auto simp: lacks_function_def get_funcByName_def split: option.splits if_splits)

lemma init_servants_lacks:
  assumes "lacks_function name m"
  shows "name \<in> fst ` set adapters \<or> sh_servants h name = Some None \<Longrightarrow>
    sh_servants (fst (init_servants adapters h m)) name = Some None"
  using assms
proof (induction adapters h m rule: init_servants.induct)
  case (1 h m)
  then show ?case by simp
next
  case (2 n adapter rest h m)
  obtain f m1 where g: "get_funcByName n m = (f, m1)" by fastforce
  show ?case using "2.IH" [OF g [symmetric] refl] "2.prems" lacks_get_func [OF "2.prems"(2) g] g by auto
qed

definition has_adapter :: "string \<Rightarrow> 's HandleGroup \<Rightarrow> bool" where
  "has_adapter name g \<longleftrightarrow> name \<in> fst ` set (hg_adapters g)"

lemma has_adapter_put [simp]:
  "has_adapter name (g\<lparr>hg_adapters := map_put n i (hg_adapters g)\<rparr>) \<longleftrightarrow> name = n \<or> has_adapter name g"
  "has_adapter name \<lparr>hg_name = x, hg_handles = hs, hg_adapters = [(n, i)]\<rparr> \<longleftrightarrow> name = n"
  by (simp_all add: has_adapter_def fst_map_put)

text \<open>A group for a name that has that name among its adapters, and no dispatcher under it.\<close>

definition orphan :: "string \<Rightarrow> 's App \<Rightarrow> bool" where
  "orphan name app \<longleftrightarrow>
     lacks_function name (app_manager app) \<and>
     (\<exists>g. map_of (es_handleGroups (app_server app)) name = Some g \<and> has_adapter name g)"

lemma orphan_set_handle:
  assumes "orphan name app" and "Application_set_handle i app = Inr app'"
  shows "orphan name app'"
proof -
  obtain x where x: "adapter_at (Some i) (app_world app) = Inr x"
    using assms(2) by (auto simp: Application_set_handle_def result_simps)
  show ?thesis
  proof (cases "map_of (es_handleGroups (app_server app)) (ba_handleGroupName x)")
    case None
    then show ?thesis using assms x
      by (auto simp: orphan_def Application_set_handle_def EpollServer_set_handleGroup_def)
  next
    case (Some g)
    then show ?thesis using assms x
      by (auto simp: orphan_def Application_set_handle_def EpollServer_set_handleGroup_def)
  qed
qed

lemma orphan_app_bind:
  assumes "orphan name app" and "app_bind pton byname i app = Inr app'"
  shows "orphan name app'"
  using assms by (auto simp: orphan_def app_bind_def EpollServer_bind_def result_simps split: list.splits)

lemma orphan_bind_config:
  assumes "orphan name app" and "bind_config pton byname n servant ip port app = Inr (i, app')"
  shows "orphan name app'"
proof -
  obtain j w where m: "make_adapter n ip port (app_world app) = (j, w)" by fastforce
  have "orphan name (app\<lparr>app_manager := set_adapter_servant n servant (app_manager app), app_world := w\<rparr>)"
    using assms(1) by (simp add: orphan_def lacks_function_def set_adapter_servant_def)
  then show ?thesis using assms(2) m by (auto simp: bind_config_def result_simps dest: orphan_app_bind)
qed

lemma orphan_bindAdapter:
  assumes "orphan name app" and "Application_bindAdapter pton byname cfg app = Inr (is, app')"
  shows "orphan name app'"
  using assms by (auto simp: Application_bindAdapter_def result_simps split: if_splits dest: orphan_bind_config)

lemma orphan_addServant:
  assumes "orphan name app" and "Application_addServant n func app = Inr app'" and "n \<noteq> name"
  shows "orphan name app'"
  using assms by (auto simp: orphan_def lacks_function_def Application_addServant_def addServant_def result_simps split: if_splits)

lemma orphan_initialize:
  fixes app :: "'s App"
  assumes "Application_initializeServer pton byname getpid memory admin cfg w0 = Inr app"
  shows "orphan ''AdminAdapter'' app"
proof -
  obtain es :: "'s EpollServer" and k where e: "EpollServer_new 1 memory (w_kernel w0) = Inr (es, k)"
    using assms by (auto simp: Application_initializeServer_def result_simps)
  then have g: "es_handleGroups es = []" by (auto simp: EpollServer_new_def result_simps)
  let ?m = "set_adapter_servant ''AdminAdapter'' ''AdminObj'' (ServantHelperManager_new\<lparr>servantMap := [''AdminObj'' \<mapsto> Some admin]\<rparr>)"
  obtain i w1 where m: "make_adapter ''AdminAdapter'' ''127.0.0.1'' 20002 (w0\<lparr>w_kernel := k\<rparr>) = (i, w1)" by fastforce
  define helper where "helper = set_nodeInfo getpid (cfg_node cfg) (cfg_application cfg) (cfg_servantName cfg) TarsNodeFHelper_new"
  obtain app1 where a: "Application_set_handle i \<lparr>app_server = es, app_world = w1, app_manager = ?m, app_helper = helper\<rparr> = Inr app1"
    "app_bind pton byname i app1 = Inr app"
    using assms e m by (auto simp: Application_initializeServer_def addServant_def ServantHelperManager_new_def helper_def result_simps Let_def)
  have "adapter_at (Some i) w1 = Inr (w_adapters w1 ! i)" "ba_name (w_adapters w1 ! i) = ''AdminAdapter''"
    "ba_handleGroupName (w_adapters w1 ! i) = ''AdminAdapter''"
    using m by (auto simp: make_adapter_def adapter_at_def nth_append)
  then have "orphan ''AdminAdapter'' app1"
    using a(1) g by (auto simp: Application_set_handle_def EpollServer_set_handleGroup_def result_simps Let_def orphan_def
        lacks_function_def set_adapter_servant_def)
  then show ?thesis using a(2) by (rule orphan_app_bind)
qed

lemma orphan_extra_main:
  assumes "Application_extra_main pton byname getpid memory admin func cfg w0 = Inr (handles, app)"
    and "cfg_adapterName cfg \<noteq> ''AdminAdapter''"
  shows "orphan ''AdminAdapter'' app"
proof -
  obtain app0 adapters app1 app2 app3 where a:
    "Application_initializeServer pton byname getpid memory admin cfg w0 = Inr app0"
    "Application_bindAdapter pton byname cfg app0 = Inr (adapters, app1)"
    "Application_addServant (cfg_adapterName cfg) func app1 = Inr app2"
    "fold_result Application_set_handle adapters app2 = Inr app3"
    and app: "app_manager app = app_manager app3"
      "es_handleGroups (app_server app) = es_handleGroups (app_server app3)"
    using assms(1) by (auto simp: Application_extra_main_def result_simps Let_def EpollServer_startHandle_def
        EpollServer_createEpoll_def split_beta split: if_splits)
  have "orphan ''AdminAdapter'' app2"
    using orphan_initialize [OF a(1)] a(2,3) assms(2) by (blast intro: orphan_bindAdapter orphan_addServant)
  with a(4) have "orphan ''AdminAdapter'' app3" by (rule fold_result_inv) (rule orphan_set_handle)
  then show ?thesis using app by (simp add: orphan_def)
qed

section \<open>Start-up\<close>

text \<open>The operations of the start-up return when the kernel grants every call.\<close>

lemma Socket_createSocket_ok:
  assumes "all_succeed k"
  shows "\<exists>s' k'. Socket_createSocket domain s k = Inr (s', k') \<and> all_succeed k' \<and> sk_domain s' = domain"
proof -
  obtain s1 k1 where c: "Socket_close s k = (s1, k1)" by fastforce
  obtain fd k2 where "createSocket False (domain = PF_LOCAL) k1 = Inr (fd, k2)" "all_succeed k2"
    using createSocket_ok [OF Socket_close_fds(1) [OF assms c]] by blast
  then show ?thesis using c by (simp add: Socket_createSocket_def)
qed

lemma granted:
  assumes "all_succeed k" and "\<And>fd. call \<noteq> Sys_accept fd"
  shows "\<exists>k'. sys_or_fatal call k = Inr k' \<and> all_succeed k'"
  using sys_or_fatal_ok [OF assms] by blast

lemma granted_sys: "all_succeed k \<Longrightarrow> (\<And>fd. call \<noteq> Sys_accept fd) \<Longrightarrow> all_succeed (snd (sys call k))"
  using sys_succeeds(2) [of k call "fst (sys call k)" "snd (sys call k)"] by simp

lemma bind_socket_ok:
  assumes "all_succeed k"
  shows "\<exists>s' k'. bind_socket pton byname ep s k = Inr (s', k') \<and> all_succeed k'"
proof -
  obtain s1 k1 where s1: "Socket_createSocket AF_INET s k = Inr (s1, k1)" "all_succeed k1" "sk_domain s1 = AF_INET"
    using Socket_createSocket_ok [OF assms] by blast
  let ?addr = "\<lparr>sin_family = sk_domain s1, sin_port = word_of_int (ep_port ep),
    sin_addr = (if ep_host ep = [] then 0 else Socket_parseAddr pton byname (ep_host ep) 0)\<rparr>"
  let ?k1 = "snd (sys (Sys_reuseaddr (sk_fd s1)) k1)"
  have "all_succeed ?k1" using s1(2) by (rule granted_sys) simp
  then obtain kb where kb: "sys_or_fatal (Sys_bind (sk_fd s1) ?addr) ?k1 = Inr kb" "all_succeed kb"
    using granted [of ?k1 "Sys_bind (sk_fd s1) ?addr"] by auto
  define k2 where "k2 = snd (sys (Sys_getsockname (sk_fd s1)) kb)"
  have k2: "Socket_bind pton byname (ep_host ep) (ep_port ep) s1 k1 = Inr k2" "all_succeed k2"
    using kb s1(3) granted_sys [OF kb(2), of "Sys_getsockname (sk_fd s1)"]
    by (simp_all add: Socket_bind_def NetworkUtil_bind_def Let_def k2_def)
  have "all_succeed (Socket_listen 100 s1 k2)" unfolding Socket_listen_def using k2(2) by (rule granted_sys) simp
  then obtain k3 where k3: "Socket_set_keepAlive s1 (Socket_listen 100 s1 k2) = Inr k3" "all_succeed k3"
    using granted [of "Socket_listen 100 s1 k2" "Sys_keepalive (sk_fd s1)"]
    by (auto simp: Socket_set_keepAlive_def set_keepAlive_def)
  obtain k4 where k4: "Socket_set_tcpNoDelay s1 k3 = Inr k4" "all_succeed k4"
    using granted [OF k3(2), of "Sys_nodelay (sk_fd s1)"] by (auto simp: Socket_set_tcpNoDelay_def set_tcpNoDealy_def)
  obtain k5 where k5: "Socket_set_noCloseWait s1 k4 = Inr k5" "all_succeed k5"
    using granted [OF k4(2), of "Sys_linger (sk_fd s1) True"] by (auto simp: Socket_set_noCloseWait_def)
  obtain r kg where g: "sys (Sys_getfl (sk_fd s1)) k5 = (r, kg)" by fastforce
  have "all_succeed kg" using sys_succeeds(2) [OF k5(2) g] by simp
  then obtain k6 where "Socket_set_block False s1 k5 = Inr k6" "all_succeed k6"
    using granted [of kg "Sys_setfl (sk_fd s1) (max r (- 1) OR O_NONBLOCK)"] g
    by (auto simp: Socket_set_block_def set_block_def)
  then show ?thesis using s1(1) k2(1) k3(1) k4(1) k5(1) by (simp add: bind_socket_def)
qed

text \<open>An application that can go on starting up.\<close>

definition app_sound :: "'s App \<Rightarrow> bool" where
  "app_sound app \<longleftrightarrow> es_netThreads (app_server app) \<noteq> [] \<and> all_succeed (w_kernel (app_world app))"

lemma app_bind_ok:
  assumes "app_sound app" and "i < length (w_adapters (app_world app))"
  shows "\<exists>app'. app_bind pton byname i app = Inr app' \<and> app_sound app' \<and> app_manager app' = app_manager app \<and>
    length (w_adapters (app_world app')) = length (w_adapters (app_world app))"
proof -
  obtain nt nts where nt: "es_netThreads (app_server app) = nt # nts"
    using assms(1) by (cases "es_netThreads (app_server app)") (auto simp: app_sound_def)
  let ?a = "w_adapters (app_world app) ! i"
  obtain s k where "bind_socket pton byname (ba_endpoint ?a) (ba_socket ?a) (w_kernel (app_world app)) = Inr (s, k)" "all_succeed k"
    using bind_socket_ok assms(1) unfolding app_sound_def by blast
  then show ?thesis using nt assms(2)
    by (simp add: app_bind_def EpollServer_bind_def NetThread_bind_def adapter_at_def app_sound_def put_adapter_def)
qed

lemma set_handle_ok:
  assumes "app_sound app" and "i < length (w_adapters (app_world app))"
  shows "\<exists>app'. Application_set_handle i app = Inr app' \<and> app_sound app' \<and> app_manager app' = app_manager app \<and>
    length (w_adapters (app_world app')) = length (w_adapters (app_world app))"
proof -
  let ?a = "w_adapters (app_world app) ! i"
  show ?thesis using assms
    by (cases "map_of (es_handleGroups (app_server app)) (ba_handleGroupName ?a)")
      (simp_all add: Application_set_handle_def EpollServer_set_handleGroup_def adapter_at_def app_sound_def put_adapter_def)
qed

lemma bind_config_ok:
  assumes "app_sound app"
  shows "\<exists>i app'. bind_config pton byname name servant ip port app = Inr (i, app') \<and> app_sound app' \<and>
    i < length (w_adapters (app_world app')) \<and> length (w_adapters (app_world app)) < length (w_adapters (app_world app')) \<and>
    app_manager app' = set_adapter_servant name servant (app_manager app)"
proof -
  obtain i w where m: "make_adapter name ip port (app_world app) = (i, w)" by fastforce
  then have w: "i < length (w_adapters w)" "w_kernel w = w_kernel (app_world app)"
    "length (w_adapters w) = Suc (length (w_adapters (app_world app)))" by (auto simp: make_adapter_def)
  let ?app = "app\<lparr>app_manager := set_adapter_servant name servant (app_manager app), app_world := w\<rparr>"
  obtain app' where "app_bind pton byname i ?app = Inr app'" "app_sound app'" "app_manager app' = app_manager ?app"
    "length (w_adapters (app_world app')) = length (w_adapters w)"
    using app_bind_ok [of ?app i] assms w by (auto simp: app_sound_def)
  then show ?thesis using m w by (simp add: bind_config_def)
qed

lemma initializeServer_ok:
  fixes admin :: "'s dispatcFunc"
  assumes "all_succeed (w_kernel w0)"
  shows "\<exists>app. Application_initializeServer pton byname getpid memory admin cfg w0 = Inr app \<and> app_sound app \<and>
    servantAdapter (app_manager app) = [''AdminObj'' \<mapsto> ''AdminAdapter'']"
proof -
  obtain s1 k1 where s1: "Socket_createSocket AF_INET Socket_new (w_kernel w0) = Inr (s1, k1)" "all_succeed k1"
    using Socket_createSocket_ok [OF assms] by blast
  obtain s2 k2 where s2: "Socket_createSocket AF_INET Socket_new k1 = Inr (s2, k2)" "all_succeed k2"
    using Socket_createSocket_ok [OF s1(2)] by blast
  obtain es :: "'s EpollServer" where es: "EpollServer_new 1 memory (w_kernel w0) = Inr (es, k2)" "es_netThreads es \<noteq> []"
    using s1 s2 by (simp add: EpollServer_new_def NetThread_new_def)
  obtain i w1 where m: "make_adapter ''AdminAdapter'' ''127.0.0.1'' 20002 (w0\<lparr>w_kernel := k2\<rparr>) = (i, w1)" by fastforce
  then have w1: "i < length (w_adapters w1)" "w_kernel w1 = k2" by (auto simp: make_adapter_def)
  let ?m = "set_adapter_servant ''AdminAdapter'' ''AdminObj'' (ServantHelperManager_new\<lparr>servantMap := [''AdminObj'' \<mapsto> Some admin]\<rparr>)"
  let ?app = "\<lparr>app_server = es, app_world = w1, app_manager = ?m,
    app_helper = set_nodeInfo getpid (cfg_node cfg) (cfg_application cfg) (cfg_servantName cfg) TarsNodeFHelper_new\<rparr>"
  have "app_sound ?app" using es(2) w1(2) s2(2) by (simp add: app_sound_def)
  then obtain app1 where a1: "Application_set_handle i ?app = Inr app1" "app_sound app1" "app_manager app1 = ?m"
    "i < length (w_adapters (app_world app1))"
    using set_handle_ok [of ?app i] w1(1) by auto
  obtain app2 where "app_bind pton byname i app1 = Inr app2" "app_sound app2" "app_manager app2 = ?m"
    using app_bind_ok [OF a1(2,4)] a1(3) by auto
  then show ?thesis using es(1) m a1(1)
    by (simp add: Application_initializeServer_def addServant_def ServantHelperManager_new_def set_adapter_servant_def)
qed

lemma bindAdapter_ok:
  assumes "app_sound app"
  shows "\<exists>is app'. Application_bindAdapter pton byname cfg app = Inr (is, app') \<and> app_sound app' \<and>
    (\<forall>i \<in> set is. i < length (w_adapters (app_world app'))) \<and>
    dom (servantAdapter (app_manager app')) \<subseteq> {cfg_servantName cfg, cfg_servantName1 cfg} \<union> dom (servantAdapter (app_manager app))"
proof -
  obtain i app1 where a1: "bind_config pton byname (cfg_adapterName cfg) (cfg_servantName cfg) (cfg_adapterIp cfg) (cfg_adapterPort cfg) app = Inr (i, app1)"
    "app_sound app1" "i < length (w_adapters (app_world app1))"
    "app_manager app1 = set_adapter_servant (cfg_adapterName cfg) (cfg_servantName cfg) (app_manager app)"
    using bind_config_ok [OF assms] by blast
  obtain j app2 where a2: "bind_config pton byname (cfg_adapterName1 cfg) (cfg_servantName1 cfg) (cfg_adapterIp1 cfg) (cfg_adapterPort1 cfg) app1 = Inr (j, app2)"
    "app_sound app2" "j < length (w_adapters (app_world app2))" "length (w_adapters (app_world app1)) < length (w_adapters (app_world app2))"
    "app_manager app2 = set_adapter_servant (cfg_adapterName1 cfg) (cfg_servantName1 cfg) (app_manager app1)"
    using bind_config_ok [OF a1(2)] by blast
  show ?thesis
  proof (cases "cfg_servantName1 cfg = []")
    case True
    then show ?thesis using a1 by (auto simp: Application_bindAdapter_def set_adapter_servant_def)
  next
    case False
    then show ?thesis using a1 a2 by (auto simp: Application_bindAdapter_def set_adapter_servant_def)
  qed
qed

lemma set_handles_ok:
  assumes "app_sound app" and "\<forall>i \<in> set is. i < length (w_adapters (app_world app))"
  shows "\<exists>app'. fold_result Application_set_handle is app = Inr app'"
  using assms
proof (induction "is" arbitrary: app)
  case (Cons i "is")
  then obtain app1 where "Application_set_handle i app = Inr app1" "app_sound app1"
    "length (w_adapters (app_world app1)) = length (w_adapters (app_world app))"
    using set_handle_ok [of app i] by auto
  then show ?case using Cons.IH [of app1] Cons.prems(2) by auto
qed simp

lemma extra_main_ok:
  fixes admin func :: "'s dispatcFunc"
  assumes "all_succeed (w_kernel w0)" and "cfg_adapterName cfg \<notin> {''AdminObj'', cfg_servantName cfg, cfg_servantName1 cfg}"
  shows "\<exists>handles app. Application_extra_main pton byname getpid memory admin func cfg w0 = Inr (handles, app)"
proof -
  obtain app0 where a0: "Application_initializeServer pton byname getpid memory admin cfg w0 = Inr app0" "app_sound app0"
    "servantAdapter (app_manager app0) = [''AdminObj'' \<mapsto> ''AdminAdapter'']"
    using initializeServer_ok [OF assms(1)] by blast
  obtain "is" app1 where a1: "Application_bindAdapter pton byname cfg app0 = Inr (is, app1)" "app_sound app1"
    "\<forall>i \<in> set is. i < length (w_adapters (app_world app1))"
    "dom (servantAdapter (app_manager app1)) \<subseteq> {cfg_servantName cfg, cfg_servantName1 cfg} \<union> {''AdminObj''}"
    using bindAdapter_ok [OF a0(2), of pton byname cfg] a0(3) by auto
  have "servantAdapter (app_manager app1) (cfg_adapterName cfg) = None"
    using a1(4) assms(2) by (auto simp: domIff)
  then obtain app2 where a2: "Application_addServant (cfg_adapterName cfg) func app1 = Inr app2" "app_world app2 = app_world app1"
    "app_server app2 = app_server app1"
    by (auto simp: Application_addServant_def addServant_def)
  obtain app3 where "fold_result Application_set_handle is app2 = Inr app3"
    using set_handles_ok [of app2 "is"] a1(2,3) a2(2,3) by (auto simp: app_sound_def)
  then show ?thesis using a0(1) a1(1) a2(1) by (simp add: Application_extra_main_def Let_def split_beta)
qed

section \<open>Properties\<close>

definition keepAlive_body :: string where
  "keepAlive_body = request_body 7 (request_text ''keepAlive'' ''app:server:1:HelloAdapter'')"

definition stateless :: "(string \<Rightarrow> string \<Rightarrow> int \<times> string) \<Rightarrow> unit dispatcFunc" where
  "stateless f request b s = (let (ret, b') = f request b in Inr (ret, b', s))"

definition sample_handle :: "unit ServantHandle" where
  "sample_handle = \<lparr>sh_servants = [''HelloAdapter'' \<mapsto> Some (stateless ServerImp)], sh_handleGroup = Some ''HelloAdapter''\<rparr>"

definition sample_server :: "unit EpollServer" where
  "sample_server =
     \<lparr>es_netThreads = [sample_thread], es_terminate = False, es_netThreadNum = 1, es_handleStarted = True,
      es_handleGroups = [(''HelloAdapter'', \<lparr>hg_name = ''HelloAdapter'', hg_handles = [], hg_adapters = [(''HelloAdapter'', 0)]\<rparr>)]\<rparr>"

definition busy_world :: World where
  "busy_world = sample_world\<lparr>w_reads := (\<lambda>_. [RData (frame keepAlive_body)]), w_writes := (\<lambda>_. [Wrote 17])\<rparr>"

lemma busy_ready: "conn_ready sample_connection 0 sample_thread busy_world"
  using sample_ready by (simp add: conn_ready_def busy_world_def)

lemma keepAlive_reply: "stateless ServerImp keepAlive_body [] () = Inr (-1, ''7:I have received'', ())"
proof -
  have "digit 7 = CHR ''7''" by code_simp
  then show ?thesis by (simp add: stateless_def keepAlive_body_def ServerImp_body to_string_def digits.simps)
qed

lemma keepAlive_body_length: "length keepAlive_body < 2147483648"
  by (simp add: keepAlive_body_def request_body_def request_text_def to_string_def digits.simps)

text \<open>When the coroutine pool is used up, polling still takes the requests off the adapter's queue:
  \<open>createCoroutine\<close> returns 0, which is not looked at, and up to 100 requests are lost.\<close>

theorem full_pool_loses_requests:
  assumes "sched_rel s L" and "env_ok env (stackSize s)" and "L CORO_FREE = []" and "currentSize s = poolSize s"
    and "i < length (w_adapters w)" and "ThreadDeque_inv (ba_receiveBuffer (w_adapters w ! i))"
    and "length (td_deque (ba_receiveBuffer (w_adapters w ! i))) \<le> 100"
  shows "\<exists>w'. poll_adapter env 100 i s w = Inr (False, s, w') \<and> td_deque (ba_receiveBuffer (w_adapters w' ! i)) = []"
proof (rule poll_adapter_full [OF _ assms(5-7)])
  fix b
  show "createCoroutine env b s = Inr (0, s)" using createCoroutine_ok [OF assms(1,2), of b] assms(3,4) by auto
qed

lemma full_scheduler:
  "\<exists>(s :: servant_body CoroutineScheduler) L. sched_rel s L \<and> stackSize s = 65536 \<and> L CORO_FREE = [] \<and>
     currentSize s = poolSize s"
proof -
  let ?env = "poor_env 0 (\<lambda>_ :: servant_body. SReturn)"
  obtain s :: "servant_body CoroutineScheduler" and new where s: "sched_rel s ((\<lambda>_. [])(CORO_FREE := new))" "length new = 1"
    "stackSize s = 65536" "poolSize s = 1" using init_ok [of ?env 65536 1] by auto
  obtain c where c: "new = [c]" using s(2) by (auto simp: length_Suc_conv)
  let ?L = "(\<lambda>_. [])(CORO_FREE := new)"
  obtain u s' info h n where t: "sched_rel s' (lists_move c CORO_FREE CORO_AVAIL ?L)"
    "s' = s\<lparr>coroInfo := info, coroLinks := h, usedSize := n\<rparr>"
    using take_free_ok [OF s(1), of c "[]" HandleRequest] c by auto
  have "unat (currentSize s) = 1" using s(1,2) by (simp add: sched_rel_def lists_total_def)
  then have "currentSize s' = poolSize s'" using t(2) s(4) by (simp add: word_unat_eq_iff)
  moreover have "lists_move c CORO_FREE CORO_AVAIL ?L CORO_FREE = []" using c by (simp add: lists_move_def Let_def)
  moreover have "stackSize s' = 65536" using t(2) s(3) by simp
  ultimately show ?thesis using t(1) by blast
qed

definition queued_world :: World where
  "queued_world = sample_world\<lparr>w_adapters :=
     [sample_adapter\<lparr>ba_receiveBuffer := \<lparr>td_deque = [recv_message sample_connection ''1:test:x''], td_size = 1\<rparr>\<rparr>]\<rparr>"

theorem full_pool_loses_requests_witness:
  "\<exists>s w'. poll_adapter (poor_env 0 (\<lambda>_. SReturn)) 100 0 s queued_world = Inr (False, s, w') \<and>
     td_deque (ba_receiveBuffer (w_adapters w' ! 0)) = []"
proof -
  obtain s :: "servant_body CoroutineScheduler" and L where s: "sched_rel s L" "stackSize s = 65536" "L CORO_FREE = []"
    "currentSize s = poolSize s" using full_scheduler by blast
  have env: "env_ok (poor_env 0 (\<lambda>_ :: servant_body. SReturn)) (stackSize s)" using s(2) by simp
  show ?thesis
    using full_pool_loses_requests [OF s(1) env s(3,4), of 0 queued_world]
    by (auto simp: queued_world_def ThreadDeque_inv_def)
qed

text \<open>The admin service cannot be called: its dispatcher is registered under the name of the servant
  but looked up under the name of the adapter, where \<open>operator[]\<close> makes an empty function, and calling
  that throws.\<close>

theorem admin_adapter_has_no_dispatcher:
  assumes "Application_extra_main pton byname getpid memory admin func cfg w0 = Inr (handles, app)"
    and "cfg_adapterName cfg \<noteq> ''AdminAdapter''" and "sh_handleGroup h = Some ''AdminAdapter''"
    and "adapter_at (rd_adapter r) w = Inr a" and "ba_name a = ''AdminAdapter''"
  shows "\<exists>h' m'. ServantHandle_init (app_server app) h (app_manager app) = Inr (h', m') \<and>
    ServantHandle_handle h' r es w s = Inl Exception"
proof -
  obtain g where g: "map_of (es_handleGroups (app_server app)) ''AdminAdapter'' = Some g" "has_adapter ''AdminAdapter'' g"
    "lacks_function ''AdminAdapter'' (app_manager app)"
    using orphan_extra_main [OF assms(1,2)] by (auto simp: orphan_def)
  obtain h' m' where i: "init_servants (hg_adapters g) h (app_manager app) = (h', m')" by fastforce
  then have "sh_servants h' ''AdminAdapter'' = Some None"
    using init_servants_lacks [OF g(3), of "hg_adapters g" h] g(2) by (simp add: has_adapter_def)
  then show ?thesis using g(1) i assms(3-5) by (simp add: ServantHandle_init_def ServantHandle_handle_def)
qed

definition sample_config :: ServerConfig where
  "sample_config =
     \<lparr>cfg_application = ''TestApp'', cfg_serverName = ''HelloServer'', cfg_node = ''127.0.0.1:19386'',
      cfg_adapterName = ''HelloAdapter'', cfg_servantName = ''Hello'', cfg_adapterIp = ''127.0.0.1'', cfg_adapterPort = 9877,
      cfg_adapterName1 = [], cfg_servantName1 = [], cfg_adapterIp1 = [], cfg_adapterPort1 = 0\<rparr>"

definition blank_world :: World where
  "blank_world = sample_world\<lparr>w_kernel := \<lparr>k_results = [], k_calls = []\<rparr>, w_adapters := []\<rparr>"

definition admin_request :: tagRecvData where
  "admin_request = (recv_message sample_connection ''1:notify:x'')\<lparr>rd_adapter := Some 0\<rparr>"

definition admin_world :: World where
  "admin_world = sample_world\<lparr>w_adapters := [BindAdapter_new\<lparr>ba_name := ''AdminAdapter''\<rparr>]\<rparr>"

theorem admin_adapter_has_no_dispatcher_witness:
  "\<exists>handles app h' m'.
     Application_extra_main (\<lambda>_. (1, 0)) (\<lambda>_. None) 42 0 (stateless NodeImp) (stateless HelloImp) sample_config blank_world = Inr (handles, app) \<and>
     ServantHandle_init (app_server app) \<lparr>sh_servants = Map.empty, sh_handleGroup = Some ''AdminAdapter''\<rparr> (app_manager app) = Inr (h', m') \<and>
     ServantHandle_handle h' admin_request sample_server admin_world () = Inl Exception"
proof -
  have "all_succeed (w_kernel blank_world)" by (simp add: blank_world_def all_succeed_def)
  moreover have "cfg_adapterName sample_config \<notin> {''AdminObj'', cfg_servantName sample_config, cfg_servantName1 sample_config}"
    by (simp add: sample_config_def)
  ultimately obtain handles app where
    m: "Application_extra_main (\<lambda>_. (1, 0)) (\<lambda>_. None) 42 0 (stateless NodeImp) (stateless HelloImp) sample_config blank_world = Inr (handles, app)"
    using extra_main_ok by blast
  have "cfg_adapterName sample_config \<noteq> ''AdminAdapter''" by (simp add: sample_config_def)
  from admin_adapter_has_no_dispatcher [OF m this, of "\<lparr>sh_servants = Map.empty, sh_handleGroup = Some ''AdminAdapter''\<rparr>"
      admin_request admin_world "w_adapters admin_world ! 0" sample_server "()"] m
  show ?thesis by (auto simp: admin_request_def admin_world_def adapter_at_def)
qed

end
