(* ===== verification/Tarsx_ServantThread.thy ===== *)
theory Tarsx_ServantThread
  imports Tarsx_EpollServer
begin

text \<open>
  The thread of a servant handle, \<open>ServantHandle::run\<close> (\<open>ServantHandle.cc\<close>), on the scheduler of
  \<open>Tarsx_Coroutine\<close>: the coroutine of \<open>handleRequest\<close> takes requests off the adapters and makes a
  coroutine for each, and these dispatch and answer them. Here the bodies act on the server, where in
  \<open>Tarsx_Coroutine\<close> they only act on the scheduler. The main result is a refinement: a turn of the
  scheduler does to the server what a plain loop over the queued requests would do.
\<close>

section \<open>State and steps\<close>

text \<open>What a servant thread works on. \<open>sv_beats\<close> is what its heartbeats have sent to the node so far.\<close>

record 's Servant =
  sv_handle :: "'s ServantHandle"
  sv_sched :: "servant_body CoroutineScheduler"
  sv_server :: "'s EpollServer"
  sv_world :: World
  sv_node :: TarsNodeFHelper
  sv_beats :: "string list"
  sv_state :: 's

definition group_adapters :: "'s Servant \<Rightarrow> (string \<times> nat) list result" where
  "group_adapters sv =
     (case sh_handleGroup (sv_handle sv) of
        None \<Rightarrow> Inl NullDeref
      | Some name \<Rightarrow>
          (case map_of (es_handleGroups (sv_server sv)) name of
             None \<Rightarrow> Inl NullDeref
           | Some g \<Rightarrow> Inr (hg_adapters g)))"

text \<open>The loop of \<open>handleRequest\<close> from the start of a round to the next \<open>yield\<close>; after it the coroutine
  goes on at the start of a round. \<open>heartbeat\<close> reads the clock, in seconds. The fuel bounds the rounds
  without a \<open>yield\<close>; one is enough (\<open>handleRequest_yields\<close>).\<close>

fun handleRequest :: "servant_body sched_env \<Rightarrow> nat \<Rightarrow> nat \<Rightarrow> 's Servant \<Rightarrow> 's Servant result" where
  "handleRequest env 0 c sv = Inl Diverges"
| "handleRequest env (Suc n) c sv =
     bindE (group_adapters sv) (\<lambda>adapters.
     let s = sv_sched sv; cur = clock env (clockReads s) div 1000 in
     bindE (handleRequest_turn env cur adapters (sv_node sv) (s\<lparr>clockReads := Suc (clockReads s)\<rparr>) (sv_world sv))
       (\<lambda>(yield, out, node, s1, w).
     let sv1 = sv\<lparr>sv_sched := s1, sv_world := w, sv_node := node, sv_beats := sv_beats sv @ out\<rparr> in
     if yield
     then bindE (CoroutineScheduler_yield True HandleRequest c s1) (\<lambda>s2. Inr (sv1\<lparr>sv_sched := s2\<rparr>))
     else handleRequest env n c sv1))"

text \<open>The coroutine of a request: \<open>corotineProc\<close> catches what its body throws.\<close>

definition handle_caught ::
    "'s ServantHandle \<Rightarrow> tagRecvData \<Rightarrow> 's EpollServer \<times> World \<times> 's \<Rightarrow> ('s EpollServer \<times> World \<times> 's) result" where
  "handle_caught h r x =
     (case x of (es, w, st) \<Rightarrow>
        (case ServantHandle_handle h r es w st of
           Inl e \<Rightarrow> if e = Exception then Inr x else Inl e
         | Inr y \<Rightarrow> Inr y))"

definition servant_resume :: "servant_body sched_env \<Rightarrow> nat \<Rightarrow> servant_body \<Rightarrow> 's Servant \<Rightarrow> 's Servant result" where
  "servant_resume env c b sv =
     (case b of
        HandleRequest \<Rightarrow> handleRequest env 1 c sv
      | Handle r \<Rightarrow>
          bindE (handle_caught (sv_handle sv) r (sv_server sv, sv_world sv, sv_state sv)) (\<lambda>(es, w, st).
          bindE (corotineProc_end c (sv_sched sv)) (\<lambda>s.
          Inr (sv\<lparr>sv_sched := s, sv_server := es, sv_world := w, sv_state := st\<rparr>))))"

definition servant_switch :: "servant_body sched_env \<Rightarrow> nat \<Rightarrow> 's Servant \<Rightarrow> 's Servant result" where
  "servant_switch env c sv =
     bindE (info_of c (sv_sched sv)) (\<lambda>i.
     case ci_body i of
       None \<Rightarrow> Inl Uninitialised
     | Some b \<Rightarrow> servant_resume env c b (sv\<lparr>sv_sched := (sv_sched sv)\<lparr>currentCoro := Some (Coro c)\<rparr>\<rparr>))"

fun servant_run_list ::
    "servant_body sched_env \<Rightarrow> CORO_STATUS \<Rightarrow> nat \<Rightarrow> 's Servant \<Rightarrow> (nat list \<times> 's Servant) result" where
  "servant_run_list env st 0 sv = Inr ([], sv)"
| "servant_run_list env st (Suc n) sv =
     (if list_empty st (sv_sched sv) then Inr ([], sv)
      else
        bindE (as_coro (nextp (coroLinks (sv_sched sv)) (Head st))) (\<lambda>c.
        bindE (servant_switch env c sv) (\<lambda>sv1.
        bindE (servant_run_list env st n sv1) (\<lambda>(cs, sv2). Inr (c # cs, sv2)))))"

definition servant_tars_run :: "servant_body sched_env \<Rightarrow> 's Servant \<Rightarrow> (nat list \<times> 's Servant) result" where
  "servant_tars_run env sv =
     (if terminal (sv_sched sv) then Inr ([], sv)
      else
        bindE (wakeups env (sv_sched sv)) (\<lambda>s1.
        bindE (servant_run_list env CORO_ACTIVE 100 (sv\<lparr>sv_sched := s1\<rparr>)) (\<lambda>(ran1, sv2).
        bindE (servant_run_list env CORO_AVAIL 100 sv2) (\<lambda>(ran2, sv3).
        Inr (ran1 @ ran2, sv3)))))"

text \<open>\<open>ServantHandle::run\<close> up to its loop, and its loop: \<open>others i\<close> is what other threads did before the
  \<open>i\<close>-th test of \<open>isTerminate\<close>.\<close>

definition ServantHandle_start ::
    "servant_body sched_env \<Rightarrow> 's dispatcFunc ServantHelperManager \<Rightarrow> 's Servant \<Rightarrow>
     ('s dispatcFunc ServantHelperManager \<times> 's Servant) result" where
  "ServantHandle_start env m sv =
     bindE (ServantHandle_init (sv_server sv) (sv_handle sv) m) (\<lambda>(h, m1).
     bindE (CoroutineScheduler_init env (ucast coroutineNum) (ucast coroutineStackSize) CoroutineScheduler_new) (\<lambda>s.
     bindE (createCoroutine env HandleRequest s) (\<lambda>(_, s1).
     Inr (m1, sv\<lparr>sv_handle := h, sv_sched := s1\<rparr>))))"

definition ServantHandle_finish :: "servant_body sched_env \<Rightarrow> 's Servant \<Rightarrow> 's Servant result" where
  "ServantHandle_finish env sv =
     (let s = CoroutineScheduler_terminate (sv_sched sv) in
      bindE (CoroutineScheduler_destroy (limits env) s) (\<lambda>_. Inr (sv\<lparr>sv_sched := s\<rparr>)))"

partial_function (option) ServantHandle_loop ::
    "servant_body sched_env \<Rightarrow> (nat \<Rightarrow> 's Servant \<Rightarrow> 's Servant) \<Rightarrow> nat \<Rightarrow> 's Servant \<Rightarrow> 's Servant result option" where
  "ServantHandle_loop env others i sv =
     (let sv1 = others i sv in
      if es_terminate (sv_server sv1) then Some (ServantHandle_finish env sv1)
      else
        (case servant_tars_run env sv1 of
           Inl e \<Rightarrow> Some (Inl e)
         | Inr (_, sv2) \<Rightarrow> ServantHandle_loop env others (Suc i) sv2))"

definition ServantHandle_run ::
    "servant_body sched_env \<Rightarrow> (nat \<Rightarrow> 's Servant \<Rightarrow> 's Servant) \<Rightarrow> 's dispatcFunc ServantHelperManager \<Rightarrow> 's Servant \<Rightarrow>
     's Servant result option" where
  "ServantHandle_run env others m sv =
     (case ServantHandle_start env m sv of
        Inl e \<Rightarrow> Some (Inl e)
      | Inr (m1, sv1) \<Rightarrow> ServantHandle_loop env others 0 sv1)"

section \<open>The bodies of coroutines\<close>

text \<open>What a coroutine will run, and that the operations on the scheduler leave the bodies of the
  other coroutines alone.\<close>

definition body_of :: "'c CoroutineScheduler \<Rightarrow> nat \<Rightarrow> 'c option" where
  "body_of s c = Option.bind (coroInfo s c) ci_body"

lemma body_of_info: "info_of c s = Inr i \<Longrightarrow> ci_body i = body_of s c"
  by (auto simp: info_of_def body_of_def split: option.splits)

lemma body_of_update [simp]:
  "body_of (update_info c (\<lambda>i. i\<lparr>ci_status := st\<rparr>) s) = body_of s"
  "d \<noteq> c \<Longrightarrow> body_of (update_info c f s) d = body_of s d"
  by (auto simp: body_of_def update_info_def fun_eq_iff option.map_comp Option.map_conv_bind_option split: option.splits
      intro: option.exhaust [of "coroInfo s c"])

lemma body_of_congs [simp]:
  "body_of (s\<lparr>coroLinks := h\<rparr>) = body_of s" "body_of (s\<lparr>currentCoro := x\<rparr>) = body_of s"
  "body_of (s\<lparr>clockReads := n\<rparr>) = body_of s" "body_of (s\<lparr>timeoutCoroId := ts\<rparr>) = body_of s"
  "body_of (s\<lparr>needActiveCoroId := is\<rparr>) = body_of s" "body_of (s\<lparr>activeCoroQueue := q\<rparr>) = body_of s"
  "body_of (s\<lparr>usedSize := u\<rparr>) = body_of s" "body_of (s\<lparr>currentSize := u\<rparr>) = body_of s"
  "body_of (s\<lparr>newCoros := n\<rparr>) = body_of s" "body_of (s\<lparr>uniqId := u\<rparr>) = body_of s"
  "body_of (s\<lparr>allCoro := a\<rparr>) = body_of s"
  by (simp_all add: body_of_def fun_eq_iff)

lemma moveTo_body: "moveTo c st s = Inr s' \<Longrightarrow> body_of s' = body_of s"
  by (auto simp: moveTo_def result_simps)

lemma move_bodies:
  "moveToActive c s = Inr s' \<Longrightarrow> body_of s' = body_of s"
  "moveToAvail c s = Inr s' \<Longrightarrow> body_of s' = body_of s"
  "moveToInactive c s = Inr s' \<Longrightarrow> body_of s' = body_of s"
  "moveToFreeList c s = Inr s' \<Longrightarrow> body_of s' = body_of s"
  by (auto simp: moveToActive_def moveToAvail_def moveToInactive_def moveToFreeList_def result_simps
      dest: moveTo_body split: if_splits)


lemma wake_bodies:
  assumes "\<And>c s s'. move c s = Inr s' \<Longrightarrow> body_of s' = body_of s"
  shows "fold_result (move_id move) ids s = Inr s' \<Longrightarrow> body_of s' = body_of s"
proof (induction ids arbitrary: s)
  case (Cons i ids)
  then obtain s1 where "move_id move i s = Inr s1" "fold_result (move_id move) ids s1 = Inr s'" by (auto simp: result_simps)
  with Cons.IH assms show ?case by (fastforce simp: move_id_def result_simps)
qed simp

lemma wakeup_expired_body: "wakeup_expired now ts s = Inr s' \<Longrightarrow> body_of s' = body_of s"
  by (induction now ts s rule: wakeup_expired.induct)
    (auto simp: result_simps move_id_def move_bodies split: if_splits)

lemma wakeups_body:
  assumes "wakeups env s = Inr s'"
  shows "body_of s' = body_of s"
proof -
  obtain s1 s2 where s: "wakeupbytimeout env s = Inr s1" "wakeupbyself s1 = Inr s2" "wakeup s2 = Inr s'"
    using assms by (auto simp: wakeups_def result_simps)
  have "body_of s1 = body_of s" using s(1) wakeup_expired_body
    by (fastforce simp: wakeupbytimeout_def Let_def split: if_splits)
  moreover have "body_of s2 = body_of s1" using s(2) wake_bodies [OF move_bodies(2)]
    by (fastforce simp: wakeupbyself_def result_simps split: if_splits)
  moreover have "body_of s' = body_of s2"
  proof (cases "terminal s2 \<or> td_size (activeCoroQueue s2) = 0")
    case False
    then obtain ids d where "fold_result (move_id moveToActive) ids (s2\<lparr>activeCoroQueue := d\<rparr>) = Inr s'"
      using s(3) by (auto simp: wakeup_def split: prod.splits)
    from wake_bodies [OF move_bodies(1) this] show ?thesis by simp
  qed (use s(3) in \<open>auto simp: wakeup_def split: if_splits\<close>)
  ultimately show ?thesis by simp
qed

lemma moveToInactive_keeps:
  assumes "moveToInactive c s = Inr s'"
  shows "steady s s'"
  using assms by (auto simp: moveToInactive_def moveTo_def result_simps split: if_splits)

lemma yield_body:
  assumes "CoroutineScheduler_yield flag rest c s = Inr s'" and "coroInfo s c = Some i"
  shows "d \<noteq> c \<Longrightarrow> body_of s' d = body_of s d" "coroInfo s' c \<noteq> None \<Longrightarrow> body_of s' c = Some rest"
    "needActiveCoroId s' = needActiveCoroId (if flag then putbyself (ci_uid i) s else s)"
    "timeoutCoroId s' = timeoutCoroId s" "activeCoroQueue s' = activeCoroQueue s" "poolSize s' = poolSize s"
    "usedSize s' = usedSize s" "allCoro s' = allCoro s"
proof -
  let ?s1 = "if flag then putbyself (ci_uid i) s else s"
  obtain s2 where s2: "moveToInactive c ?s1 = Inr s2"
    "s' = update_info c (\<lambda>i. i\<lparr>ci_body := Some rest\<rparr>) s2\<lparr>currentCoro := Some MainCoro\<rparr>"
    using assms by (auto simp: CoroutineScheduler_yield_def result_simps Let_def info_of_def)
  have b: "body_of ?s1 = body_of s" by (simp add: putbyself_def)
  show "d \<noteq> c \<Longrightarrow> body_of s' d = body_of s d" using s2(2) move_bodies(3) [OF s2(1)] b by simp
  show "coroInfo s' c \<noteq> None \<Longrightarrow> body_of s' c = Some rest" using s2(2) by (auto simp: update_info_def body_of_def)
  note f = steady_fields [OF moveToInactive_keeps [OF s2(1)]]
  show "needActiveCoroId s' = needActiveCoroId (if flag then putbyself (ci_uid i) s else s)"
    "timeoutCoroId s' = timeoutCoroId s" "activeCoroQueue s' = activeCoroQueue s" "poolSize s' = poolSize s"
    "usedSize s' = usedSize s" "allCoro s' = allCoro s"
    using s2(2) f by (simp_all add: update_info_def putbyself_def)
qed

lemma proc_end_body:
  assumes "corotineProc_end c s = Inr s'"
  shows "d \<noteq> c \<Longrightarrow> body_of s' d = body_of s d" "needActiveCoroId s' = needActiveCoroId s"
    "timeoutCoroId s' = timeoutCoroId s" "activeCoroQueue s' = activeCoroQueue s" "poolSize s' = poolSize s"
    "usedSize s' = usedSize s - 1" "clockReads s' = clockReads s" "allCoro s' = allCoro s"
  using assms
  by (auto simp: corotineProc_end_def result_simps Let_def info_of_def moveToFreeList_def moveTo_def update_info_def
      body_of_def split: if_splits option.splits)

lemma increase_body:
  "increase_loop env n k s = Inr (m, s') \<Longrightarrow> d < newCoros s \<Longrightarrow> body_of s' d = body_of s d"
proof (induction env n k s arbitrary: m s' rule: increase_loop.induct)
  case (2 env n k s)
  then show ?case
    by (auto simp: result_simps Let_def CoroutineScheduler_generateId_def assertE_def add_free_def body_of_def
        split: option.splits if_splits)
qed simp

lemma take_free_body:
  assumes "take_free b s = Inr (u, s')" and "nextp (coroLinks s) (Head CORO_FREE) \<noteq> Some (Coro d)"
  shows "body_of s' d = body_of s d"
  using assms by (auto simp: take_free_def result_simps Let_def as_coro_def registerFunc_def update_info_def info_of_def body_of_def
      split: option.splits coro_ptr.splits)


lemma take_free_others:
  assumes rel: "sched_rel s L" and t: "take_free b s = Inr (u, s')" and free: "L CORO_FREE = c # cs"
    and d: "d \<in> set (L st)" "st \<noteq> CORO_FREE"
  shows "body_of s' d = body_of s d"
proof (rule take_free_body [OF t])
  have "c \<noteq> d" using in_one_list [OF rel_disjoint [OF rel] d(1), of CORO_FREE] d(2) free by auto
  then show "nextp (coroLinks s) (Head CORO_FREE) \<noteq> Some (Coro d)"
    using core_first [OF rel_core [OF rel] free] by (auto simp: as_coro_def split: option.splits coro_ptr.splits)
qed

lemma createCoroutine_others:
  assumes rel: "sched_rel s L" and env: "env_ok env (stackSize s)" and c: "createCoroutine env b s = Inr (u, s')"
    and u: "u \<noteq> 0" and d: "d \<in> set (L st)" "st \<noteq> CORO_FREE"
  shows "body_of s' d = body_of s d"
proof -
  have guard: "currentSize s \<le> usedSize s \<or> list_empty CORO_FREE s \<longleftrightarrow> L CORO_FREE = []"
    using rel core_empty [OF rel_core [OF rel], of CORO_FREE] 
    by (cases "L CORO_FREE") (simp_all add: sched_rel_def word_le_nat_alt)
  show ?thesis
  proof (cases "L CORO_FREE")
    case (Cons x xs)
    with guard c have "take_free b s = Inr (u, s')" by (simp add: createCoroutine_def)
    then show ?thesis by (rule take_free_others [OF rel _ Cons d])
  next
    case Nil
    then obtain s1 where s1: "increaseCoroPoolSize env s = Inr (True, s1)" "take_free b s1 = Inr (u, s')"
      using guard c u by (auto simp: createCoroutine_def result_simps split: if_splits)
    moreover have "currentSize s \<noteq> poolSize s" using s1(1) by (auto simp: increaseCoroPoolSize_def)
    ultimately obtain new where n: "sched_rel s1 (L(CORO_FREE := L CORO_FREE @ new))" "new \<noteq> []"
      using increase_ok [OF rel env] by auto
    then obtain x xs where x: "(L(CORO_FREE := L CORO_FREE @ new)) CORO_FREE = x # xs" using Nil by (cases new) auto
    have "d \<in> set ((L(CORO_FREE := L CORO_FREE @ new)) st)" using d by simp
    from take_free_others [OF n(1) s1(2) x this d(2)] have "body_of s' d = body_of s1 d" .
    moreover have "d < newCoros s" using core_member [OF rel_core [OF rel] d(1)] by (auto simp: coro_ok_def)
    then have "body_of s1 d = body_of s d" using s1(1) increase_body
      by (fastforce simp: increaseCoroPoolSize_def Let_def result_simps split: if_splits)
    ultimately show ?thesis by simp
  qed
qed

lemma add_free_pool: "add_free c i ctx s = Inr s' \<Longrightarrow> poolSize s' = poolSize s"
  by (auto simp: add_free_def result_simps split: if_splits)

lemma increase_pool: "increase_loop env n k s = Inr (m, s') \<Longrightarrow> poolSize s' = poolSize s"
proof (induction n arbitrary: k s)
  case (Suc n)
  define s2 where "s2 = s\<lparr>newCoros := Suc (newCoros s), uniqId := increment_nonzero (uniqId s)\<rparr>"
  obtain ret where "allocate (limits env) (mmap env (newCoros s)) (stackSize s) = Inr ret"
    "(case ret of None \<Rightarrow> Inr (k, s2)
      | Some ctx \<Rightarrow> bindE (add_free (newCoros s) (increment_nonzero (uniqId s)) ctx s2) (increase_loop env n (Suc k))) = Inr (m, s')"
    using Suc.prems unfolding s2_def by (auto simp: result_simps Let_def CoroutineScheduler_generateId_def assertE_def split: if_splits)
  moreover have "poolSize s2 = poolSize s" by (simp add: s2_def)
  ultimately show ?case using Suc.IH add_free_pool by (fastforce simp: result_simps split: option.splits)
qed simp

lemma take_free_pool: "take_free b s = Inr (u, s') \<Longrightarrow> poolSize s' = poolSize s"
  by (auto simp: take_free_def registerFunc_def update_info_def Let_def result_simps)

lemma createCoroutine_pool:
  assumes "createCoroutine env b s = Inr (u, s')"
  shows "poolSize s' = poolSize s"
proof (cases "currentSize s \<le> usedSize s \<or> list_empty CORO_FREE s")
  case True
  then obtain ok s1 where s1: "increaseCoroPoolSize env s = Inr (ok, s1)" "(if ok then take_free b s1 else Inr (0, s1)) = Inr (u, s')"
    using assms by (auto simp: createCoroutine_def result_simps)
  have "poolSize s1 = poolSize s" using s1(1) increase_pool
    by (fastforce simp: increaseCoroPoolSize_def Let_def result_simps split: if_splits)
  then show ?thesis using s1(2) take_free_pool by (fastforce split: if_splits)
qed (use assms take_free_pool in \<open>auto simp: createCoroutine_def\<close>)

lemma createCoroutine_serves:
  assumes rel: "sched_rel s L" and env: "env_ok env (stackSize s)" and room: "unat (usedSize s) < unat (poolSize s)"
  obtains u c L' s' where "createCoroutine env b s = Inr (u, s')" "sched_rel s' L'" "L' CORO_AVAIL = L CORO_AVAIL @ [c]"
    "\<And>st. st \<noteq> CORO_FREE \<Longrightarrow> st \<noteq> CORO_AVAIL \<Longrightarrow> L' st = L st" "body_of s' c = Some b"
    "\<And>d st. d \<in> set (L st) \<Longrightarrow> st \<noteq> CORO_FREE \<Longrightarrow> body_of s' d = body_of s d"
    "unat (usedSize s') = Suc (unat (usedSize s))" "poolSize s' = poolSize s"
    "stackSize s' = stackSize s" "terminal s' = terminal s" "clockReads s' = clockReads s" "needActiveCoroId s' = needActiveCoroId s"
    "timeoutCoroId s' = timeoutCoroId s" "activeCoroQueue s' = activeCoroQueue s"
proof -
  have tot: "unat (currentSize s) = lists_total L" "unat (usedSize s) + length (L CORO_FREE) = lists_total L"
    using rel by (auto simp: sched_rel_def)
  have ne: "\<not> (L CORO_FREE = [] \<and> currentSize s = poolSize s)" using tot room by auto
  obtain u c new s' where c: "createCoroutine env b s = Inr (u, s')"
    "sched_rel s' (lists_move c CORO_FREE CORO_AVAIL (L(CORO_FREE := L CORO_FREE @ new)))"
    "c \<in> set ((L(CORO_FREE := L CORO_FREE @ new)) CORO_FREE)"
    "u \<noteq> 0" "map_option ci_body (coroInfo s' c) = Some (Some b)"
    "stackSize s' = stackSize s" "terminal s' = terminal s" "clockReads s' = clockReads s" "needActiveCoroId s' = needActiveCoroId s"
    "timeoutCoroId s' = timeoutCoroId s" "activeCoroQueue s' = activeCoroQueue s"
    using createCoroutine_ok [OF rel env, of b] unfolding if_not_P [OF ne] by blast
  define L' where "L' = lists_move c CORO_FREE CORO_AVAIL (L(CORO_FREE := L CORO_FREE @ new))"
  have L': "L' CORO_AVAIL = L CORO_AVAIL @ [c]" "\<And>st. st \<noteq> CORO_FREE \<Longrightarrow> st \<noteq> CORO_AVAIL \<Longrightarrow> L' st = L st"
    by (simp_all add: L'_def lists_move_def Let_def)
  have "unat (usedSize s') + length (L' CORO_FREE) = lists_total L'" using c(2) by (simp add: sched_rel_def L'_def)
  moreover have "length (L' CORO_FREE) + 1 = length (L CORO_FREE @ new)"
    using c(3) lists_move_length [of c "L(CORO_FREE := L CORO_FREE @ new)" CORO_FREE CORO_AVAIL CORO_FREE] by (simp add: L'_def)
  moreover have "lists_total L' = lists_total L + length new"
    using c(3) lists_move_total [of c "L(CORO_FREE := L CORO_FREE @ new)" CORO_FREE CORO_AVAIL] by (simp add: L'_def lists_total_def)
  ultimately have used: "unat (usedSize s') = Suc (unat (usedSize s))" using tot by simp
  have "body_of s' c = Some b" using c(5) by (auto simp: body_of_def)
  then show thesis
    using that [of u s' L' c] c(1) c(2) [folded L'_def] L' createCoroutine_others [OF rel env c(1,4)] used
      createCoroutine_pool [OF c(1)] c(6-11) by blast
qed

section \<open>Taking requests off the queues\<close>

text \<open>What the rest of the thread sees of a scheduler besides its lists.\<close>

definition same_waits :: "'c CoroutineScheduler \<Rightarrow> 'c CoroutineScheduler \<Rightarrow> bool" where
  "same_waits s s' \<longleftrightarrow>
     poolSize s' = poolSize s \<and> stackSize s' = stackSize s \<and> terminal s' = terminal s \<and>
     needActiveCoroId s' = needActiveCoroId s \<and> timeoutCoroId s' = timeoutCoroId s \<and> activeCoroQueue s' = activeCoroQueue s"

text \<open>From \<open>s\<close> to \<open>s'\<close> the coroutines \<open>cs\<close> with the bodies \<open>bs\<close> were made, and nothing else.\<close>

definition spawned ::
    "'c CoroutineScheduler \<Rightarrow> coro_lists \<Rightarrow> 'c CoroutineScheduler \<Rightarrow> coro_lists \<Rightarrow> nat list \<Rightarrow> 'c list \<Rightarrow> bool" where
  "spawned s L s' L' cs bs \<longleftrightarrow>
     sched_rel s' L' \<and> L' CORO_AVAIL = L CORO_AVAIL @ cs \<and>
     (\<forall>st. st \<noteq> CORO_FREE \<longrightarrow> st \<noteq> CORO_AVAIL \<longrightarrow> L' st = L st) \<and>
     map (body_of s') cs = map Some bs \<and>
     (\<forall>d st. d \<in> set (L st) \<longrightarrow> st \<noteq> CORO_FREE \<longrightarrow> body_of s' d = body_of s d) \<and>
     unat (usedSize s') = unat (usedSize s) + length bs \<and> same_waits s s'"

lemma spawned_refl: "sched_rel s L \<Longrightarrow> spawned s L s L [] []"
  by (simp add: spawned_def same_waits_def)

lemma spawned_trans:
  assumes 1: "spawned s L s1 L1 cs bs" and 2: "spawned s1 L1 s2 L2 cs' bs'"
  shows "spawned s L s2 L2 (cs @ cs') (bs @ bs')"
proof -
  have keep: "body_of s2 d = body_of s1 d" if "d \<in> set (L1 st)" "st \<noteq> CORO_FREE" for d st
    using 2 that by (auto simp: spawned_def)
  have "set cs \<subseteq> set (L1 CORO_AVAIL)" using 1 by (simp add: spawned_def)
  then have "map (body_of s2) cs = map (body_of s1) cs" using keep [of _ CORO_AVAIL] by (auto intro: map_cong)
  then have "map (body_of s2) cs = map Some bs" using 1 unfolding spawned_def by metis
  moreover have "body_of s2 d = body_of s d" if d: "d \<in> set (L st)" "st \<noteq> CORO_FREE" for d st
  proof -
    have "d \<in> set (L1 st)" using 1 d by (cases "st = CORO_AVAIL") (auto simp: spawned_def)
    with keep [OF this d(2)] 1 d show ?thesis by (auto simp: spawned_def)
  qed
  ultimately show ?thesis using 1 2 by (simp add: spawned_def same_waits_def)
qed

lemma spawn_one:
  assumes "sched_rel s L" and "env_ok env (stackSize s)" and "unat (usedSize s) < unat (poolSize s)"
  obtains u c s' L' where "createCoroutine env b s = Inr (u, s')" "spawned s L s' L' [c] [b]"
  by (rule createCoroutine_serves [OF assms, of b]) (auto simp: spawned_def same_waits_def)

text \<open>The requests of the adapters' queues in the order of the adapters, and the queues without them.
  A message that says the connection was closed is no request.\<close>

definition queue_of :: "World \<Rightarrow> nat \<Rightarrow> tagRecvData list" where
  "queue_of w i = td_deque (ba_receiveBuffer (w_adapters w ! i))"

definition requests_of :: "nat \<Rightarrow> tagRecvData list \<Rightarrow> tagRecvData list" where
  "requests_of i q = map (\<lambda>r. r\<lparr>rd_adapter := Some i\<rparr>) (filter (\<lambda>r. \<not> rd_closed r) q)"

fun take_requests :: "(string \<times> nat) list \<Rightarrow> World \<Rightarrow> tagRecvData list \<times> World" where
  "take_requests [] w = ([], w)"
| "take_requests ((name, i) # rest) w =
     (let (rs, w') = take_requests rest (skip_messages (length (queue_of w i)) i w)
      in (requests_of i (queue_of w i) @ rs, w'))"

definition queues_ok :: "(string \<times> nat) list \<Rightarrow> World \<Rightarrow> bool" where
  "queues_ok adapters w \<longleftrightarrow>
     (\<forall>(name, i) \<in> set adapters. i < length (w_adapters w) \<and> ThreadDeque_inv (ba_receiveBuffer (w_adapters w ! i)) \<and>
        length (queue_of w i) \<le> 100)"

lemma skip_skip:
  assumes "i < length (w_adapters w)"
  shows "skip_messages m i (skip_messages n i w) = skip_messages (n + m) i w"
  using assms by (simp add: skip_messages_def put_adapter_def Let_def add.commute)

lemma skip_all_idle:
  assumes "i < length (w_adapters w)" and "ThreadDeque_inv (ba_receiveBuffer (w_adapters w ! i))" and "queue_of w i = []"
  shows "skip_messages n i w = w"
proof -
  let ?a = "w_adapters w ! i"
  have "ba_receiveBuffer ?a = \<lparr>td_deque = [], td_size = 0\<rparr>"
    using assms(2,3) by (simp add: ThreadDeque_inv_def queue_of_def)
  then have "?a\<lparr>ba_receiveBuffer := \<lparr>td_deque = [], td_size = 0\<rparr>\<rparr> = ?a" by simp
  then show ?thesis using assms by (simp add: skip_messages_def put_adapter_def queue_of_def)
qed

lemma poll_adapter_Suc:
  assumes "i < length (w_adapters w)" and "ThreadDeque_inv (ba_receiveBuffer (w_adapters w ! i))"
  shows "poll_adapter env (Suc n) i s w =
    (case queue_of w i of
       [] \<Rightarrow> Inr (False, s, skip_messages 1 i w)
     | r # _ \<Rightarrow>
         if rd_closed r then poll_adapter env n i s (skip_messages 1 i w)
         else bindE (createCoroutine env (Handle (r\<lparr>rd_adapter := Some i\<rparr>)) s)
           (\<lambda>(_, s1). poll_adapter env n i s1 (skip_messages 1 i w)))"
  using poll_adapter_step [OF assms] by (cases "queue_of w i") (simp_all add: queue_of_def Let_def)

lemma poll_adapter_spawns:
  assumes "sched_rel s L" and "env_ok env (stackSize s)" and "i < length (w_adapters w)"
    and "ThreadDeque_inv (ba_receiveBuffer (w_adapters w ! i))" and "length (queue_of w i) \<le> n"
    and "unat (usedSize s) + length (requests_of i (queue_of w i)) \<le> unat (poolSize s)"
  shows "\<exists>s' L' cs. poll_adapter env n i s w = Inr (False, s', skip_messages (length (queue_of w i)) i w) \<and>
    spawned s L s' L' cs (map Handle (requests_of i (queue_of w i)))"
  using assms
proof (induction n arbitrary: s L w)
  case 0
  then have q: "queue_of w i = []" by simp
  show ?case using spawned_refl [OF 0(1)] skip_all_idle [OF 0(3,4) q]
    by (intro exI [of _ s] exI [of _ L] exI [of _ "[]"]) (simp add: q requests_of_def)
next
  case (Suc n)
  note step = poll_adapter_Suc [OF Suc.prems(3,4)] and skip = skip_messages_facts [OF Suc.prems(3), of 1]
  let ?w = "skip_messages 1 i w"
  show ?case
  proof (cases "queue_of w i")
    case Nil
    show ?thesis using skip_all_idle [OF Suc.prems(3,4) Nil] spawned_refl [OF Suc.prems(1)]
      by (intro exI [of _ s] exI [of _ L] exI [of _ "[]"]) (simp add: step Nil requests_of_def del: poll_adapter.simps)
  next
    case (Cons r q)
    have q: "queue_of ?w i = q" using skip(2) Cons by (simp add: queue_of_def)
    have len: "length (queue_of ?w i) \<le> n" using Suc.prems(5) Cons q by simp
    have skips: "skip_messages (length q) i ?w = skip_messages (length (queue_of w i)) i w"
      unfolding skip_skip [OF Suc.prems(3)] Cons by simp
    note IH = Suc.IH [OF _ _ skip(1,3) len, unfolded q skips]
    show ?thesis
    proof (cases "rd_closed r")
      case True
      then have r: "requests_of i (queue_of w i) = requests_of i q" using Cons by (simp add: requests_of_def)
      have p: "poll_adapter env (Suc n) i s w = poll_adapter env n i s ?w" using True by (simp only: step Cons list.case if_True)
      show ?thesis unfolding p r by (rule IH [OF Suc.prems(1,2)]) (use Suc.prems(6) r in simp)
    next
      case False
      let ?b = "Handle (r\<lparr>rd_adapter := Some i\<rparr>)"
      have r: "requests_of i (queue_of w i) = r\<lparr>rd_adapter := Some i\<rparr> # requests_of i q"
        using Cons False by (simp add: requests_of_def)
      then have "unat (usedSize s) < unat (poolSize s)" using Suc.prems(6) by simp
      then obtain u c s1 L1 where s1: "createCoroutine env ?b s = Inr (u, s1)" "spawned s L s1 L1 [c] [?b]"
        by (rule spawn_one [OF Suc.prems(1,2)])
      have f: "sched_rel s1 L1" "env_ok env (stackSize s1)"
        "unat (usedSize s1) + length (requests_of i q) \<le> unat (poolSize s1)"
        using s1(2) Suc.prems(2,6) r by (simp_all add: spawned_def same_waits_def)
      obtain s' L' cs where s': "poll_adapter env n i s1 ?w = Inr (False, s', skip_messages (length (queue_of w i)) i w)"
        "spawned s1 L1 s' L' cs (map Handle (requests_of i q))" using IH [OF f] by blast
      have "poll_adapter env (Suc n) i s w = Inr (False, s', skip_messages (length (queue_of w i)) i w)"
        using False s1(1) s'(1) by (simp only: step Cons list.case if_False bindE.simps prod.case)
      then show ?thesis using spawned_trans [OF s1(2) s'(2)] r
        by (intro exI [of _ s'] exI [of _ L'] exI [of _ "[c] @ cs"]) (simp del: poll_adapter.simps)
    qed
  qed
qed

lemma queues_ok_skip:
  assumes "queues_ok adapters w" and "i < length (w_adapters w)"
  shows "queues_ok adapters (skip_messages n i w)"
proof -
  have "j < length (w_adapters (skip_messages n i w)) \<and> ThreadDeque_inv (ba_receiveBuffer (w_adapters (skip_messages n i w) ! j)) \<and>
      length (queue_of (skip_messages n i w) j) \<le> 100"
    if "j < length (w_adapters w)" "ThreadDeque_inv (ba_receiveBuffer (w_adapters w ! j))" "length (queue_of w j) \<le> 100" for j
    using that assms(2)
    by (cases "j = i") (auto simp: skip_messages_def put_adapter_def queue_of_def Let_def ThreadDeque_inv_def)
  then show ?thesis using assms(1) by (auto simp: queues_ok_def)
qed

lemma poll_adapters_spawns:
  assumes "sched_rel s L" and "env_ok env (stackSize s)" and "queues_ok adapters w"
    and "unat (usedSize s) + length (fst (take_requests adapters w)) \<le> unat (poolSize s)"
  shows "\<exists>s' L' cs. poll_adapters env adapters False s w = Inr (False, s', snd (take_requests adapters w)) \<and>
    spawned s L s' L' cs (map Handle (fst (take_requests adapters w)))"
  using assms
proof (induction adapters arbitrary: s L w)
  case Nil
  then show ?case using spawned_refl by fastforce
next
  case (Cons a rest)
  obtain name i where a: "a = (name, i)" by (cases a)
  have i: "i < length (w_adapters w)" "ThreadDeque_inv (ba_receiveBuffer (w_adapters w ! i))" "length (queue_of w i) \<le> 100"
    and rest: "queues_ok rest w" using Cons.prems(3) by (simp_all add: a queues_ok_def)
  let ?w = "skip_messages (length (queue_of w i)) i w"
  obtain s1 L1 cs1 where s1: "poll_adapter env 100 i s w = Inr (False, s1, ?w)"
    "spawned s L s1 L1 cs1 (map Handle (requests_of i (queue_of w i)))"
    using poll_adapter_spawns [OF Cons.prems(1,2) i] Cons.prems(4) by (auto simp: a split_beta)
  then have f: "sched_rel s1 L1" "stackSize s1 = stackSize s" "poolSize s1 = poolSize s"
    "unat (usedSize s1) = unat (usedSize s) + length (requests_of i (queue_of w i))"
    by (simp_all add: spawned_def same_waits_def)
  have "env_ok env (stackSize s1)" "unat (usedSize s1) + length (fst (take_requests rest ?w)) \<le> unat (poolSize s1)"
    using Cons.prems(2,4) f(2-4) by (simp_all add: a split_beta)
  then obtain s' L' cs where s': "poll_adapters env rest False s1 ?w = Inr (False, s', snd (take_requests rest ?w))"
    "spawned s1 L1 s' L' cs (map Handle (fst (take_requests rest ?w)))"
    using Cons.IH [OF f(1) _ queues_ok_skip [OF rest i(1)]] by blast
  show ?case using s1(1) s'(1) spawned_trans [OF s1(2) s'(2)]
    by (intro exI [of _ s'] exI [of _ L'] exI [of _ "cs1 @ cs"]) (simp add: a split_beta)
qed

section \<open>Running the handlers\<close>

lemma sched_rel_current:
  assumes rel: "sched_rel s L"
  shows "sched_rel (s\<lparr>currentCoro := cc\<rparr>) L"
  using rel_waking [OF rel] rel_timers [OF rel] rel_queue [OF rel]
  by (intro rel_update_waiting [OF rel]) (auto simp: waking_ids_def)

text \<open>From \<open>s\<close> to \<open>s'\<close> coroutines of \<open>avail_\<close> ended, and nothing else.\<close>

definition retired :: "'c CoroutineScheduler \<Rightarrow> coro_lists \<Rightarrow> 'c CoroutineScheduler \<Rightarrow> coro_lists \<Rightarrow> bool" where
  "retired s L s' L' \<longleftrightarrow>
     sched_rel s' L' \<and> L' CORO_AVAIL = [] \<and> (\<forall>st. st \<noteq> CORO_FREE \<longrightarrow> st \<noteq> CORO_AVAIL \<longrightarrow> L' st = L st) \<and>
     (\<forall>d st. d \<in> set (L st) \<longrightarrow> st \<noteq> CORO_FREE \<longrightarrow> st \<noteq> CORO_AVAIL \<longrightarrow> body_of s' d = body_of s d) \<and>
     same_waits s s' \<and> clockReads s' = clockReads s \<and> allCoro s' = allCoro s"

lemma retire_one:
  assumes rel: "sched_rel s L" and c: "L CORO_AVAIL = c # cs"
  obtains s' L' where "corotineProc_end c s = Inr s'" "sched_rel s' L'" "L' CORO_AVAIL = cs"
    "\<And>st. st \<noteq> CORO_FREE \<Longrightarrow> st \<noteq> CORO_AVAIL \<Longrightarrow> L' st = L st" "\<And>d. d \<noteq> c \<Longrightarrow> body_of s' d = body_of s d"
    "same_waits s s'" "clockReads s' = clockReads s" "allCoro s' = allCoro s"
proof -
  obtain s' where s': "corotineProc_end c s = Inr s'" "sched_rel s' (lists_move c CORO_AVAIL CORO_FREE L)"
    "stackSize s' = stackSize s" "terminal s' = terminal s"
    using proc_end_ok [OF rel, of c CORO_AVAIL] c by auto
  show thesis
    by (rule that [OF s'(1,2)]) (use proc_end_body [OF s'(1)] s'(3,4) c in \<open>simp_all add: lists_move_def Let_def same_waits_def\<close>)
qed

lemma run_handlers:
  assumes "sched_rel (sv_sched sv) L" and "map (body_of (sv_sched sv)) (L CORO_AVAIL) = map Some (map Handle rs)"
    and "length rs \<le> n" and "fold_result (handle_caught (sv_handle sv)) rs (sv_server sv, sv_world sv, sv_state sv) = Inr (es, w, st)"
  shows "\<exists>s' L'. servant_run_list env CORO_AVAIL n sv =
      Inr (L CORO_AVAIL, sv\<lparr>sv_sched := s', sv_server := es, sv_world := w, sv_state := st\<rparr>) \<and>
    retired (sv_sched sv) L s' L'"
  using assms
proof (induction rs arbitrary: sv L n)
  case Nil
  then have e: "L CORO_AVAIL = []" by simp
  moreover have "list_empty CORO_AVAIL (sv_sched sv)" using core_empty [OF rel_core [OF Nil(1)]] e by simp
  ultimately show ?case using Nil(1,4) 
    by (intro exI [of _ "sv_sched sv"] exI [of _ L]) (cases n; simp add: retired_def same_waits_def)
next
  case (Cons r rs)
  obtain c cs where c: "L CORO_AVAIL = c # cs" "body_of (sv_sched sv) c = Some (Handle r)"
    "map (body_of (sv_sched sv)) cs = map Some (map Handle rs)" using Cons.prems(2) by (cases "L CORO_AVAIL") auto
  obtain m where m: "n = Suc m" "length rs \<le> m" using Cons.prems(3) by (cases n) auto
  obtain es1 w1 st1 where h: "handle_caught (sv_handle sv) r (sv_server sv, sv_world sv, sv_state sv) = Inr (es1, w1, st1)"
    "fold_result (handle_caught (sv_handle sv)) rs (es1, w1, st1) = Inr (es, w, st)"
    using Cons.prems(4) by (auto simp: result_simps)
  let ?s = "(sv_sched sv)\<lparr>currentCoro := Some (Coro c)\<rparr>"
  have core: "sched_core (sv_sched sv) L" by (rule rel_core [OF Cons.prems(1)])
  obtain s1 L1 where s1: "corotineProc_end c ?s = Inr s1" "sched_rel s1 L1" "L1 CORO_AVAIL = cs"
    "\<And>st. st \<noteq> CORO_FREE \<Longrightarrow> st \<noteq> CORO_AVAIL \<Longrightarrow> L1 st = L st" "\<And>d. d \<noteq> c \<Longrightarrow> body_of s1 d = body_of ?s d"
    "same_waits ?s s1" "clockReads s1 = clockReads ?s" "allCoro s1 = allCoro ?s"
    using retire_one [OF sched_rel_current [OF Cons.prems(1)] c(1)] by metis
  let ?sv = "sv\<lparr>sv_sched := s1, sv_server := es1, sv_world := w1, sv_state := st1\<rparr>"
  obtain i where "info_of c (sv_sched sv) = Inr i" using core_info [OF core, of c CORO_AVAIL] c(1) by auto
  then have sw: "servant_switch env c sv = Inr ?sv"
    using c(2) h(1) s1(1) by (simp add: servant_switch_def servant_resume_def body_of_info)
  have dj: "lists_disjoint L" by (rule core_disjoint [OF core])
  have other: "d \<noteq> c" if "d \<in> set (L st')" "st' \<noteq> CORO_AVAIL" for d st'
    using in_one_list [OF dj that(1), of CORO_AVAIL] that(2) c(1) by auto
  have "distinct (c # cs)" using dj c(1) unfolding lists_disjoint_def by metis
  then have "body_of s1 d = body_of (sv_sched sv) d" if "d \<in> set cs" for d using s1(5) [of d] that by auto
  then have "map (body_of s1) cs = map (body_of (sv_sched sv)) cs" by simp
  then have "map (body_of s1) cs = map Some (map Handle rs)" unfolding c(3) .
  then obtain s' L' where s': "servant_run_list env CORO_AVAIL m ?sv =
      Inr (cs, ?sv\<lparr>sv_sched := s', sv_server := es, sv_world := w, sv_state := st\<rparr>)" "retired s1 L1 s' L'"
    using Cons.IH [of ?sv L1 m] s1(2,3) m(2) h(2) by auto
  have "\<not> list_empty CORO_AVAIL (sv_sched sv)" using core_empty [OF core, of CORO_AVAIL] c(1) by simp
  then have "servant_run_list env CORO_AVAIL n sv = Inr (L CORO_AVAIL, ?sv\<lparr>sv_sched := s', sv_server := es, sv_world := w, sv_state := st\<rparr>)"
    using core_first [OF core c(1)] sw s'(1) c(1) m(1) by simp
  moreover have "body_of s' d = body_of (sv_sched sv) d" if "d \<in> set (L st')" "st' \<noteq> CORO_FREE" "st' \<noteq> CORO_AVAIL" for d st'
  proof -
    have "body_of s' d = body_of s1 d" using s'(2) s1(4) [OF that(2,3)] that unfolding retired_def by metis
    then show ?thesis using s1(5) [OF other [OF that(1,3)]] by simp
  qed
  ultimately have "servant_run_list env CORO_AVAIL n sv = Inr (L CORO_AVAIL, ?sv\<lparr>sv_sched := s', sv_server := es, sv_world := w, sv_state := st\<rparr>) \<and>
    retired (sv_sched sv) L s' L'" using s'(2) s1(4,6-8) by (simp add: retired_def same_waits_def)
  then show ?case by (intro exI [of _ s'] exI [of _ L']) simp
qed

section \<open>A turn of the thread\<close>

text \<open>What a turn should do, without coroutines: send the heartbeats that are due, take the requests off the
  queues and handle them one after the other.\<close>

definition serve_pending :: "int \<Rightarrow> (string \<times> nat) list \<Rightarrow> 's Servant \<Rightarrow> 's Servant result" where
  "serve_pending cur adapters sv =
     bindE (heartbeat_adapters cur adapters (sv_node sv) (sv_world sv)) (\<lambda>(out, node, w).
     let (rs, w1) = take_requests adapters w in
     bindE (fold_result (handle_caught (sv_handle sv)) rs (sv_server sv, w1, sv_state sv)) (\<lambda>(es, w2, st).
     Inr (sv\<lparr>sv_server := es, sv_world := w2, sv_state := st, sv_node := node, sv_beats := sv_beats sv @ out\<rparr>)))"

text \<open>A scheduler between two turns: the coroutine of \<open>handleRequest\<close> is new, or has yielded, and no other
  is in use.\<close>

definition idle_sched :: "servant_body CoroutineScheduler \<Rightarrow> nat \<Rightarrow> bool" where
  "idle_sched s p \<longleftrightarrow>
     (\<exists>L. sched_rel s L \<and> \<not> terminal s \<and> td_deque (activeCoroQueue s) = [] \<and> timeoutCoroId s = [] \<and>
        L CORO_ACTIVE = [] \<and> L CORO_TIMEOUT = [] \<and> body_of s p = Some HandleRequest \<and>
        (L CORO_AVAIL = [p] \<and> L CORO_INACTIVE = [] \<and> needActiveCoroId s = [] \<or>
         L CORO_AVAIL = [] \<and> L CORO_INACTIVE = [p] \<and> (\<exists>u. needActiveCoroId s = [u] \<and> coro_of s u = p)))"

text \<open>After the wake-ups it is ready.\<close>

definition poll_ready :: "servant_body CoroutineScheduler \<Rightarrow> coro_lists \<Rightarrow> nat \<Rightarrow> bool" where
  "poll_ready s L p \<longleftrightarrow>
     sched_rel s L \<and> \<not> terminal s \<and> activeCoroQueue s = ThreadDeque_new \<and> timeoutCoroId s = [] \<and> needActiveCoroId s = [] \<and>
     L CORO_ACTIVE = [] \<and> L CORO_TIMEOUT = [] \<and> L CORO_INACTIVE = [] \<and> L CORO_AVAIL = [p] \<and> body_of s p = Some HandleRequest"

lemma poll_ready_used: "poll_ready s L p \<Longrightarrow> unat (usedSize s) = 1"
  by (simp add: poll_ready_def sched_rel_def lists_total_def)

lemma idle_wakes:
  assumes "idle_sched s p"
  obtains s1 L1 where "wakeups env s = Inr s1" "poll_ready s1 L1 p" "stackSize s1 = stackSize s" "poolSize s1 = poolSize s"
    "clockReads s1 = clockReads s"
proof -
  obtain L where L: "sched_rel s L" "\<not> terminal s" "td_deque (activeCoroQueue s) = []" "timeoutCoroId s = []"
    "L CORO_ACTIVE = []" "L CORO_TIMEOUT = []" "body_of s p = Some HandleRequest"
    "L CORO_AVAIL = [p] \<and> L CORO_INACTIVE = [] \<and> needActiveCoroId s = [] \<or>
     L CORO_AVAIL = [] \<and> L CORO_INACTIVE = [p] \<and> (\<exists>u. needActiveCoroId s = [u] \<and> coro_of s u = p)"
    using assms by (auto simp: idle_sched_def)
  have "id_known s i" if "i \<in> set (needActiveCoroId s)" for i
    using rel_waking [OF L(1)] that by (simp add: waking_ids_def)
  then obtain s0 where s0: "fold_result (move_id moveToAvail) (needActiveCoroId s) s = Inr s0"
    "sched_rel s0 (fold lists_to_avail (map (coro_of s) (needActiveCoroId s)) L)" "steady s s0"
    using wake_avail_ids [OF L(1), of "needActiveCoroId s"] by auto
  define L1 where "L1 = fold lists_to_avail (map (coro_of s) (needActiveCoroId s)) L"
  define s1 where "s1 = s0\<lparr>needActiveCoroId := []\<rparr>"
  note f = steady_fields [OF s0(3)]
  have q: "activeCoroQueue s = ThreadDeque_new" using rel_queue [OF L(1)] L(3) by (simp add: ThreadDeque_inv_def ThreadDeque_new_def)
  have w: "wakeups env s = Inr s1"
    using L(2,4) s0(1) f q
    by (simp add: wakeups_def wakeupbytimeout_def wakeupbyself_def wakeup_def s1_def ThreadDeque_new_def)
  have "sched_rel s1 L1"
    using rel_waking [OF s0(2)] rel_timers [OF s0(2)] rel_queue [OF s0(2)] unfolding s1_def L1_def
    by (intro rel_update_waiting [OF s0(2)]) (auto simp: waking_ids_def)
  moreover have "L1 CORO_ACTIVE = []" "L1 CORO_TIMEOUT = []" "L1 CORO_INACTIVE = []" "L1 CORO_AVAIL = [p]"
    using L(5,6,8) by (auto simp: L1_def lists_to_avail_def lists_move_def Let_def)
  moreover have "body_of s1 p = Some HandleRequest" using wakeups_body [OF w] L(7) by simp
  ultimately have "poll_ready s1 L1 p" using L(2,4) f q by (simp add: poll_ready_def s1_def)
  then show thesis using that [OF w] f by (simp add: s1_def)
qed

text \<open>Heartbeats leave the queues alone.\<close>

definition same_queues :: "World \<Rightarrow> World \<Rightarrow> bool" where
  "same_queues w w' \<longleftrightarrow> map ba_receiveBuffer (w_adapters w') = map ba_receiveBuffer (w_adapters w)"

lemma same_queues_facts:
  assumes "same_queues w w'"
  shows "length (w_adapters w') = length (w_adapters w)"
    "i < length (w_adapters w) \<Longrightarrow> ba_receiveBuffer (w_adapters w' ! i) = ba_receiveBuffer (w_adapters w ! i)"
proof -
  have m: "map ba_receiveBuffer (w_adapters w') = map ba_receiveBuffer (w_adapters w)" using assms by (simp add: same_queues_def)
  then show l: "length (w_adapters w') = length (w_adapters w)" by (rule map_eq_imp_length_eq)
  show "ba_receiveBuffer (w_adapters w' ! i) = ba_receiveBuffer (w_adapters w ! i)" if "i < length (w_adapters w)"
    using arg_cong [OF m, of "\<lambda>xs. xs ! i"] that l by simp
qed

lemma heartbeat_queues:
  "heartbeat_adapters cur adapters t w = Inr (out, t', w') \<Longrightarrow> same_queues w w'"
proof (induction cur adapters t w arbitrary: out t' w' rule: heartbeat_adapters.induct)
  case (2 cur name i rest t w)
  obtain a where a: "adapter_at (Some i) w = Inr a" "i < length (w_adapters w)" "a = w_adapters w ! i"
    using 2(2) by (auto simp: adapter_at_def result_simps split: if_splits)
  define x where "x = (if HEART_BEAT_INTERVAL < \<bar>cur - ba_heartBeatTime a\<bar> then
       (let (out, t1) = TarsNodeFHelper_keepAlive (ba_name a) t in (out, t1, put_adapter i (a\<lparr>ba_heartBeatTime := cur\<rparr>) w))
     else ([], t, w))"
  obtain o1 t1 w1 where x: "x = (o1, t1, w1)" by (cases x)
  have "map ba_receiveBuffer ((w_adapters w)[i := a\<lparr>ba_heartBeatTime := cur\<rparr>]) = map ba_receiveBuffer (w_adapters w)"
    using a(2,3) by (simp add: map_update list_update_same_conv)
  then have "same_queues w w1" using x unfolding x_def
    by (auto simp: same_queues_def put_adapter_def split: if_splits prod.splits)
  moreover obtain o2 t2 where "heartbeat_adapters cur rest t1 w1 = Inr (o2, t2, w')"
    using 2(2) a(1) x unfolding x_def by (auto simp: result_simps Let_def split: prod.splits)
  then have "same_queues w1 w'" using 2(1) [OF a(1) _ refl] x unfolding x_def [symmetric] by (auto simp: x_def)
  ultimately show ?case by (simp add: same_queues_def)
qed (simp add: same_queues_def)

lemma same_queues_ok: "same_queues w w' \<Longrightarrow> queues_ok adapters w \<Longrightarrow> queues_ok adapters w'"
  using same_queues_facts [of w w'] by (fastforce simp: queues_ok_def queue_of_def)

lemma same_queues_skip:
  assumes "same_queues w w'" and "i < length (w_adapters w)"
  shows "same_queues (skip_messages n i w) (skip_messages n i w')"
  using assms same_queues_facts [OF assms(1)]
  by (simp add: same_queues_def skip_messages_def put_adapter_def Let_def map_update)

lemma same_queues_requests:
  "same_queues w w' \<Longrightarrow> queues_ok adapters w \<Longrightarrow> fst (take_requests adapters w') = fst (take_requests adapters w)"
proof (induction adapters arbitrary: w w')
  case (Cons a rest)
  obtain name i where a: "a = (name, i)" by (cases a)
  have i: "i < length (w_adapters w)" and rest: "queues_ok rest w" using Cons.prems(2) by (simp_all add: a queues_ok_def)
  have q: "queue_of w' i = queue_of w i" using same_queues_facts(2) [OF Cons.prems(1) i] by (simp add: queue_of_def)
  have "fst (take_requests rest (skip_messages (length (queue_of w i)) i w')) = fst (take_requests rest (skip_messages (length (queue_of w i)) i w))"
    by (rule Cons.IH [OF same_queues_skip [OF Cons.prems(1) i] queues_ok_skip [OF rest i]])
  then show ?case by (simp add: a q split_beta)
qed simp

text \<open>A round of \<open>handleRequest\<close> always ends with a \<open>yield\<close>: no flag is left set after the loop over an
  adapter, whether it ended with an empty queue or after 100 requests.\<close>

lemma poll_adapter_flag: "poll_adapter env k i s w = Inr (yield, rest) \<Longrightarrow> \<not> yield"
proof (induction k arbitrary: s w)
  case (Suc k)
  then show ?case
    by (simp add: Let_def result_simps) (fastforce simp: result_simps split: option.splits if_splits)
qed simp

lemma poll_adapters_flag: "poll_adapters env adapters False s w = Inr (yield, rest) \<Longrightarrow> \<not> yield"
proof (induction adapters arbitrary: s w)
  case (Cons a adapters)
  then obtain y s1 w1 where "poll_adapter env 100 (snd a) s w = Inr (y, s1, w1)" "poll_adapters env adapters y s1 w1 = Inr (yield, rest)"
    by (cases a) (auto simp: result_simps)
  with Cons.IH poll_adapter_flag show ?case by fastforce
qed simp

lemma handleRequest_yields: "handleRequest env (Suc n) c sv = handleRequest env 1 c sv"
proof -
  have "yield" if "handleRequest_turn env cur adapters t s w = Inr (yield, rest)" for yield cur adapters t s w rest
    using that poll_adapters_flag [of env adapters s]
    by (auto simp: handleRequest_turn_def Let_def result_simps split: if_splits)
  then have "handleRequest_turn env cur adapters t s w \<noteq> Inr (False, rest)" for cur adapters t s w rest by blast
  then show ?thesis by (auto simp: Let_def intro!: bindE_cong split: prod.splits)
qed

section \<open>The turn refines the loop\<close>

lemma yield_poll:
  assumes rel: "sched_rel s L" and p: "L CORO_AVAIL = p # cs" and t: "\<not> terminal s" and need: "needActiveCoroId s = []"
    and others: "L CORO_ACTIVE = []" "L CORO_TIMEOUT = []" "L CORO_INACTIVE = []"
  obtains s' L' u where "CoroutineScheduler_yield True HandleRequest p s = Inr s'" "sched_rel s' L'" "L' CORO_AVAIL = cs"
    "L' CORO_INACTIVE = [p]" "L' CORO_ACTIVE = []" "L' CORO_TIMEOUT = []" "\<And>d. d \<noteq> p \<Longrightarrow> body_of s' d = body_of s d"
    "body_of s' p = Some HandleRequest" "needActiveCoroId s' = [u]" "coro_of s' u = p" "\<not> terminal s'"
    "timeoutCoroId s' = timeoutCoroId s" "activeCoroQueue s' = activeCoroQueue s" "stackSize s' = stackSize s" "poolSize s' = poolSize s"
proof -
  have m: "p \<in> set (L CORO_AVAIL)" using p by simp
  obtain i where i: "coroInfo s p = Some i" "coro_of s (ci_uid i) = p" using rel_ready [OF rel m] by metis
  obtain s' where s': "CoroutineScheduler_yield True HandleRequest p s = Inr s'" "sched_rel s' (lists_move p CORO_AVAIL CORO_INACTIVE L)"
    "stackSize s' = stackSize s" "terminal s' = terminal s" "map_option ci_body (coroInfo s' p) = Some (Some HandleRequest)"
    using yield_ok [OF rel m, of True HandleRequest] by auto
  note b = yield_body [OF s'(1) i(1)]
  have "body_of s' p = Some HandleRequest" using s'(5) by (auto simp: body_of_def)
  moreover have "needActiveCoroId s' = [ci_uid i]" using b(3) need t by (simp add: putbyself_def)
  moreover have "coro_of s' (ci_uid i) = p" using i(2) b(8) by (simp add: coro_of_def)
  ultimately show thesis
    using that [OF s'(1,2)] b(1,4-6) s'(3,4) p others t by (simp add: lists_move_def Let_def)
qed

lemma group_adapters_sched [simp]: "group_adapters (sv\<lparr>sv_sched := s\<rparr>) = group_adapters sv"
  by (simp add: group_adapters_def cong: option.case_cong)

text \<open>The coroutine of \<open>handleRequest\<close>, resumed: it makes a coroutine for each queued request and yields.\<close>

lemma handleRequest_polls:
  fixes sv :: "'s Servant"
  assumes ready: "poll_ready (sv_sched sv) L p" and env: "env_ok env (stackSize (sv_sched sv))"
    and g: "group_adapters sv = Inr adapters" and q: "queues_ok adapters (sv_world sv)"
    and room: "length (fst (take_requests adapters (sv_world sv))) < unat (poolSize (sv_sched sv))"
    and hb: "heartbeat_adapters (clock env (clockReads (sv_sched sv)) div 1000) adapters (sv_node sv) (sv_world sv) = Inr (out, node, w)"
  obtains s' L' u where "handleRequest env 1 p sv = Inr (sv\<lparr>sv_sched := s', sv_world := snd (take_requests adapters w),
      sv_node := node, sv_beats := sv_beats sv @ out\<rparr>)"
    "sched_rel s' L'" "map (body_of s') (L' CORO_AVAIL) = map Some (map Handle (fst (take_requests adapters w)))"
    "L' CORO_INACTIVE = [p]" "L' CORO_ACTIVE = []" "L' CORO_TIMEOUT = []" "body_of s' p = Some HandleRequest"
    "needActiveCoroId s' = [u]" "coro_of s' u = p" "\<not> terminal s'" "timeoutCoroId s' = []"
    "activeCoroQueue s' = ThreadDeque_new" "stackSize s' = stackSize (sv_sched sv)" "poolSize s' = poolSize (sv_sched sv)"
proof -
  let ?s = "(sv_sched sv)\<lparr>clockReads := Suc (clockReads (sv_sched sv))\<rparr>"
  note r = ready [unfolded poll_ready_def]
  have rel0: "sched_rel (sv_sched sv) L" using r by simp
  have rel: "sched_rel ?s L" using rel_waking [OF rel0] rel_timers [OF rel0] rel_queue [OF rel0]
    by (intro rel_update_waiting [OF rel0]) (auto simp: waking_ids_def)
  have sq: "same_queues (sv_world sv) w" by (rule heartbeat_queues [OF hb])
  have "unat (usedSize ?s) + length (fst (take_requests adapters w)) \<le> unat (poolSize ?s)"
    using poll_ready_used [OF ready] room same_queues_requests [OF sq q] by simp
  then obtain s1 L1 cs where s1: "poll_adapters env adapters False ?s w = Inr (False, s1, snd (take_requests adapters w))"
    "spawned ?s L s1 L1 cs (map Handle (fst (take_requests adapters w)))"
    using poll_adapters_spawns [OF rel _ same_queues_ok [OF sq q], of env] env by auto
  have f: "sched_rel s1 L1" "L1 CORO_AVAIL = p # cs" "\<not> terminal s1" "needActiveCoroId s1 = []" "L1 CORO_ACTIVE = []"
    "L1 CORO_TIMEOUT = []" "L1 CORO_INACTIVE = []" "timeoutCoroId s1 = []" "activeCoroQueue s1 = ThreadDeque_new"
    "stackSize s1 = stackSize (sv_sched sv)" "poolSize s1 = poolSize (sv_sched sv)"
    "map (body_of s1) cs = map Some (map Handle (fst (take_requests adapters w)))"
    using s1(2) r by (simp_all add: spawned_def same_waits_def)
  obtain s' L' u where y: "CoroutineScheduler_yield True HandleRequest p s1 = Inr s'" "sched_rel s' L'" "L' CORO_AVAIL = cs"
    "L' CORO_INACTIVE = [p]" "L' CORO_ACTIVE = []" "L' CORO_TIMEOUT = []" "\<And>d. d \<noteq> p \<Longrightarrow> body_of s' d = body_of s1 d"
    "body_of s' p = Some HandleRequest" "needActiveCoroId s' = [u]" "coro_of s' u = p" "\<not> terminal s'"
    "timeoutCoroId s' = timeoutCoroId s1" "activeCoroQueue s' = activeCoroQueue s1" "stackSize s' = stackSize s1" "poolSize s' = poolSize s1"
    using yield_poll [OF f(1-7)] by metis
  have "handleRequest_turn env (clock env (clockReads (sv_sched sv)) div 1000) adapters (sv_node sv) ?s (sv_world sv) =
      Inr (True, out, node, s1, snd (take_requests adapters w))"
    using r hb s1(1) by (simp add: handleRequest_turn_def ThreadDeque_new_def)
  then have h: "handleRequest env 1 p sv = Inr (sv\<lparr>sv_sched := s', sv_world := snd (take_requests adapters w),
      sv_node := node, sv_beats := sv_beats sv @ out\<rparr>)"
    using g y(1) by simp
  have "distinct (p # cs)" using rel_disjoint [OF f(1)] f(2) unfolding lists_disjoint_def by metis
  then have "body_of s' d = body_of s1 d" if "d \<in> set cs" for d using y(7) [of d] that by auto
  then have "map (body_of s') cs = map (body_of s1) cs" by simp
  then have "map (body_of s') (L' CORO_AVAIL) = map Some (map Handle (fst (take_requests adapters w)))" unfolding y(3) f(12) .
  then show thesis using that [OF h y(2)] y(4-6,8-15) f(8-11) by simp
qed

text \<open>A turn of the scheduler is a turn of the plain loop.\<close>

lemma servant_turn:
  fixes sv :: "'s Servant"
  assumes idle: "idle_sched (sv_sched sv) p" and env: "env_ok env (stackSize (sv_sched sv))"
    and g: "group_adapters sv = Inr adapters" and q: "queues_ok adapters (sv_world sv)"
    and few: "length (fst (take_requests adapters (sv_world sv))) \<le> 99"
    and room: "length (fst (take_requests adapters (sv_world sv))) < unat (poolSize (sv_sched sv))"
    and spec: "serve_pending (clock env (clockReads (sv_sched sv)) div 1000) adapters sv = Inr sv'"
  shows "\<exists>ran s'. servant_tars_run env sv = Inr (ran, sv'\<lparr>sv_sched := s'\<rparr>) \<and> idle_sched s' p \<and>
    stackSize s' = stackSize (sv_sched sv) \<and> poolSize s' = poolSize (sv_sched sv)"
proof -
  let ?cur = "clock env (clockReads (sv_sched sv)) div 1000"
  obtain out node w es w2 st where sp: "heartbeat_adapters ?cur adapters (sv_node sv) (sv_world sv) = Inr (out, node, w)"
    "fold_result (handle_caught (sv_handle sv)) (fst (take_requests adapters w)) (sv_server sv, snd (take_requests adapters w), sv_state sv) = Inr (es, w2, st)"
    "sv' = sv\<lparr>sv_server := es, sv_world := w2, sv_state := st, sv_node := node, sv_beats := sv_beats sv @ out\<rparr>"
    using spec by (auto simp: serve_pending_def result_simps Let_def split_beta)
  have len: "length (fst (take_requests adapters w)) \<le> 99"
    using same_queues_requests [OF heartbeat_queues [OF sp(1)] q] few by simp
  obtain s1 L1 where s1: "wakeups env (sv_sched sv) = Inr s1" "poll_ready s1 L1 p" "stackSize s1 = stackSize (sv_sched sv)"
    "poolSize s1 = poolSize (sv_sched sv)" "clockReads s1 = clockReads (sv_sched sv)"
    by (rule idle_wakes [OF idle])
  note r = s1(2) [unfolded poll_ready_def]
  have core: "sched_core s1 L1" using r rel_core by blast
  let ?s2 = "s1\<lparr>currentCoro := Some (Coro p)\<rparr>" and ?sv1 = "sv\<lparr>sv_sched := s1\<rparr>"
  let ?sv2 = "sv\<lparr>sv_sched := ?s2\<rparr>"
  have pre: "poll_ready (sv_sched ?sv2) L1 p" "env_ok env (stackSize (sv_sched ?sv2))" "group_adapters ?sv2 = Inr adapters"
    "queues_ok adapters (sv_world ?sv2)" "length (fst (take_requests adapters (sv_world ?sv2))) < unat (poolSize (sv_sched ?sv2))"
    "heartbeat_adapters (clock env (clockReads (sv_sched ?sv2)) div 1000) adapters (sv_node ?sv2) (sv_world ?sv2) = Inr (out, node, w)"
    using r sched_rel_current [of s1 L1] env g q room sp(1) s1(3-5) by (simp_all add: poll_ready_def)
  obtain s3 L3 u where s3: "handleRequest env 1 p (sv\<lparr>sv_sched := ?s2\<rparr>) = Inr (sv\<lparr>sv_sched := s3, sv_world := snd (take_requests adapters w),
      sv_node := node, sv_beats := sv_beats sv @ out\<rparr>)"
    "sched_rel s3 L3" "map (body_of s3) (L3 CORO_AVAIL) = map Some (map Handle (fst (take_requests adapters w)))"
    "L3 CORO_INACTIVE = [p]" "L3 CORO_ACTIVE = []" "L3 CORO_TIMEOUT = []" "body_of s3 p = Some HandleRequest"
    "needActiveCoroId s3 = [u]" "coro_of s3 u = p" "\<not> terminal s3" "timeoutCoroId s3 = []"
    "activeCoroQueue s3 = ThreadDeque_new" "stackSize s3 = stackSize s1" "poolSize s3 = poolSize s1"
    by (rule handleRequest_polls [OF pre]) (simp del: handleRequest.simps)
  let ?sv3 = "sv\<lparr>sv_sched := s3, sv_world := snd (take_requests adapters w), sv_node := node, sv_beats := sv_beats sv @ out\<rparr>"
  obtain s4 L4 where s4: "servant_run_list env CORO_AVAIL 99 ?sv3 =
      Inr (L3 CORO_AVAIL, ?sv3\<lparr>sv_sched := s4, sv_server := es, sv_world := w2, sv_state := st\<rparr>)" "retired s3 L3 s4 L4"
    using run_handlers [of ?sv3 L3 "fst (take_requests adapters w)" 99 es w2 st env] s3(2,3) len sp(2) by auto
  obtain i where "info_of p s1 = Inr i" using core_info [OF core, of p CORO_AVAIL] r by auto
  then have sw: "servant_switch env p ?sv1 = Inr ?sv3"
    using r s3(1) by (simp add: servant_switch_def servant_resume_def body_of_info del: handleRequest.simps)
  have avail: "L1 CORO_AVAIL = p # []" using r by simp
  have "servant_run_list env CORO_AVAIL (Suc 99) ?sv1 =
      Inr (p # L3 CORO_AVAIL, ?sv3\<lparr>sv_sched := s4, sv_server := es, sv_world := w2, sv_state := st\<rparr>)"
    unfolding servant_run_list.simps
    using core_empty [OF core, of CORO_AVAIL] core_first [OF core avail] sw s4(1) avail by simp
  moreover have "servant_run_list env CORO_ACTIVE 100 ?sv1 = Inr ([], ?sv1)"
    using core_empty [OF core, of CORO_ACTIVE] r by (simp add: numeral_eq_Suc)
  moreover have "\<not> terminal (sv_sched sv)" using idle by (auto simp: idle_sched_def)
  ultimately have run: "servant_tars_run env sv = Inr (p # L3 CORO_AVAIL, sv'\<lparr>sv_sched := s4\<rparr>)"
    using s1(1) sp(3) by (simp add: servant_tars_run_def)
  have "coro_of s4 u = p" using s4(2) s3(9) by (simp add: retired_def coro_of_def)
  moreover have "p \<in> set (L3 CORO_INACTIVE)" using s3(4) by simp
  then have "body_of s4 p = Some HandleRequest" using s4(2) s3(7) unfolding retired_def by (metis CORO_STATUS.distinct)
  ultimately have "idle_sched s4 p" using s4(2) s3(4-6,8-12) unfolding idle_sched_def retired_def same_waits_def
    by (intro exI [of _ L4]) (auto simp: ThreadDeque_new_def)
  then show ?thesis using run s4(2) s3(13,14) s1(3,4) by (auto simp: retired_def same_waits_def)
qed

section \<open>Starting the thread\<close>

lemma add_free_waits: "add_free c i ctx s = Inr s' \<Longrightarrow> same_waits s s'"
  by (auto simp: add_free_def result_simps same_waits_def split: if_splits)

lemma init_loop_waits: "init_loop env n k s = Inr (m, s') \<Longrightarrow> same_waits s s'"
proof (induction n arbitrary: k s)
  case (Suc n)
  define s1 where "s1 = s\<lparr>newCoros := Suc (newCoros s)\<rparr>"
  define s2 where "s2 = s1\<lparr>uniqId := increment_nonzero (uniqId s)\<rparr>"
  obtain ret where "allocate (limits env) (mmap env (newCoros s)) (stackSize s) = Inr ret"
    and r: "(case ret of None \<Rightarrow> Inr (k, s1)
      | Some ctx \<Rightarrow> bindE (CoroutineScheduler_generateId s1) (\<lambda>(i, s2). bindE (add_free (newCoros s) i ctx s2) (init_loop env n (Suc k)))) = Inr (m, s')"
    using Suc.prems unfolding s1_def by (auto simp: result_simps Let_def)
  show ?case
  proof (cases ret)
    case None
    then show ?thesis using r by (auto simp: s1_def same_waits_def)
  next
    case (Some ctx)
    then obtain s3 where s3: "add_free (newCoros s) (increment_nonzero (uniqId s)) ctx s2 = Inr s3" "init_loop env n (Suc k) s3 = Inr (m, s')"
      using r by (auto simp: result_simps CoroutineScheduler_generateId_def assertE_def s2_def s1_def Let_def split: if_splits)
    have "same_waits s s2" by (simp add: s2_def s1_def same_waits_def)
    then show ?thesis using add_free_waits [OF s3(1)] Suc.IH [OF s3(2)] by (simp add: same_waits_def)
  qed
qed (simp add: same_waits_def)

lemma init_waits:
  assumes "CoroutineScheduler_init env pool stack CoroutineScheduler_new = Inr s"
  shows "needActiveCoroId s = [] \<and> timeoutCoroId s = [] \<and> td_deque (activeCoroQueue s) = []"
  using assms
  by (auto simp: CoroutineScheduler_init_def CoroutineScheduler_new_def Let_def result_simps same_waits_def ThreadDeque_new_def
      dest!: init_loop_waits split: if_splits)

lemma coroutineNum_value: "(ucast coroutineNum :: u32) = 204" "(ucast coroutineStackSize :: u64) = 1310272"
  by (simp_all add: coroutineNum_def coroutineMemSize_def coroutineStackSize_def)

text \<open>\<open>run\<close> makes a pool of 204 coroutines with the polling one ready.\<close>

lemma servant_starts:
  assumes env: "env_ok env 1310272" and i: "ServantHandle_init (sv_server sv) (sv_handle sv) m = Inr (h, m1)"
  obtains s p where "ServantHandle_start env m sv = Inr (m1, sv\<lparr>sv_handle := h, sv_sched := s\<rparr>)" "idle_sched s p"
    "poolSize s = 204" "stackSize s = 1310272"
proof -
  obtain s :: "servant_body CoroutineScheduler" and new where s: "CoroutineScheduler_init env 204 1310272 CoroutineScheduler_new = Inr s"
    "sched_rel s ((\<lambda>_. [])(CORO_FREE := new))" "stackSize s = 1310272" "poolSize s = 204" "\<not> terminal s" "usedSize s = 0"
    using init_ok [OF env, of 204] by auto
  have env': "env_ok env (stackSize s)" and room: "unat (usedSize s) < unat (poolSize s)" using env s(3,4,6) by simp_all
  obtain u p s1 L1 where s1: "createCoroutine env HandleRequest s = Inr (u, s1)"
    "spawned s ((\<lambda>_. [])(CORO_FREE := new)) s1 L1 [p] [HandleRequest]"
    by (rule spawn_one [OF s(2) env' room])
  have "ServantHandle_start env m sv = Inr (m1, sv\<lparr>sv_handle := h, sv_sched := s1\<rparr>)"
    using i s(1) s1(1) by (simp add: ServantHandle_start_def coroutineNum_value)
  moreover have "idle_sched s1 p"
    using s1(2) init_waits [OF s(1)] s(5) unfolding idle_sched_def
    by (intro exI [of _ L1]) (simp add: spawned_def same_waits_def)
  moreover have "poolSize s1 = 204" "stackSize s1 = 1310272" using s1(2) s(3,4) by (simp_all add: spawned_def same_waits_def)
  ultimately show thesis by (rule that)
qed

section \<open>The loop of the thread\<close>

text \<open>What a turn needs: queues within bounds and handlers that fail, if at all, with an exception.\<close>

definition servable :: "int \<Rightarrow> 's Servant \<Rightarrow> bool" where
  "servable cur sv \<longleftrightarrow>
     (\<exists>adapters. group_adapters sv = Inr adapters \<and> queues_ok adapters (sv_world sv) \<and>
        length (fst (take_requests adapters (sv_world sv))) \<le> 99 \<and> isl (serve_pending cur adapters sv) = False)"

lemma servable_turn:
  assumes "idle_sched (sv_sched sv) p" and "env_ok env (stackSize (sv_sched sv))" and "99 < unat (poolSize (sv_sched sv))"
    and "servable (clock env (clockReads (sv_sched sv)) div 1000) sv"
  obtains ran sv' s' adapters where "servant_tars_run env sv = Inr (ran, sv'\<lparr>sv_sched := s'\<rparr>)" "idle_sched s' p"
    "stackSize s' = stackSize (sv_sched sv)" "poolSize s' = poolSize (sv_sched sv)"
    "group_adapters sv = Inr adapters" "serve_pending (clock env (clockReads (sv_sched sv)) div 1000) adapters sv = Inr sv'"
proof -
  let ?cur = "clock env (clockReads (sv_sched sv)) div 1000"
  obtain adapters sv' where a: "group_adapters sv = Inr adapters" "queues_ok adapters (sv_world sv)"
    "length (fst (take_requests adapters (sv_world sv))) \<le> 99" "serve_pending ?cur adapters sv = Inr sv'"
    using assms(4) by (auto simp: servable_def) (metis sum.collapse(2))
  have "length (fst (take_requests adapters (sv_world sv))) < unat (poolSize (sv_sched sv))" using a(3) assms(3) by simp
  from servant_turn [OF assms(1,2) a(1-3) this a(4)] a that show thesis by blast
qed

lemma servant_loop_ends:
  assumes "idle_sched (sv_sched sv) p" and "env_ok env (stackSize (sv_sched sv))" and "99 < unat (poolSize (sv_sched sv))"
    and "I sv" and "i + d = k"
    and quiet: "\<And>i sv. sv_sched (others i sv) = sv_sched sv"
    and work: "\<And>i sv. I sv \<Longrightarrow> i < k \<Longrightarrow> servable (clock env (clockReads (sv_sched sv)) div 1000) (others i sv) \<and>
      \<not> es_terminate (sv_server (others i sv))"
    and keep: "\<And>i sv adapters cur sv' s'. I sv \<Longrightarrow> i < k \<Longrightarrow> group_adapters (others i sv) = Inr adapters \<Longrightarrow>
      serve_pending cur adapters (others i sv) = Inr sv' \<Longrightarrow> I (sv'\<lparr>sv_sched := s'\<rparr>)"
    and stop: "\<And>sv. I sv \<Longrightarrow> es_terminate (sv_server (others k sv))"
  shows "\<exists>sv'. ServantHandle_loop env others i sv = Some (ServantHandle_finish env sv') \<and> idle_sched (sv_sched sv') p"
  using assms(1-5)
proof (induction d arbitrary: i sv)
  case 0
  then have "ServantHandle_loop env others i sv = Some (ServantHandle_finish env (others k sv))"
    using stop by (subst ServantHandle_loop.simps) simp
  then show ?case using 0(1) quiet by metis
next
  case (Suc d)
  let ?sv = "others i sv"
  have w: "servable (clock env (clockReads (sv_sched ?sv)) div 1000) ?sv" "\<not> es_terminate (sv_server ?sv)"
    using work [OF Suc.prems(4), of i] Suc.prems(5) quiet [of i sv] by simp_all
  have p: "idle_sched (sv_sched ?sv) p" "env_ok env (stackSize (sv_sched ?sv))" "99 < unat (poolSize (sv_sched ?sv))"
    using Suc.prems(1-3) quiet [of i sv] by simp_all
  obtain ran sv' s' adapters where t: "servant_tars_run env ?sv = Inr (ran, sv'\<lparr>sv_sched := s'\<rparr>)" "idle_sched s' p"
    "stackSize s' = stackSize (sv_sched ?sv)" "poolSize s' = poolSize (sv_sched ?sv)" "group_adapters ?sv = Inr adapters"
    "serve_pending (clock env (clockReads (sv_sched ?sv)) div 1000) adapters ?sv = Inr sv'"
    by (rule servable_turn [OF p w(1)])
  have "I (sv'\<lparr>sv_sched := s'\<rparr>)" using keep [OF Suc.prems(4) _ t(5,6)] Suc.prems(5) by simp
  then have "\<exists>sv''. ServantHandle_loop env others (Suc i) (sv'\<lparr>sv_sched := s'\<rparr>) = Some (ServantHandle_finish env sv'') \<and> idle_sched (sv_sched sv'') p"
    using t(2-4) p Suc.prems(5) by (intro Suc.IH) simp_all
  moreover have "ServantHandle_loop env others i sv = ServantHandle_loop env others (Suc i) (sv'\<lparr>sv_sched := s'\<rparr>)"
    using t(1) w(2) by (subst ServantHandle_loop.simps) simp
  ultimately show ?case by simp
qed

section \<open>From request to response\<close>

text \<open>The way of a request through a server with one network thread: the network thread handles the event
  of its connection, the servant thread has a turn, the network thread handles its pipe.\<close>

definition serve_event :: "servant_body sched_env \<Rightarrow> epoll_event \<Rightarrow> 's Servant \<Rightarrow> 's Servant result" where
  "serve_event env ev sv =
     bindE (first_thread (sv_server sv)) (\<lambda>nt.
     bindE (processNet ev nt (sv_world sv)) (\<lambda>(nt1, w1).
     bindE (servant_tars_run env (sv\<lparr>sv_server := (sv_server sv)\<lparr>es_netThreads := [nt1]\<rparr>, sv_world := w1\<rparr>)) (\<lambda>(_, sv1).
     bindE (first_thread (sv_server sv1)) (\<lambda>nt2.
     bindE (processPipe nt2 (sv_world sv1)) (\<lambda>(nt3, w3).
     Inr (sv1\<lparr>sv_server := (sv_server sv1)\<lparr>es_netThreads := [nt3]\<rparr>, sv_world := w3\<rparr>))))))"

lemma heartbeat_one:
  assumes "i < length (w_adapters w)"
  obtains out node w' where "heartbeat_adapters cur [(name, i)] t w = Inr (out, node, w')" "same_queues w w'"
    "ba_name (w_adapters w' ! i) = ba_name (w_adapters w ! i)" "w_writes w' = w_writes w" "w_sent w' = w_sent w"
proof -
  let ?a = "w_adapters w ! i"
  obtain o1 t1 where k: "TarsNodeFHelper_keepAlive (ba_name ?a) t = (o1, t1)" by fastforce
  define x where "x = (if HEART_BEAT_INTERVAL < \<bar>cur - ba_heartBeatTime ?a\<bar> then (o1, t1, put_adapter i (?a\<lparr>ba_heartBeatTime := cur\<rparr>) w) else ([], t, w))"
  have "adapter_at (Some i) w = Inr ?a" using assms by (simp add: adapter_at_def)
  then have h: "heartbeat_adapters cur [(name, i)] t w = Inr x" using k by (simp add: x_def)
  moreover have "same_queues w (snd (snd x))"
    by (rule heartbeat_queues [of cur "[(name, i)]" t w "fst x" "fst (snd x)"]) (simp add: h del: heartbeat_adapters.simps)
  moreover have "ba_name (w_adapters (snd (snd x)) ! i) = ba_name ?a" "w_writes (snd (snd x)) = w_writes w" "w_sent (snd (snd x)) = w_sent w"
    using assms by (auto simp: x_def put_adapter_def)
  ultimately show thesis by (intro that [of "fst x" "fst (snd x)" "snd (snd x)"]) simp_all
qed

lemma serve_pending_one:
  assumes i: "i < length (w_adapters (sv_world sv))" and q: "queue_of (sv_world sv) i = [r]" "\<not> rd_closed r"
    and nt: "es_netThreads (sv_server sv) = [nt]" "\<not> nt_terminate nt"
    and f: "sh_servants (sv_handle sv) (ba_name (w_adapters (sv_world sv) ! i)) = Some (Some f)" "f (rd_buffer r) [] (sv_state sv) = Inr (ret, resp, st')"
  obtains node out nt' k w' where "serve_pending cur [(name, i)] sv =
      Inr (sv\<lparr>sv_server := (sv_server sv)\<lparr>es_netThreads := [nt']\<rparr>, sv_world := w', sv_state := st', sv_node := node, sv_beats := sv_beats sv @ out\<rparr>)"
    "nt' = fst (pipe_push \<lparr>sd_cmd = CHR ''s'', sd_uid = rd_uid r, sd_buffer = resp, sd_ip = rd_ip r, sd_port = rd_port r\<rparr> nt k)"
    "length (w_adapters w') = length (w_adapters (sv_world sv))" "w_writes w' = w_writes (sv_world sv)" "w_sent w' = w_sent (sv_world sv)"
proof -
  let ?m = "\<lparr>sd_cmd = CHR ''s'', sd_uid = rd_uid r, sd_buffer = resp, sd_ip = rd_ip r, sd_port = rd_port r\<rparr>"
  obtain out node w1 where h: "heartbeat_adapters cur [(name, i)] (sv_node sv) (sv_world sv) = Inr (out, node, w1)" "same_queues (sv_world sv) w1"
    "ba_name (w_adapters w1 ! i) = ba_name (w_adapters (sv_world sv) ! i)" "w_writes w1 = w_writes (sv_world sv)" "w_sent w1 = w_sent (sv_world sv)"
    by (rule heartbeat_one [OF i])
  note sq = same_queues_facts [OF h(2)]
  have q1: "queue_of w1 i = [r]" using q(1) sq(2) [OF i] by (simp add: queue_of_def)
  let ?w2 = "skip_messages 1 i w1"
  have t: "take_requests [(name, i)] w1 = ([r\<lparr>rd_adapter := Some i\<rparr>], ?w2)" using q1 q(2) by (simp add: requests_of_def)
  have i2: "i < length (w_adapters ?w2)" "ba_name (w_adapters ?w2 ! i) = ba_name (w_adapters (sv_world sv) ! i)"
    "length (w_adapters ?w2) = length (w_adapters (sv_world sv))" "w_writes ?w2 = w_writes (sv_world sv)" "w_sent ?w2 = w_sent (sv_world sv)"
    using i sq(1) h(3-5) by (simp_all add: skip_messages_def put_adapter_def Let_def)
  let ?p = "pipe_push ?m nt (w_kernel ?w2)"
  have "ServantHandle_handle (sv_handle sv) (r\<lparr>rd_adapter := Some i\<rparr>) (sv_server sv) ?w2 (sv_state sv) =
    Inr ((sv_server sv)\<lparr>es_netThreads := [fst ?p]\<rparr>, ?w2\<lparr>w_kernel := snd ?p\<rparr>, st')"
    using handle_sends [OF nt i2(1), of "sv_handle sv" f "r\<lparr>rd_adapter := Some i\<rparr>" "sv_state sv" ret resp st'] f i2(2) by simp
  then have "serve_pending cur [(name, i)] sv = Inr (sv\<lparr>sv_server := (sv_server sv)\<lparr>es_netThreads := [fst ?p]\<rparr>,
      sv_world := ?w2\<lparr>w_kernel := snd ?p\<rparr>, sv_state := st', sv_node := node, sv_beats := sv_beats sv @ out\<rparr>)"
    using h(1) t by (simp add: serve_pending_def handle_caught_def del: heartbeat_adapters.simps take_requests.simps)
  then show thesis by (rule that) (use i2(3-5) in auto)
qed

lemma group_adapters_world [simp]:
  "group_adapters (sv\<lparr>sv_server := (sv_server sv)\<lparr>es_netThreads := nts\<rparr>, sv_world := w\<rparr>) = group_adapters sv"
  by (simp add: group_adapters_def cong: option.case_cong)

lemma serve_event_ok:
  fixes sv :: "'s Servant"
  assumes idle: "idle_sched (sv_sched sv) p" and env: "env_ok env (stackSize (sv_sched sv))" and pool: "1 < poolSize (sv_sched sv)"
    and g: "group_adapters sv = Inr [(name, i)]"
    and ready: "conn_ready c i nt (sv_world sv)" and es: "es_netThreads (sv_server sv) = [nt]" and t: "\<not> nt_terminate nt"
    and q: "nt_sendBuffer nt = ThreadDeque_new" "ba_receiveBuffer (w_adapters (sv_world sv) ! i) = ThreadDeque_new"
    and rd: "w_reads (sv_world sv) (con_fd c) = [RData (frame body)]" and len: "length body < 2 ^ 31"
    and f: "sh_servants (sv_handle sv) (ba_name (w_adapters (sv_world sv) ! i)) = Some (Some func)" "func body [] (sv_state sv) = Inr (ret, resp, st')"
    and wr: "w_writes (sv_world sv) (con_fd c) = Wrote n # rest" "resp \<noteq> []" "n \<le> length resp"
  shows "\<exists>sv'. serve_event env (in_event c) sv = Inr sv' \<and> sv_state sv' = st' \<and> idle_sched (sv_sched sv') p \<and>
    w_sent (sv_world sv') (con_fd c) = w_sent (sv_world sv) (con_fd c) @ take n resp"
proof -
  let ?w = "sv_world sv"
  have i: "i < length (w_adapters ?w)" using ready by (simp add: conn_ready_def)
  obtain b w1 where b: "processNet (in_event c) nt ?w = Inr (put_conn (c\<lparr>con_recvBuffer := b\<rparr>) nt, w1)"
    "conn_ready (c\<lparr>con_recvBuffer := b\<rparr>) i (put_conn (c\<lparr>con_recvBuffer := b\<rparr>) nt) w1"
    "w_adapters w1 = (w_adapters ?w)[i := (w_adapters ?w ! i)\<lparr>ba_receiveBuffer := snd (ThreadDeque_push_back_all [recv_message c body] (ba_receiveBuffer (w_adapters ?w ! i)))\<rparr>]"
    "w_writes w1 = w_writes ?w" "w_sent w1 = w_sent ?w"
    using processNet_request [OF ready rd len] by blast
  let ?c = "c\<lparr>con_recvBuffer := b\<rparr>"
  let ?nt = "put_conn ?c nt" and ?r = "recv_message c body"
  let ?sv = "sv\<lparr>sv_server := (sv_server sv)\<lparr>es_netThreads := [?nt]\<rparr>, sv_world := w1\<rparr>"
  have i1: "i < length (w_adapters (sv_world ?sv))" "ba_name (w_adapters (sv_world ?sv) ! i) = ba_name (w_adapters ?w ! i)"
    and buf: "ba_receiveBuffer (w_adapters w1 ! i) = \<lparr>td_deque = [?r], td_size = 1\<rparr>"
    using b(3) i q(2) by (simp_all add: ThreadDeque_new_def)
  have q1: "queue_of (sv_world ?sv) i = [?r]" "\<not> rd_closed ?r" using buf by (simp_all add: queue_of_def recv_message_def)
  have nt: "es_netThreads (sv_server ?sv) = [?nt]" "\<not> nt_terminate ?nt" using t by (simp_all add: put_conn_def)
  have f1: "sh_servants (sv_handle ?sv) (ba_name (w_adapters (sv_world ?sv) ! i)) = Some (Some func)"
    "func (rd_buffer ?r) [] (sv_state ?sv) = Inr (ret, resp, st')" using f i1(2) by (simp_all add: recv_message_def)
  obtain node out nt2 k w2 where sp: "serve_pending (clock env (clockReads (sv_sched ?sv)) div 1000) [(name, i)] ?sv =
      Inr (?sv\<lparr>sv_server := (sv_server ?sv)\<lparr>es_netThreads := [nt2]\<rparr>, sv_world := w2, sv_state := st', sv_node := node, sv_beats := sv_beats ?sv @ out\<rparr>)"
    "nt2 = fst (pipe_push \<lparr>sd_cmd = CHR ''s'', sd_uid = rd_uid ?r, sd_buffer = resp, sd_ip = rd_ip ?r, sd_port = rd_port ?r\<rparr> ?nt k)"
    "length (w_adapters w2) = length (w_adapters (sv_world ?sv))" "w_writes w2 = w_writes (sv_world ?sv)" "w_sent w2 = w_sent (sv_world ?sv)"
    by (rule serve_pending_one [OF i1(1) q1 nt f1])
  have qs: "queues_ok [(name, i)] (sv_world ?sv)" using i1(1) buf by (simp add: queues_ok_def queue_of_def ThreadDeque_inv_def)
  have n1: "length (fst (take_requests [(name, i)] (sv_world ?sv))) = 1" using q1 by (simp add: requests_of_def)
  have "1 < unat (poolSize (sv_sched ?sv))" using pool by (simp add: word_less_nat_alt)
  then obtain ran s' where s': "servant_tars_run env ?sv = Inr (ran, ?sv\<lparr>sv_server := (sv_server ?sv)\<lparr>es_netThreads := [nt2]\<rparr>,
      sv_world := w2, sv_state := st', sv_node := node, sv_beats := sv_beats ?sv @ out, sv_sched := s'\<rparr>)" "idle_sched s' p"
    using servant_turn [of ?sv p env "[(name, i)]", OF _ _ _ qs _ _ sp(1)] idle env g n1 by auto
  have r: "response_to ?c resp = \<lparr>sd_cmd = CHR ''s'', sd_uid = rd_uid ?r, sd_buffer = resp, sd_ip = rd_ip ?r, sd_port = rd_port ?r\<rparr>"
    by (simp add: response_to_def recv_message_def)
  have c2: "conn_ready ?c i nt2 w2" using b(2) sp(2,3) by (auto simp: conn_ready_def pipe_push_def)
  have d2: "td_deque (nt_sendBuffer nt2) = [response_to ?c resp]"
    using sp(2) q(1) unfolding r by (auto simp: pipe_push_def ThreadDeque_push_back_def ThreadDeque_new_def put_conn_def)
  obtain nt3 w3 where p: "processPipe nt2 w2 = Inr (nt3, w3)" "w_sent w3 (con_fd ?c) = w_sent w2 (con_fd ?c) @ take n resp"
    using processPipe_response [OF c2 d2, of n rest] wr b(4) sp(4) by auto
  show ?thesis using es b(1,5) s' p sp(5) by (simp add: serve_event_def first_thread_def)
qed

section \<open>Properties\<close>

text \<open>C15. A request on a connection is answered on that connection: the framed request is read and queued
  with its adapter; the servant thread's polling coroutine takes it and makes a coroutine for it, which
  runs in the same turn of the scheduler, dispatches it once and queues the response; and the bytes the
  dispatcher left in the response buffer are what is offered to the connection's socket, which takes the
  first \<open>n\<close> of them. The scheduler is idle again.\<close>

theorem server_answers:
  fixes sv :: "'s Servant"
  assumes "idle_sched (sv_sched sv) p" and "env_ok env (stackSize (sv_sched sv))" and "1 < poolSize (sv_sched sv)"
    and "group_adapters sv = Inr [(name, i)]"
    and "conn_ready c i nt (sv_world sv)" and "es_netThreads (sv_server sv) = [nt]" and "\<not> nt_terminate nt"
    and "nt_sendBuffer nt = ThreadDeque_new" and "ba_receiveBuffer (w_adapters (sv_world sv) ! i) = ThreadDeque_new"
    and "w_reads (sv_world sv) (con_fd c) = [RData (frame body)]" and "length body < 2 ^ 31"
    and "sh_servants (sv_handle sv) (ba_name (w_adapters (sv_world sv) ! i)) = Some (Some func)"
    and "func body [] (sv_state sv) = Inr (ret, resp, st')"
    and "w_writes (sv_world sv) (con_fd c) = Wrote n # rest" and "resp \<noteq> []" and "n \<le> length resp"
  shows "\<exists>sv'. serve_event env (in_event c) sv = Inr sv' \<and> sv_state sv' = st' \<and> idle_sched (sv_sched sv') p \<and>
    w_sent (sv_world sv') (con_fd c) = w_sent (sv_world sv) (con_fd c) @ take n resp"
  using assms by (rule serve_event_ok)

text \<open>A worker on the sample server, for the witnesses.\<close>

definition sample_env :: "servant_body sched_env" where
  "sample_env = poor_env 0 (\<lambda>_. SReturn)"

definition sample_worker :: "servant_body CoroutineScheduler \<Rightarrow> World \<Rightarrow> unit Servant" where
  "sample_worker s w =
     \<lparr>sv_handle = sample_handle, sv_sched = s, sv_server = sample_server, sv_world = w,
      sv_node = TarsNodeFHelper_new, sv_beats = [], sv_state = ()\<rparr>"

lemma sample_worker_sel [simp]:
  "sv_handle (sample_worker s w) = sample_handle" "sv_sched (sample_worker s w) = s" "sv_server (sample_worker s w) = sample_server"
  "sv_world (sample_worker s w) = w" "sv_state (sample_worker s w) = ()"
  by (simp_all add: sample_worker_def)

lemma sample_env_ok: "env_ok sample_env 1310272"
  by (simp add: env_ok_def sample_env_def poor_env_def allocate_def minimum_stacksize_def page_count_def is_stack_unbound_def
      float_of_exact)

lemma sample_init:
  "\<exists>h m1. ServantHandle_init sample_server sample_handle ServantHelperManager_new = Inr (h, m1)"
  by (simp add: ServantHandle_init_def sample_server_def sample_handle_def split: prod.splits)

lemma sample_idle:
  obtains s p where "idle_sched s p" "poolSize s = 204" "stackSize s = 1310272"
proof -
  obtain h m1 where "ServantHandle_init (sv_server (sample_worker undefined busy_world)) (sv_handle (sample_worker undefined busy_world))
      ServantHelperManager_new = Inr (h, m1)"
    using sample_init by auto
  from servant_starts [OF sample_env_ok this] that show thesis by metis
qed

lemma sample_group: "group_adapters (sample_worker s w) = Inr [(''HelloAdapter'', 0)]"
  by (simp add: group_adapters_def sample_worker_def sample_handle_def sample_server_def)

theorem server_answers_witness:
  "\<exists>s sv'. serve_event sample_env (in_event sample_connection) (sample_worker s busy_world) = Inr sv' \<and>
     w_sent (sv_world sv') (con_fd sample_connection) = w_sent busy_world (con_fd sample_connection) @ take 17 ''7:I have received''"
proof -
  obtain s p where s: "idle_sched s p" "poolSize s = 204" "stackSize s = 1310272" by (rule sample_idle)
  have "\<exists>sv'. serve_event sample_env (in_event sample_connection) (sample_worker s busy_world) = Inr sv' \<and> sv_state sv' = () \<and>
      idle_sched (sv_sched sv') p \<and> w_sent (sv_world sv') (con_fd sample_connection) =
        w_sent (sv_world (sample_worker s busy_world)) (con_fd sample_connection) @ take 17 ''7:I have received''"
    by (rule server_answers [where nt = sample_thread and body = keepAlive_body and func = "stateless ServerImp" and
          ret = "-1" and rest = "[]" and i = 0 and name = "''HelloAdapter''"])
      (simp_all add: s busy_ready sample_env_ok sample_group keepAlive_body_length keepAlive_reply,
        simp_all add: sample_server_def sample_thread_def busy_world_def sample_world_def sample_adapter_def sample_handle_def BindAdapter_new_def)
  then show ?thesis by auto
qed

text \<open>C16. One turn of the scheduler refines one round of the plain loop a server without coroutines would
  run. When the polling coroutine is idle, no queue holds more than 100 messages and the requests in them
  number at most 99 and fewer than the pool, \<open>tars_run\<close> sends the heartbeats, handles every request of
  every adapter once and in order, catching what handlers throw, and leaves the polling coroutine idle
  again and all others free.\<close>

theorem servant_turn_refines:
  fixes sv :: "'s Servant"
  assumes "idle_sched (sv_sched sv) p" and "env_ok env (stackSize (sv_sched sv))"
    and "group_adapters sv = Inr adapters" and "queues_ok adapters (sv_world sv)"
    and "length (fst (take_requests adapters (sv_world sv))) \<le> 99"
    and "length (fst (take_requests adapters (sv_world sv))) < unat (poolSize (sv_sched sv))"
    and "serve_pending (clock env (clockReads (sv_sched sv)) div 1000) adapters sv = Inr sv'"
  shows "\<exists>ran s'. servant_tars_run env sv = Inr (ran, sv'\<lparr>sv_sched := s'\<rparr>) \<and> idle_sched s' p \<and>
    stackSize s' = stackSize (sv_sched sv) \<and> poolSize s' = poolSize (sv_sched sv)"
  using assms by (rule servant_turn)

definition waiting_world :: World where
  "waiting_world = sample_world\<lparr>w_adapters :=
     [sample_adapter\<lparr>ba_receiveBuffer := \<lparr>td_deque = [recv_message sample_connection keepAlive_body], td_size = 1\<rparr>\<rparr>]\<rparr>"

theorem servant_turn_refines_witness:
  "\<exists>s p ran sv' s'. serve_pending 0 [(''HelloAdapter'', 0)] (sample_worker s waiting_world) = Inr sv' \<and>
     servant_tars_run sample_env (sample_worker s waiting_world) = Inr (ran, sv'\<lparr>sv_sched := s'\<rparr>) \<and> idle_sched s' p"
proof -
  obtain s p where s: "idle_sched s p" "poolSize s = 204" "stackSize s = 1310272" by (rule sample_idle)
  let ?sv = "sample_worker s waiting_world"
  have w: "0 < length (w_adapters (sv_world ?sv))" "queue_of (sv_world ?sv) 0 = [recv_message sample_connection keepAlive_body]"
    "\<not> rd_closed (recv_message sample_connection keepAlive_body)" "es_netThreads (sv_server ?sv) = [sample_thread]"
    "\<not> nt_terminate sample_thread"
    "sh_servants (sv_handle ?sv) (ba_name (w_adapters (sv_world ?sv) ! 0)) = Some (Some (stateless ServerImp))"
    "stateless ServerImp (rd_buffer (recv_message sample_connection keepAlive_body)) [] (sv_state ?sv) = Inr (-1, ''7:I have received'', ())"
    by (simp_all add: waiting_world_def queue_of_def recv_message_def sample_server_def sample_thread_def sample_handle_def
        sample_adapter_def keepAlive_reply)
  obtain sv' where sv': "serve_pending 0 [(''HelloAdapter'', 0)] ?sv = Inr sv'" by (rule serve_pending_one [OF w]) simp
  have c: "clock sample_env k div 1000 = 0" for k by (simp add: sample_env_def poor_env_def)
  have "\<exists>ran s'. servant_tars_run sample_env ?sv = Inr (ran, sv'\<lparr>sv_sched := s'\<rparr>) \<and> idle_sched s' p \<and>
      stackSize s' = stackSize (sv_sched ?sv) \<and> poolSize s' = poolSize (sv_sched ?sv)"
    by (rule servant_turn_refines [OF _ _ sample_group])
      (simp_all add: c s sv' sample_env_ok queues_ok_def w(2) [simplified] requests_of_def, simp_all add: waiting_world_def ThreadDeque_inv_def)
  with sv' show ?thesis by blast
qed

text \<open>C17. The servant thread ends: when the server is terminated before the \<open>k\<close>-th turn and each turn before
  finds queues within bounds, \<open>run\<close> leaves its loop with the scheduler idle, that is with no request half
  done, and goes on to terminate and destroy it. \<open>I\<close> describes what holds between turns.\<close>

theorem servant_run_ends:
  fixes sv :: "'s Servant"
  assumes env: "env_ok env 1310272" and init: "ServantHandle_init (sv_server sv) (sv_handle sv) m = Inr (h, m1)"
    and start: "\<And>s. I (sv\<lparr>sv_handle := h, sv_sched := s\<rparr>)"
    and quiet: "\<And>i sv. sv_sched (others i sv) = sv_sched sv"
    and work: "\<And>i sv. I sv \<Longrightarrow> i < k \<Longrightarrow> servable (clock env (clockReads (sv_sched sv)) div 1000) (others i sv) \<and>
      \<not> es_terminate (sv_server (others i sv))"
    and keep: "\<And>i sv adapters cur sv' s'. I sv \<Longrightarrow> i < k \<Longrightarrow> group_adapters (others i sv) = Inr adapters \<Longrightarrow>
      serve_pending cur adapters (others i sv) = Inr sv' \<Longrightarrow> I (sv'\<lparr>sv_sched := s'\<rparr>)"
    and stop: "\<And>sv. I sv \<Longrightarrow> es_terminate (sv_server (others k sv))"
  shows "\<exists>sv' p. ServantHandle_run env others m sv = Some (ServantHandle_finish env sv') \<and> idle_sched (sv_sched sv') p"
proof -
  obtain s p where s: "ServantHandle_start env m sv = Inr (m1, sv\<lparr>sv_handle := h, sv_sched := s\<rparr>)" "idle_sched s p"
    "poolSize s = 204" "stackSize s = 1310272" by (rule servant_starts [OF env init])
  let ?sv = "sv\<lparr>sv_handle := h, sv_sched := s\<rparr>"
  have "\<exists>sv'. ServantHandle_loop env others 0 ?sv = Some (ServantHandle_finish env sv') \<and> idle_sched (sv_sched sv') p"
    by (rule servant_loop_ends [where I = I and k = k and d = k]) (use s(2-4) env start quiet work keep stop in auto)
  then show ?thesis using s(1) by (auto simp: ServantHandle_run_def)
qed

text \<open>A server that is shut down after three turns without requests.\<close>

definition shut_down :: "nat \<Rightarrow> unit Servant \<Rightarrow> unit Servant" where
  "shut_down i sv = (if i < 3 then sv else sv\<lparr>sv_server := EpollServer_terminate (sv_server sv)\<rparr>)"

definition quiet_servant :: "unit Servant \<Rightarrow> bool" where
  "quiet_servant sv \<longleftrightarrow>
     group_adapters sv = Inr [(''HelloAdapter'', 0)] \<and> \<not> es_terminate (sv_server sv) \<and>
     0 < length (w_adapters (sv_world sv)) \<and> ba_receiveBuffer (w_adapters (sv_world sv) ! 0) = ThreadDeque_new"

lemma quiet_serves:
  assumes "quiet_servant sv"
  shows "\<exists>node out w. serve_pending cur [(''HelloAdapter'', 0)] sv =
      Inr (sv\<lparr>sv_world := w, sv_node := node, sv_beats := sv_beats sv @ out\<rparr>) \<and> same_queues (sv_world sv) w"
proof -
  have i: "0 < length (w_adapters (sv_world sv))" and b: "ba_receiveBuffer (w_adapters (sv_world sv) ! 0) = ThreadDeque_new"
    using assms by (simp_all add: quiet_servant_def)
  obtain out node w where h: "heartbeat_adapters cur [(''HelloAdapter'', 0)] (sv_node sv) (sv_world sv) = Inr (out, node, w)"
    "same_queues (sv_world sv) w" by (rule heartbeat_one [OF i])
  note sq = same_queues_facts [OF h(2)]
  have "queue_of w 0 = []" "0 < length (w_adapters w)" "ThreadDeque_inv (ba_receiveBuffer (w_adapters w ! 0))"
    using sq i b by (simp_all add: queue_of_def ThreadDeque_new_def ThreadDeque_inv_def)
  then have "take_requests [(''HelloAdapter'', 0)] w = ([], w)" using skip_all_idle [of 0 w] by (simp add: requests_of_def)
  then show ?thesis using h
    by (intro exI [of _ node] exI [of _ out] exI [of _ w]) (simp add: serve_pending_def del: heartbeat_adapters.simps take_requests.simps)
qed

lemma init_servants_group: "init_servants adapters h m = (h', m') \<Longrightarrow> sh_handleGroup h' = sh_handleGroup h"
  by (induction adapters h m rule: init_servants.induct) (auto split: prod.splits)

theorem servant_run_ends_witness:
  "\<exists>sv' p. ServantHandle_run sample_env shut_down ServantHelperManager_new (sample_worker undefined sample_world) =
     Some (ServantHandle_finish sample_env sv') \<and> idle_sched (sv_sched sv') p"
proof -
  let ?sv = "sample_worker undefined sample_world"
  obtain h m1 where i: "ServantHandle_init (sv_server ?sv) (sv_handle ?sv) ServantHelperManager_new = Inr (h, m1)"
    using sample_init by auto
  have "sh_handleGroup h = Some ''HelloAdapter''"
    using i by (auto simp: ServantHandle_init_def sample_handle_def dest: init_servants_group split: option.splits)
  then have start: "quiet_servant (?sv\<lparr>sv_handle := h, sv_sched := s\<rparr>)" for s
    by (simp add: quiet_servant_def group_adapters_def sample_server_def sample_world_def sample_adapter_def BindAdapter_new_def)
  have turn: "servable cur sv" if q: "quiet_servant sv" for cur sv
  proof -
    obtain out node w where "serve_pending cur [(''HelloAdapter'', 0)] sv = Inr (sv\<lparr>sv_world := w, sv_node := node, sv_beats := sv_beats sv @ out\<rparr>)"
      using quiet_serves [OF q, of cur] by metis
    then have "\<not> isl (serve_pending cur [(''HelloAdapter'', 0)] sv)" by simp
    moreover have "queue_of (sv_world sv) 0 = []" "queues_ok [(''HelloAdapter'', 0)] (sv_world sv)"
      using q by (simp_all add: quiet_servant_def queues_ok_def queue_of_def ThreadDeque_new_def ThreadDeque_inv_def)
    moreover from this have "length (fst (take_requests [(''HelloAdapter'', 0)] (sv_world sv))) \<le> 99" by (simp add: requests_of_def)
    ultimately show ?thesis using q unfolding servable_def quiet_servant_def by blast
  qed
  have keep: "quiet_servant (sv'\<lparr>sv_sched := s'\<rparr>)"
    if q: "quiet_servant sv" and r: "group_adapters sv = Inr adapters" "serve_pending cur adapters sv = Inr sv'" for sv sv' s' adapters cur
  proof -
    have "adapters = [(''HelloAdapter'', 0)]" using q r(1) by (simp add: quiet_servant_def)
    then obtain node out w where "sv' = sv\<lparr>sv_world := w, sv_node := node, sv_beats := sv_beats sv @ out\<rparr>" "same_queues (sv_world sv) w"
      using quiet_serves [OF q, of cur] r(2) by (auto simp del: heartbeat_adapters.simps)
    then show ?thesis using q same_queues_facts [of "sv_world sv" w]
      by (simp add: quiet_servant_def group_adapters_def cong: option.case_cong)
  qed
  have stop: "es_terminate (sv_server (shut_down 3 sv))" for sv by (simp add: shut_down_def EpollServer_terminate_def)
  have quiet: "sv_sched (shut_down i sv) = sv_sched sv" for i sv by (simp add: shut_down_def)
  have same: "shut_down i sv = sv" if "i < 3" for i sv using that by (simp add: shut_down_def)
  have alive: "\<not> es_terminate (sv_server sv)" if "quiet_servant sv" for sv using that by (simp add: quiet_servant_def)
  show ?thesis
    by (rule servant_run_ends [OF sample_env_ok i, where I = quiet_servant and k = 3])
      (use start turn keep stop quiet alive in \<open>simp_all add: same\<close>)
qed

end
