(* ===== verification/Tarsx_ConnectionIds.thy ===== *)
theory Tarsx_ConnectionIds
  imports Tarsx_EpollServer
begin

text \<open>
  Which client a network thread talks to. Requests and responses name a connection by its uid only, so that a
  response goes to the client that asked rests on uids: here no uid is ever given to a second connection,
  whatever the network thread, the servant threads and the network do.
\<close>

section \<open>Identity of connections\<close>

text \<open>The peer of a connection.\<close>

definition client :: "Connection \<Rightarrow> int \<times> string \<times> u16 \<times> int \<times> nat option" where
  "client c = (con_fd c, con_ip c, con_port c, con_listenfd c, con_bindAdapter c)"

definition ids_inv :: "NetThread \<Rightarrow> bool" where
  "ids_inv nt \<longleftrightarrow> distinct (nt_free nt) \<and>
     (\<forall>u c. nt_connectionUids nt u = Some (Some c) \<longrightarrow> con_uid c = u \<and> u \<notin> set (nt_free nt))"

text \<open>What may happen to the connections: those there are afterwards were there before, with the same client,
  or have a uid that was free.\<close>

definition evolves :: "NetThread \<Rightarrow> NetThread \<Rightarrow> bool" where
  "evolves nt nt' \<longleftrightarrow>
     (ids_inv nt \<longrightarrow> ids_inv nt' \<and> suffix (nt_free nt') (nt_free nt) \<and>
       (\<forall>u c'. nt_connectionUids nt' u = Some (Some c') \<longrightarrow>
          (\<exists>c. nt_connectionUids nt u = Some (Some c) \<and> client c = client c') \<or> u \<in> set (nt_free nt) - set (nt_free nt')))"

lemma evolves_refl [simp]: "evolves nt nt"
  by (auto simp: evolves_def)

lemma evolves_trans [trans]:
  assumes a: "evolves nt1 nt2" and b: "evolves nt2 nt3"
  shows "evolves nt1 nt3"
  unfolding evolves_def
proof (intro impI)
  assume "ids_inv nt1"
  with a have a': "ids_inv nt2" "suffix (nt_free nt2) (nt_free nt1)"
    "\<And>u c'. nt_connectionUids nt2 u = Some (Some c') \<Longrightarrow>
       (\<exists>c. nt_connectionUids nt1 u = Some (Some c) \<and> client c = client c') \<or> u \<in> set (nt_free nt1) - set (nt_free nt2)"
    by (auto simp: evolves_def)
  with b have b': "ids_inv nt3" "suffix (nt_free nt3) (nt_free nt2)"
    "\<And>u c'. nt_connectionUids nt3 u = Some (Some c') \<Longrightarrow>
       (\<exists>c. nt_connectionUids nt2 u = Some (Some c) \<and> client c = client c') \<or> u \<in> set (nt_free nt2) - set (nt_free nt3)"
    by (auto simp: evolves_def)
  have sub: "set (nt_free nt3) \<subseteq> set (nt_free nt2)" "set (nt_free nt2) \<subseteq> set (nt_free nt1)"
    using a'(2) b'(2) by (auto dest: set_mono_suffix)
  have "(\<exists>c. nt_connectionUids nt1 u = Some (Some c) \<and> client c = client c') \<or> u \<in> set (nt_free nt1) - set (nt_free nt3)"
    if h: "nt_connectionUids nt3 u = Some (Some c')" for u c'
  proof (rule disjE [OF b'(3) [OF h]])
    assume "\<exists>c. nt_connectionUids nt2 u = Some (Some c) \<and> client c = client c'"
    then obtain c where c: "nt_connectionUids nt2 u = Some (Some c)" "client c = client c'" by blast
    show ?thesis using a'(3) [OF c(1)] c(2) sub by auto
  next
    assume "u \<in> set (nt_free nt2) - set (nt_free nt3)"
    then show ?thesis using sub by blast
  qed
  then show "ids_inv nt3 \<and> suffix (nt_free nt3) (nt_free nt1) \<and>
      (\<forall>u c'. nt_connectionUids nt3 u = Some (Some c') \<longrightarrow>
        (\<exists>c. nt_connectionUids nt1 u = Some (Some c) \<and> client c = client c') \<or> u \<in> set (nt_free nt1) - set (nt_free nt3))"
    using b'(1) a'(2) b'(2) by (auto intro: suffix_order.trans)
qed

text \<open>Changes outside the two members.\<close>

lemma evolves_same:
  "nt_free nt' = nt_free nt \<Longrightarrow> nt_connectionUids nt' = nt_connectionUids nt \<Longrightarrow> evolves nt nt'"
  by (auto simp: evolves_def ids_inv_def)

lemma evolves_drop:
  "nt_free nt' = nt_free nt \<Longrightarrow>
   (\<And>u c. nt_connectionUids nt' u = Some (Some c) \<Longrightarrow> nt_connectionUids nt u = Some (Some c)) \<Longrightarrow> evolves nt nt'"
  by (fastforce simp: evolves_def ids_inv_def)

text \<open>A connection an operation holds on to: either it was taken out of the map, or the map has it, perhaps
  with other buffers.\<close>

definition holds :: "Connection \<Rightarrow> NetThread \<Rightarrow> bool" where
  "holds c nt \<longleftrightarrow>
     nt_connectionUids nt (con_uid c) = None \<or> (\<exists>d. nt_connectionUids nt (con_uid c) = Some (Some d) \<and> client d = client c)"

lemma put_conn_evolves:
  assumes "holds c nt"
  shows "evolves nt (put_conn c nt)" "holds c (put_conn c nt)"
  using assms by (auto simp: holds_def put_conn_def evolves_def ids_inv_def)

lemma holds_put:
  assumes "holds c nt" and "con_uid c' = con_uid c" and "client c' = client c"
  shows "evolves nt (put_conn c' nt)" "holds c' (put_conn c' nt)"
  using put_conn_evolves [of c' nt] assms by (auto simp: holds_def)

lemma conn_lookup_evolves:
  assumes "conn_lookup u nt = (c, nt')"
  shows "evolves nt nt'" "ids_inv nt \<Longrightarrow> c = Some d \<Longrightarrow> holds d nt'"
  using assms by (auto simp: conn_lookup_def holds_def ids_inv_def intro!: evolves_drop split: option.splits if_splits)

section \<open>The operations\<close>

lemma client_update [simp]:
  "client (c\<lparr>con_recvBuffer := b\<rparr>) = client c" "client (c\<lparr>con_sendBuffer := l\<rparr>) = client c"
  "client (c\<lparr>con_close := x\<rparr>) = client c"
  by (simp_all add: client_def)

lemma Connection_recv_client:
  assumes "Connection_recv reads c = Inr (ret, reqs, reads', c')"
  shows "con_uid c' = con_uid c \<and> client c' = client c"
proof -
  have "\<exists>b. c' = c\<lparr>con_recvBuffer := b\<rparr>"
  proof (cases "recv_fill reads (con_recvBuffer c)")
    case (Inr f)
    obtain closed reads1 b where f: "f = (closed, reads1, b)" by (metis prod_cases3)
    show ?thesis
    proof (cases closed)
      case True
      then show ?thesis using assms Inr f by (auto simp: Connection_recv_def)
    next
      case False
      note nclosed = False
      show ?thesis
      proof (cases "con_listenfd c = -1")
        case True
        then show ?thesis using assms Inr f nclosed by (auto simp: Connection_recv_def)
      next
        case False
        then obtain r where r: "of_loop (recv_parse b []) = Inr r"
          "bindE r (\<lambda>(reqs, b'). Inr (int (length reqs), map (recv_message c) reqs, reads1, c\<lparr>con_recvBuffer := b'\<rparr>)) =
             Inr (ret, reqs, reads', c')"
          using assms Inr f nclosed by (cases "of_loop (recv_parse b [])") (simp_all add: Connection_recv_def)
        then show ?thesis by (cases r) auto
      qed
    qed
  qed (use assms in \<open>simp add: Connection_recv_def\<close>)
  then show ?thesis by auto
qed

lemma conRecv_client:
  "conRecv (Some c) w = Inr (ret, reqs, c', w') \<Longrightarrow> con_uid c' = con_uid c \<and> client c' = client c"
  by (auto simp: conRecv_def result_simps dest: Connection_recv_client)

lemma send_finish_client:
  "send_finish c = Inr (ret, c') \<Longrightarrow> con_uid c' = con_uid c \<and> client c' = client c"
  by (auto simp: send_finish_def result_simps client_def split: if_splits)

lemma conSend_data_client:
  "conSend_data (Some c) msg w = Inr (ret, c', w') \<Longrightarrow> con_uid c' = con_uid c \<and> client c' = client c"
  by (auto simp: conSend_data_def Connection_send_data_def result_simps Let_def dest: send_finish_client split: prod.splits if_splits)

lemma conSend_client:
  "conSend (Some c) w = Inr (ret, c', w') \<Longrightarrow> con_uid c' = con_uid c \<and> client c' = client c"
  by (auto simp: conSend_def Connection_send_queued_def result_simps dest!: send_finish_client split: if_splits)

lemma delConnection_evolves:
  assumes "delConnection (Some c) t nt w = Inr (c', nt', w')"
  shows "evolves nt nt'" "holds c nt \<Longrightarrow> holds c' nt'"
  using assms
  by (auto simp: delConnection_def result_simps Let_def holds_def Connection_close_def intro!: evolves_drop split: if_splits)

lemma processNet_in_evolves:
  assumes p: "processNet_in (Some c) nt w = Inr (c', nt', w')" and h: "holds c nt"
  shows "evolves nt nt' \<and> (\<exists>d. c' = Some d \<and> holds d nt')"
proof -
  obtain ret reqs c1 w1 where r: "conRecv (Some c) w = Inr (ret, reqs, c1, w1)"
    using p by (auto simp: processNet_in_def result_simps)
  have c1: "con_uid c1 = con_uid c" "client c1 = client c" using conRecv_client [OF r] by simp_all
  note e1 = holds_put [OF h c1]
  obtain c2 w2 where d: "(if ret < 0 then delConnection (Some c1) EM_CLIENT_CLOSE (put_conn c1 nt) w1 else Inr (c1, put_conn c1 nt, w1)) = Inr (c2, nt', w2)"
    "c' = Some c2" using p r by (auto simp: processNet_in_def result_simps)
  show ?thesis
  proof (cases "ret < 0")
    case True
    then have "delConnection (Some c1) EM_CLIENT_CLOSE (put_conn c1 nt) w1 = Inr (c2, nt', w2)" using d(1) by simp
    from delConnection_evolves [OF this] e1 d(2) show ?thesis by (blast intro: evolves_trans)
  next
    case False
    then show ?thesis using d e1 by auto
  qed
qed

lemma processNet_evolves:
  assumes p: "processNet ev nt w = Inr (nt', w')"
  shows "evolves nt nt'"
proof (cases "ids_inv nt")
  case True
  obtain con nt1 where l: "conn_lookup (ucast (ev_data ev)) nt = (con, nt1)" by fastforce
  note e = conn_lookup_evolves [OF l]
  show ?thesis
  proof (cases "has_event EPOLLERR ev \<or> has_event EPOLLHUP ev")
    case True
    then obtain x w2 where "delConnection con EM_SERVER_CLOSE nt1 w = Inr (x, nt', w2)"
      using p l by (auto simp: processNet_def result_simps)
    moreover from this obtain c where "con = Some c" by (cases con) (simp_all add: delConnection_def)
    ultimately show ?thesis using e(1) delConnection_evolves(1) by (blast intro: evolves_trans)
  next
    case False
    then obtain con2 nt2 w2 where i: "(if has_event EPOLLIN ev then processNet_in con nt1 w else Inr (con, nt1, w)) = Inr (con2, nt2, w2)"
      and o: "(if has_event EPOLLOUT ev then bindE (conSend con2 w2) (\<lambda>(_, c3, w3). Inr (put_conn c3 nt2, w3)) else Inr (nt2, w2)) = Inr (nt', w')"
      using p l by (auto simp: processNet_def result_simps split: if_splits)
    have in_ok: "evolves nt1 nt2 \<and> (\<forall>d. con2 = Some d \<longrightarrow> holds d nt2)"
    proof (cases "has_event EPOLLIN ev")
      case True
      then have pi: "processNet_in con nt1 w = Inr (con2, nt2, w2)" using i by simp
      then obtain c where c: "con = Some c" by (cases con) (simp_all add: processNet_in_def conRecv_def)
      show ?thesis using processNet_in_evolves [OF pi [unfolded c]] e(2) [OF \<open>ids_inv nt\<close> c] by auto
    next
      case False
      then show ?thesis using i e(2) [OF \<open>ids_inv nt\<close>] by auto
    qed
    have "evolves nt2 nt'"
    proof (cases "has_event EPOLLOUT ev")
      case True
      then obtain ret c3 w3 where s: "conSend con2 w2 = Inr (ret, c3, w3)" "nt' = put_conn c3 nt2"
        using o by (auto simp: result_simps)
      then obtain c where c: "con2 = Some c" by (cases con2) (simp_all add: conSend_def)
      show ?thesis using holds_put(1) [of c nt2 c3] conSend_client [OF s(1) [unfolded c]] in_ok c s(2) by simp
    next
      case False
      then show ?thesis using o by simp
    qed
    with in_ok e(1) show ?thesis by (blast intro: evolves_trans)
  qed
qed (simp add: evolves_def)

lemma pipe_message_evolves:
  assumes p: "pipe_message m (nt, w) = Inr (nt', w')"
  shows "evolves nt nt'"
proof (cases "ids_inv nt")
  case True
  obtain con nt1 where l: "conn_lookup (sd_uid m) nt = (con, nt1)" by fastforce
  note e = conn_lookup_evolves [OF l]
  consider (send) ret c' w1 where "conSend_data con (sd_buffer m) w = Inr (ret, c', w1)" "nt' = put_conn c' nt1"
    | (none) "nt' = nt1"
    | (mark) c where "con = Some c" "nt' = put_conn (snd (Connection_set_close c)) nt1"
    | (close) c c' w1 where "con = Some c"
        "delConnection (Some (snd (Connection_set_close c))) EM_SERVER_CLOSE (put_conn (snd (Connection_set_close c)) nt1) w = Inr (c', nt', w1)"
    using p l by (auto simp: pipe_message_def result_simps split: if_splits option.splits prod.splits)
  then show ?thesis
  proof cases
    case send
    then obtain c where c: "con = Some c" by (cases con) (simp_all add: conSend_data_def)
    show ?thesis
      using holds_put(1) [OF e(2) [OF True c]] conSend_data_client [OF send(1) [unfolded c]] send(2) e(1)
      by (blast intro: evolves_trans)
  next
    case none
    then show ?thesis using e(1) by simp
  next
    case mark
    have "evolves nt1 nt'" unfolding mark(2)
      by (rule holds_put(1) [OF e(2) [OF True mark(1)]]) (simp_all add: Connection_set_close_def)
    with e(1) show ?thesis by (rule evolves_trans)
  next
    case close
    have "evolves nt1 (put_conn (snd (Connection_set_close c)) nt1)"
      by (rule holds_put(1) [OF e(2) [OF True close(1)]]) (simp_all add: Connection_set_close_def)
    with e(1) delConnection_evolves(1) [OF close(2)] show ?thesis by (blast intro: evolves_trans)
  qed
qed (simp add: evolves_def)

lemma processPipe_evolves:
  assumes "processPipe nt w = Inr (nt', w')"
  shows "evolves nt nt'"
proof -
  obtain x y ds d where s: "ThreadDeque_swap [] 0 (nt_sendBuffer nt) = (x, y, ds, d)" by (metis prod_cases4)
  have "evolves nt (fst (nt', w'))"
  proof (rule fold_result_inv [where I = "\<lambda>s. evolves nt (fst s)"])
    show "fold_result pipe_message ds (nt\<lparr>nt_sendBuffer := d\<rparr>, w) = Inr (nt', w')"
      using assms s by (simp add: processPipe_def)
    show "evolves nt (fst (nt\<lparr>nt_sendBuffer := d\<rparr>, w))" by (simp add: evolves_same)
    show "evolves nt (fst t)" if "evolves nt (fst s)" "pipe_message m s = Inr t" for m s t
      using that pipe_message_evolves by (metis evolves_trans prod.collapse)
  qed
  then show ?thesis by simp
qed

lemma listener_of_same:
  "listener_of fd nt = (p, nt') \<Longrightarrow> nt_free nt' = nt_free nt \<and> nt_connectionUids nt' = nt_connectionUids nt"
  by (auto simp: listener_of_def set_listener_def split: option.splits)

lemma addTConnection_evolves:
  assumes "addTConnection c nt k = Inr (nt', k')"
  shows "evolves nt nt'"
proof (cases "nt_free nt")
  case (Cons uid rest)
  have nt': "nt_free nt' = rest" "nt_connectionUids nt' = (nt_connectionUids nt)(uid \<mapsto> Some (Connection_init uid c))"
    using assms Cons by (auto simp: addTConnection_def Let_def)
  have u: "con_uid (Connection_init uid c) = uid" by (simp add: Connection_init_def)
  show ?thesis unfolding evolves_def
  proof (intro impI conjI)
    assume i: "ids_inv nt"
    then show "ids_inv nt'" using Cons by (auto simp: ids_inv_def nt' u)
    show "suffix (nt_free nt') (nt_free nt)" by (simp add: nt' Cons suffix_ConsI)
    show "\<forall>u c'. nt_connectionUids nt' u = Some (Some c') \<longrightarrow>
        (\<exists>c. nt_connectionUids nt u = Some (Some c) \<and> client c = client c') \<or> u \<in> set (nt_free nt) - set (nt_free nt')"
      using i Cons by (auto simp: nt' ids_inv_def)
  qed
qed (use assms in \<open>simp add: addTConnection_def\<close>)

lemma accept_evolves:
  assumes "NetThread_accept listenfd nt w = Inr (b, nt', w')"
  shows "evolves nt nt'"
proof -
  obtain p nt1 where l: "listener_of listenfd nt = (p, nt1)" by fastforce
  have "nt' = nt \<or> (\<exists>c k k'. addTConnection c nt1 k = Inr (nt', k'))"
    using assms l by (auto simp: NetThread_accept_def result_simps split: prod.splits if_splits)
  then show ?thesis
    using evolves_same [of nt1 nt] listener_of_same [OF l] addTConnection_evolves by (auto intro: evolves_trans)
qed

lemma accept_all_evolves:
  "accept_all listenfd nt w = Inr (nt', w') \<Longrightarrow> evolves nt nt'"
proof (induction listenfd nt w arbitrary: nt' w' rule: accept_all.induct)
  case (1 listenfd nt w)
  obtain b nt1 w1 where a: "NetThread_accept listenfd nt w = Inr (b, nt1, w1)"
    using "1.prems" by (subst (asm) accept_all.simps) (auto simp: result_simps)
  show ?case
  proof (cases b)
    case True
    then have "accept_all listenfd nt1 w1 = Inr (nt', w')" using "1.prems" a by (simp add: accept_all.simps [of listenfd nt])
    then have "evolves nt1 nt'" using "1.IH" [OF a] True by blast
    with accept_evolves [OF a] show ?thesis by (rule evolves_trans)
  next
    case False
    then show ?thesis using "1.prems" a accept_evolves [OF a] by (simp add: accept_all.simps [of listenfd nt])
  qed
qed

lemma event_evolves: "NetThread_event ev nt w = Inr (nt', w') \<Longrightarrow> evolves nt nt'"
  by (auto simp: NetThread_event_def Let_def dest: accept_all_evolves processPipe_evolves processNet_evolves split: if_splits)

lemma run_evolves: "NetThread_run readies nt w = Inr (nt', w') \<Longrightarrow> evolves nt nt'"
proof (induction readies arbitrary: nt w)
  case Nil
  then show ?case by simp
next
  case (Cons ready readies)
  obtain n ep where e: "Epoller_wait ready (nt_epoller nt) = (n, ep)" by fastforce
  let ?f = "\<lambda>i (nt, w). bindE (Epoller_get (int i) (nt_epoller nt)) (\<lambda>ev. NetThread_event ev nt w)"
  show ?case
  proof (cases "nt_terminate nt")
    case True
    then show ?thesis using Cons.prems by simp
  next
    case False
    then obtain nt1 w1 where r: "fold_result ?f [0..<nat n] (nt\<lparr>nt_epoller := ep\<rparr>, w) = Inr (nt1, w1)"
      "NetThread_run readies nt1 w1 = Inr (nt', w')" using Cons.prems e by (auto simp: result_simps)
    have "evolves nt (fst (nt1, w1))"
      by (rule fold_result_inv [OF r(1), where I = "\<lambda>s. evolves nt (fst s)"])
        (auto simp: result_simps evolves_same, metis event_evolves evolves_trans)
    then show ?thesis using Cons.IH [OF r(2)] by (auto intro: evolves_trans)
  qed
qed

section \<open>Everything that happens to a network thread\<close>

text \<open>The thread serves events, one or many; servant threads hand it responses, requests to close and the
  request to end; \<open>EpollServer\<close> binds an adapter to it. \<open>Surroundings\<close> is what else changes: the adapters the
  servant threads empty, the answers of the kernel, the bytes that arrive.\<close>

datatype net_step =
  Rounds "epoll_event list list"
| Event epoll_event
| Respond u32 string string u16
| CloseConnection u32
| TerminateThread
| BindAdapterTo nat
| Surroundings World

fun net_do ::
    "(string \<Rightarrow> int \<times> u32) \<Rightarrow> (string \<Rightarrow> u32 option) \<Rightarrow> net_step \<Rightarrow> NetThread \<times> World \<Rightarrow> (NetThread \<times> World) result" where
  "net_do pton byname (Rounds readies) (nt, w) = NetThread_run readies nt w"
| "net_do pton byname (Event ev) (nt, w) = NetThread_event ev nt w"
| "net_do pton byname (Respond uid msg ip port) (nt, w) =
     (let (nt', k) = recvNeedToSendFromServer uid msg ip port nt (w_kernel w) in Inr (nt', w\<lparr>w_kernel := k\<rparr>))"
| "net_do pton byname (CloseConnection uid) (nt, w) =
     (let (nt', k) = NetThread_close uid nt (w_kernel w) in Inr (nt', w\<lparr>w_kernel := k\<rparr>))"
| "net_do pton byname TerminateThread (nt, w) =
     (let (nt', k) = NetThread_terminate nt (w_kernel w) in Inr (nt', w\<lparr>w_kernel := k\<rparr>))"
| "net_do pton byname (BindAdapterTo i) (nt, w) =
     bindE (NetThread_bind pton byname i nt w) (\<lambda>(_, nt', w'). Inr (nt', w'))"
| "net_do pton byname (Surroundings w') (nt, w) = Inr (nt, w')"

lemma net_do_evolves:
  assumes "net_do pton byname s (nt, w) = Inr (nt', w')"
  shows "evolves nt nt'"
proof (cases s)
  case (Rounds readies)
  then show ?thesis using assms run_evolves by simp
next
  case (Event ev)
  then show ?thesis using assms event_evolves by simp
next
  case (Respond uid msg ip port)
  then show ?thesis using assms
    by (auto simp: recvNeedToSendFromServer_def pipe_push_def intro!: evolves_same split: if_splits prod.splits)
next
  case (CloseConnection uid)
  then show ?thesis using assms by (auto simp: NetThread_close_def pipe_push_def intro!: evolves_same)
next
  case TerminateThread
  then show ?thesis using assms by (auto simp: NetThread_terminate_def Let_def intro!: evolves_same)
next
  case (BindAdapterTo i)
  then show ?thesis using assms
    by (auto simp: NetThread_bind_def result_simps set_listener_def intro!: evolves_same)
next
  case (Surroundings w2)
  then show ?thesis using assms by simp
qed

lemma steps_evolve:
  assumes "fold_result (net_do pton byname) ss (nt, w) = Inr (nt', w')"
  shows "evolves nt nt'"
proof -
  have "evolves nt (fst (nt', w'))"
    by (rule fold_result_inv [OF assms, where I = "\<lambda>s. evolves nt (fst s)"])
      (simp, metis net_do_evolves evolves_trans prod.collapse)
  then show ?thesis by simp
qed

section \<open>From the start\<close>

text \<open>After \<open>createEpoll\<close> the thread has 2000 connection ids, from 1 on.\<close>

definition fresh_uids :: "u32 list" where
  "fresh_uids = map of_nat [1..<2001]"

lemma fresh_uids_split: "fresh_uids = 1 # map of_nat [2..<2001]"
  using upt_conv_Cons [of 1 2001] by (simp add: fresh_uids_def numeral_2_eq_2 del: upt_rec_numeral)

lemma unat_uid: "n < 2001 \<Longrightarrow> unat (of_nat n :: u32) = n"
  by (simp add: unsigned_of_nat take_bit_nat_eq_self)

lemma fresh_uids_distinct: "distinct fresh_uids"
proof -
  have "inj_on (of_nat :: nat \<Rightarrow> u32) {1..<2001}"
    by (rule inj_onI) (metis atLeastLessThan_iff unat_uid)
  then show ?thesis by (simp add: fresh_uids_def distinct_map del: upt_rec_numeral)
qed

lemma fresh_uids_range: "u \<in> set fresh_uids \<longleftrightarrow> 1 \<le> unat u \<and> unat u \<le> 2000"
proof
  assume "u \<in> set fresh_uids"
  then obtain n where "u = of_nat n" "1 \<le> n" "n < 2001" unfolding fresh_uids_def by (auto simp del: upt_rec_numeral)
  then show "1 \<le> unat u \<and> unat u \<le> 2000" by (simp add: unat_uid)
next
  assume "1 \<le> unat u \<and> unat u \<le> 2000"
  then have "unat u \<in> {1..<2001}" "of_nat (unat u) = u" by simp_all
  then show "u \<in> set fresh_uids" unfolding fresh_uids_def set_map set_upt by (metis imageI)
qed

lemma createEpoll_ids:
  assumes "NetThread_createEpoll number nt k = (nt', k')"
  shows "nt_free nt' = nt_free nt @ fresh_uids" "nt_connectionUids nt' = nt_connectionUids nt"
    "nt_listeners nt' = nt_listeners nt" "nt_terminate nt' = nt_terminate nt" "nt_sendBuffer nt' = nt_sendBuffer nt"
  using assms
  by (auto simp: NetThread_createEpoll_def Let_def fresh_uids_def numeral_eq_Suc simp del: upt_Suc split: prod.splits)

lemma NetThread_new_empty:
  "NetThread_new memory k = Inr (nt, k') \<Longrightarrow> nt_free nt = [] \<and> nt_connectionUids nt = Map.empty"
  by (auto simp: NetThread_new_def result_simps)

text \<open>A thread that was built, given its adapters, and then its epoller.\<close>

definition net_started ::
    "(string \<Rightarrow> int \<times> u32) \<Rightarrow> (string \<Rightarrow> u32 option) \<Rightarrow> u64 \<Rightarrow> int \<Rightarrow> net_step list \<Rightarrow> World \<Rightarrow> (NetThread \<times> World) result" where
  "net_started pton byname memory number ss w =
     bindE (NetThread_new memory (w_kernel w)) (\<lambda>(nt, k).
     bindE (fold_result (net_do pton byname) ss (nt, w\<lparr>w_kernel := k\<rparr>)) (\<lambda>(nt1, w1).
     let (nt2, k2) = NetThread_createEpoll number nt1 (w_kernel w1) in Inr (nt2, w1\<lparr>w_kernel := k2\<rparr>)))"

lemma net_started_ids:
  assumes "net_started pton byname memory number ss w = Inr (nt, w')"
  shows "ids_inv nt" "nt_free nt = fresh_uids" "nt_connectionUids nt u \<noteq> Some (Some c)"
proof -
  obtain nt0 k nt1 w1 where n: "NetThread_new memory (w_kernel w) = Inr (nt0, k)"
    "fold_result (net_do pton byname) ss (nt0, w\<lparr>w_kernel := k\<rparr>) = Inr (nt1, w1)"
    and r: "(let (nt2, k2) = NetThread_createEpoll number nt1 (w_kernel w1) in Inr (nt2, w1\<lparr>w_kernel := k2\<rparr>)) = (Inr (nt, w') :: (NetThread \<times> World) result)"
    using assms by (auto simp: net_started_def bindE_eq_Inr)
  obtain nt2 k2 where "NetThread_createEpoll number nt1 (w_kernel w1) = (nt2, k2)" by fastforce
  with r have c0: "NetThread_createEpoll number nt1 (w_kernel w1) = (nt, k2)" by simp
  have e: "nt_free nt0 = []" "nt_connectionUids nt0 = Map.empty" using NetThread_new_empty [OF n(1)] by simp_all
  then have i0: "ids_inv nt0" by (simp add: ids_inv_def)
  have v: "evolves nt0 nt1" by (rule steps_evolve [OF n(2)])
  have f: "nt_free nt1 = []" using v i0 e by (simp add: evolves_def)
  have c: "nt_connectionUids nt1 u \<noteq> Some (Some c)" for u c
    using v i0 e f unfolding evolves_def by fastforce
  show "nt_free nt = fresh_uids" using createEpoll_ids(1) [OF c0] f by simp
  moreover show "nt_connectionUids nt u \<noteq> Some (Some c)" for u c using createEpoll_ids(2) [OF c0] c by simp
  ultimately show "ids_inv nt" using fresh_uids_distinct by (simp add: ids_inv_def)
qed

lemma evolves_keeps:
  assumes "evolves nt nt'" and "ids_inv nt" and "nt_connectionUids nt u = Some (Some c)"
    and "nt_connectionUids nt' u = Some (Some c')"
  shows "client c' = client c"
proof -
  have "u \<notin> set (nt_free nt)" using assms(2,3) by (simp add: ids_inv_def)
  moreover have "(\<exists>d. nt_connectionUids nt u = Some (Some d) \<and> client d = client c') \<or> u \<in> set (nt_free nt) - set (nt_free nt')"
    using assms(1,2,4) by (simp add: evolves_def)
  ultimately show ?thesis using assms(3) by auto
qed

section \<open>A thread, started, and its first client\<close>

lemma net_started_ok:
  assumes "all_succeed (w_kernel w)"
  shows "\<exists>nt w'. net_started pton byname memory number [] w = Inr (nt, w') \<and> nt_listeners nt = []"
proof -
  obtain s1 k1 where s1: "Socket_createSocket AF_INET Socket_new (w_kernel w) = Inr (s1, k1)" "all_succeed k1"
    using Socket_createSocket_ok [OF assms] by blast
  obtain s2 k2 where s2: "Socket_createSocket AF_INET Socket_new k1 = Inr (s2, k2)"
    using Socket_createSocket_ok [OF s1(2)] by blast
  obtain nt where n: "NetThread_new memory (w_kernel w) = Inr (nt, k2)" "nt_listeners nt = []"
    using s1(1) s2 by (simp add: NetThread_new_def)
  obtain nt' k' where c: "NetThread_createEpoll number nt k2 = (nt', k')" by fastforce
  then show ?thesis using n(1) createEpoll_ids(3) [OF c] n(2) by (simp add: net_started_def)
qed

lemma sample_accept:
  assumes k: "w_kernel w = \<lparr>k_results = [7], k_calls = []\<rparr>" and l: "listener_of lfd nt = (p, nt1)" and free: "nt_free nt = uid # rest"
  shows "\<exists>nt' k' c. NetThread_accept lfd nt w = Inr (True, nt', w\<lparr>w_kernel := k'\<rparr>) \<and> k_results k' = [] \<and>
    nt_connectionUids nt' = (nt_connectionUids nt)(uid \<mapsto> Some c) \<and> con_sendBuffer c = []"
proof -
  have i: "Socket_init lfd False AF_INET Socket_new (w_kernel w) = (\<lparr>sk_fd = lfd, sk_owner = False, sk_domain = AF_INET\<rparr>, w_kernel w)"
    by (simp add: Socket_init_def Socket_new_def Socket_close_def INVALID_SOCKET_def)
  have a: "accept_loop lfd (w_kernel w) = (7, \<lparr>k_results = [], k_calls = [(Sys_accept lfd, 7)]\<rparr>)"
    by (subst accept_loop.simps) (simp add: sys_def k EINTR_def)
  have sa: "Socket_accept \<lparr>sk_fd = lfd, sk_owner = False, sk_domain = AF_INET\<rparr> (Socket_set_owner False Socket_new) (w_kernel w) =
      Inr (7, (Socket_set_owner False Socket_new)\<lparr>sk_fd := 7, sk_domain := AF_INET\<rparr>, \<lparr>k_results = [], k_calls = [(Sys_accept lfd, 7)]\<rparr>)"
    by (simp add: Socket_accept_def a Socket_set_owner_def Socket_new_def INVALID_SOCKET_def)
  note li = listener_of_same [OF l]
  obtain ip port where "w_peer w 7 = (ip, port)" by fastforce
  then show ?thesis
    by (simp add: NetThread_accept_def i sa l li free Socket_set_block_def set_block_def Socket_set_keepAlive_def set_keepAlive_def
        Socket_set_tcpNoDelay_def set_tcpNoDealy_def Socket_set_closeWaitDefault_def sys_or_fatal_def sys_def Let_def
        Connection_new_def addTConnection_def Epoller_add_def Epoller_ctrl_def Connection_init_def)
      (intro conjI impI; (intro exI conjI, rule refl, simp, rule refl, simp))
qed

lemma accept_none:
  assumes "k_results (w_kernel w) = []"
  shows "\<exists>k. NetThread_accept lfd nt w = Inr (False, nt, w\<lparr>w_kernel := k\<rparr>)"
proof -
  have i: "Socket_init lfd False AF_INET Socket_new (w_kernel w) = (\<lparr>sk_fd = lfd, sk_owner = False, sk_domain = AF_INET\<rparr>, w_kernel w)"
    by (simp add: Socket_init_def Socket_new_def Socket_close_def INVALID_SOCKET_def)
  obtain k where a: "accept_loop lfd (w_kernel w) = (- EAGAIN, k)"
    by (subst (asm) accept_loop.simps) (simp add: sys_def assms EINTR_def EAGAIN_def)
  have "Socket_accept \<lparr>sk_fd = lfd, sk_owner = False, sk_domain = AF_INET\<rparr> (Socket_set_owner False Socket_new) (w_kernel w) =
      Inr (- EAGAIN, (Socket_set_owner False Socket_new)\<lparr>sk_fd := -1, sk_domain := AF_INET\<rparr>, k)"
    by (simp add: Socket_accept_def a Socket_set_owner_def Socket_new_def INVALID_SOCKET_def EAGAIN_def)
  then show ?thesis by (simp add: NetThread_accept_def i EAGAIN_def) (rule exI, rule refl)
qed

definition sample_call :: epoll_event where
  "sample_call = \<lparr>ev_data = 0x100000003, ev_events = EPOLLIN\<rparr>"

definition sample_steps :: "net_step list" where
  "sample_steps = [Surroundings (blank_world\<lparr>w_kernel := \<lparr>k_results = [7], k_calls = []\<rparr>\<rparr>), Event sample_call]"

lemma sample_connected:
  assumes "net_started pton byname memory number [] w0 = Inr (nt1, w1)"
  obtains nt2 w2 c where "fold_result (net_do pton byname) sample_steps (nt1, w1) = Inr (nt2, w2)"
    "nt_connectionUids nt2 1 = Some (Some c)" "con_sendBuffer c = []"
proof -
  let ?w = "blank_world\<lparr>w_kernel := \<lparr>k_results = [7], k_calls = []\<rparr>\<rparr>"
  have free: "nt_free nt1 = 1 # map of_nat [2..<2001]" using net_started_ids(2) [OF assms] fresh_uids_split by simp
  obtain p nt' where l: "listener_of 3 nt1 = (p, nt')" by fastforce
  obtain nt2 k c where a: "NetThread_accept 3 nt1 ?w = Inr (True, nt2, ?w\<lparr>w_kernel := k\<rparr>)" "k_results k = []"
    "nt_connectionUids nt2 = (nt_connectionUids nt1)(1 \<mapsto> Some c)" "con_sendBuffer c = []"
    using sample_accept [OF _ l free, of ?w] by auto
  obtain k' where b: "NetThread_accept 3 nt2 (blank_world\<lparr>w_kernel := k\<rparr>) = Inr (False, nt2, blank_world\<lparr>w_kernel := k'\<rparr>)"
    using accept_none [of "blank_world\<lparr>w_kernel := k\<rparr>"] a(2) by auto
  have "accept_all 3 nt1 ?w = Inr (nt2, ?w\<lparr>w_kernel := k'\<rparr>)"
    by (subst accept_all.simps, simp only: a(1) bindE.simps prod.case if_True, subst accept_all.simps, simp add: b)
  then have "fold_result (net_do pton byname) sample_steps (nt1, w1) = Inr (nt2, ?w\<lparr>w_kernel := k'\<rparr>)"
    by (simp add: sample_steps_def NetThread_event_def sample_call_def has_event_def EPOLLIN_def ET_LISTEN_def Let_def)
  then show thesis by (rule that [of nt2 _ c]) (simp_all add: a(3,4))
qed

section \<open>Properties\<close>

text \<open>C8. Connection ids name clients. From the construction of a network thread on, through every sequence of
  rounds, events, responses, closes and changes of the surroundings, the id under which a connection is found is its
  own and one of 1 to 2000; and as long as the id leads to a connection at all, it leads to the same client (descriptor,
  address, listener, adapter): no id is given to a second connection, whatever closes in between.\<close>

theorem connection_ids:
  assumes "net_started pton byname memory number ss0 w0 = Inr (nt1, w1)"
    and "fold_result (net_do pton byname) ss1 (nt1, w1) = Inr (nt2, w2)"
    and "nt_connectionUids nt2 u = Some (Some c)"
  shows "con_uid c = u \<and> 1 \<le> unat u \<and> unat u \<le> 2000 \<and> u \<notin> set (nt_free nt2) \<and>
    (fold_result (net_do pton byname) ss2 (nt2, w2) = Inr (nt3, w3) \<longrightarrow>
     nt_connectionUids nt3 u = Some (Some c') \<longrightarrow> client c' = client c)"
proof -
  note s = net_started_ids [OF assms(1)]
  have e: "evolves nt1 nt2" by (rule steps_evolve [OF assms(2)])
  then have i: "ids_inv nt2" "u \<in> set (nt_free nt1)"
    using s assms(3) by (simp_all add: evolves_def)
  then show ?thesis
    using assms(3) s(2) fresh_uids_range [of u] evolves_keeps [OF steps_evolve i(1) assms(3)]
    by (auto simp: ids_inv_def)
qed

text \<open>A response, written.\<close>

lemma pipe_message_sends:
  assumes "pipe_message m (nt, w) = Inr (nt', w')" and "sd_cmd m = CHR ''s''"
  obtains c out where "nt_connectionUids nt (sd_uid m) = Some (Some c)" "prefix out (sd_buffer m)"
    "w_sent w' = (w_sent w)(con_fd c := w_sent w (con_fd c) @ out)"
proof -
  obtain con nt1 where l: "conn_lookup (sd_uid m) nt = (con, nt1)" by fastforce
  obtain ret c1 where s: "conSend_data con (sd_buffer m) w = Inr (ret, c1, w')"
    using assms l by (auto simp: pipe_message_def result_simps)
  then obtain c where c: "con = Some c" by (cases con) (simp_all add: conSend_data_def)
  obtain wr rest out where o: "Connection_send_data wr (sd_buffer m) c = Inr (ret, out, c1)"
    "w_sent w' = (w_sent w)(con_fd c := w_sent w (con_fd c) @ out)"
    using s c by (auto simp: conSend_data_def result_simps split: prod.splits)
  have "prefix out (sd_buffer m)"
    using o(1) by (auto simp: Connection_send_data_def Connection_tcpSend_def result_simps take_is_prefix split: write_result.splits if_splits prod.splits)
  moreover have "nt_connectionUids nt (sd_uid m) = Some (Some c)" using l c by (simp add: conn_lookup_def split: option.splits)
  ultimately show thesis using that o(2) by blast
qed


theorem connection_ids_witness:
  "\<exists>nt1 w1 nt2 w2 c. net_started (\<lambda>_. (1, 0)) (\<lambda>_. None) 0 256 [] blank_world = Inr (nt1, w1) \<and>
     fold_result (net_do (\<lambda>_. (1, 0)) (\<lambda>_. None)) sample_steps (nt1, w1) = Inr (nt2, w2) \<and>
     nt_connectionUids nt2 1 = Some (Some c) \<and> con_uid c = 1"
proof -
  have "all_succeed (w_kernel blank_world)" by (simp add: blank_world_def all_succeed_def)
  then obtain nt1 w1 where s: "net_started (\<lambda>_. (1, 0)) (\<lambda>_. None) 0 256 [] blank_world = Inr (nt1, w1)"
    using net_started_ok by blast
  obtain nt2 w2 c where c: "fold_result (net_do (\<lambda>_. (1, 0)) (\<lambda>_. None)) sample_steps (nt1, w1) = Inr (nt2, w2)"
    "nt_connectionUids nt2 1 = Some (Some c)" by (rule sample_connected [OF s])
  from connection_ids [OF s c] s c show ?thesis by blast
qed


end
