(* ===== verification/Tarsx_StartUp.thy ===== *)
theory Tarsx_StartUp
  imports Tarsx_ServantThread Tarsx_ConnectionIds
begin

text \<open>
  What the start-up of an \<open>Application\<close> (\<open>Application.cc\<close>, \<open>EpollServer.cc\<close>) makes, for any configuration: its
  adapters, handle groups and servants, and the network thread that listens on every adapter whose socket differs
  from those bound after it.
\<close>

section \<open>What the start-up makes\<close>

text \<open>An adapter as its maker left it, apart from its endpoint and socket.\<close>

definition adapter_id :: "BindAdapter \<Rightarrow> string \<times> string \<times> int \<times> tagRecvData ThreadDeque" where
  "adapter_id a = (ba_name a, ba_handleGroupName a, ba_handleNum a, ba_receiveBuffer a)"

definition fresh_id :: "string \<Rightarrow> string \<times> string \<times> int \<times> tagRecvData ThreadDeque" where
  "fresh_id name = (name, name, 1, ThreadDeque_new)"

definition app_ids :: "'s App \<Rightarrow> (string \<times> string \<times> int \<times> tagRecvData ThreadDeque) list" where
  "app_ids app = map adapter_id (w_adapters (app_world app))"

definition app_groups :: "'s App \<Rightarrow> string \<rightharpoonup> 's HandleGroup" where
  "app_groups app = map_of (es_handleGroups (app_server app))"

definition fresh_handle :: "string \<Rightarrow> 's ServantHandle" where
  "fresh_handle name = \<lparr>sh_servants = Map.empty, sh_handleGroup = Some name\<rparr>"

definition group_of :: "string \<Rightarrow> nat \<Rightarrow> 's HandleGroup" where
  "group_of name i = \<lparr>hg_name = name, hg_handles = [fresh_handle name], hg_adapters = [(name, i)]\<rparr>"

definition app_shape ::
    "(string \<times> string \<times> int \<times> tagRecvData ThreadDeque) list \<Rightarrow> (string \<rightharpoonup> 's HandleGroup) \<Rightarrow> 's dispatcFunc ServantHelperManager \<Rightarrow>
     's App \<Rightarrow> bool" where
  "app_shape ids groups m app \<longleftrightarrow>
     app_ids app = ids \<and> app_groups app = groups \<and> \<not> es_handleStarted (app_server app) \<and> app_manager app = m"

lemma app_bind_shape:
  assumes "app_bind pton byname i app = Inr app'"
  shows "app_shape ids groups m app' = app_shape ids groups m app"
proof -
  obtain fd es w where b: "EpollServer_bind pton byname i (app_server app) (app_world app) = Inr (fd, es, w)"
    "app' = app\<lparr>app_server := es, app_world := w\<rparr>"
    using assms by (auto simp: app_bind_def result_simps)
  obtain nt nts nt' where n: "es_netThreads (app_server app) = nt # nts"
    "NetThread_bind pton byname i nt (app_world app) = Inr (fd, nt', w)" "es = (app_server app)\<lparr>es_netThreads := nt' # nts\<rparr>"
    using b(1) by (auto simp: EpollServer_bind_def result_simps split: list.splits)
  obtain a s k where a: "adapter_at (Some i) (app_world app) = Inr a"
    "w = (put_adapter i (a\<lparr>ba_socket := s\<rparr>) (app_world app))\<lparr>w_kernel := k\<rparr>"
    using n(2) by (auto simp: NetThread_bind_def result_simps)
  then have "i < length (w_adapters (app_world app))" "a = w_adapters (app_world app) ! i"
    by (auto simp: adapter_at_def split: if_splits)
  then have "map adapter_id ((w_adapters (app_world app))[i := a\<lparr>ba_socket := s\<rparr>]) = map adapter_id (w_adapters (app_world app))"
    by (simp add: map_update adapter_id_def list_update_same_conv)
  then show ?thesis by (simp add: app_shape_def app_ids_def app_groups_def b(2) n(3) a(2) put_adapter_def)
qed

lemma make_adapter_ids:
  assumes "make_adapter name host port w = (i, w')"
  shows "i = length (w_adapters w)" "map adapter_id (w_adapters w') = map adapter_id (w_adapters w) @ [fresh_id name]"
proof -
  have e: "i = fst (make_adapter name host port w)" "w' = snd (make_adapter name host port w)" by (simp_all add: assms)
  show "i = length (w_adapters w)" unfolding e by (simp add: make_adapter_def)
  show "map adapter_id (w_adapters w') = map adapter_id (w_adapters w) @ [fresh_id name]"
    unfolding e by (simp add: make_adapter_def adapter_id_def fresh_id_def BindAdapter_set_endpoint_def BindAdapter_new_def)
qed

lemma bind_config_shape:
  assumes b: "bind_config pton byname name servant ip port app = Inr (i, app')" and s: "app_shape ids groups m app"
  shows "i = length ids" "app_shape (ids @ [fresh_id name]) groups (set_adapter_servant name servant m) app'"
proof -
  obtain j w where m: "make_adapter name ip port (app_world app) = (j, w)" by fastforce
  note ids = make_adapter_ids [OF m]
  let ?app = "app\<lparr>app_manager := set_adapter_servant name servant (app_manager app), app_world := w\<rparr>"
  obtain app1 where a: "app_bind pton byname j ?app = Inr app1" "i = j" "app' = app1"
    using b unfolding bind_config_def m by (cases "app_bind pton byname j ?app") simp_all
  have "length (w_adapters (app_world app)) = length (app_ids app)" by (simp add: app_ids_def)
  then show "i = length ids" using a(2) ids(1) s by (simp add: app_shape_def)
  have "app_shape (ids @ [fresh_id name]) groups (set_adapter_servant name servant m) ?app"
    using s ids(2) by (simp add: app_shape_def app_ids_def app_groups_def)
  then show "app_shape (ids @ [fresh_id name]) groups (set_adapter_servant name servant m) app'"
    using app_bind_shape [OF a(1)] a(3) by blast
qed

lemma set_handle_shape:
  assumes h: "Application_set_handle i app = Inr app'" and s: "app_shape ids groups m app"
    and "ids ! i = fresh_id name" and "groups name = None"
  shows "app_shape ids (groups(name \<mapsto> group_of name i)) m app'"
proof -
  obtain a where a: "adapter_at (Some i) (app_world app) = Inr a"
    using h by (cases "adapter_at (Some i) (app_world app)") (simp_all add: Application_set_handle_def)
  then have i: "i < length (w_adapters (app_world app))" "a = w_adapters (app_world app) ! i"
    by (simp_all add: adapter_at_def split: if_splits)
  have "app_ids app ! i = adapter_id a" using i by (simp add: app_ids_def)
  then have "adapter_id a = fresh_id name" using assms(3) s by (simp add: app_shape_def)
  then have n: "ba_name a = name" "ba_handleGroupName a = name" "ba_handleNum a = 1"
    unfolding adapter_id_def fresh_id_def by blast+
  have g: "map_of (es_handleGroups (app_server app)) name = None"
    using s assms(4) by (simp add: app_shape_def app_groups_def)
  have k: "map adapter_id ((w_adapters (app_world app))[i := a\<lparr>ba_handleGroup := Some name\<rparr>]) = map adapter_id (w_adapters (app_world app))"
    using i by (simp add: map_update adapter_id_def list_update_same_conv)
  have e: "app' = app\<lparr>app_server := (app_server app)\<lparr>es_handleGroups := map_put name (group_of name i)
        (map_put name \<lparr>hg_name = name, hg_handles = [fresh_handle name], hg_adapters = []\<rparr> (es_handleGroups (app_server app)))\<rparr>,
      app_world := put_adapter i (a\<lparr>ba_handleGroup := Some name\<rparr>) (app_world app)\<rparr>"
    using h by (simp add: Application_set_handle_def EpollServer_set_handleGroup_def a n g group_of_def fresh_handle_def)
  show ?thesis using s k by (simp add: e app_shape_def app_ids_def app_groups_def put_adapter_def)
qed

definition admin_manager :: "'s dispatcFunc \<Rightarrow> 's dispatcFunc ServantHelperManager" where
  "admin_manager admin =
     set_adapter_servant ''AdminAdapter'' ''AdminObj'' (ServantHelperManager_new\<lparr>servantMap := [''AdminObj'' \<mapsto> Some admin]\<rparr>)"

lemma initializeServer_shape:
  fixes app :: "'s App"
  assumes "Application_initializeServer pton byname getpid memory admin cfg w0 = Inr app"
  shows "app_shape (map adapter_id (w_adapters w0) @ [fresh_id ''AdminAdapter''])
    [''AdminAdapter'' \<mapsto> group_of ''AdminAdapter'' (length (w_adapters w0))] (admin_manager admin) app"
proof -
  obtain es :: "'s EpollServer" and k where e: "EpollServer_new 1 memory (w_kernel w0) = Inr (es, k)"
    using assms by (cases "EpollServer_new 1 memory (w_kernel w0) :: ('s EpollServer \<times> Kernel) result")
      (simp_all add: Application_initializeServer_def, fastforce)
  then have g: "es_handleGroups es = []" "\<not> es_handleStarted es" by (auto simp: EpollServer_new_def result_simps)
  obtain i w1 where m: "make_adapter ''AdminAdapter'' ''127.0.0.1'' 20002 (w0\<lparr>w_kernel := k\<rparr>) = (i, w1)" by fastforce
  note ids = make_adapter_ids [OF m]
  define app0 where "app0 = \<lparr>app_server = es, app_world = w1, app_manager = admin_manager admin,
    app_helper = set_nodeInfo getpid (cfg_node cfg) (cfg_application cfg) (cfg_servantName cfg) TarsNodeFHelper_new\<rparr>"
  have b: "bindE (Application_set_handle i app0) (app_bind pton byname i) = Inr app"
    using assms by (simp add: Application_initializeServer_def e m addServant_def ServantHelperManager_new_def admin_manager_def app0_def)
  then obtain app1 where a: "Application_set_handle i app0 = Inr app1" "app_bind pton byname i app1 = Inr app"
    by (cases "Application_set_handle i app0") simp_all
  have "app_shape (map adapter_id (w_adapters w0) @ [fresh_id ''AdminAdapter'']) Map.empty (admin_manager admin) app0"
    using g ids(2) by (simp add: app_shape_def app_ids_def app_groups_def app0_def)
  from set_handle_shape [OF a(1) this] ids(1) app_bind_shape [OF a(2)] show ?thesis by (simp add: nth_append)
qed

text \<open>The names of the adapters a configuration gives, and configurations whose names do not collide.\<close>

definition cfg_names :: "ServerConfig \<Rightarrow> string list" where
  "cfg_names cfg = cfg_adapterName cfg # (if cfg_servantName1 cfg = [] then [] else [cfg_adapterName1 cfg])"

definition cfg_ok :: "ServerConfig \<Rightarrow> bool" where
  "cfg_ok cfg \<longleftrightarrow> distinct (''AdminAdapter'' # cfg_names cfg) \<and>
     cfg_adapterName cfg \<notin> {''AdminObj'', cfg_servantName cfg, cfg_servantName1 cfg}"

lemma bindAdapter_shape:
  assumes b: "Application_bindAdapter pton byname cfg app = Inr (is, app')" and s: "app_shape ids groups m app"
  shows "\<exists>m'. app_shape (ids @ map fresh_id (cfg_names cfg)) groups m' app' \<and> servantMap m' = servantMap m \<and>
    is = [length ids..<length ids + length (cfg_names cfg)]"
proof -
  let ?bind1 = "bind_config pton byname (cfg_adapterName cfg) (cfg_servantName cfg) (cfg_adapterIp cfg) (cfg_adapterPort cfg) app"
  obtain i app1 where a: "?bind1 = Inr (i, app1)" using b by (cases ?bind1) (auto simp: Application_bindAdapter_def)
  note s1 = bind_config_shape [OF a s]
  show ?thesis
  proof (cases "cfg_servantName1 cfg = []")
    case True
    then show ?thesis using b a s1 by (auto simp: Application_bindAdapter_def cfg_names_def set_adapter_servant_def)
  next
    case False
    let ?bind2 = "bind_config pton byname (cfg_adapterName1 cfg) (cfg_servantName1 cfg) (cfg_adapterIp1 cfg) (cfg_adapterPort1 cfg) app1"
    obtain j app2 where a2: "?bind2 = Inr (j, app2)" using b a False by (cases ?bind2) (auto simp: Application_bindAdapter_def)
    have e: "is = [i, j]" "app' = app2" using b a a2 False by (simp_all add: Application_bindAdapter_def)
    show ?thesis using bind_config_shape [OF a2 s1(2)] s1(1) False
      by (intro exI [of _ "set_adapter_servant (cfg_adapterName1 cfg) (cfg_servantName1 cfg) (set_adapter_servant (cfg_adapterName cfg) (cfg_servantName cfg) m)"])
        (simp add: e cfg_names_def set_adapter_servant_def)
  qed
qed

lemma set_handles_shape:
  assumes "fold_result Application_set_handle [n..<n + length names] app = Inr app'" and "app_shape ids groups m app"
    and "distinct names" and "\<forall>name \<in> set names. groups name = None" and "\<forall>k < length names. ids ! (n + k) = fresh_id (names ! k)"
  shows "\<exists>groups'. app_shape ids groups' m app' \<and> (\<forall>k < length names. groups' (names ! k) = Some (group_of (names ! k) (n + k))) \<and>
    (\<forall>name. name \<notin> set names \<longrightarrow> groups' name = groups name)"
  using assms
proof (induction names arbitrary: n app groups)
  case (Cons name names)
  have "[n..<n + length (name # names)] = n # [Suc n..<Suc n + length names]"
    using upt_conv_Cons [of n "n + length (name # names)"] by simp
  then have f: "bindE (Application_set_handle n app) (fold_result Application_set_handle [Suc n..<Suc n + length names]) = Inr app'"
    using Cons.prems(1) by simp
  obtain app1 where a: "Application_set_handle n app = Inr app1"
    "fold_result Application_set_handle [Suc n..<Suc n + length names] app1 = Inr app'"
    using f by (cases "Application_set_handle n app") simp_all
  have i: "ids ! n = fresh_id name" using Cons.prems(5) by (metis add_0_right length_Cons nth_Cons_0 zero_less_Suc)
  have i': "\<forall>k < length names. ids ! (Suc n + k) = fresh_id (names ! k)"
    using Cons.prems(5) by (metis Suc_less_eq add_Suc add_Suc_right length_Cons nth_Cons_Suc)
  have new: "groups name = None" "name \<notin> set names" "distinct names" using Cons.prems(3,4) by simp_all
  have s: "app_shape ids (groups(name \<mapsto> group_of name n)) m app1"
    by (rule set_handle_shape [OF a(1) Cons.prems(2) i new(1)])
  have none: "\<forall>nm \<in> set names. (groups(name \<mapsto> group_of name n)) nm = None" using Cons.prems(4) new(2) by auto
  obtain groups' where g: "app_shape ids groups' m app'" "\<forall>k < length names. groups' (names ! k) = Some (group_of (names ! k) (Suc n + k))"
    "\<forall>nm. nm \<notin> set names \<longrightarrow> groups' nm = (groups(name \<mapsto> group_of name n)) nm"
    using Cons.IH [OF a(2) s new(3) none i'] by blast
  have "groups' ((name # names) ! k) = Some (group_of ((name # names) ! k) (n + k))" if "k < length (name # names)" for k
    using that g(2,3) new(2) by (cases k) simp_all
  then show ?case using g(1,3) by (intro exI [of _ groups']) simp
qed auto

lemma epoll_threads_keep: "EpollServer_createEpoll es w = (es', w') \<Longrightarrow>
  es_handleGroups es' = es_handleGroups es \<and> w_adapters w' = w_adapters w"
  by (auto simp: EpollServer_createEpoll_def split: prod.splits)

lemma extra_main_shape:
  assumes main: "Application_extra_main pton byname getpid memory admin func cfg w0 = Inr (handles, app)" and cfg: "cfg_ok cfg"
  shows "app_ids app = map adapter_id (w_adapters w0) @ map fresh_id (''AdminAdapter'' # cfg_names cfg)"
    and "\<forall>k < length (cfg_names cfg). app_groups app (cfg_names cfg ! k) = Some (group_of (cfg_names cfg ! k) (Suc (length (w_adapters w0)) + k))"
    and "servantMap (app_manager app) = [''AdminObj'' \<mapsto> Some admin, cfg_adapterName cfg \<mapsto> Some func]"
    and "app_groups app name = Some g \<Longrightarrow> set (hg_handles g) \<subseteq> set handles"
proof -
  let ?n = "length (w_adapters w0)" and ?names = "cfg_names cfg"
  let ?ids = "map adapter_id (w_adapters w0) @ map fresh_id (''AdminAdapter'' # ?names)"
  let ?g0 = "[''AdminAdapter'' \<mapsto> group_of ''AdminAdapter'' ?n]"
  obtain app0 "is" app1 app2 app3 where a:
    "Application_initializeServer pton byname getpid memory admin cfg w0 = Inr app0"
    "Application_bindAdapter pton byname cfg app0 = Inr (is, app1)"
    "Application_addServant (cfg_adapterName cfg) func app1 = Inr app2"
    "fold_result Application_set_handle is app2 = Inr app3"
    and r: "(handles, app) = (let (hs, es) = EpollServer_startHandle (app_server app3); (es', w) = EpollServer_createEpoll es (app_world app3)
      in (hs, app3\<lparr>app_server := es', app_world := w\<rparr>))"
    using main by (auto simp: Application_extra_main_def result_simps Let_def split_beta)
  obtain m1 where s1: "app_shape ?ids ?g0 m1 app1" "servantMap m1 = [''AdminObj'' \<mapsto> Some admin]" "is = [Suc ?n..<Suc ?n + length ?names]"
    using bindAdapter_shape [OF a(2) initializeServer_shape [OF a(1)]] by (auto simp: admin_manager_def set_adapter_servant_def)
  let ?m = "m1\<lparr>servantMap := [''AdminObj'' \<mapsto> Some admin, cfg_adapterName cfg \<mapsto> Some func]\<rparr>"
  have s2: "app_shape ?ids ?g0 ?m app2" using a(3) s1(1,2)
    by (auto simp: Application_addServant_def addServant_def app_shape_def app_ids_def app_groups_def split: if_splits)
  have fresh: "distinct ?names" "\<forall>name \<in> set ?names. ?g0 name = None" using cfg by (auto simp: cfg_ok_def)
  have at: "\<forall>k < length ?names. ?ids ! (Suc ?n + k) = fresh_id (?names ! k)" by (simp add: nth_append)
  obtain groups where g: "app_shape ?ids groups ?m app3"
    "\<forall>k < length ?names. groups (?names ! k) = Some (group_of (?names ! k) (Suc ?n + k))"
    using set_handles_shape [OF a(4) [unfolded s1(3)] s2 fresh at] by blast
  obtain es' w where e: "EpollServer_createEpoll (app_server app3\<lparr>es_handleStarted := True\<rparr>) (app_world app3) = (es', w)" by fastforce
  have h: "handles = concat (map (\<lambda>(name, g). hg_handles g) (es_handleGroups (app_server app3)))"
    "app = app3\<lparr>app_server := es', app_world := w\<rparr>"
    using r g(1) e by (simp_all add: EpollServer_startHandle_def app_shape_def)
  have same: "app_ids app = app_ids app3" "app_groups app = app_groups app3" "app_manager app = app_manager app3"
    using epoll_threads_keep [OF e] by (simp_all add: h(2) app_ids_def app_groups_def)
  show "app_ids app = ?ids" using same(1) g(1) by (simp add: app_shape_def)
  show "\<forall>k < length ?names. app_groups app (?names ! k) = Some (group_of (?names ! k) (Suc ?n + k))"
    using same(2) g by (simp add: app_shape_def)
  show "servantMap (app_manager app) = [''AdminObj'' \<mapsto> Some admin, cfg_adapterName cfg \<mapsto> Some func]"
    using same(3) g(1) by (simp add: app_shape_def)
  show "set (hg_handles g) \<subseteq> set handles" if "app_groups app name = Some g"
  proof -
    have "(name, g) \<in> set (es_handleGroups (app_server app3))" using that same(2) by (simp add: app_groups_def map_of_SomeD)
    then show ?thesis using h(1) by auto
  qed
qed

text \<open>The state in which the thread of a handle starts.\<close>

definition worker :: "'s ServantHandle \<Rightarrow> 's App \<Rightarrow> 's \<Rightarrow> 's Servant" where
  "worker h app st =
     \<lparr>sv_handle = h, sv_sched = CoroutineScheduler_new, sv_server = app_server app, sv_world = app_world app,
      sv_node = app_helper app, sv_beats = [], sv_state = st\<rparr>"

text \<open>Each adapter of the configuration has a handle of its own, and its \<open>init\<close> finds the dispatcher
  registered under the adapter's name, if there is one.\<close>

lemma handle_of_adapter:
  assumes main: "Application_extra_main pton byname getpid memory admin func cfg w0 = Inr (handles, app)" and cfg: "cfg_ok cfg"
    and k: "k < length (cfg_names cfg)" "cfg_names cfg ! k = name" "Suc (length (w_adapters w0)) + k = i"
  shows "fresh_handle name \<in> set handles" "i < length (w_adapters (app_world app))" "ba_name (w_adapters (app_world app) ! i) = name"
    "ba_receiveBuffer (w_adapters (app_world app) ! i) = ThreadDeque_new"
    "map_of (es_handleGroups (app_server app)) name = Some (group_of name i)"
    "\<exists>m. ServantHandle_init (app_server app) (fresh_handle name) (app_manager app) =
      Inr (\<lparr>sh_servants = [name \<mapsto> if name = cfg_adapterName cfg then Some func else if name = ''AdminObj'' then Some admin else None],
            sh_handleGroup = Some name\<rparr>, m)"
proof -
  note shape = extra_main_shape [OF main cfg]
  have g: "app_groups app name = Some (group_of name i)" using shape(2) k by blast
  then show m: "map_of (es_handleGroups (app_server app)) name = Some (group_of name i)" by (simp add: app_groups_def)
  show "fresh_handle name \<in> set handles" using shape(4) [OF g] by (simp add: group_of_def)
  have l: "length (app_ids app) = length (w_adapters (app_world app))" by (simp add: app_ids_def)
  show i: "i < length (w_adapters (app_world app))" using shape(1) k unfolding l [symmetric] by simp
  have "app_ids app ! i = fresh_id name" unfolding shape(1) using k by (auto simp: nth_append)
  then have "adapter_id (w_adapters (app_world app) ! i) = fresh_id name" using i by (simp add: app_ids_def)
  then show "ba_name (w_adapters (app_world app) ! i) = name" "ba_receiveBuffer (w_adapters (app_world app) ! i) = ThreadDeque_new"
    unfolding adapter_id_def fresh_id_def by blast+
  show "\<exists>m. ServantHandle_init (app_server app) (fresh_handle name) (app_manager app) =
      Inr (\<lparr>sh_servants = [name \<mapsto> if name = cfg_adapterName cfg then Some func else if name = ''AdminObj'' then Some admin else None],
            sh_handleGroup = Some name\<rparr>, m)"
    by (simp add: ServantHandle_init_def fresh_handle_def m group_of_def get_funcByName_def shape(3))
qed

section \<open>The network thread after the start-up\<close>

definition quiet_thread :: "NetThread \<Rightarrow> bool" where
  "quiet_thread nt \<longleftrightarrow>
     \<not> nt_terminate nt \<and> nt_sendBuffer nt = ThreadDeque_new \<and> nt_connectionUids nt = Map.empty \<and> nt_free nt = []"

definition app_quiet :: "'s App \<Rightarrow> bool" where
  "app_quiet app \<longleftrightarrow> (\<exists>nt. es_netThreads (app_server app) = [nt] \<and> quiet_thread nt)"

text \<open>The socket of an adapter, and that a thread accepts connections for the adapter on it.\<close>

definition listen_fd :: "nat \<Rightarrow> World \<Rightarrow> int" where
  "listen_fd i w = sk_fd (ba_socket (w_adapters w ! i))"

definition listens :: "nat \<Rightarrow> 's App \<Rightarrow> bool" where
  "listens i app \<longleftrightarrow>
     (\<exists>nt. es_netThreads (app_server app) = [nt] \<and> quiet_thread nt \<and> 0 \<le> listen_fd i (app_world app) \<and>
        map_of (nt_listeners nt) (listen_fd i (app_world app)) = Some (Some i))"

lemma listens_quiet: "listens i app \<Longrightarrow> app_quiet app"
  by (auto simp: listens_def app_quiet_def)

lemma bind_socket_fd:
  assumes "bind_socket pton byname ep s k = Inr (s', k')"
  shows "0 \<le> sk_fd s'"
proof -
  obtain s1 k1 where c: "Socket_createSocket AF_INET s k = Inr (s1, k1)"
    using assms by (cases "Socket_createSocket AF_INET s k") (auto simp: bind_socket_def)
  then have "s' = s1" using assms by (auto simp: bind_socket_def result_simps)
  moreover have "0 \<le> sk_fd s1"
    using c by (auto simp: Socket_createSocket_def createSocket_def Let_def result_simps split: prod.splits if_splits)
  ultimately show ?thesis by simp
qed

lemma map_of_listener: "map_of (nt_listeners (set_listener fd p nt)) fd = Some p"
  by (simp add: set_listener_def map_add_def map_of_eq_None_iff [THEN iffD2] split: option.split) (auto dest: map_of_SomeD)

lemma map_of_filter_other: "map_of (filter (\<lambda>l. fst l \<noteq> fd) ls) g = (if g = fd then None else map_of ls g)"
  by (induction ls) auto

lemma map_of_other_listener: "g \<noteq> fd \<Longrightarrow> map_of (nt_listeners (set_listener fd p nt)) g = map_of (nt_listeners nt) g"
  by (simp add: set_listener_def map_add_def map_of_filter_other split: option.split)

text \<open>What binding an adapter changes.\<close>

lemma app_bind_parts:
  assumes q: "app_quiet app" and b: "app_bind pton byname i app = Inr app'"
  obtains nt fd where "es_netThreads (app_server app) = [nt]" "quiet_thread nt"
    "es_netThreads (app_server app') = [set_listener fd (Some i) nt]" "quiet_thread (set_listener fd (Some i) nt)"
    "listen_fd i (app_world app') = fd" "0 \<le> fd" "i < length (w_adapters (app_world app))"
    "length (w_adapters (app_world app')) = length (w_adapters (app_world app))"
    "\<forall>j. j \<noteq> i \<longrightarrow> listen_fd j (app_world app') = listen_fd j (app_world app)"
proof -
  obtain nt where nt: "es_netThreads (app_server app) = [nt]" "quiet_thread nt" using q by (auto simp: app_quiet_def)
  obtain fd nt' w where n: "NetThread_bind pton byname i nt (app_world app) = Inr (fd, nt', w)"
    "app' = app\<lparr>app_server := (app_server app)\<lparr>es_netThreads := [nt']\<rparr>, app_world := w\<rparr>"
    using b nt(1) by (auto simp: app_bind_def EpollServer_bind_def result_simps)
  obtain a s k where a: "adapter_at (Some i) (app_world app) = Inr a" "bind_socket pton byname (ba_endpoint a) (ba_socket a) (w_kernel (app_world app)) = Inr (s, k)"
    "nt' = set_listener (sk_fd s) (Some i) nt" "w = (put_adapter i (a\<lparr>ba_socket := s\<rparr>) (app_world app))\<lparr>w_kernel := k\<rparr>"
    using n(1) by (auto simp: NetThread_bind_def result_simps)
  have i: "i < length (w_adapters (app_world app))" using a(1) by (simp add: adapter_at_def split: if_splits)
  show thesis
  proof (rule that [of nt "sk_fd s"])
    show "quiet_thread (set_listener (sk_fd s) (Some i) nt)" using nt(2) by (simp add: quiet_thread_def set_listener_def)
    show "0 \<le> sk_fd s" by (rule bind_socket_fd [OF a(2)])
  qed (use nt i in \<open>simp_all add: n(2) a(3,4) listen_fd_def put_adapter_def\<close>)
qed

lemma app_bind_listens:
  assumes "app_quiet app" and "app_bind pton byname i app = Inr app'"
  shows "listens i app'" "i < length (w_adapters (app_world app'))"
  using assms by (rule app_bind_parts, simp add: listens_def map_of_listener)+

text \<open>An adapter bound earlier is listened for on, if the two sockets differ.\<close>

lemma app_bind_keeps:
  assumes l: "listens j app" and b: "app_bind pton byname i app = Inr app'" and "j \<noteq> i"
    and d: "listen_fd i (app_world app') \<noteq> listen_fd j (app_world app')"
  shows "listens j app'"
  by (rule app_bind_parts [OF listens_quiet [OF l] b]) (use l assms(3) d in \<open>auto simp: listens_def map_of_other_listener\<close>)

lemma bind_config_parts:
  assumes "bind_config pton byname name servant ip port app = Inr (i, app')" and q: "app_quiet app"
  obtains app1 where "app_bind pton byname i app1 = Inr app'" "app_quiet app1" "i = length (w_adapters (app_world app))"
    "\<And>j. j < i \<Longrightarrow> listens j app \<Longrightarrow> listens j app1"
proof -
  obtain j w where m: "make_adapter name ip port (app_world app) = (j, w)" by fastforce
  let ?app = "app\<lparr>app_manager := set_adapter_servant name servant (app_manager app), app_world := w\<rparr>"
  have b: "app_bind pton byname i ?app = Inr app'" "i = j"
    using assms(1) unfolding bind_config_def m by (cases "app_bind pton byname j ?app"; simp)+
  have w: "w = snd (make_adapter name ip port (app_world app))" by (simp add: m)
  have i: "i = length (w_adapters (app_world app))" using make_adapter_ids(1) [OF m] b(2) by simp
  have "listen_fd j w = listen_fd j (app_world app)" if "j < length (w_adapters (app_world app))" for j
    using that by (simp add: w make_adapter_def listen_fd_def nth_append)
  then have "listens j ?app" if "j < i" "listens j app" for j using that by (simp add: listens_def i)
  moreover have "app_quiet ?app" using q by (simp add: app_quiet_def)
  ultimately show thesis using that [OF b(1)] i by blast
qed

lemma bind_config_listens:
  assumes "app_quiet app" and "bind_config pton byname name servant ip port app = Inr (i, app')"
  shows "listens i app'" "i < length (w_adapters (app_world app'))"
  using assms app_bind_listens by (metis bind_config_parts)+

lemma bindAdapter_listens:
  assumes q: "app_quiet app" and b: "Application_bindAdapter pton byname cfg app = Inr (is, app')" and k: "k < length is"
    and d: "\<forall>l < length is. k < l \<longrightarrow> listen_fd (is ! l) (app_world app') \<noteq> listen_fd (is ! k) (app_world app')"
  shows "listens (is ! k) app'"
proof -
  let ?bind1 = "bind_config pton byname (cfg_adapterName cfg) (cfg_servantName cfg) (cfg_adapterIp cfg) (cfg_adapterPort cfg) app"
  obtain i app1 where a: "?bind1 = Inr (i, app1)" using b by (cases ?bind1) (auto simp: Application_bindAdapter_def)
  note l = bind_config_listens [OF q a]
  show ?thesis
  proof (cases "cfg_servantName1 cfg = []")
    case True
    then show ?thesis using b a l k by (simp add: Application_bindAdapter_def) auto
  next
    case False
    let ?bind2 = "bind_config pton byname (cfg_adapterName1 cfg) (cfg_servantName1 cfg) (cfg_adapterIp1 cfg) (cfg_adapterPort1 cfg) app1"
    obtain j app2 where a2: "?bind2 = Inr (j, app2)" using b a False by (cases ?bind2) (auto simp: Application_bindAdapter_def)
    have e: "is = [i, j]" "app' = app2" using b a a2 False by (simp_all add: Application_bindAdapter_def)
    show ?thesis
    proof (cases k)
      case 0
      obtain app1' where p: "app_bind pton byname j app1' = Inr app2" "j = length (w_adapters (app_world app1))"
        "\<And>i. i < j \<Longrightarrow> listens i app1 \<Longrightarrow> listens i app1'"
        using bind_config_parts [OF a2 listens_quiet [OF l(1)]] by metis
      have "listen_fd j (app_world app2) \<noteq> listen_fd i (app_world app2)" using d [rule_format, of 1] 0 by (simp add: e)
      then show ?thesis using app_bind_keeps [OF p(3) p(1)] l p(2) by (simp add: e 0)
    next
      case (Suc n)
      then show ?thesis using bind_config_listens(1) [OF listens_quiet [OF l(1)] a2] k by (simp add: e)
    qed
  qed
qed

text \<open>\<open>set_handle\<close> leaves the threads and the sockets alone.\<close>

lemma set_handle_same:
  assumes "Application_set_handle i app = Inr app'"
  shows "es_netThreads (app_server app') = es_netThreads (app_server app)" "listen_fd j (app_world app') = listen_fd j (app_world app)"
proof -
  obtain a where a: "adapter_at (Some i) (app_world app) = Inr a"
    using assms by (cases "adapter_at (Some i) (app_world app)") (simp_all add: Application_set_handle_def)
  then have i: "i < length (w_adapters (app_world app))" "a = w_adapters (app_world app) ! i"
    by (simp_all add: adapter_at_def split: if_splits)
  obtain es w where s: "EpollServer_set_handleGroup (ba_handleGroupName a) (ba_handleNum a) i (app_server app) (app_world app) = Inr (es, w)"
    "app' = app\<lparr>app_server := es, app_world := w\<rparr>"
    using assms a by (auto simp: Application_set_handle_def result_simps)
  have e: "es_netThreads es = es_netThreads (app_server app)"
    "w = put_adapter i (a\<lparr>ba_handleGroup := Some (ba_handleGroupName a)\<rparr>) (app_world app)"
    using s(1) a by (auto simp: EpollServer_set_handleGroup_def result_simps Let_def)
  show "es_netThreads (app_server app') = es_netThreads (app_server app)" by (simp add: s(2) e(1))
  show "listen_fd j (app_world app') = listen_fd j (app_world app)"
    by (cases "i = j") (use i in \<open>simp_all add: s(2) e(2) listen_fd_def put_adapter_def\<close>)
qed

lemma set_handles_listens:
  assumes "fold_result Application_set_handle is app = Inr app'" and "listens i app"
  shows "listens i app'"
  using assms by (rule fold_result_inv) (simp add: listens_def set_handle_same)

lemma set_handles_fd:
  assumes "fold_result Application_set_handle is app = Inr app'"
  shows "listen_fd j (app_world app') = listen_fd j (app_world app)"
  using assms by (rule fold_result_inv) (simp_all add: set_handle_same)

lemma initializeServer_quiet:
  fixes app :: "'s App"
  assumes "Application_initializeServer pton byname getpid memory admin cfg w0 = Inr app"
  shows "app_quiet app"
proof -
  obtain es :: "'s EpollServer" and k where e: "EpollServer_new 1 memory (w_kernel w0) = Inr (es, k)"
    using assms by (cases "EpollServer_new 1 memory (w_kernel w0) :: ('s EpollServer \<times> Kernel) result")
      (simp_all add: Application_initializeServer_def, fastforce)
  then obtain nt where nt: "es_netThreads es = [nt]" "quiet_thread nt"
    by (auto simp: EpollServer_new_def NetThread_new_def quiet_thread_def result_simps)
  obtain i w1 where m: "make_adapter ''AdminAdapter'' ''127.0.0.1'' 20002 (w0\<lparr>w_kernel := k\<rparr>) = (i, w1)" by fastforce
  define app0 where "app0 = \<lparr>app_server = es, app_world = w1, app_manager = admin_manager admin,
    app_helper = set_nodeInfo getpid (cfg_node cfg) (cfg_application cfg) (cfg_servantName cfg) TarsNodeFHelper_new\<rparr>"
  have b: "bindE (Application_set_handle i app0) (app_bind pton byname i) = Inr app"
    using assms by (simp add: Application_initializeServer_def e m addServant_def ServantHelperManager_new_def admin_manager_def app0_def)
  then obtain app1 where a: "Application_set_handle i app0 = Inr app1" "app_bind pton byname i app1 = Inr app"
    by (cases "Application_set_handle i app0") simp_all
  have "app_quiet app1" using nt set_handle_same(1) [OF a(1)] by (simp add: app_quiet_def app0_def)
  then show ?thesis using app_bind_listens [OF _ a(2)] listens_quiet by blast
qed

definition thread_ready :: "nat \<Rightarrow> World \<Rightarrow> NetThread \<Rightarrow> bool" where
  "thread_ready i w nt \<longleftrightarrow>
     \<not> nt_terminate nt \<and> nt_sendBuffer nt = ThreadDeque_new \<and> nt_connectionUids nt = Map.empty \<and> nt_free nt = fresh_uids \<and> 0 \<le> listen_fd i w \<and>
     map_of (nt_listeners nt) (listen_fd i w) = Some (Some i)"

text \<open>The part of the start-up that binds the adapters decides which socket each has and who listens.\<close>

lemma extra_main_binds:
  assumes main: "Application_extra_main pton byname getpid memory admin func cfg w0 = Inr (handles, app)"
  obtains app0 "is" app1 where "Application_initializeServer pton byname getpid memory admin cfg w0 = Inr app0"
    "Application_bindAdapter pton byname cfg app0 = Inr (is, app1)"
    "is = [Suc (length (w_adapters w0))..<Suc (length (w_adapters w0)) + length (cfg_names cfg)]"
    "\<And>j. listen_fd j (app_world app) = listen_fd j (app_world app1)"
    "\<And>i. listens i app1 \<Longrightarrow> \<exists>nt. es_netThreads (app_server app) = [nt] \<and> thread_ready i (app_world app) nt"
proof -
  obtain app0 "is" app1 app2 app3 where a:
    "Application_initializeServer pton byname getpid memory admin cfg w0 = Inr app0"
    "Application_bindAdapter pton byname cfg app0 = Inr (is, app1)"
    "Application_addServant (cfg_adapterName cfg) func app1 = Inr app2"
    "fold_result Application_set_handle is app2 = Inr app3"
    and r: "(handles, app) = (let (hs, es) = EpollServer_startHandle (app_server app3); (es', w) = EpollServer_createEpoll es (app_world app3)
      in (hs, app3\<lparr>app_server := es', app_world := w\<rparr>))"
    using main by (auto simp: Application_extra_main_def result_simps Let_def split_beta)
  obtain es' w' where e: "EpollServer_createEpoll (snd (EpollServer_startHandle (app_server app3))) (app_world app3) = (es', w')" by fastforce
  then have fd3: "listen_fd j (app_world app) = listen_fd j (app_world app3)" for j
    using r epoll_threads_keep [OF e] by (auto simp: listen_fd_def split: prod.splits)
  show thesis
  proof (rule that [OF a(1,2)])
    show "is = [Suc (length (w_adapters w0))..<Suc (length (w_adapters w0)) + length (cfg_names cfg)]"
      using bindAdapter_shape [OF a(2) initializeServer_shape [OF a(1)]] by auto
    show "listen_fd j (app_world app) = listen_fd j (app_world app1)" for j
      using fd3 set_handles_fd [OF a(4), of j] a(3) by (auto simp: Application_addServant_def result_simps)
    fix i
    assume "listens i app1"
    then have "listens i app2" using a(3) by (auto simp: Application_addServant_def listens_def result_simps)
    then have "listens i app3" by (rule set_handles_listens [OF a(4)])
    then obtain nt where nt: "es_netThreads (app_server app3) = [nt]" "quiet_thread nt" "0 \<le> listen_fd i (app_world app3)"
      "map_of (nt_listeners nt) (listen_fd i (app_world app3)) = Some (Some i)" by (auto simp: listens_def)
    obtain nt' k where c: "NetThread_createEpoll 256 nt (w_kernel (app_world app3)) = (nt', k)" by fastforce
    note nt' = createEpoll_ids [OF c]
    have "es_netThreads (app_server app) = [nt']" "w_adapters (app_world app) = w_adapters (app_world app3)"
      using r c nt(1) by (auto simp: EpollServer_startHandle_def EpollServer_createEpoll_def split: if_splits)
    then show "\<exists>nt. es_netThreads (app_server app) = [nt] \<and> thread_ready i (app_world app) nt"
      using nt nt' by (simp add: thread_ready_def quiet_thread_def listen_fd_def)
  qed
qed

lemma extra_main_listens:
  assumes main: "Application_extra_main pton byname getpid memory admin func cfg w0 = Inr (handles, app)"
    and k: "k < length (cfg_names cfg)" and i: "i = Suc (length (w_adapters w0)) + k"
    and d: "\<forall>l < length (cfg_names cfg). k < l \<longrightarrow> listen_fd (Suc (length (w_adapters w0)) + l) (app_world app) \<noteq> listen_fd i (app_world app)"
  shows "\<exists>nt. es_netThreads (app_server app) = [nt] \<and> thread_ready i (app_world app) nt"
proof -
  obtain app0 "is" app1 where b: "Application_initializeServer pton byname getpid memory admin cfg w0 = Inr app0"
    "Application_bindAdapter pton byname cfg app0 = Inr (is, app1)"
    "is = [Suc (length (w_adapters w0))..<Suc (length (w_adapters w0)) + length (cfg_names cfg)]"
    "\<And>j. listen_fd j (app_world app) = listen_fd j (app_world app1)"
    "\<And>i. listens i app1 \<Longrightarrow> \<exists>nt. es_netThreads (app_server app) = [nt] \<and> thread_ready i (app_world app) nt"
    using extra_main_binds [OF main] by blast
  have at: "length is = length (cfg_names cfg)" "\<And>l. l < length (cfg_names cfg) \<Longrightarrow> is ! l = Suc (length (w_adapters w0)) + l"
    by (simp_all add: b(3) del: upt_Suc)
  have "listens (is ! k) app1"
    by (rule bindAdapter_listens [OF initializeServer_quiet [OF b(1)] b(2)]) (use k i d in \<open>simp_all add: at b(4)\<close>)
  then show ?thesis using b(5) at(2) [OF k] by (simp add: i)
qed

text \<open>How many results of the kernel the start-up uses: an adapter takes the first of those left for its socket, and
  twelve in all.\<close>

lemma createSocket_takes:
  assumes "Socket_createSocket AF_INET Socket_new k = Inr (s, k')"
  shows "k_results k' = drop 3 (k_results k) \<and> (k_results k \<noteq> [] \<longrightarrow> sk_fd s = hd (k_results k))"
  using assms
  by (auto simp: Socket_createSocket_def Socket_close_def Socket_new_def INVALID_SOCKET_def createSocket_def set_tcpNoDealy_def
      set_keepAlive_def sys_or_fatal_def sys_def Let_def result_simps AF_INET_def PF_LOCAL_def numeral_3_eq_3 drop_Suc
      split: if_splits list.splits)

lemma bind_socket_takes:
  assumes "bind_socket pton byname ep Socket_new k = Inr (s, k')"
  shows "k_results k' = drop 12 (k_results k) \<and> (k_results k \<noteq> [] \<longrightarrow> sk_fd s = hd (k_results k))"
proof -
  obtain s1 k1 where c: "Socket_createSocket AF_INET Socket_new k = Inr (s1, k1)"
    using assms by (cases "Socket_createSocket AF_INET Socket_new k") (auto simp: bind_socket_def)
  note t = createSocket_takes [OF c]
  have "s = s1" "k_results k' = drop 9 (k_results k1)"
    using assms c
    by (auto simp: bind_socket_def Socket_bind_def NetworkUtil_bind_def Socket_listen_def Socket_set_keepAlive_def set_keepAlive_def
        Socket_set_tcpNoDelay_def set_tcpNoDealy_def Socket_set_noCloseWait_def Socket_set_block_def set_block_def
        sys_or_fatal_def sys_def assertE_def Let_def result_simps numeral_eq_Suc drop_Suc split: if_splits)
  then show ?thesis using t by simp
qed

lemma app_bind_takes:
  assumes b: "app_bind pton byname i app = Inr app'" and s: "ba_socket (w_adapters (app_world app) ! i) = Socket_new"
  shows "k_results (w_kernel (app_world app')) = drop 12 (k_results (w_kernel (app_world app))) \<and>
    (k_results (w_kernel (app_world app)) \<noteq> [] \<longrightarrow> listen_fd i (app_world app') = hd (k_results (w_kernel (app_world app)))) \<and>
    (\<forall>j. j \<noteq> i \<longrightarrow> listen_fd j (app_world app') = listen_fd j (app_world app))"
proof -
  obtain fd es w where e: "EpollServer_bind pton byname i (app_server app) (app_world app) = Inr (fd, es, w)" "app_world app' = w"
    using b by (auto simp: app_bind_def result_simps)
  obtain nt nt' where "NetThread_bind pton byname i nt (app_world app) = Inr (fd, nt', w)"
    using e(1) by (auto simp: EpollServer_bind_def result_simps split: list.splits)
  then obtain a sk k where a: "adapter_at (Some i) (app_world app) = Inr a"
    "bind_socket pton byname (ba_endpoint a) (ba_socket a) (w_kernel (app_world app)) = Inr (sk, k)"
    "w = (put_adapter i (a\<lparr>ba_socket := sk\<rparr>) (app_world app))\<lparr>w_kernel := k\<rparr>"
    by (auto simp: NetThread_bind_def result_simps)
  have i: "i < length (w_adapters (app_world app))" "a = w_adapters (app_world app) ! i"
    using a(1) by (simp_all add: adapter_at_def split: if_splits)
  show ?thesis using bind_socket_takes [of pton byname "ba_endpoint a" "w_kernel (app_world app)" sk k] a(2) i s
    by (simp add: e(2) a(3) listen_fd_def put_adapter_def)
qed

lemma bind_config_takes:
  assumes "bind_config pton byname name servant ip port app = Inr (i, app')"
  shows "k_results (w_kernel (app_world app')) = drop 12 (k_results (w_kernel (app_world app))) \<and> i = length (w_adapters (app_world app)) \<and>
    (k_results (w_kernel (app_world app)) \<noteq> [] \<longrightarrow> listen_fd i (app_world app') = hd (k_results (w_kernel (app_world app)))) \<and>
    (\<forall>j < i. listen_fd j (app_world app') = listen_fd j (app_world app))"
proof -
  let ?w = "snd (make_adapter name ip port (app_world app))" and ?i = "length (w_adapters (app_world app))"
  let ?app = "app\<lparr>app_manager := set_adapter_servant name servant (app_manager app), app_world := ?w\<rparr>"
  have b: "app_bind pton byname ?i ?app = Inr app'" "i = ?i"
    using assms unfolding bind_config_def make_adapter_def Let_def prod.case snd_conv
    by (cases "app_bind pton byname ?i ?app"; simp add: make_adapter_def)+
  have "ba_socket (w_adapters (app_world ?app) ! ?i) = Socket_new"
    by (simp add: make_adapter_def BindAdapter_set_endpoint_def BindAdapter_new_def nth_append)
  from app_bind_takes [OF b(1) this] show ?thesis by (simp add: make_adapter_def b(2) listen_fd_def nth_append)
qed

lemma initializeServer_takes:
  fixes app :: "'s App"
  assumes "Application_initializeServer pton byname getpid memory admin cfg w0 = Inr app"
  shows "k_results (w_kernel (app_world app)) = drop 18 (k_results (w_kernel w0))"
proof -
  obtain es :: "'s EpollServer" and k where e: "EpollServer_new 1 memory (w_kernel w0) = Inr (es, k)"
    using assms by (cases "EpollServer_new 1 memory (w_kernel w0) :: ('s EpollServer \<times> Kernel) result")
      (simp_all add: Application_initializeServer_def, fastforce)
  then obtain s1 k1 s2 where "Socket_createSocket AF_INET Socket_new (w_kernel w0) = Inr (s1, k1)"
    "Socket_createSocket AF_INET Socket_new k1 = Inr (s2, k)"
    by (auto simp: EpollServer_new_def NetThread_new_def result_simps)
  then have k: "k_results k = drop 6 (k_results (w_kernel w0))" using createSocket_takes by fastforce
  let ?w = "snd (make_adapter ''AdminAdapter'' ''127.0.0.1'' 20002 (w0\<lparr>w_kernel := k\<rparr>))" and ?i = "length (w_adapters w0)"
  define app0 where "app0 = \<lparr>app_server = es, app_world = ?w, app_manager = admin_manager admin,
    app_helper = set_nodeInfo getpid (cfg_node cfg) (cfg_application cfg) (cfg_servantName cfg) TarsNodeFHelper_new\<rparr>"
  have b: "bindE (Application_set_handle ?i app0) (app_bind pton byname ?i) = Inr app"
    using assms by (simp add: Application_initializeServer_def e make_adapter_def addServant_def ServantHelperManager_new_def admin_manager_def app0_def)
  then obtain app1 where a: "Application_set_handle ?i app0 = Inr app1" "app_bind pton byname ?i app1 = Inr app"
    by (cases "Application_set_handle ?i app0") simp_all
  have w1: "w_kernel (app_world app1) = k" "ba_socket (w_adapters (app_world app1) ! ?i) = Socket_new"
    using a(1) by (auto simp: Application_set_handle_def EpollServer_set_handleGroup_def app0_def make_adapter_def adapter_at_def nth_append
        put_adapter_def BindAdapter_set_endpoint_def BindAdapter_new_def result_simps Let_def)
  show ?thesis using app_bind_takes [OF a(2) w1(2)] by (simp add: w1(1) k)
qed

end
