(* ===== verification/Tarsx_Transceiver.thy ===== *)
theory Tarsx_Transceiver
  imports Tarsx_Net Tarsx_Connection
begin

text \<open>
  \<open>tarsx::Transceiver\<close> (\<open>Transceiver.h\<close>, \<open>Transceiver.cc\<close>): the client's end of a TCP connection, with a
  buffer for what the socket did not take and one for what it delivered. The socket is the
  environment: per descriptor the results of \<open>send\<close> and \<open>readv\<close> in order, and the bytes taken so far.
\<close>

section \<open>State\<close>

record ClientNet =
  cn_kernel :: Kernel
  cn_epoller :: Epoller
  cn_reads :: "int \<Rightarrow> read_result list"
  cn_writes :: "int \<Rightarrow> write_result list"
  cn_sent :: "int \<Rightarrow> string"
  cn_answers :: "addrinfo_answer list"

text \<open>\<open>fdInfo_\<close> is known to the kernel by its address only.\<close>

record Transceiver =
  tr_connected :: bool
  tr_fd :: int
  tr_ip :: string
  tr_port :: u16
  tr_sendBuffer :: Buffer
  tr_receiveBuffer :: Buffer
  tr_fdInfo :: u64

definition Transceiver_new :: "u64 \<Rightarrow> string \<Rightarrow> u16 \<Rightarrow> Transceiver" where
  "Transceiver_new info ip port =
     \<lparr>tr_connected = False, tr_fd = -1, tr_ip = ip, tr_port = port, tr_sendBuffer = Buffer_new,
      tr_receiveBuffer = Buffer_new, tr_fdInfo = info\<rparr>"

definition retError :: int where "retError = -1"
definition retOk :: int where "retOk = 0"
definition retFull :: int where "retFull = 1"

lemmas ret_defs = retError_def retOk_def retFull_def

section \<open>Opening and closing\<close>

definition Transceiver_valid :: "Transceiver \<Rightarrow> bool" where
  "Transceiver_valid t \<longleftrightarrow> tr_fd t \<noteq> -1"

definition Transceiver_close :: "Transceiver \<Rightarrow> ClientNet \<Rightarrow> Transceiver \<times> ClientNet" where
  "Transceiver_close t e =
     (if \<not> Transceiver_valid t then (t, e)
      else
        (let k = Epoller_del (tr_fd t) (tr_fdInfo t) (EPOLLIN OR EPOLLOUT) (cn_epoller e) (cn_kernel e);
             k' = closeSocketNoThrow (tr_fd t) k
         in (t\<lparr>tr_fd := -1, tr_sendBuffer := Buffer_clear (tr_sendBuffer t),
               tr_receiveBuffer := Buffer_clear (tr_receiveBuffer t)\<rparr>,
             e\<lparr>cn_kernel := k'\<rparr>)))"

definition Transceiver_connect ::
    "(string \<Rightarrow> u32) \<Rightarrow> Transceiver \<Rightarrow> ClientNet \<Rightarrow> (Transceiver \<times> ClientNet) result" where
  "Transceiver_connect inet_addr t e =
     bindE (createSocket False False (cn_kernel e)) (\<lambda>(fd, k1).
     bindE (set_block fd False k1) (\<lambda>k2.
     bindE (set_tcpNoDealy fd k2) (\<lambda>k3.
     bindE (set_keepAlive fd k3) (\<lambda>k4.
     bindE (getAddress inet_addr (cn_answers e) (tr_ip t) (uint (tr_port t))) (\<lambda>(addr, answers).
     bindE (NetworkUtil_connect fd addr k4) (\<lambda>(_, k5).
     Inr (t\<lparr>tr_connected := True, tr_fd := fd\<rparr>,
          e\<lparr>cn_kernel := Epoller_add fd (tr_fdInfo t) EPOLLIN (cn_epoller e) k5, cn_answers := answers\<rparr>)))))))"

section \<open>Sending\<close>

text \<open>One system call moves at most \<open>0x7ffff000\<close> bytes, so its result fits an \<open>int\<close>.\<close>

definition MAX_RW_COUNT :: nat where
  "MAX_RW_COUNT = 0x7ffff000"

definition next_write :: "int \<Rightarrow> ClientNet \<Rightarrow> write_result \<times> ClientNet" where
  "next_write fd e =
     (case cn_writes e fd of
        [] \<Rightarrow> (WAgain, e)
      | w # ws \<Rightarrow> (w, e\<lparr>cn_writes := (cn_writes e)(fd := ws)\<rparr>))"

text \<open>\<open>send\<close> takes the length as a \<open>uint32_t\<close>. Every error but \<open>EAGAIN\<close> is fatal, an interrupted call
  and a closed descriptor included.\<close>

definition Transceiver_send :: "string \<Rightarrow> Transceiver \<Rightarrow> ClientNet \<Rightarrow> (int \<times> ClientNet) result" where
  "Transceiver_send data t e =
     (if tr_fd t = -1 then Inl Fatal
      else
        (let len = unat (of_nat (length data) :: u32); (w, e1) = next_write (tr_fd t) e in
         case w of
           Wrote n \<Rightarrow>
             (let m = min n (min len MAX_RW_COUNT) in
              Inr (int m, e1\<lparr>cn_sent := (cn_sent e1)(tr_fd t := cn_sent e1 (tr_fd t) @ take m data)\<rparr>))
         | WAgain \<Rightarrow> Inr (0, e1)
         | WInterrupted \<Rightarrow> Inl Fatal
         | WError \<Rightarrow> Inl Fatal))"

definition Transceiver_sendRequest ::
    "string \<Rightarrow> Transceiver \<Rightarrow> ClientNet \<Rightarrow> (int \<times> Transceiver \<times> ClientNet) result" where
  "Transceiver_sendRequest data t e =
     (if \<not> Buffer_empty (tr_sendBuffer t) then Inr (retError, t, e)
      else
        bindE (Transceiver_send data t e) (\<lambda>(ret, e1).
        if ret < 0 then Inr (retError, t, e1)
        else if ret < sint (of_nat (length data) :: i32) then
          bindE (Buffer_pushData (Some (drop (nat ret) data)) (of_nat (length data) - of_int ret) (tr_sendBuffer t)) (\<lambda>(_, b).
          Inr (retFull, t\<lparr>tr_sendBuffer := b\<rparr>, e1))
        else Inr (ret, t, e1)))"

text \<open>The first part of \<open>doRequest\<close>: \<open>Some\<close> when it returns before \<open>doInvoke\<close>.\<close>

definition doRequest_flush :: "Transceiver \<Rightarrow> ClientNet \<Rightarrow> (int option \<times> Transceiver \<times> ClientNet) result" where
  "doRequest_flush t e =
     (if \<not> Buffer_empty (tr_sendBuffer t) then
        (let (_, length) = Buffer_peekData (tr_sendBuffer t) in
         bindE (Buffer_peek (unat length) (tr_sendBuffer t)) (\<lambda>data.
         bindE (Transceiver_send data t e) (\<lambda>(ret, e1).
         if ret < 0 then Inr (Some ret, t, e1)
         else if 0 < ret then
           bindE (Buffer_consume (of_int ret) (tr_sendBuffer t)) (\<lambda>b.
           if Buffer_empty b then
             bindE (Buffer_shrink b) (\<lambda>b1. Inr (None, t\<lparr>tr_sendBuffer := b1\<rparr>, e1))
           else Inr (Some 0, t\<lparr>tr_sendBuffer := b\<rparr>, e1))
         else Inr (None, t, e1))))
      else Inr (None, t, e))"

section \<open>Receiving\<close>

definition set_reads :: "int \<Rightarrow> read_result list \<Rightarrow> ClientNet \<Rightarrow> ClientNet" where
  "set_reads fd rs e = e\<lparr>cn_reads := (cn_reads e)(fd := rs)\<rparr>"

text \<open>\<open>readv\<close> into \<open>room\<close> bytes in all: the value returned, the bytes stored. What does not fit stays
  with the socket.\<close>

definition Transceiver_readv ::
    "nat \<Rightarrow> Transceiver \<Rightarrow> ClientNet \<Rightarrow> int \<times> string \<times> Transceiver \<times> ClientNet" where
  "Transceiver_readv room t e =
     (let fd = tr_fd t; closing = (\<lambda>e'. let (t1, e1) = Transceiver_close t e' in (0, [], t1, e1)) in
      if fd = -1 then closing e
      else
        (case cn_reads e fd of
           [] \<Rightarrow> (-1, [], t, e)
         | r # rs \<Rightarrow>
             (case r of
                RAgain \<Rightarrow> (-1, [], t, set_reads fd rs e)
              | RClosed \<Rightarrow> closing (set_reads fd rs e)
              | RError \<Rightarrow> closing (set_reads fd rs e)
              | RData d \<Rightarrow>
                  (let n = min (length d) (min room MAX_RW_COUNT) in
                   if n = 0 then closing (set_reads fd rs e)
                   else (int n, take n d, t,
                         set_reads fd ((if n < length d then [RData (drop n d)] else []) @ rs) e)))))"

text \<open>What the call stored at \<open>writeAddr()\<close>, and \<open>produce\<close>.\<close>

definition Buffer_store :: "string \<Rightarrow> u64 \<Rightarrow> Buffer \<Rightarrow> Buffer result" where
  "Buffer_store d n b =
     bindE (mem_write (buffer b) (unat (writePos b)) (map Some d)) (\<lambda>mem. Inr (Buffer_produce n (b\<lparr>buffer := mem\<rparr>)))"

definition receive_bytes :: "int \<Rightarrow> string \<Rightarrow> Buffer \<Rightarrow> Buffer result" where
  "receive_bytes ret data b =
     (let room = Buffer_writableSize b in
      if of_int ret \<le> room then Buffer_store data (of_int ret) b
      else
        bindE (Buffer_store (take (unat room) data) room b) (\<lambda>b1.
        bindE (Buffer_pushData (Some (drop (unat room) data)) (of_int ret - room) b1) (\<lambda>(_, b2). Inr b2)))"

text \<open>The amount of reading left; each successful call lowers it.\<close>

fun read_weight :: "read_result \<Rightarrow> nat" where
  "read_weight (RData d) = Suc (length d)"
| "read_weight _ = 1"

definition reads_left :: "int \<Rightarrow> ClientNet \<Rightarrow> nat" where
  "reads_left fd e = sum_list (map read_weight (cn_reads e fd))"

lemma readv_progress:
  assumes "Transceiver_readv room t e = (ret, data, t1, e1)" and "0 < ret"
  shows "t1 = t \<and> reads_left (tr_fd t) e1 < reads_left (tr_fd t) e"
  using assms
  by (auto simp: Transceiver_readv_def Let_def set_reads_def reads_left_def min_def
      split: if_splits list.splits read_result.splits prod.splits)

function response_fill :: "Transceiver \<Rightarrow> ClientNet \<Rightarrow> (Transceiver \<times> ClientNet) result" where
  "response_fill t e =
     bindE (Buffer_assureSpace (8 * 1024) (tr_receiveBuffer t)) (\<lambda>b.
     case Transceiver_readv (unat (Buffer_writableSize b) + 64 * 1024) (t\<lparr>tr_receiveBuffer := b\<rparr>) e of
       (ret, data, t1, e1) \<Rightarrow>
         if 0 < ret then
           bindE (receive_bytes ret data b) (\<lambda>b1. response_fill (t1\<lparr>tr_receiveBuffer := b1\<rparr>) e1)
         else Inr (t1, e1))"
  by pat_completeness auto
termination
  by (relation "measure (\<lambda>(t, e). reads_left (tr_fd t) e)")
    (auto dest!: readv_progress [OF sym])

declare response_fill.simps [simp del]

text \<open>\<open>doResponse\<close>: everything there is to read becomes one element of \<open>done\<close>.\<close>

definition Transceiver_doResponse ::
    "Transceiver \<Rightarrow> ClientNet \<Rightarrow> (int \<times> string list \<times> Transceiver \<times> ClientNet) result" where
  "Transceiver_doResponse t e =
     bindE (response_fill t e) (\<lambda>(t1, e1).
     let b = tr_receiveBuffer t1 in
     if \<not> Buffer_empty b then
       (let len = Buffer_readableSize b in
        bindE (Buffer_peek (unat len) b) (\<lambda>data.
        bindE
          (if 0 < len then
             bindE (Buffer_consume len b) (\<lambda>b1. if 8 * 1024 * 1024 < capacity b1 then Buffer_shrink b1 else Inr b1)
           else Inr b) (\<lambda>b2.
        Inr (1, [data], t1\<lparr>tr_receiveBuffer := b2\<rparr>, e1))))
     else Inr (0, [], t1, e1))"

section \<open>Bytes sent\<close>

definition Transceiver_inv :: "Transceiver \<Rightarrow> bool" where
  "Transceiver_inv t \<longleftrightarrow> Buffer_inv (tr_sendBuffer t) \<and> Buffer_inv (tr_receiveBuffer t)"

text \<open>What the server has or will get, in order.\<close>

definition out_stream :: "Transceiver \<Rightarrow> ClientNet \<Rightarrow> string" where
  "out_stream t e = cn_sent e (tr_fd t) @ Buffer_contents (tr_sendBuffer t)"

text \<open>A socket that fails no \<open>send\<close>.\<close>

definition writes_ok :: "int \<Rightarrow> ClientNet \<Rightarrow> bool" where
  "writes_ok fd e \<longleftrightarrow> (\<forall>w \<in> set (cn_writes e fd). w \<noteq> WInterrupted \<and> w \<noteq> WError)"

lemma next_write_ok:
  assumes "writes_ok fd e" and "next_write fd e = (w, e1)"
  shows "w \<noteq> WInterrupted" "w \<noteq> WError" "writes_ok fd e1" "cn_sent e1 = cn_sent e" "cn_reads e1 = cn_reads e"
    "cn_kernel e1 = cn_kernel e" "cn_epoller e1 = cn_epoller e"
  using assms by (auto simp: next_write_def writes_ok_def split: list.splits)

lemma send_ok:
  assumes "tr_fd t \<noteq> -1" and "writes_ok (tr_fd t) e"
  shows "\<exists>m e1. Transceiver_send data t e = Inr (int m, e1) \<and> m \<le> length data \<and> m < 2 ^ 31 \<and> writes_ok (tr_fd t) e1 \<and>
    cn_sent e1 = (cn_sent e)(tr_fd t := cn_sent e (tr_fd t) @ take m data) \<and> cn_reads e1 = cn_reads e"
proof -
  obtain w e1 where w: "next_write (tr_fd t) e = (w, e1)" by fastforce
  note n = next_write_ok [OF assms(2) w]
  have len: "unat (of_nat (length data) :: u32) \<le> length data" by (simp add: unat_of_nat)
  show ?thesis
  proof (cases w)
    case (Wrote n)
    let ?m = "min n (min (unat (of_nat (length data) :: u32)) MAX_RW_COUNT)"
    have "?m \<le> length data" "?m < 2 ^ 31" using len by (auto simp: MAX_RW_COUNT_def)
    then show ?thesis using assms w n Wrote
      by (intro exI [of _ ?m]) (simp add: Transceiver_send_def Let_def writes_ok_def)
  next
    case WAgain
    then show ?thesis using assms w n by (intro exI [of _ 0]) (simp add: Transceiver_send_def Let_def)
  qed (use n in auto)
qed

lemma sendRequest_busy:
  assumes "Buffer_inv (tr_sendBuffer t)" and "Buffer_contents (tr_sendBuffer t) \<noteq> []"
  shows "Transceiver_sendRequest data t e = Inr (retError, t, e)"
  using assms by (simp add: Transceiver_sendRequest_def Buffer_empty_iff)

lemma sendRequest_free:
  assumes fd: "tr_fd t \<noteq> -1" and w: "writes_ok (tr_fd t) e" and inv: "Transceiver_inv t"
    and free: "Buffer_contents (tr_sendBuffer t) = []" and data: "data \<noteq> []" "length data < 2 ^ 31"
  shows "\<exists>ret b e1. Transceiver_sendRequest data t e = Inr (ret, t\<lparr>tr_sendBuffer := b\<rparr>, e1) \<and> ret \<noteq> retError \<and>
    Buffer_inv b \<and> writes_ok (tr_fd t) e1 \<and> out_stream (t\<lparr>tr_sendBuffer := b\<rparr>) e1 = out_stream t e @ data"
proof -
  have bi: "Buffer_inv (tr_sendBuffer t)" using inv by (simp add: Transceiver_inv_def)
  obtain m e1 where s: "Transceiver_send data t e = Inr (int m, e1)" "m \<le> length data" "writes_ok (tr_fd t) e1"
    "cn_sent e1 = (cn_sent e)(tr_fd t := cn_sent e (tr_fd t) @ take m data)"
    using send_ok [OF fd w, of data] by blast
  have e: "Buffer_empty (tr_sendBuffer t)" using bi free by (simp add: Buffer_empty_iff)
  have l: "sint (of_nat (length data) :: i32) = int (length data)" using data by (intro nat_sint_small)
  show ?thesis
  proof (cases "m < length data")
    case True
    let ?n = "of_nat (length data) - of_int (int m) :: u64"
    have eq: "?n = of_nat (length data - m)" using True by (simp add: of_nat_diff)
    have un: "unat ?n = length data - m" unfolding eq using data(2) by (intro unat_of_nat_small) simp
    then have nz: "?n \<noteq> 0" using True by (metis unat_0 zero_less_diff not_gr_zero)
    have fits: "length (Buffer_contents (tr_sendBuffer t)) + unat ?n < 2 ^ 63 - 1" using un free data(2) by simp
    have dl: "unat ?n \<le> length (drop m data)" using un by simp
    obtain b where b: "Buffer_pushData (Some (drop m data)) ?n (tr_sendBuffer t) = Inr (?n, b)" "Buffer_inv b"
      "Buffer_contents b = drop m data"
      using Buffer_pushData_ok [OF bi nz dl fits] un free by auto
    have "Transceiver_sendRequest data t e = Inr (retFull, t\<lparr>tr_sendBuffer := b\<rparr>, e1)"
      using e s(1) True b(1) by (simp add: Transceiver_sendRequest_def l)
    then show ?thesis using b s(3,4) free
      by (intro exI [of _ retFull] exI [of _ b] exI [of _ e1]) (simp add: out_stream_def ret_defs)
  next
    case False
    then have m: "m = length data" using s(2) by simp
    have "Transceiver_sendRequest data t e = Inr (int m, t, e1)"
      using e s(1) m by (simp add: Transceiver_sendRequest_def l)
    then show ?thesis using bi s(3,4) free m
      by (intro exI [of _ "int m"] exI [of _ "tr_sendBuffer t"] exI [of _ e1]) (simp add: out_stream_def ret_defs)
  qed
qed

lemma flush_ok:
  assumes fd: "tr_fd t \<noteq> -1" and w: "writes_ok (tr_fd t) e" and inv: "Transceiver_inv t"
  shows "\<exists>ret b e1. doRequest_flush t e = Inr (ret, t\<lparr>tr_sendBuffer := b\<rparr>, e1) \<and> Buffer_inv b \<and>
    writes_ok (tr_fd t) e1 \<and> out_stream (t\<lparr>tr_sendBuffer := b\<rparr>) e1 = out_stream t e"
proof (cases "Buffer_contents (tr_sendBuffer t) = []")
  case True
  then show ?thesis using inv w
    by (intro exI [of _ None] exI [of _ "tr_sendBuffer t"] exI [of _ e])
      (simp add: doRequest_flush_def Buffer_empty_iff Transceiver_inv_def)
next
  case False
  let ?b = "tr_sendBuffer t" and ?d = "Buffer_contents (tr_sendBuffer t)"
  have bi: "Buffer_inv ?b" using inv by (simp add: Transceiver_inv_def)
  have peek: "Buffer_peek (unat (Buffer_readableSize ?b)) ?b = Inr ?d"
    using Buffer_peek_ok [OF bi False, of "length ?d"] by (simp add: unat_readableSize [OF bi])
  obtain m e1 where s: "Transceiver_send ?d t e = Inr (int m, e1)" "m \<le> length ?d" "m < 2 ^ 31" "writes_ok (tr_fd t) e1"
    "cn_sent e1 = (cn_sent e)(tr_fd t := cn_sent e (tr_fd t) @ take m ?d)"
    using send_ok [OF fd w, of ?d] by blast
  have um: "unat (of_int (int m) :: u64) = m" using s(3) by (simp add: unat_of_nat_small)
  obtain b where b: "Buffer_consume (of_int (int m)) ?b = Inr b" "Buffer_inv b" "Buffer_contents b = drop m ?d"
    using Buffer_consume_ok [OF bi, of "of_int (int m)"] um s(2) by auto
  obtain b1 where b1: "Buffer_shrink b = Inr b1" "Buffer_inv b1" "Buffer_contents b1 = Buffer_contents b"
    using Buffer_shrink_ok [OF b(2)] by blast
  have start: "doRequest_flush t e =
      (if 0 < int m then if Buffer_empty b then Inr (None, t\<lparr>tr_sendBuffer := b1\<rparr>, e1) else Inr (Some 0, t\<lparr>tr_sendBuffer := b\<rparr>, e1)
       else Inr (None, t, e1))"
    using False bi peek s(1) b(1) b1(1) by (simp add: doRequest_flush_def Buffer_empty_iff Buffer_peekData_def)
  have stream: "out_stream (t\<lparr>tr_sendBuffer := c\<rparr>) e1 = out_stream t e" if "Buffer_contents c = drop m ?d" for c
    using that s(5) by (simp add: out_stream_def)
  consider "m = 0" | "0 < m" "Buffer_empty b" | "0 < m" "\<not> Buffer_empty b" by blast
  then show ?thesis
  proof cases
    case 1
    then show ?thesis using start bi s(4) stream [of ?b]
      by (intro exI [of _ None] exI [of _ ?b] exI [of _ e1]) simp
  next
    case 2
    then show ?thesis using start b1 b(3) s(4) stream [of b1] by auto
  next
    case 3
    then show ?thesis using start b s(4) stream [of b] by auto
  qed
qed

text \<open>Requests and writable events in any order: the requests accepted.\<close>

datatype trans_op = TRequest string | TWritable

fun trans_run :: "trans_op list \<Rightarrow> Transceiver \<Rightarrow> ClientNet \<Rightarrow> (string list \<times> Transceiver \<times> ClientNet) result" where
  "trans_run [] t e = Inr ([], t, e)"
| "trans_run (TRequest d # ops) t e =
     bindE (Transceiver_sendRequest d t e) (\<lambda>(ret, t1, e1).
     bindE (trans_run ops t1 e1) (\<lambda>(acc, t2, e2).
     Inr ((if ret = retError then [] else [d]) @ acc, t2, e2)))"
| "trans_run (TWritable # ops) t e =
     bindE (doRequest_flush t e) (\<lambda>(_, t1, e1). trans_run ops t1 e1)"

fun op_ok :: "trans_op \<Rightarrow> bool" where
  "op_ok (TRequest d) \<longleftrightarrow> d \<noteq> [] \<and> length d < 2 ^ 31"
| "op_ok TWritable \<longleftrightarrow> True"

lemma trans_run_stream:
  assumes "tr_fd t \<noteq> -1" and "writes_ok (tr_fd t) e" and "Transceiver_inv t" and "list_all op_ok ops"
  shows "\<exists>acc t' e'. trans_run ops t e = Inr (acc, t', e') \<and> Transceiver_inv t' \<and> tr_fd t' = tr_fd t \<and>
    out_stream t' e' = out_stream t e @ concat acc"
  using assms
proof (induction ops t e rule: trans_run.induct)
  case (2 d ops t e)
  show ?case
  proof (cases "Buffer_contents (tr_sendBuffer t) = []")
    case True
    obtain ret b e1 where s: "Transceiver_sendRequest d t e = Inr (ret, t\<lparr>tr_sendBuffer := b\<rparr>, e1)" "ret \<noteq> retError"
      "Buffer_inv b" "writes_ok (tr_fd t) e1" "out_stream (t\<lparr>tr_sendBuffer := b\<rparr>) e1 = out_stream t e @ d"
      using sendRequest_free [OF 2(2-4) True, of d] 2(5) by auto
    then show ?thesis using 2(1) [OF s(1) refl refl] 2(2-5) by (auto simp: Transceiver_inv_def)
  next
    case False
    then have "Transceiver_sendRequest d t e = Inr (retError, t, e)"
      using 2(4) by (intro sendRequest_busy) (simp_all add: Transceiver_inv_def)
    then show ?thesis using 2(1) [OF _ refl refl] 2(2-5) by auto
  qed
next
  case (3 ops t e)
  obtain ret b e1 where "doRequest_flush t e = Inr (ret, t\<lparr>tr_sendBuffer := b\<rparr>, e1)" "Buffer_inv b"
    "writes_ok (tr_fd t) e1" "out_stream (t\<lparr>tr_sendBuffer := b\<rparr>) e1 = out_stream t e"
    using flush_ok [OF 3(2-4)] by blast
  then show ?case using 3(1) [OF _ refl refl] 3(2-5) by (auto simp: Transceiver_inv_def)
qed simp

section \<open>Bytes received\<close>

lemma Buffer_store_ok:
  assumes "Buffer_inv b" and "n \<le> Buffer_writableSize b" and "length d = unat n" and "0 < unat n"
  shows "\<exists>b'. Buffer_store d n b = Inr b' \<and> Buffer_inv b' \<and> Buffer_contents b' = Buffer_contents b @ d"
  using Buffer_append [OF assms] by (auto simp: Buffer_store_def)

lemma receive_bytes_ok:
  assumes inv: "Buffer_inv b" and d: "data \<noteq> []" "length (Buffer_contents b) + length data < 2 ^ 62"
    and room: "8192 \<le> Buffer_writableSize b"
  shows "\<exists>b'. receive_bytes (int (length data)) data b = Inr b' \<and> Buffer_inv b' \<and>
    Buffer_contents b' = Buffer_contents b @ data"
proof -
  let ?n = "of_nat (length data) :: u64" and ?r = "Buffer_writableSize b"
  have un: "unat ?n = length data" using d(2) by (intro unat_of_nat_small) simp
  show ?thesis
  proof (cases "?n \<le> ?r")
    case True
    then show ?thesis using Buffer_store_ok [OF inv True, of data] un d(1) by (simp add: receive_bytes_def)
  next
    case False
    then have lt: "unat ?r < length data" using un by (simp add: word_less_nat_alt not_le)
    have "unat (8192 :: u64) \<le> unat ?r" using room by (simp only: word_le_nat_alt)
    then have pos: "0 < unat ?r" by simp
    have lr: "length (take (unat ?r) data) = unat ?r" using lt by simp
    obtain b1 where b1: "Buffer_store (take (unat ?r) data) ?r b = Inr b1" "Buffer_inv b1"
      "Buffer_contents b1 = Buffer_contents b @ take (unat ?r) data"
      using Buffer_store_ok [OF inv order_refl lr pos] by blast
    have rest: "unat (?n - ?r) = length data - unat ?r" using False un by (simp add: unat_sub not_le order.strict_implies_order)
    then have "?n - ?r \<noteq> 0" using lt by (metis unat_0 zero_less_diff not_gr_zero)
    moreover have "unat (?n - ?r) \<le> length (drop (unat ?r) data)" using rest by simp
    moreover have "length (Buffer_contents b1) + unat (?n - ?r) < 2 ^ 63 - 1" using rest b1(3) lt d(2) by simp
    ultimately obtain b2 where "Buffer_pushData (Some (drop (unat ?r) data)) (?n - ?r) b1 = Inr (?n - ?r, b2)" "Buffer_inv b2"
      "Buffer_contents b2 = Buffer_contents b1 @ drop (unat ?r) data"
      using Buffer_pushData_ok [OF b1(2)] rest by fastforce
    then show ?thesis using False b1 by (simp add: receive_bytes_def)
  qed
qed

lemma set_reads_simps [simp]:
  "cn_reads (set_reads fd rs e) fd = rs" "set_reads fd rs (set_reads fd rs' e) = set_reads fd rs e"
  "set_reads fd (cn_reads e fd) e = e"
  by (simp_all add: set_reads_def)

lemma assure_response:
  assumes "Buffer_inv b" and "length (Buffer_contents b) < 2 ^ 62"
  shows "\<exists>b'. Buffer_assureSpace 8192 b = Inr b' \<and> Buffer_inv b' \<and> Buffer_contents b' = Buffer_contents b \<and>
    8192 \<le> Buffer_writableSize b'"
  using Buffer_assureSpace_ok [OF assms(1), of 8192] assms(2) by simp

text \<open>One turn of the loop takes some bytes off the front of what the socket has.\<close>

lemma response_fill_turn:
  assumes fd: "tr_fd t \<noteq> -1" and inv: "Buffer_inv (tr_receiveBuffer t)"
    and rd: "cn_reads e (tr_fd t) = RData d # rs" "d \<noteq> []"
    and small: "length (Buffer_contents (tr_receiveBuffer t)) + length d < 2 ^ 62"
  shows "\<exists>n b. 0 < n \<and> n \<le> length d \<and> Buffer_inv b \<and> Buffer_contents b = Buffer_contents (tr_receiveBuffer t) @ take n d \<and>
    response_fill t e = response_fill (t\<lparr>tr_receiveBuffer := b\<rparr>)
      (set_reads (tr_fd t) ((if n < length d then [RData (drop n d)] else []) @ rs) e)"
proof -
  obtain b0 where b0: "Buffer_assureSpace 8192 (tr_receiveBuffer t) = Inr b0" "Buffer_inv b0"
    "Buffer_contents b0 = Buffer_contents (tr_receiveBuffer t)" "8192 \<le> Buffer_writableSize b0"
    using assure_response [OF inv] small by auto
  define n where "n = min (length d) (min (unat (Buffer_writableSize b0) + 65536) MAX_RW_COUNT)"
  have n: "0 < n" "n \<le> length d" using rd(2) by (auto simp: n_def MAX_RW_COUNT_def)
  have "take n d \<noteq> []" using n rd(2) by simp
  moreover have "length (Buffer_contents b0) + length (take n d) < 2 ^ 62" using b0(3) small n by simp
  ultimately obtain b where b: "receive_bytes (int (length (take n d))) (take n d) b0 = Inr b" "Buffer_inv b"
    "Buffer_contents b = Buffer_contents b0 @ take n d"
    using receive_bytes_ok [OF b0(2) _ _ b0(4)] by blast
  have "length (take n d) = n" using n by simp
  then have rb: "receive_bytes (int n) (take n d) b0 = Inr b" using b(1) by simp
  have rv: "Transceiver_readv (unat (Buffer_writableSize b0) + 65536) (t\<lparr>tr_receiveBuffer := b0\<rparr>) e =
      (int n, take n d, t\<lparr>tr_receiveBuffer := b0\<rparr>,
       set_reads (tr_fd t) ((if n < length d then [RData (drop n d)] else []) @ rs) e)"
    using fd rd n(1) by (simp add: Transceiver_readv_def Let_def flip: n_def)
  have "response_fill t e = response_fill (t\<lparr>tr_receiveBuffer := b\<rparr>)
      (set_reads (tr_fd t) ((if n < length d then [RData (drop n d)] else []) @ rs) e)"
    by (subst response_fill.simps) (use b0(1) rv rb n(1) in simp)
  then show ?thesis using n b b0(3) by (intro exI [of _ n] exI [of _ b]) simp
qed

lemma response_fill_data:
  assumes "tr_fd t \<noteq> -1" and "Buffer_inv (tr_receiveBuffer t)" and "cn_reads e (tr_fd t) = map RData chunks @ rest"
    and "[] \<notin> set chunks" and "length (Buffer_contents (tr_receiveBuffer t)) + length (concat chunks) < 2 ^ 62"
  shows "\<exists>b. Buffer_inv b \<and> Buffer_contents b = Buffer_contents (tr_receiveBuffer t) @ concat chunks \<and>
    response_fill t e = response_fill (t\<lparr>tr_receiveBuffer := b\<rparr>) (set_reads (tr_fd t) rest e)"
  using assms
proof (induction "length (concat chunks)" arbitrary: t e chunks rule: less_induct)
  case less
  show ?case
  proof (cases chunks)
    case Nil
    then have "set_reads (tr_fd t) rest e = e" using less.prems(3) set_reads_simps(3) [of "tr_fd t" e] by simp
    then show ?thesis using less.prems(2) Nil by (intro exI [of _ "tr_receiveBuffer t"]) simp
  next
    case (Cons d ds)
    let ?rs = "map RData ds @ rest"
    obtain n b where n: "0 < n" "n \<le> length d" "Buffer_inv b"
      "Buffer_contents b = Buffer_contents (tr_receiveBuffer t) @ take n d"
      "response_fill t e = response_fill (t\<lparr>tr_receiveBuffer := b\<rparr>)
        (set_reads (tr_fd t) ((if n < length d then [RData (drop n d)] else []) @ ?rs) e)"
      using response_fill_turn [OF less.prems(1,2), of e d ?rs] less.prems(3-5) Cons by auto
    let ?ch = "(if n < length d then [drop n d] else []) @ ds"
    have all: "take n d @ concat ?ch = concat chunks" using n(2) Cons by (auto simp: append_take_drop_id)
    then have len: "length (concat chunks) = n + length (concat ?ch)"
      using n(2) by (metis length_append length_take min.absorb2)
    have rs: "(if n < length d then [RData (drop n d)] else []) @ ?rs = map RData ?ch @ rest" by simp
    obtain b' where "Buffer_inv b'" "Buffer_contents b' = Buffer_contents b @ concat ?ch"
      "response_fill (t\<lparr>tr_receiveBuffer := b\<rparr>) (set_reads (tr_fd t) (map RData ?ch @ rest) e) =
       response_fill (t\<lparr>tr_receiveBuffer := b'\<rparr>) (set_reads (tr_fd t) rest e)"
      using less.hyps [of ?ch "t\<lparr>tr_receiveBuffer := b\<rparr>" "set_reads (tr_fd t) (map RData ?ch @ rest) e"]
        less.prems(1,4,5) n len Cons by auto
    then show ?thesis using n(4,5) all unfolding rs by (intro exI [of _ b']) simp
  qed
qed

text \<open>The end of the data: nothing more now, or the end of the connection.\<close>

lemma response_fill_again:
  assumes "tr_fd t \<noteq> -1" and "Buffer_inv (tr_receiveBuffer t)" and "cn_reads e (tr_fd t) = []"
    and "length (Buffer_contents (tr_receiveBuffer t)) < 2 ^ 62"
  shows "\<exists>b. Buffer_inv b \<and> Buffer_contents b = Buffer_contents (tr_receiveBuffer t) \<and>
    response_fill t e = Inr (t\<lparr>tr_receiveBuffer := b\<rparr>, e)"
proof -
  obtain b where b: "Buffer_assureSpace 8192 (tr_receiveBuffer t) = Inr b" "Buffer_inv b"
    "Buffer_contents b = Buffer_contents (tr_receiveBuffer t)" using assure_response [OF assms(2,4)] by blast
  then show ?thesis using assms(1,3)
    by (intro exI [of _ b]) (subst response_fill.simps, simp add: Transceiver_readv_def)
qed

lemma response_fill_closed:
  assumes "tr_fd t \<noteq> -1" and "Buffer_inv (tr_receiveBuffer t)" and "cn_reads e (tr_fd t) = r # rs" and "r \<in> {RClosed, RError}"
    and "length (Buffer_contents (tr_receiveBuffer t)) < 2 ^ 62"
  shows "\<exists>t' e'. response_fill t e = Inr (t', e') \<and> tr_fd t' = -1 \<and> tr_connected t' = tr_connected t \<and>
    Buffer_empty (tr_receiveBuffer t') \<and> Buffer_empty (tr_sendBuffer t') \<and> cn_sent e' = cn_sent e"
proof -
  obtain b where "Buffer_assureSpace 8192 (tr_receiveBuffer t) = Inr b"
    using assure_response [OF assms(2,5)] by blast
  then show ?thesis using assms(1,3,4)
    by (subst response_fill.simps) (auto simp: Transceiver_readv_def Let_def Transceiver_close_def Transceiver_valid_def
        Buffer_clear_def Buffer_empty_def Buffer_readableSize_def set_reads_def)
qed

lemma doResponse_data:
  assumes fill: "response_fill t e = Inr (t1, e1)" and inv: "Buffer_inv (tr_receiveBuffer t1)"
    and ne: "Buffer_contents (tr_receiveBuffer t1) \<noteq> []"
  shows "\<exists>b. Transceiver_doResponse t e = Inr (1, [Buffer_contents (tr_receiveBuffer t1)], t1\<lparr>tr_receiveBuffer := b\<rparr>, e1) \<and>
    Buffer_inv b \<and> Buffer_contents b = []"
proof -
  let ?b = "tr_receiveBuffer t1"
  have u: "unat (Buffer_readableSize ?b) = length (Buffer_contents ?b)" by (rule unat_readableSize [OF inv])
  then have pos: "0 < Buffer_readableSize ?b" using ne by (metis length_0_conv unat_0 word_gt_0)
  obtain b1 where b1: "Buffer_consume (Buffer_readableSize ?b) ?b = Inr b1" "Buffer_inv b1" "Buffer_contents b1 = []"
    using Buffer_consume_ok [OF inv, of "Buffer_readableSize ?b"] u by auto
  obtain b2 where "Buffer_shrink b1 = Inr b2" "Buffer_inv b2" "Buffer_contents b2 = []"
    using Buffer_shrink_ok [OF b1(2)] b1(3) by auto
  then show ?thesis
    using fill ne inv pos b1 u Buffer_peek_ok [OF inv ne, of "length (Buffer_contents ?b)"]
    by (cases "8388608 < capacity b1") (simp_all add: Transceiver_doResponse_def Let_def Buffer_empty_iff, blast+)
qed

lemma doResponse_chunks:
  assumes fd: "tr_fd t \<noteq> -1" and inv: "Transceiver_inv t" and free: "Buffer_contents (tr_receiveBuffer t) = []"
    and chunks: "chunks \<noteq> []" "[] \<notin> set chunks" "length (concat chunks) < 2 ^ 62"
    and reads: "cn_reads e (tr_fd t) = map RData chunks"
  shows "\<exists>b. Transceiver_doResponse t e = Inr (1, [concat chunks], t\<lparr>tr_receiveBuffer := b\<rparr>, set_reads (tr_fd t) [] e) \<and>
    Buffer_inv b \<and> Buffer_contents b = []"
proof -
  have ri: "Buffer_inv (tr_receiveBuffer t)" using inv by (simp add: Transceiver_inv_def)
  obtain b where b: "Buffer_inv b" "Buffer_contents b = concat chunks"
    "response_fill t e = response_fill (t\<lparr>tr_receiveBuffer := b\<rparr>) (set_reads (tr_fd t) [] e)"
    using response_fill_data [OF fd ri, of e chunks "[]"] reads chunks(2,3) free by auto
  obtain b1 where b1: "Buffer_inv b1" "Buffer_contents b1 = concat chunks"
    "response_fill t e = Inr (t\<lparr>tr_receiveBuffer := b1\<rparr>, set_reads (tr_fd t) [] e)"
    using response_fill_again [of "t\<lparr>tr_receiveBuffer := b\<rparr>" "set_reads (tr_fd t) [] e"] b fd chunks(3) by auto
  have "concat chunks \<noteq> []" using chunks(1,2) by (cases chunks) auto
  then show ?thesis using doResponse_data [OF b1(3)] b1(1,2) by simp
qed

lemma doResponse_closed:
  assumes fd: "tr_fd t \<noteq> -1" and inv: "Transceiver_inv t" and free: "Buffer_contents (tr_receiveBuffer t) = []"
    and chunks: "[] \<notin> set chunks" "length (concat chunks) < 2 ^ 62"
    and reads: "cn_reads e (tr_fd t) = map RData chunks @ [RClosed]"
  shows "\<exists>t' e'. Transceiver_doResponse t e = Inr (0, [], t', e') \<and> tr_fd t' = -1 \<and> tr_connected t' = tr_connected t"
proof -
  have ri: "Buffer_inv (tr_receiveBuffer t)" using inv by (simp add: Transceiver_inv_def)
  obtain b where b: "Buffer_inv b" "Buffer_contents b = concat chunks"
    "response_fill t e = response_fill (t\<lparr>tr_receiveBuffer := b\<rparr>) (set_reads (tr_fd t) [RClosed] e)"
    using response_fill_data [OF fd ri, of e chunks "[RClosed]"] reads chunks free by auto
  then obtain t' e' where "response_fill t e = Inr (t', e')" "tr_fd t' = -1" "tr_connected t' = tr_connected t"
    "Buffer_empty (tr_receiveBuffer t')"
    using response_fill_closed [of "t\<lparr>tr_receiveBuffer := b\<rparr>" "set_reads (tr_fd t) [RClosed] e"] fd chunks(2) by auto
  then show ?thesis by (simp add: Transceiver_doResponse_def Let_def)
qed

section \<open>Properties\<close>

text \<open>C22. No byte of an accepted request is lost, doubled or moved: after any sequence of requests and
  writable events on a connected transceiver whose socket may take any part of what it is offered or
  nothing, what the socket took followed by what waits in \<open>sendBuffer_\<close> is what was there before
  followed by the accepted requests in order. No operation fails.\<close>

theorem Transceiver_conserves:
  assumes "tr_fd t \<noteq> -1" and "writes_ok (tr_fd t) e" and "Transceiver_inv t" and "list_all op_ok ops"
  shows "\<exists>acc t' e'. trans_run ops t e = Inr (acc, t', e') \<and> Transceiver_inv t' \<and> tr_fd t' = tr_fd t \<and>
    out_stream t' e' = out_stream t e @ concat acc"
  using assms by (rule trans_run_stream)

definition sample_transceiver :: Transceiver where
  "sample_transceiver = (Transceiver_new 4096 ''127.0.0.1'' 9000)\<lparr>tr_connected := True, tr_fd := 7\<rparr>"

definition sample_net :: ClientNet where
  "sample_net =
     \<lparr>cn_kernel = \<lparr>k_results = [], k_calls = []\<rparr>, cn_epoller = Epoller_new False, cn_reads = (\<lambda>_. []),
      cn_writes = (\<lambda>_. [Wrote 3]), cn_sent = (\<lambda>_. []), cn_answers = []\<rparr>"

lemma sample_transceiver_facts [simp]:
  "tr_fd sample_transceiver = 7" "Transceiver_inv sample_transceiver"
  "Buffer_contents (tr_receiveBuffer sample_transceiver) = []" "Buffer_contents (tr_sendBuffer sample_transceiver) = []"
  "tr_connected sample_transceiver" "tr_receiveBuffer sample_transceiver = Buffer_new"
  by (simp_all add: sample_transceiver_def Transceiver_new_def Transceiver_inv_def)

theorem Transceiver_conserves_witness:
  "\<exists>acc t' e'. trans_run [TRequest ''hello'', TRequest ''world'', TWritable] sample_transceiver sample_net = Inr (acc, t', e') \<and>
     Transceiver_inv t' \<and> tr_fd t' = 7 \<and> out_stream t' e' = concat acc"
  using Transceiver_conserves [of sample_transceiver sample_net "[TRequest ''hello'', TRequest ''world'', TWritable]"]
  by (simp add: writes_ok_def sample_net_def out_stream_def)

text \<open>\<open>doResponse\<close> makes one response of all the bytes that have arrived, so that two responses
  that arrive together are handed over as one; and when the server closes after them, all of them are
  discarded. The read loop ends in both cases.\<close>

theorem doResponse_coalesces:
  assumes "tr_fd t \<noteq> -1" and "Transceiver_inv t" and "Buffer_contents (tr_receiveBuffer t) = []"
    and "chunks \<noteq> []" and "[] \<notin> set chunks" and "length (concat chunks) < 2 ^ 62"
  shows "(cn_reads e (tr_fd t) = map RData chunks \<longrightarrow>
       (\<exists>b. Transceiver_doResponse t e = Inr (1, [concat chunks], t\<lparr>tr_receiveBuffer := b\<rparr>, set_reads (tr_fd t) [] e) \<and>
          Buffer_inv b \<and> Buffer_contents b = [])) \<and>
    (cn_reads e (tr_fd t) = map RData chunks @ [RClosed] \<longrightarrow>
       (\<exists>t' e'. Transceiver_doResponse t e = Inr (0, [], t', e') \<and> tr_fd t' = -1 \<and> tr_connected t' = tr_connected t))"
  using doResponse_chunks [OF assms] doResponse_closed [OF assms(1-3,5,6)] by blast

theorem doResponse_coalesces_witness:
  "\<exists>b. Transceiver_doResponse sample_transceiver (sample_net\<lparr>cn_reads := (\<lambda>_. [RData ''1:a'', RData ''2:b''])\<rparr>) =
     Inr (1, [''1:a2:b''], sample_transceiver\<lparr>tr_receiveBuffer := b\<rparr>,
          set_reads 7 [] (sample_net\<lparr>cn_reads := (\<lambda>_. [RData ''1:a'', RData ''2:b''])\<rparr>)) \<and> Buffer_contents b = []"
  using doResponse_coalesces [of sample_transceiver "[''1:a'', ''2:b'']" "sample_net\<lparr>cn_reads := (\<lambda>_. [RData ''1:a'', RData ''2:b''])\<rparr>"]
  by auto

end
