(* ===== verification/Tarsx_TimeoutQueue.thy ===== *)
theory Tarsx_TimeoutQueue
  imports Tarsx_Prelude "HOL-Library.Multiset"
begin

text \<open>
  \<open>tarsx::TimeoutQueueNew<T>\<close> (\<open>TimeoutQueueNew.hpp\<close>): the table of requests that wait for their
  response, indexed three times: by request id (\<open>data_\<close>, a hash map), by deadline (\<open>time_\<close>, a
  multimap) and, for the requests not yet sent, by order of arrival (\<open>send_\<close>, a list). The three
  containers point into each other with iterators. A container is a list of nodes here, each
  with an identity no other node ever had; an iterator is such an identity, and an access or an
  erasure through the iterator of a node that is gone is the fault \<open>BadIterator\<close>. The contract
  is the interface \<open>deadline_table\<close>.
\<close>

section \<open>Node containers\<close>

type_synonym iter = nat
type_synonym 'v nodes = "(iter \<times> 'v) list"

definition node_get :: "iter \<Rightarrow> 'v nodes \<Rightarrow> 'v result" where
  "node_get i ns = (case map_of ns i of None \<Rightarrow> Inl BadIterator | Some v \<Rightarrow> Inr v)"

definition node_without :: "iter \<Rightarrow> 'v nodes \<Rightarrow> 'v nodes" where
  "node_without i ns = filter (\<lambda>n. fst n \<noteq> i) ns"

definition node_erase :: "iter \<Rightarrow> 'v nodes \<Rightarrow> 'v nodes result" where
  "node_erase i ns = (if map_of ns i = None then Inl BadIterator else Inr (node_without i ns))"

definition node_put :: "iter \<Rightarrow> 'v \<Rightarrow> 'v nodes \<Rightarrow> 'v nodes" where
  "node_put i v ns = map (\<lambda>n. if fst n = i then (i, v) else n) ns"

definition iter_of :: "iter option \<Rightarrow> iter result" where
  "iter_of o_iter = (case o_iter of None \<Rightarrow> Inl BadIterator | Some i \<Rightarrow> Inr i)"

lemma map_of_node_without [simp]:
  "map_of (node_without i ns) = (map_of ns)(i := None)"
  by (rule ext, induction ns) (auto simp: node_without_def)

lemma map_of_node_put [simp]:
  "map_of (node_put i v ns) j = (if j = i \<and> map_of ns i \<noteq> None then Some v else map_of ns j)"
  by (induction ns) (auto simp: node_put_def)

lemma fst_node_put [simp]: "map fst (node_put i v ns) = map fst ns"
  by (induction ns) (auto simp: node_put_def)

lemma distinct_node_without [simp]:
  "distinct (map f ns) \<Longrightarrow> distinct (map f (node_without i ns))"
  by (simp add: node_without_def distinct_map_filter)

lemma sorted_node_without [simp]:
  "sorted (map f ns) \<Longrightarrow> sorted (map f (node_without i ns))"
  by (simp add: node_without_def sorted_filter)

lemma node_get_ok [simp]: "map_of ns i = Some v \<Longrightarrow> node_get i ns = Inr v"
  by (simp add: node_get_def)

lemma node_erase_ok [simp]: "map_of ns i = Some v \<Longrightarrow> node_erase i ns = Inr (node_without i ns)"
  by (simp add: node_erase_def)

lemma iter_of_Some [simp]: "iter_of (Some i) = Inr i"
  by (simp add: iter_of_def)

lemma node_without_notin [simp]: "i \<notin> fst ` set ns \<Longrightarrow> node_without i ns = ns"
  by (induction ns) (auto simp: node_without_def)

section \<open>State\<close>

text \<open>\<open>T\<close> is a pointer type in the program; \<open>None\<close> is its null value. The iterators a freshly
  built \<open>PtrInfo\<close> holds point nowhere (\<open>None\<close>).\<close>

record 'p PtrInfo =
  ptr :: "'p option"
  hasSend :: bool
  timeIter :: "iter option"
  sendIter :: "iter option"

record 'p TimeoutQueueNew =
  tq_data :: "(u32 \<times> 'p PtrInfo) nodes"
  tq_time :: "(int \<times> iter) nodes"
  tq_send :: "iter nodes"
  tq_fresh :: iter

definition TimeoutQueueNew_new :: "'p TimeoutQueueNew" where
  "TimeoutQueueNew_new = \<lparr>tq_data = [], tq_time = [], tq_send = [], tq_fresh = 0\<rparr>"

section \<open>Operations\<close>

definition TimeoutQueueNew_generateId :: "u32 \<Rightarrow> u32" where
  "TimeoutQueueNew_generateId uniqueId = increment_nonzero uniqueId"

definition TimeoutQueueNew_sendListEmpty :: "'p TimeoutQueueNew \<Rightarrow> bool" where
  "TimeoutQueueNew_sendListEmpty q \<longleftrightarrow> tq_send q = []"

definition TimeoutQueueNew_getSendListSize :: "'p TimeoutQueueNew \<Rightarrow> nat" where
  "TimeoutQueueNew_getSendListSize q = length (tq_send q)"

definition TimeoutQueueNew_size :: "'p TimeoutQueueNew \<Rightarrow> nat" where
  "TimeoutQueueNew_size q = length (tq_data q)"

text \<open>\<open>getSend(t)\<close>: the result and \<open>t\<close> afterwards.\<close>

definition TimeoutQueueNew_getSend ::
    "'p option \<Rightarrow> 'p TimeoutQueueNew \<Rightarrow> (bool \<times> 'p option) result" where
  "TimeoutQueueNew_getSend t q =
     (if tq_send q = [] then Inr (False, t)
      else
        bindE (node_get (snd (last (tq_send q))) (tq_data q)) (\<lambda>(_, pi).
        bindE (assertE (ptr pi = None)) (\<lambda>_.
        Inr (True, t))))"

definition TimeoutQueueNew_popSend :: "bool \<Rightarrow> 'p TimeoutQueueNew \<Rightarrow> 'p TimeoutQueueNew result" where
  "TimeoutQueueNew_popSend del q =
     bindE (assertE (tq_send q \<noteq> [])) (\<lambda>_.
     let dataIter = snd (last (tq_send q)) in
     bindE (node_get dataIter (tq_data q)) (\<lambda>(k, pi).
     let q1 = q\<lparr>tq_data := node_put dataIter (k, pi\<lparr>hasSend := True\<rparr>) (tq_data q)\<rparr> in
     bindE
       (if del then
          bindE (iter_of (timeIter pi)) (\<lambda>ti.
          bindE (node_erase ti (tq_time q1)) (\<lambda>time.
          bindE (node_erase dataIter (tq_data q1)) (\<lambda>data.
          Inr (q1\<lparr>tq_time := time, tq_data := data\<rparr>))))
        else Inr q1)
       (\<lambda>q2. Inr (q2\<lparr>tq_send := butlast (tq_send q2)\<rparr>))))"

definition data_find :: "u32 \<Rightarrow> 'p TimeoutQueueNew \<Rightarrow> (iter \<times> u32 \<times> 'p PtrInfo) option" where
  "data_find uniqId q = find (\<lambda>n. fst (snd n) = uniqId) (tq_data q)"

text \<open>\<open>send_.erase(sendIter)\<close> for an entry whose request has not been sent.\<close>

definition send_unlink :: "'p PtrInfo \<Rightarrow> 'p TimeoutQueueNew \<Rightarrow> 'p TimeoutQueueNew result" where
  "send_unlink pi q =
     (if hasSend pi then Inr q
      else
        bindE (iter_of (sendIter pi)) (\<lambda>si.
        bindE (node_erase si (tq_send q)) (\<lambda>send.
        Inr (q\<lparr>tq_send := send\<rparr>))))"

text \<open>\<open>get(uniqId, t, erase)\<close>: the result, \<open>t\<close> afterwards, the queue afterwards.\<close>

definition TimeoutQueueNew_get ::
    "u32 \<Rightarrow> 'p option \<Rightarrow> bool \<Rightarrow> 'p TimeoutQueueNew \<Rightarrow> (bool \<times> 'p option \<times> 'p TimeoutQueueNew) result" where
  "TimeoutQueueNew_get uniqId t erase q =
     (case data_find uniqId q of
        None \<Rightarrow> Inr (False, t, q)
      | Some (it, _, pi) \<Rightarrow>
          if erase then
            bindE (iter_of (timeIter pi)) (\<lambda>ti.
            bindE (node_erase ti (tq_time q)) (\<lambda>time.
            bindE (send_unlink pi (q\<lparr>tq_time := time\<rparr>)) (\<lambda>q1.
            bindE (node_erase it (tq_data q1)) (\<lambda>data.
            Inr (True, ptr pi, q1\<lparr>tq_data := data\<rparr>)))))
          else Inr (True, ptr pi, q))"

definition TimeoutQueueNew_erase ::
    "u32 \<Rightarrow> 'p option \<Rightarrow> 'p TimeoutQueueNew \<Rightarrow> (bool \<times> 'p option \<times> 'p TimeoutQueueNew) result" where
  "TimeoutQueueNew_erase uniqId t q =
     (case data_find uniqId q of
        None \<Rightarrow> Inr (False, t, q)
      | Some (it, _, pi) \<Rightarrow>
          bindE (send_unlink pi q) (\<lambda>q1.
          bindE (iter_of (timeIter pi)) (\<lambda>ti.
          bindE (node_erase ti (tq_time q1)) (\<lambda>time.
          bindE (node_erase it (tq_data q1)) (\<lambda>data.
          Inr (True, ptr pi, q1\<lparr>tq_time := time, tq_data := data\<rparr>))))))"

text \<open>\<open>multimap::insert\<close> puts a node behind every node whose key is not greater.\<close>

fun multimap_insert :: "iter \<Rightarrow> int \<times> 'v \<Rightarrow> (int \<times> 'v) nodes \<Rightarrow> (int \<times> 'v) nodes" where
  "multimap_insert i kv [] = [(i, kv)]"
| "multimap_insert i kv (n # ns) =
     (if fst (snd n) \<le> fst kv then n # multimap_insert i kv ns else (i, kv) # n # ns)"

definition TimeoutQueueNew_push ::
    "'p option \<Rightarrow> u32 \<Rightarrow> int \<Rightarrow> bool \<Rightarrow> 'p TimeoutQueueNew \<Rightarrow> bool \<times> 'p TimeoutQueueNew" where
  "TimeoutQueueNew_push p uniqId timeout hs q =
     (case data_find uniqId q of
        Some _ \<Rightarrow> (False, q)
      | None \<Rightarrow>
          let d = tq_fresh q;
              ti = tq_fresh q + 1;
              si = tq_fresh q + 2;
              pi = \<lparr>ptr = p, hasSend = hs, timeIter = Some ti,
                    sendIter = (if hs then None else Some si)\<rparr>;
              q1 = q\<lparr>tq_data := (d, uniqId, pi) # tq_data q,
                      tq_time := multimap_insert ti (timeout, d) (tq_time q),
                      tq_fresh := tq_fresh q + 3\<rparr>
          in (True, if hs then q1 else q1\<lparr>tq_send := (si, d) # tq_send q1\<rparr>))"

text \<open>The clock in milliseconds, from the two fields of \<open>gettimeofday\<close>.\<close>

definition timeval_ms :: "int \<Rightarrow> int \<Rightarrow> int" where
  "timeval_ms tv_sec tv_usec = tv_sec * 1000 + tv_usec div 1000"

text \<open>Dropping the entry a node of \<open>time_\<close> points to, and the node: what the three functions named
  \<open>timeout\<close> do with the first node.\<close>

definition drop_entry :: "iter \<Rightarrow> iter \<Rightarrow> 'p TimeoutQueueNew \<Rightarrow> ('p option \<times> 'p TimeoutQueueNew) result" where
  "drop_entry it dataIter q =
     bindE (node_get dataIter (tq_data q)) (\<lambda>(_, pi).
     bindE (send_unlink pi q) (\<lambda>q1.
     bindE (node_erase dataIter (tq_data q1)) (\<lambda>data.
     bindE (node_erase it (tq_time q1)) (\<lambda>time.
     Inr (ptr pi, q1\<lparr>tq_data := data, tq_time := time\<rparr>)))))"

text \<open>\<open>timeout(t)\<close>: the result, \<open>t\<close> afterwards, the queue afterwards.\<close>

definition TimeoutQueueNew_timeout_one ::
    "int \<Rightarrow> 'p option \<Rightarrow> 'p TimeoutQueueNew \<Rightarrow> (bool \<times> 'p option \<times> 'p TimeoutQueueNew) result" where
  "TimeoutQueueNew_timeout_one now t q =
     (case tq_time q of
        [] \<Rightarrow> Inr (False, t, q)
      | (it, key, dataIter) # _ \<Rightarrow>
          if now < key then Inr (False, t, q)
          else bindE (drop_entry it dataIter q) (\<lambda>(p, q'). Inr (True, p, q')))"

lemma node_erase_length:
  "node_erase i ns = Inr ns' \<Longrightarrow> length ns' < length ns"
  by (auto simp: node_erase_def node_without_def split: if_splits
      dest!: map_of_SomeD intro!: length_filter_less)

lemma send_unlink_time [simp]: "send_unlink pi q = Inr q' \<Longrightarrow> tq_time q' = tq_time q"
  by (auto simp: send_unlink_def result_simps split: if_splits)

lemma drop_entry_length:
  "drop_entry it d q = Inr (p, q') \<Longrightarrow> length (tq_time q') < length (tq_time q)"
  by (auto simp: drop_entry_def result_simps dest!: node_erase_length)

text \<open>\<open>timeout()\<close> drops the expired entries, \<open>timeout(func)\<close> also hands each to a function; the
  latter reads the clock again for each entry (\<open>clock i\<close> at the \<open>i\<close>-th turn) and ignores what
  the function throws. The pointers handed over are listed.\<close>

function TimeoutQueueNew_timeout :: "int \<Rightarrow> 'p TimeoutQueueNew \<Rightarrow> 'p TimeoutQueueNew result" where
  "TimeoutQueueNew_timeout now q =
     (case tq_time q of
        [] \<Rightarrow> Inr q
      | (it, key, dataIter) # _ \<Rightarrow>
          if now < key then Inr q
          else bindE (drop_entry it dataIter q) (\<lambda>(_, q'). TimeoutQueueNew_timeout now q'))"
  by pat_completeness auto
termination
  by (relation "measure (\<lambda>(now, q). length (tq_time q))") (auto dest: drop_entry_length)

function TimeoutQueueNew_timeout_func ::
    "(nat \<Rightarrow> int) \<Rightarrow> nat \<Rightarrow> 'p TimeoutQueueNew \<Rightarrow> ('p option list \<times> 'p TimeoutQueueNew) result" where
  "TimeoutQueueNew_timeout_func clock i q =
     (case tq_time q of
        [] \<Rightarrow> Inr ([], q)
      | (it, key, dataIter) # _ \<Rightarrow>
          if clock i < key then Inr ([], q)
          else
            bindE (drop_entry it dataIter q) (\<lambda>(p, q').
            bindE (TimeoutQueueNew_timeout_func clock (Suc i) q') (\<lambda>(ps, q'').
            Inr (p # ps, q''))))"
  by pat_completeness auto
termination
  by (relation "measure (\<lambda>(clock, i, q). length (tq_time q))") (auto dest: drop_entry_length)

declare TimeoutQueueNew_timeout.simps [simp del] TimeoutQueueNew_timeout_func.simps [simp del]

section \<open>Well-formed queues and what they stand for\<close>

definition tq_linked :: "'p TimeoutQueueNew \<Rightarrow> iter \<Rightarrow> 'p PtrInfo \<Rightarrow> bool" where
  "tq_linked q d pi \<longleftrightarrow>
     (\<exists>ti dl. timeIter pi = Some ti \<and> map_of (tq_time q) ti = Some (dl, d)) \<and>
     (hasSend pi \<or> (\<exists>si. sendIter pi = Some si \<and> map_of (tq_send q) si = Some d))"

definition tq_timed :: "'p TimeoutQueueNew \<Rightarrow> iter \<Rightarrow> iter \<Rightarrow> bool" where
  "tq_timed q ti d \<longleftrightarrow> (\<exists>k pi. map_of (tq_data q) d = Some (k, pi) \<and> timeIter pi = Some ti)"

definition tq_queued :: "'p TimeoutQueueNew \<Rightarrow> iter \<Rightarrow> iter \<Rightarrow> bool" where
  "tq_queued q si d \<longleftrightarrow>
     (\<exists>k pi. map_of (tq_data q) d = Some (k, pi) \<and> \<not> hasSend pi \<and> sendIter pi = Some si)"

definition TimeoutQueueNew_inv :: "'p TimeoutQueueNew \<Rightarrow> bool" where
  "TimeoutQueueNew_inv q \<longleftrightarrow>
     distinct (map fst (tq_data q)) \<and> distinct (map fst (tq_time q)) \<and> distinct (map fst (tq_send q)) \<and>
     (\<forall>i \<in> fst ` set (tq_data q) \<union> fst ` set (tq_time q) \<union> fst ` set (tq_send q). i < tq_fresh q) \<and>
     distinct (map (fst \<circ> snd) (tq_data q)) \<and>
     (\<forall>d k pi. map_of (tq_data q) d = Some (k, pi) \<longrightarrow> tq_linked q d pi) \<and>
     (\<forall>ti dl d. map_of (tq_time q) ti = Some (dl, d) \<longrightarrow> tq_timed q ti d) \<and>
     (\<forall>si d. map_of (tq_send q) si = Some d \<longrightarrow> tq_queued q si d) \<and>
     sorted (map (fst \<circ> snd) (tq_time q))"

text \<open>The entries in order of their deadlines, and the ids not yet sent, the oldest first.\<close>

definition tq_info :: "'p TimeoutQueueNew \<Rightarrow> iter \<Rightarrow> u32 \<times> 'p option" where
  "tq_info q d = (case map_of (tq_data q) d of None \<Rightarrow> (0, None) | Some (k, pi) \<Rightarrow> (k, ptr pi))"

definition tq_entries :: "'p TimeoutQueueNew \<Rightarrow> (u32 \<times> int \<times> 'p option) list" where
  "tq_entries q = map (\<lambda>(_, dl, d). (fst (tq_info q d), dl, snd (tq_info q d))) (tq_time q)"

definition tq_pending :: "'p TimeoutQueueNew \<Rightarrow> u32 list" where
  "tq_pending q = rev (map (\<lambda>(_, d). fst (tq_info q d)) (tq_send q))"

text \<open>The queue without the entry of node \<open>d\<close>.\<close>

definition tq_without :: "iter \<Rightarrow> 'p PtrInfo \<Rightarrow> 'p TimeoutQueueNew \<Rightarrow> 'p TimeoutQueueNew" where
  "tq_without d pi q =
     q\<lparr>tq_data := node_without d (tq_data q),
       tq_time := node_without (the (timeIter pi)) (tq_time q),
       tq_send := (if hasSend pi then tq_send q else node_without (the (sendIter pi)) (tq_send q))\<rparr>"

lemma inv_distinct:
  assumes "TimeoutQueueNew_inv q"
  shows "distinct (map fst (tq_data q))" "distinct (map fst (tq_time q))" "distinct (map fst (tq_send q))"
    "distinct (map (fst \<circ> snd) (tq_data q))" "sorted (map (fst \<circ> snd) (tq_time q))"
  using assms by (auto simp: TimeoutQueueNew_inv_def)

lemma inv_linked: "TimeoutQueueNew_inv q \<Longrightarrow> map_of (tq_data q) d = Some (k, pi) \<Longrightarrow> tq_linked q d pi"
  by (simp add: TimeoutQueueNew_inv_def)

lemma inv_time:
  "TimeoutQueueNew_inv q \<Longrightarrow> map_of (tq_time q) ti = Some (dl, d) \<Longrightarrow> tq_timed q ti d"
  unfolding TimeoutQueueNew_inv_def by blast

lemma inv_send:
  "TimeoutQueueNew_inv q \<Longrightarrow> map_of (tq_send q) si = Some d \<Longrightarrow> tq_queued q si d"
  unfolding TimeoutQueueNew_inv_def by blast

lemma inv_fresh:
  assumes "TimeoutQueueNew_inv q" "tq_fresh q \<le> i"
  shows "map_of (tq_data q) i = None" "map_of (tq_time q) i = None" "map_of (tq_send q) i = None"
proof -
  have "\<forall>i \<in> fst ` set (tq_data q) \<union> fst ` set (tq_time q) \<union> fst ` set (tq_send q). i < tq_fresh q"
    using assms(1) by (simp add: TimeoutQueueNew_inv_def)
  with assms(2) show "map_of (tq_data q) i = None" "map_of (tq_time q) i = None" "map_of (tq_send q) i = None"
    unfolding map_of_eq_None_iff by (meson UnI1 UnI2 leD)+
qed

lemma inv_key_unique:
  assumes "TimeoutQueueNew_inv q" "map_of (tq_data q) d = Some (k, pi)" "map_of (tq_data q) d' = Some (k, pi')"
  shows "d = d'"
proof -
  have "(d, k, pi) \<in> set (tq_data q)" "(d', k, pi') \<in> set (tq_data q)"
    using assms(2,3) by (auto dest: map_of_SomeD)
  moreover have "inj_on (fst \<circ> snd) (set (tq_data q))"
    using inv_distinct(4) [OF assms(1)] by (simp add: distinct_map)
  ultimately have "(d, k, pi) = (d', k, pi')" by (intro inj_onD [of "fst \<circ> snd"]) auto
  then show ?thesis by simp
qed

lemma TimeoutQueueNew_new_inv [simp]: "TimeoutQueueNew_inv TimeoutQueueNew_new"
  by (simp add: TimeoutQueueNew_inv_def TimeoutQueueNew_new_def)

lemma tq_new_abs [simp]: "tq_entries TimeoutQueueNew_new = []" "tq_pending TimeoutQueueNew_new = []"
  by (simp_all add: tq_entries_def tq_pending_def TimeoutQueueNew_new_def)

lemma fst_set_without: "fst ` set (node_without i ns) \<subseteq> fst ` set ns"
  by (auto simp: node_without_def)

lemma tq_without_inv:
  assumes inv: "TimeoutQueueNew_inv q" and d: "map_of (tq_data q) d = Some (k, pi)"
  shows "TimeoutQueueNew_inv (tq_without d pi q)"
proof -
  obtain ti dl where ti: "timeIter pi = Some ti" "map_of (tq_time q) ti = Some (dl, d)"
    using inv_linked [OF inv d] by (auto simp: tq_linked_def)
  have other: "tq_linked (tq_without d pi q) e qi"
    if e: "map_of (tq_data q) e = Some (k', qi)" "e \<noteq> d" for e k' qi
  proof -
    have l: "tq_linked q e qi" by (rule inv_linked [OF inv e(1)])
    then obtain tj dl' where "timeIter qi = Some tj" "map_of (tq_time q) tj = Some (dl', e)"
      by (auto simp: tq_linked_def)
    moreover have "tj \<noteq> ti" using calculation(2) ti(2) e(2) by auto
    moreover have "hasSend qi \<or> (\<exists>sj. sendIter qi = Some sj \<and>
        map_of (tq_send (tq_without d pi q)) sj = Some e)"
    proof (cases "hasSend qi")
      case False
      with l obtain sj where sj: "sendIter qi = Some sj" "map_of (tq_send q) sj = Some e"
        by (auto simp: tq_linked_def)
      moreover have "\<not> hasSend pi \<Longrightarrow> the (sendIter pi) \<noteq> sj"
        using inv_linked [OF inv d] sj(2) e(2) by (auto simp: tq_linked_def)
      ultimately have "map_of (tq_send (tq_without d pi q)) sj = Some e"
        by (cases "hasSend pi") (simp_all add: tq_without_def)
      with sj(1) show ?thesis by blast
    qed simp
    moreover have "map_of (tq_time (tq_without d pi q)) tj = Some (dl', e)"
      using calculation ti by (simp add: tq_without_def)
    ultimately show ?thesis unfolding tq_linked_def by blast
  qed
  have time: "e \<noteq> d" if "map_of (tq_time q) tj = Some (dl', e)" "tj \<noteq> ti" for tj dl' e
    using inv_time [OF inv that(1)] that(2) d ti(1) by (auto simp: tq_timed_def)
  have send: "e \<noteq> d" if "map_of (tq_send q) sj = Some e" "hasSend pi \<or> sendIter pi \<noteq> Some sj" for sj e
    using inv_send [OF inv that(1)] that(2) d by (auto simp: tq_queued_def)
  have si: "sendIter pi \<noteq> None" if "\<not> hasSend pi"
    using inv_linked [OF inv d] that by (auto simp: tq_linked_def)
  have fresh: "\<forall>i \<in> fst ` set (tq_data q) \<union> fst ` set (tq_time q) \<union> fst ` set (tq_send q). i < tq_fresh q"
    using inv by (simp add: TimeoutQueueNew_inv_def)
  show ?thesis
    unfolding TimeoutQueueNew_inv_def
  proof (intro conjI allI impI ballI)
    fix i assume "i \<in> fst ` set (tq_data (tq_without d pi q)) \<union> fst ` set (tq_time (tq_without d pi q)) \<union>
      fst ` set (tq_send (tq_without d pi q))"
    then have "i \<in> fst ` set (tq_data q) \<union> fst ` set (tq_time q) \<union> fst ` set (tq_send q)"
      by (auto simp: tq_without_def node_without_def split: if_splits)
    with fresh show "i < tq_fresh (tq_without d pi q)" by (auto simp: tq_without_def)
  next
    fix e k' qi assume "map_of (tq_data (tq_without d pi q)) e = Some (k', qi)"
    then show "tq_linked (tq_without d pi q) e qi"
      using other by (auto simp: tq_without_def split: if_splits)
  next
    fix tj dl' e assume "map_of (tq_time (tq_without d pi q)) tj = Some (dl', e)"
    then have "map_of (tq_time q) tj = Some (dl', e)" "tj \<noteq> ti"
      using ti by (auto simp: tq_without_def split: if_splits)
    then show "tq_timed (tq_without d pi q) tj e"
      using inv_time [OF inv, of tj dl' e] time [of tj dl' e] by (simp add: tq_without_def tq_timed_def)
  next
    fix sj e assume "map_of (tq_send (tq_without d pi q)) sj = Some e"
    then have "map_of (tq_send q) sj = Some e" "hasSend pi \<or> sendIter pi \<noteq> Some sj"
      using si by (auto simp: tq_without_def split: if_splits)
    then show "tq_queued (tq_without d pi q) sj e"
      using inv_send [OF inv, of sj e] send [of sj e] by (simp add: tq_without_def tq_queued_def)
  qed (use inv_distinct [OF inv] in \<open>auto simp: tq_without_def\<close>)
qed

lemma tq_info_without:
  "e \<noteq> d \<Longrightarrow> tq_info (tq_without d pi q) e = tq_info q e"
  by (simp add: tq_info_def tq_without_def)

lemma inv_key_iff:
  assumes "TimeoutQueueNew_inv q" "map_of (tq_data q) d = Some (k, pi)" "map_of (tq_data q) e \<noteq> None"
  shows "fst (tq_info q e) = k \<longleftrightarrow> e = d"
proof -
  obtain k' qi where e: "map_of (tq_data q) e = Some (k', qi)" using assms(3) by auto
  then have "k' = k \<Longrightarrow> e = d" using inv_key_unique [OF assms(1) _ assms(2), of e qi] by simp
  with e assms(2) show ?thesis by (auto simp: tq_info_def)
qed

lemma tq_without_entries:
  assumes inv: "TimeoutQueueNew_inv q" and d: "map_of (tq_data q) d = Some (k, pi)"
  shows "tq_entries (tq_without d pi q) = filter (\<lambda>e. fst e \<noteq> k) (tq_entries q)"
proof -
  obtain ti dl where ti: "timeIter pi = Some ti" "map_of (tq_time q) ti = Some (dl, d)"
    using inv_linked [OF inv d] by (auto simp: tq_linked_def)
  have 1: "(i = ti \<longleftrightarrow> e = d) \<and> (fst (tq_info q e) = k \<longleftrightarrow> e = d)" if "(i, dl', e) \<in> set (tq_time q)" for i dl' e
  proof -
    have m: "map_of (tq_time q) i = Some (dl', e)" using that inv_distinct(2) [OF inv] by simp
    then show ?thesis
      using inv_time [OF inv m] d ti inv_key_iff [OF inv d, of e] by (auto simp: tq_timed_def)
  qed
  have "tq_entries (tq_without d pi q) =
      map (\<lambda>(_, dl, e). (fst (tq_info (tq_without d pi q) e), dl, snd (tq_info (tq_without d pi q) e)))
        (filter (\<lambda>n. fst n \<noteq> ti) (tq_time q))"
    using ti by (simp add: tq_entries_def tq_without_def node_without_def)
  also have "\<dots> = map (\<lambda>(_, dl, e). (fst (tq_info q e), dl, snd (tq_info q e)))
        (filter (\<lambda>n. fst n \<noteq> ti) (tq_time q))"
    using 1 by (intro map_cong refl) (force simp: tq_info_without)
  also have "filter (\<lambda>n. fst n \<noteq> ti) (tq_time q) =
      filter ((\<lambda>e. fst e \<noteq> k) \<circ> (\<lambda>(_, dl, e). (fst (tq_info q e), dl, snd (tq_info q e)))) (tq_time q)"
    by (intro filter_cong refl) (use 1 in \<open>force simp: split_beta\<close>)
  finally show ?thesis by (simp add: tq_entries_def filter_map)
qed

lemma tq_without_pending:
  assumes inv: "TimeoutQueueNew_inv q" and d: "map_of (tq_data q) d = Some (k, pi)"
  shows "tq_pending (tq_without d pi q) = filter (\<lambda>i. i \<noteq> k) (tq_pending q)"
proof -
  have 1: "(\<not> hasSend pi \<and> sendIter pi = Some i \<longleftrightarrow> e = d) \<and> (fst (tq_info q e) = k \<longleftrightarrow> e = d)"
    if "(i, e) \<in> set (tq_send q)" for i e
  proof -
    have m: "map_of (tq_send q) i = Some e" using that inv_distinct(3) [OF inv] by simp
    then show ?thesis
      using inv_send [OF inv m] inv_linked [OF inv d] d inv_key_iff [OF inv d, of e]
      by (auto simp: tq_linked_def tq_queued_def)
  qed
  have "tq_send (tq_without d pi q) = filter (\<lambda>n. snd n \<noteq> d) (tq_send q)"
  proof (cases "hasSend pi")
    case True
    then show ?thesis using 1 by (force simp: tq_without_def intro!: filter_True [symmetric])
  next
    case False
    then obtain si where "sendIter pi = Some si" using inv_linked [OF inv d] by (auto simp: tq_linked_def)
    with False 1 show ?thesis
      by (force simp: tq_without_def node_without_def intro!: filter_cong)
  qed
  then have "tq_pending (tq_without d pi q) =
      rev (map (\<lambda>(_, e). fst (tq_info (tq_without d pi q) e)) (filter (\<lambda>n. snd n \<noteq> d) (tq_send q)))"
    by (simp add: tq_pending_def)
  also have "\<dots> = rev (map (\<lambda>(_, e). fst (tq_info q e)) (filter (\<lambda>n. snd n \<noteq> d) (tq_send q)))"
    by (intro arg_cong [of _ _ rev] map_cong refl) (auto simp: tq_info_without)
  also have "filter (\<lambda>n. snd n \<noteq> d) (tq_send q) =
      filter ((\<lambda>i. i \<noteq> k) \<circ> (\<lambda>(_, e). fst (tq_info q e))) (tq_send q)"
    by (intro filter_cong refl) (use 1 in \<open>force simp: split_beta\<close>)
  finally show ?thesis by (simp only: tq_pending_def rev_filter [symmetric] filter_map)
qed

section \<open>What the operations do\<close>

lemma data_find_Some:
  "TimeoutQueueNew_inv q \<Longrightarrow>
   data_find k q = Some (d, k', pi) \<Longrightarrow> k' = k \<and> map_of (tq_data q) d = Some (k, pi)"
  using inv_distinct(1) [of q] by (auto simp: data_find_def find_Some_iff) (metis fst_conv snd_conv nth_mem)+

lemma data_find_None:
  assumes inv: "TimeoutQueueNew_inv q"
  shows "data_find k q = None \<longleftrightarrow> k \<notin> fst ` set (tq_entries q)"
proof -
  have "k \<in> fst ` set (tq_entries q) \<longleftrightarrow> (\<exists>d pi. map_of (tq_data q) d = Some (k, pi))"
  proof
    assume "k \<in> fst ` set (tq_entries q)"
    then obtain i dl d where m: "(i, dl, d) \<in> set (tq_time q)" and k: "fst (tq_info q d) = k"
      by (auto simp: tq_entries_def)
    then have "tq_timed q i d" using inv_distinct(2) [OF inv] by (intro inv_time [OF inv]) simp
    with k show "\<exists>d pi. map_of (tq_data q) d = Some (k, pi)"
      by (fastforce simp: tq_timed_def tq_info_def)
  next
    assume "\<exists>d pi. map_of (tq_data q) d = Some (k, pi)"
    then obtain d pi where d: "map_of (tq_data q) d = Some (k, pi)" by blast
    obtain ti dl where "map_of (tq_time q) ti = Some (dl, d)"
      using inv_linked [OF inv d] by (auto simp: tq_linked_def)
    then have "(ti, dl, d) \<in> set (tq_time q)" by (rule map_of_SomeD)
    then show "k \<in> fst ` set (tq_entries q)"
      using d by (force simp: tq_entries_def tq_info_def)
  qed
  moreover have "(\<exists>d pi. map_of (tq_data q) d = Some (k, pi)) \<longleftrightarrow> (\<exists>d pi. (d, k, pi) \<in> set (tq_data q))"
    using inv_distinct(1) [OF inv] by simp
  ultimately show ?thesis by (auto simp: data_find_def find_None_iff)
qed

lemma entries_ptr:
  assumes inv: "TimeoutQueueNew_inv q" and d: "map_of (tq_data q) d = Some (k, pi)"
    and e: "(k, dl, p) \<in> set (tq_entries q)"
  shows "p = ptr pi"
proof -
  obtain i e where m: "(i, dl, e) \<in> set (tq_time q)" and k: "tq_info q e = (k, p)"
    using e by (auto simp: tq_entries_def)
  have "tq_timed q i e" using inv_distinct(2) [OF inv] m by (intro inv_time [OF inv]) simp
  then have "map_of (tq_data q) e \<noteq> None" by (auto simp: tq_timed_def)
  then have "e = d" using inv_key_iff [OF inv d, of e] k by simp
  with k d show ?thesis by (simp add: tq_info_def)
qed

lemma send_unlink_ok:
  assumes "tq_linked q d pi"
  shows "send_unlink pi q = Inr (q\<lparr>tq_send :=
     (if hasSend pi then tq_send q else node_without (the (sendIter pi)) (tq_send q))\<rparr>)"
proof (cases "hasSend pi")
  case False
  then obtain si where "sendIter pi = Some si" "map_of (tq_send q) si = Some d"
    using assms by (auto simp: tq_linked_def)
  with False show ?thesis by (simp add: send_unlink_def)
qed (simp add: send_unlink_def)

lemma drop_entry_ok:
  assumes "TimeoutQueueNew_inv q" and "map_of (tq_data q) d = Some (k, pi)" and "timeIter pi = Some ti"
  shows "drop_entry ti d q = Inr (ptr pi, tq_without d pi q)"
proof -
  obtain dl where "map_of (tq_time q) ti = Some (dl, d)"
    using inv_linked [OF assms(1,2)] assms(3) by (auto simp: tq_linked_def)
  with assms show ?thesis
    by (simp add: drop_entry_def send_unlink_ok [OF inv_linked] tq_without_def)
qed

lemma erase_eq_get: 
  assumes inv: "TimeoutQueueNew_inv q"
  shows "TimeoutQueueNew_erase k t q = TimeoutQueueNew_get k t True q"
    and "TimeoutQueueNew_erase k t q =
      (case data_find k q of None \<Rightarrow> Inr (False, t, q)
       | Some (d, _, pi) \<Rightarrow> Inr (True, ptr pi, tq_without d pi q))"
proof -
  have "TimeoutQueueNew_erase k t q = TimeoutQueueNew_get k t True q \<and>
     TimeoutQueueNew_erase k t q = Inr (True, ptr pi, tq_without d pi q)"
    if f: "data_find k q = Some (d, k', pi)" for d k' pi
  proof -
    have d: "map_of (tq_data q) d = Some (k, pi)" using data_find_Some [OF inv f] by simp
    then have l: "tq_linked q d pi" by (rule inv_linked [OF inv])
    then obtain ti dl where "timeIter pi = Some ti" "map_of (tq_time q) ti = Some (dl, d)"
      by (auto simp: tq_linked_def)
    moreover have "send_unlink pi (q\<lparr>tq_time := ts\<rparr>) =
      bindE (send_unlink pi q) (\<lambda>q'. Inr (q'\<lparr>tq_time := ts\<rparr>))" for ts
      by (cases q) (simp add: send_unlink_def bindE_assoc)
    moreover have "q\<lparr>tq_send := a, tq_time := b, tq_data := c\<rparr> = q\<lparr>tq_data := c, tq_time := b, tq_send := a\<rparr>"
      "q\<lparr>tq_time := b, tq_send := a, tq_data := c\<rparr> = q\<lparr>tq_data := c, tq_time := b, tq_send := a\<rparr>" for a b c
      by (simp_all add: TimeoutQueueNew.equality)
    ultimately show ?thesis using d f send_unlink_ok [OF l]
      by (simp add: TimeoutQueueNew_erase_def TimeoutQueueNew_get_def tq_without_def del: send_unlink_time)
  qed
  then show "TimeoutQueueNew_erase k t q = TimeoutQueueNew_get k t True q"
    "TimeoutQueueNew_erase k t q =
      (case data_find k q of None \<Rightarrow> Inr (False, t, q)
       | Some (d, _, pi) \<Rightarrow> Inr (True, ptr pi, tq_without d pi q))"
    by (auto simp: TimeoutQueueNew_erase_def TimeoutQueueNew_get_def split: option.split)
qed

lemma erase_ok:
  assumes inv: "TimeoutQueueNew_inv q"
  obtains "k \<notin> fst ` set (tq_entries q)" "TimeoutQueueNew_erase k t q = Inr (False, t, q)"
  | p q' dl where "(k, dl, p) \<in> set (tq_entries q)" "TimeoutQueueNew_erase k t q = Inr (True, p, q')"
    "TimeoutQueueNew_inv q'" "tq_entries q' = filter (\<lambda>e. fst e \<noteq> k) (tq_entries q)"
    "tq_pending q' = filter (\<lambda>i. i \<noteq> k) (tq_pending q)"
proof (cases "data_find k q")
  case None
  then show ?thesis using that(1) erase_eq_get(2) [OF inv, of k t] data_find_None [OF inv, of k] by simp
next
  case (Some n)
  then obtain d pi where f: "data_find k q = Some (d, k, pi)" and d: "map_of (tq_data q) d = Some (k, pi)"
    using data_find_Some [OF inv] by (metis prod_cases3)
  have "k \<in> fst ` set (tq_entries q)" using data_find_None [OF inv, of k] f by simp
  then obtain dl p where m: "(k, dl, p) \<in> set (tq_entries q)" by force
  then have "p = ptr pi" by (rule entries_ptr [OF inv d])
  with m show ?thesis
    using that(2) [of dl "ptr pi" "tq_without d pi q"] f erase_eq_get(2) [OF inv, of k t]
      tq_without_inv [OF inv d] tq_without_entries [OF inv d] tq_without_pending [OF inv d] by simp
qed

text \<open>Where an entry goes: behind every entry whose deadline is not later.\<close>

definition entry_insert :: "u32 \<times> int \<times> 'p \<Rightarrow> (u32 \<times> int \<times> 'p) list \<Rightarrow> (u32 \<times> int \<times> 'p) list" where
  "entry_insert e es =
     takeWhile (\<lambda>x. fst (snd x) \<le> fst (snd e)) es @ e # dropWhile (\<lambda>x. fst (snd x) \<le> fst (snd e)) es"

lemma set_multimap_insert [simp]: "set (multimap_insert i kv ns) = insert (i, kv) (set ns)"
  by (induction ns) auto

lemma distinct_multimap_insert:
  "i \<notin> fst ` set ns \<Longrightarrow> distinct (map fst ns) \<Longrightarrow> distinct (map fst (multimap_insert i kv ns))"
  by (induction ns) auto

lemma map_of_multimap_insert:
  "map_of ns i = None \<Longrightarrow> map_of (multimap_insert i kv ns) = (map_of ns)(i \<mapsto> kv)"
  by (induction ns) (auto simp: fun_upd_twist split: if_splits)

lemma sorted_multimap_insert:
  "sorted (map (fst \<circ> snd) ns) \<Longrightarrow> sorted (map (fst \<circ> snd) (multimap_insert i kv ns))"
  by (induction ns) auto

lemma map_multimap_insert:
  assumes "\<And>i k v. fst (snd (g (i, k, v))) = k"
  shows "map g (multimap_insert i (k, v) ns) = entry_insert (g (i, k, v)) (map g ns)"
  using assms by (induction ns) (auto simp: entry_insert_def)

lemma push_found:
  assumes "TimeoutQueueNew_inv q" and "k \<in> fst ` set (tq_entries q)"
  shows "TimeoutQueueNew_push p k dl hs q = (False, q)"
  using assms data_find_None [of q k] by (auto simp: TimeoutQueueNew_push_def split: option.split)

lemma push_fields:
  assumes inv: "TimeoutQueueNew_inv q" and new: "k \<notin> fst ` set (tq_entries q)"
    and q': "TimeoutQueueNew_push p k dl hs q = (ok, q')"
  shows "ok"
    "tq_data q' = (tq_fresh q, k, \<lparr>ptr = p, hasSend = hs, timeIter = Some (tq_fresh q + 1),
         sendIter = (if hs then None else Some (tq_fresh q + 2))\<rparr>) # tq_data q"
    "tq_time q' = multimap_insert (tq_fresh q + 1) (dl, tq_fresh q) (tq_time q)"
    "tq_send q' = (if hs then tq_send q else (tq_fresh q + 2, tq_fresh q) # tq_send q)"
    "tq_fresh q' = tq_fresh q + 3"
  using new data_find_None [OF inv, of k] q'
  by (auto simp: TimeoutQueueNew_push_def Let_def split: option.splits)

lemma push_maps:
  assumes inv: "TimeoutQueueNew_inv q" and new: "k \<notin> fst ` set (tq_entries q)"
    and q': "TimeoutQueueNew_push p k dl hs q = (ok, q')"
  shows "map_of (tq_data q') = (map_of (tq_data q))(tq_fresh q \<mapsto>
       (k, \<lparr>ptr = p, hasSend = hs, timeIter = Some (tq_fresh q + 1),
            sendIter = (if hs then None else Some (tq_fresh q + 2))\<rparr>))"
    "map_of (tq_time q') = (map_of (tq_time q))(tq_fresh q + 1 \<mapsto> (dl, tq_fresh q))"
    "map_of (tq_send q') = (if hs then map_of (tq_send q) else (map_of (tq_send q))(tq_fresh q + 2 \<mapsto> tq_fresh q))"
  using push_fields [OF assms] inv_fresh [OF inv] by (auto simp: map_of_multimap_insert)

lemma inv_dom:
  assumes inv: "TimeoutQueueNew_inv q"
  shows "map_of (tq_time q) ti = Some (dl, d) \<Longrightarrow> d < tq_fresh q"
    "map_of (tq_send q) si = Some d \<Longrightarrow> d < tq_fresh q"
  using inv_time [OF inv, of ti dl d] inv_send [OF inv, of si d] inv_fresh(1) [OF inv, of d]
  by (force simp: tq_timed_def tq_queued_def not_less [symmetric])+

lemma push_inv:
  assumes inv: "TimeoutQueueNew_inv q" and new: "k \<notin> fst ` set (tq_entries q)"
    and q': "TimeoutQueueNew_push p k dl hs q = (ok, q')"
  shows "TimeoutQueueNew_inv q'"
proof -
  note f = push_fields [OF assms] and m = push_maps [OF assms] and fr = inv_fresh [OF inv]
  have notin: "tq_fresh q \<notin> fst ` set (tq_data q)" "Suc (tq_fresh q) \<notin> fst ` set (tq_time q)"
    "Suc (Suc (tq_fresh q)) \<notin> fst ` set (tq_send q)"
    using fr [of "tq_fresh q"] fr [of "Suc (tq_fresh q)"] fr [of "Suc (Suc (tq_fresh q))"]
    by (simp_all add: map_of_eq_None_iff)
  have key: "k \<notin> (fst \<circ> snd) ` set (tq_data q)"
    using new data_find_None [OF inv, of k] by (auto simp: data_find_def find_None_iff)
  have fresh: "\<forall>i \<in> fst ` set (tq_data q) \<union> fst ` set (tq_time q) \<union> fst ` set (tq_send q). i < tq_fresh q"
    using inv by (simp add: TimeoutQueueNew_inv_def)
  show ?thesis
    unfolding TimeoutQueueNew_inv_def
  proof (intro conjI allI impI)
    show "\<forall>i \<in> fst ` set (tq_data q') \<union> fst ` set (tq_time q') \<union> fst ` set (tq_send q'). i < tq_fresh q'"
    proof
      fix i assume "i \<in> fst ` set (tq_data q') \<union> fst ` set (tq_time q') \<union> fst ` set (tq_send q')"
      then have "i \<in> fst ` set (tq_data q) \<union> fst ` set (tq_time q) \<union> fst ` set (tq_send q) \<or>
          i \<in> {tq_fresh q, tq_fresh q + 1, tq_fresh q + 2}"
        by (auto simp: f split: if_splits)
      then have "i < tq_fresh q \<or> i \<in> {tq_fresh q, tq_fresh q + 1, tq_fresh q + 2}"
        using fresh by blast
      then show "i < tq_fresh q'" by (auto simp: f)
    qed
  next
    fix d k' pi assume "map_of (tq_data q') d = Some (k', pi)"
    then consider "d = tq_fresh q" "pi = \<lparr>ptr = p, hasSend = hs, timeIter = Some (tq_fresh q + 1),
            sendIter = (if hs then None else Some (tq_fresh q + 2))\<rparr>"
      | "d \<noteq> tq_fresh q" "map_of (tq_data q) d = Some (k', pi)"
      by (auto simp: m split: if_splits)
    then show "tq_linked q' d pi"
    proof cases
      case 1
      then show ?thesis by (simp add: tq_linked_def m)
    next
      case 2
      have "map_of (tq_time q) i = Some v \<Longrightarrow> map_of (tq_time q') i = Some v"
        "map_of (tq_send q) i = Some w \<Longrightarrow> map_of (tq_send q') i = Some w" for i v w
        using fr [of i] by (auto simp: m)
      with inv_linked [OF inv 2(2)] show ?thesis unfolding tq_linked_def by blast
    qed
  next
    fix ti dl' d assume "map_of (tq_time q') ti = Some (dl', d)"
    then show "tq_timed q' ti d"
      using inv_time [OF inv, of ti dl' d] fr(1) [of "tq_fresh q"]
      by (auto simp: m tq_timed_def split: if_splits)
  next
    fix si d assume "map_of (tq_send q') si = Some d"
    then show "tq_queued q' si d"
      using inv_send [OF inv, of si d] fr(1) [of "tq_fresh q"]
      by (auto simp: m tq_queued_def split: if_splits)
  qed (use inv_distinct [OF inv] notin key in
      \<open>auto simp: f sorted_multimap_insert intro!: distinct_multimap_insert\<close>)
qed

lemma push_abs:
  assumes inv: "TimeoutQueueNew_inv q" and new: "k \<notin> fst ` set (tq_entries q)"
    and q': "TimeoutQueueNew_push p k dl hs q = (ok, q')"
  shows "tq_entries q' = entry_insert (k, dl, p) (tq_entries q)"
    "tq_pending q' = tq_pending q @ (if hs then [] else [k])"
proof -
  note f = push_fields [OF assms] and m = push_maps [OF assms]
  have i: "tq_info q' d = (if d = tq_fresh q then (k, p) else tq_info q d)" for d
    by (simp add: tq_info_def m)
  let ?g = "\<lambda>q (_, dl, d). (fst (tq_info q d), dl, snd (tq_info q d))"
  have "tq_entries q' = entry_insert (k, dl, p) (map (?g q') (tq_time q))"
    using map_multimap_insert [of "?g q'" "tq_fresh q + 1" dl "tq_fresh q" "tq_time q"]
    by (simp add: tq_entries_def f i)
  also have "map (?g q') (tq_time q) = map (?g q) (tq_time q)"
    using inv_dom(1) [OF inv] inv_distinct(2) [OF inv] by (intro map_cong) (force simp: i)+
  finally show "tq_entries q' = entry_insert (k, dl, p) (tq_entries q)" by (simp add: tq_entries_def)
  have "map (\<lambda>(_, d). fst (tq_info q' d)) (tq_send q) = map (\<lambda>(_, d). fst (tq_info q d)) (tq_send q)"
    using inv_dom(2) [OF inv] inv_distinct(3) [OF inv] by (intro map_cong) (force simp: i)+
  then show "tq_pending q' = tq_pending q @ (if hs then [] else [k])"
    by (simp add: tq_pending_def f i)
qed

lemma inv_entries_distinct:
  assumes inv: "TimeoutQueueNew_inv q"
  shows "distinct (map fst (tq_entries q))"
proof -
  have "inj_on (\<lambda>x. fst (tq_info q (snd (snd x)))) (set (tq_time q))"
  proof (rule inj_onI)
    fix x y assume x: "x \<in> set (tq_time q)" and y: "y \<in> set (tq_time q)"
      and e: "fst (tq_info q (snd (snd x))) = fst (tq_info q (snd (snd y)))"
    obtain i dl d j dl' e where xy: "x = (i, dl, d)" "y = (j, dl', e)" by (cases x, cases y) auto
    with x y e have m: "(i, dl, d) \<in> set (tq_time q)" "(j, dl', e) \<in> set (tq_time q)"
      and eq: "fst (tq_info q d) = fst (tq_info q e)" by simp_all
    have m': "map_of (tq_time q) i = Some (dl, d)" "map_of (tq_time q) j = Some (dl', e)"
      using m inv_distinct(2) [OF inv] by simp_all
    obtain k pi where d: "map_of (tq_data q) d = Some (k, pi)" "timeIter pi = Some i"
      using inv_time [OF inv m'(1)] by (auto simp: tq_timed_def)
    obtain k' pi' where e: "map_of (tq_data q) e = Some (k', pi')" "timeIter pi' = Some j"
      using inv_time [OF inv m'(2)] by (auto simp: tq_timed_def)
    from eq d e have "k = k'" by (simp add: tq_info_def)
    with d e have "d = e" using inv_key_unique [OF inv] by blast
    with d e m' show "x = y" by (simp add: xy)
  qed
  moreover have "distinct (tq_time q)" using inv_distinct(2) [OF inv] by (simp add: distinct_map)
  ultimately show ?thesis by (simp add: tq_entries_def distinct_map comp_def split_beta)
qed

lemma inv_entries_sorted: "TimeoutQueueNew_inv q \<Longrightarrow> sorted (map (fst \<circ> snd) (tq_entries q))"
  by (drule inv_distinct(5)) (simp add: tq_entries_def comp_def split_beta)

lemma entries_Nil: "tq_entries q = [] \<longleftrightarrow> tq_time q = []"
  by (simp add: tq_entries_def)

lemma drop_first:
  assumes inv: "TimeoutQueueNew_inv q" and t: "tq_time q = (it, dl, d) # rest"
  obtains k p es q' where "drop_entry it d q = Inr (p, q')" "tq_entries q = (k, dl, p) # es"
    "TimeoutQueueNew_inv q'" "tq_entries q' = es" "tq_pending q' = filter (\<lambda>i. i \<noteq> k) (tq_pending q)"
proof -
  have "map_of (tq_time q) it = Some (dl, d)" by (simp add: t)
  then obtain k pi where d: "map_of (tq_data q) d = Some (k, pi)" "timeIter pi = Some it"
    using inv_time [OF inv, of it dl d] by (auto simp: tq_timed_def)
  define es where "es = tl (tq_entries q)"
  have e: "tq_entries q = (k, dl, ptr pi) # es"
    using d by (simp add: tq_entries_def t tq_info_def es_def)
  then have "k \<notin> fst ` set es" using inv_entries_distinct [OF inv] by simp
  then have "filter (\<lambda>e. fst e \<noteq> k) es = es" by (auto intro: filter_True)
  with e tq_without_entries [OF inv d(1)] have "tq_entries (tq_without d pi q) = es" by simp
  then show ?thesis
    using that [OF drop_entry_ok [OF inv d] e tq_without_inv [OF inv d(1)]]
      tq_without_pending [OF inv d(1)] by blast
qed

text \<open>The entries dropped when the clock is read before each.\<close>

fun expired :: "(nat \<Rightarrow> int) \<Rightarrow> nat \<Rightarrow> ('k \<times> int \<times> 'p) list \<Rightarrow> ('k \<times> int \<times> 'p) list" where
  "expired clock i [] = []"
| "expired clock i (e # es) =
     (if clock i < fst (snd e) then [] else e # expired clock (Suc i) es)"

lemma expired_const: "expired (\<lambda>_. now) i es = takeWhile (\<lambda>e. fst (snd e) \<le> now) es"
  by (induction es arbitrary: i) auto

lemma expired_take: "take (length (expired clock i es)) es = expired clock i es"
  by (induction clock i es rule: expired.induct) auto

lemma timeout_func_ok:
  assumes "TimeoutQueueNew_inv q"
  shows "\<exists>q'. TimeoutQueueNew_timeout_func clock i q = Inr (map (snd \<circ> snd) (expired clock i (tq_entries q)), q') \<and>
     TimeoutQueueNew_inv q' \<and> tq_entries q = expired clock i (tq_entries q) @ tq_entries q' \<and>
     tq_pending q' = filter (\<lambda>k. k \<notin> fst ` set (expired clock i (tq_entries q))) (tq_pending q)"
  using assms
proof (induction clock i q rule: TimeoutQueueNew_timeout_func.induct)
  case (1 clock i q)
  show ?case
  proof (cases "tq_time q")
    case Nil
    with 1(2) show ?thesis by (simp add: TimeoutQueueNew_timeout_func.simps [of clock i q] tq_entries_def)
  next
    case (Cons n rest)
    then obtain it dl d where t: "tq_time q = (it, dl, d) # rest" by (cases n) auto
    obtain k p es q1 where dr: "drop_entry it d q = Inr (p, q1)" and e: "tq_entries q = (k, dl, p) # es"
      and q1: "TimeoutQueueNew_inv q1" "tq_entries q1 = es"
        "tq_pending q1 = filter (\<lambda>i. i \<noteq> k) (tq_pending q)"
      by (rule drop_first [OF 1(2) t])
    show ?thesis
    proof (cases "clock i < dl")
      case True
      with t e 1(2) show ?thesis by (simp add: TimeoutQueueNew_timeout_func.simps [of clock i q])
    next
      case False
      from 1(1) [OF t refl refl False dr refl q1(1)] obtain q2 where
        "TimeoutQueueNew_timeout_func clock (Suc i) q1 = Inr (map (snd \<circ> snd) (expired clock (Suc i) es), q2)"
        "TimeoutQueueNew_inv q2" "es = expired clock (Suc i) es @ tq_entries q2"
        "tq_pending q2 = filter (\<lambda>k. k \<notin> fst ` set (expired clock (Suc i) es)) (tq_pending q1)"
        by (auto simp: q1(2))
      with t e dr q1 False show ?thesis
        by (auto simp: TimeoutQueueNew_timeout_func.simps [of clock i q] intro!: filter_cong)
    qed
  qed
qed

lemma timeout_eq_func:
  "TimeoutQueueNew_timeout now q =
   bindE (TimeoutQueueNew_timeout_func (\<lambda>_. now) i q) (\<lambda>(_, q'). Inr q')"
proof (induction now q arbitrary: i rule: TimeoutQueueNew_timeout.induct)
  case (1 now q)
  show ?case
  proof (cases "tq_time q")
    case Nil
    then show ?thesis by (simp add: TimeoutQueueNew_timeout.simps [of now q] TimeoutQueueNew_timeout_func.simps [of _ i q])
  next
    case (Cons n rest)
    then obtain it dl d where t: "tq_time q = (it, dl, d) # rest" by (cases n) auto
    show ?thesis
    proof (cases "now < dl \<or> (\<exists>e. drop_entry it d q = Inl e)")
      case True
      with t show ?thesis
        by (auto simp: TimeoutQueueNew_timeout.simps [of now q] TimeoutQueueNew_timeout_func.simps [of _ i q])
    next
      case False
      then obtain p q1 where dr: "drop_entry it d q = Inr (p, q1)" by (cases "drop_entry it d q") auto
      then show ?thesis
        using 1 [OF t refl refl _ dr refl, of "Suc i"] False t
        by (auto simp: TimeoutQueueNew_timeout.simps [of now q] TimeoutQueueNew_timeout_func.simps [of _ i q]
            bindE_assoc intro!: bindE_cong split: prod.split)
    qed
  qed
qed

lemma timeout_one_ok:
  assumes inv: "TimeoutQueueNew_inv q"
  shows "case tq_entries q of
      [] \<Rightarrow> TimeoutQueueNew_timeout_one now t q = Inr (False, t, q)
    | (k, dl, p) # es \<Rightarrow>
        if now < dl then TimeoutQueueNew_timeout_one now t q = Inr (False, t, q)
        else \<exists>q'. TimeoutQueueNew_timeout_one now t q = Inr (True, p, q') \<and> TimeoutQueueNew_inv q' \<and>
          tq_entries q' = es \<and> tq_pending q' = filter (\<lambda>i. i \<noteq> k) (tq_pending q)"
proof (cases "tq_time q")
  case Nil
  then show ?thesis by (simp add: TimeoutQueueNew_timeout_one_def tq_entries_def)
next
  case (Cons n rest)
  then obtain it dl d where t: "tq_time q = (it, dl, d) # rest" by (cases n) auto
  show ?thesis
    by (rule drop_first [OF inv t]) (auto simp: TimeoutQueueNew_timeout_one_def t)
qed

lemma pending_Nil: "tq_pending q = [] \<longleftrightarrow> tq_send q = []"
  by (simp add: tq_pending_def)

lemma node_without_last:
  "distinct (map fst ns) \<Longrightarrow> ns \<noteq> [] \<Longrightarrow> node_without (fst (last ns)) ns = butlast ns"
  by (induction ns rule: rev_induct) (force simp: node_without_def intro!: filter_True)+

lemma node_without_put [simp]: "node_without d (node_put d v ns) = node_without d ns"
  by (induction ns) (auto simp: node_without_def node_put_def)

lemma keys_node_put:
  "map_of ns d = Some (k, v) \<Longrightarrow> distinct (map fst ns) \<Longrightarrow>
   map (fst \<circ> snd) (node_put d (k, v') ns) = map (fst \<circ> snd) ns"
  by (induction ns) (force simp: node_put_def)+

lemma oldest_pending:
  assumes inv: "TimeoutQueueNew_inv q" and ne: "tq_send q \<noteq> []"
  obtains si d k pi where "last (tq_send q) = (si, d)" "map_of (tq_data q) d = Some (k, pi)"
    "\<not> hasSend pi" "sendIter pi = Some si" "hd (tq_pending q) = k"
    "butlast (tq_send q) = node_without si (tq_send q)"
proof -
  obtain si d where l: "last (tq_send q) = (si, d)" by force
  have "(si, d) \<in> set (tq_send q)" using last_in_set [OF ne] l by simp
  then have "map_of (tq_send q) si = Some d" using inv_distinct(3) [OF inv] by simp
  then obtain k pi where d: "map_of (tq_data q) d = Some (k, pi)" "\<not> hasSend pi" "sendIter pi = Some si"
    using inv_send [OF inv, of si d] by (auto simp: tq_queued_def)
  moreover have "hd (tq_pending q) = k"
    using ne l d(1) by (simp add: tq_pending_def hd_rev last_map tq_info_def)
  ultimately show ?thesis
    using that l node_without_last [OF inv_distinct(3) [OF inv] ne] by simp
qed

lemma butlast_pending: "tq_pending (q\<lparr>tq_send := butlast (tq_send q)\<rparr>) = tl (tq_pending q)"
  by (cases "tq_send q" rule: rev_cases) (simp_all add: tq_pending_def tq_info_def)

lemma popSend_del_ok:
  assumes inv: "TimeoutQueueNew_inv q" and p: "tq_pending q = k # ks"
  shows "\<exists>q'. TimeoutQueueNew_popSend True q = Inr q' \<and> TimeoutQueueNew_inv q' \<and>
     tq_entries q' = filter (\<lambda>e. fst e \<noteq> k) (tq_entries q) \<and>
     tq_pending q' = filter (\<lambda>i. i \<noteq> k) (tq_pending q)"
proof -
  have ne: "tq_send q \<noteq> []" using p by (auto simp: tq_pending_def)
  obtain si d pi where l: "last (tq_send q) = (si, d)" and d: "map_of (tq_data q) d = Some (k, pi)"
    "\<not> hasSend pi" "sendIter pi = Some si" and b: "butlast (tq_send q) = node_without si (tq_send q)"
    using oldest_pending [OF inv ne] p by (metis list.sel(1))
  obtain ti dl where t: "timeIter pi = Some ti" "map_of (tq_time q) ti = Some (dl, d)"
    using inv_linked [OF inv d(1)] by (auto simp: tq_linked_def)
  have "TimeoutQueueNew_popSend True q = Inr (tq_without d pi q)"
    using ne l d t b by (simp add: TimeoutQueueNew_popSend_def tq_without_def node_erase_def Let_def)
  with tq_without_inv [OF inv d(1)] tq_without_entries [OF inv d(1)] tq_without_pending [OF inv d(1)]
  show ?thesis by simp
qed

lemma popSend_keep_ok:
  assumes inv: "TimeoutQueueNew_inv q" and p: "tq_pending q = k # ks"
  shows "\<exists>q'. TimeoutQueueNew_popSend False q = Inr q' \<and> TimeoutQueueNew_inv q' \<and>
     tq_entries q' = tq_entries q \<and> tq_pending q' = ks"
proof -
  have ne: "tq_send q \<noteq> []" using p by (auto simp: tq_pending_def)
  obtain si d pi where l: "last (tq_send q) = (si, d)" and d: "map_of (tq_data q) d = Some (k, pi)"
    "\<not> hasSend pi" "sendIter pi = Some si" and b: "butlast (tq_send q) = node_without si (tq_send q)"
    using oldest_pending [OF inv ne] p by (metis list.sel(1))
  define q' where "q' = q\<lparr>tq_data := node_put d (k, pi\<lparr>hasSend := True\<rparr>) (tq_data q),
    tq_send := node_without si (tq_send q)\<rparr>"
  have r: "TimeoutQueueNew_popSend False q = Inr q'"
    using ne l d b by (simp add: TimeoutQueueNew_popSend_def q'_def Let_def)
  have D: "map_of (tq_data q') e = (if e = d then Some (k, pi\<lparr>hasSend := True\<rparr>) else map_of (tq_data q) e)" for e
    using d by (simp add: q'_def)
  have S: "map_of (tq_send q') = (map_of (tq_send q))(si := None)" and T: "tq_time q' = tq_time q"
    by (simp_all add: q'_def)
  have i: "tq_info q' e = tq_info q e" for e using d(1) by (simp add: tq_info_def D)
  have "TimeoutQueueNew_inv q'"
    unfolding TimeoutQueueNew_inv_def
  proof (intro conjI allI impI)
    show "\<forall>i \<in> fst ` set (tq_data q') \<union> fst ` set (tq_time q') \<union> fst ` set (tq_send q'). i < tq_fresh q'"
    proof
      fix i assume "i \<in> fst ` set (tq_data q') \<union> fst ` set (tq_time q') \<union> fst ` set (tq_send q')"
      moreover have "fst ` set (tq_data q') = fst ` set (tq_data q)"
        unfolding set_map [symmetric] by (simp add: q'_def)
      moreover have "fst ` set (tq_send q') \<subseteq> fst ` set (tq_send q)"
        by (simp add: q'_def fst_set_without)
      ultimately have "i \<in> fst ` set (tq_data q) \<union> fst ` set (tq_time q) \<union> fst ` set (tq_send q)"
        using T by auto
      then show "i < tq_fresh q'" using inv by (simp add: TimeoutQueueNew_inv_def q'_def)
    qed
  next
    fix e k' qi assume e: "map_of (tq_data q') e = Some (k', qi)"
    show "tq_linked q' e qi"
    proof (cases "e = d")
      case True
      then show ?thesis using e inv_linked [OF inv d(1)] by (auto simp: D T tq_linked_def)
    next
      case False
      then have l: "tq_linked q e qi" using e D inv_linked [OF inv] by simp
      have "map_of (tq_send q) sj = Some e \<Longrightarrow> sj \<noteq> si" for sj
        using inv_linked [OF inv d(1)] d False by (auto simp: tq_linked_def)
      then have "map_of (tq_send q) sj = Some e \<Longrightarrow> map_of (tq_send q') sj = Some e" for sj
        by (simp add: S)
      with l show ?thesis unfolding tq_linked_def T by blast
    qed
  next
    fix ti dl e assume "map_of (tq_time q') ti = Some (dl, e)"
    then show "tq_timed q' ti e" using inv_time [OF inv, of ti dl e] d(1) by (auto simp: T D tq_timed_def)
  next
    fix sj e assume "map_of (tq_send q') sj = Some e"
    then have "map_of (tq_send q) sj = Some e" "sj \<noteq> si" by (auto simp: S split: if_splits)
    then show "tq_queued q' sj e" using inv_send [OF inv, of sj e] d by (auto simp: D tq_queued_def)
  qed (use inv_distinct [OF inv] d in \<open>auto simp: q'_def keys_node_put\<close>)
  moreover have "tq_entries q' = tq_entries q" by (simp add: tq_entries_def T i)
  moreover have "tq_pending q' = ks"
    using butlast_pending [of q] p by (simp add: tq_pending_def i) (simp add: q'_def b tq_info_def)
  ultimately show ?thesis using r by blast
qed

section \<open>The table as an interface\<close>

text \<open>
  What the proxy relies on: entries under distinct keys, in order of their deadlines; \<open>put\<close> under
  a key in use is refused, \<open>remove\<close> takes out the entry of a key, \<open>expire\<close> the entries whose
  deadline has passed, in order. No operation fails.
\<close>

datatype ('k, 'p) table_op = TPut 'k int 'p bool | TRemove 'k | TExpire "nat \<Rightarrow> int"

text \<open>A run of operations: the elements accepted, the elements that left, the table.\<close>

fun table_run ::
    "('p \<Rightarrow> 'k \<Rightarrow> int \<Rightarrow> bool \<Rightarrow> 's \<Rightarrow> bool \<times> 's) \<Rightarrow> ('k \<Rightarrow> 's \<Rightarrow> ('p option \<times> 's) result) \<Rightarrow>
     ((nat \<Rightarrow> int) \<Rightarrow> 's \<Rightarrow> ('p list \<times> 's) result) \<Rightarrow> ('k, 'p) table_op list \<Rightarrow> 's \<Rightarrow>
     ('p list \<times> 'p list \<times> 's) result" where
  "table_run put remove expire [] s = Inr ([], [], s)"
| "table_run put remove expire (TPut k dl p hs # ops) s =
     (let (b, s1) = put p k dl hs s in
      bindE (table_run put remove expire ops s1) (\<lambda>(acc, out, s2).
      Inr (if b then p # acc else acc, out, s2)))"
| "table_run put remove expire (TRemove k # ops) s =
     bindE (remove k s) (\<lambda>(r, s1).
     bindE (table_run put remove expire ops s1) (\<lambda>(acc, out, s2).
     Inr (acc, (case r of None \<Rightarrow> out | Some p \<Rightarrow> p # out), s2)))"
| "table_run put remove expire (TExpire clock # ops) s =
     bindE (expire clock s) (\<lambda>(ps, s1).
     bindE (table_run put remove expire ops s1) (\<lambda>(acc, out, s2).
     Inr (acc, ps @ out, s2)))"

locale deadline_table =
  fixes invar :: "'s \<Rightarrow> bool"
    and entries :: "'s \<Rightarrow> (u32 \<times> int \<times> 'p) list"
    and put :: "'p \<Rightarrow> u32 \<Rightarrow> int \<Rightarrow> bool \<Rightarrow> 's \<Rightarrow> bool \<times> 's"
    and remove :: "u32 \<Rightarrow> 's \<Rightarrow> ('p option \<times> 's) result"
    and expire :: "(nat \<Rightarrow> int) \<Rightarrow> 's \<Rightarrow> ('p list \<times> 's) result"
  assumes keys_law: "invar s \<Longrightarrow> distinct (map fst (entries s)) \<and> sorted (map (fst \<circ> snd) (entries s))"
    and put_law: "invar s \<Longrightarrow> put p k dl hs s = (b, s') \<Longrightarrow>
      invar s' \<and> (if k \<in> fst ` set (entries s) then \<not> b \<and> s' = s
                  else b \<and> entries s' = entry_insert (k, dl, p) (entries s))"
    and remove_law: "invar s \<Longrightarrow> \<exists>r s'. remove k s = Inr (r, s') \<and> invar s' \<and>
      r = map_option snd (map_of (entries s) k) \<and> entries s' = filter (\<lambda>e. fst e \<noteq> k) (entries s)"
    and expire_law: "invar s \<Longrightarrow> \<exists>s'. expire clock s =
        Inr (map (snd \<circ> snd) (expired clock 0 (entries s)), s') \<and> invar s' \<and>
      entries s = expired clock 0 (entries s) @ entries s'"
begin

abbreviation elems :: "'s \<Rightarrow> 'p multiset" where
  "elems s \<equiv> mset (map (snd \<circ> snd) (entries s))"

lemma elems_insert: "mset (map (snd \<circ> snd) (entry_insert (k, dl, p) es)) = add_mset p (mset (map (snd \<circ> snd) es))"
proof -
  have "mset (entry_insert (k, dl, p) es) = add_mset (k, dl, p) (mset es)"
    using mset_append [of "takeWhile (\<lambda>x. fst (snd x) \<le> dl) es" "dropWhile (\<lambda>x. fst (snd x) \<le> dl) es"]
    by (simp add: entry_insert_def)
  then show ?thesis by simp
qed

lemma elems_remove:
  "distinct (map fst es) \<Longrightarrow>
   mset (map (snd \<circ> snd) es) =
     (case map_option snd (map_of es k) of None \<Rightarrow> {#} | Some p \<Rightarrow> {#p#}) +
     mset (map (snd \<circ> snd) (filter (\<lambda>e. fst e \<noteq> k) es))"
proof (induction es)
  case (Cons e es)
  show ?case
  proof (cases "fst e = k")
    case True
    then have "filter (\<lambda>e. fst e \<noteq> k) es = es" using Cons.prems by (intro filter_True) (auto simp: image_iff)
    with True show ?thesis by (cases e) simp
  next
    case False
    with Cons show ?thesis by (cases e) simp
  qed
qed simp

lemma account_step:
  fixes A :: "'p multiset"
  shows "A + E1 = R + E2 \<Longrightarrow> E = X + E1 \<Longrightarrow> A + E = (X + R) + E2"
  by (simp add: ac_simps)

text \<open>Every element accepted leaves exactly once, by \<open>remove\<close> or by \<open>expire\<close>, or is still there.\<close>

lemma run_accounts:
  "invar s \<Longrightarrow> \<exists>acc out s'. table_run put remove expire ops s = Inr (acc, out, s') \<and> invar s' \<and>
     mset acc + elems s = mset out + elems s'"
proof (induction ops arbitrary: s)
  case Nil
  then show ?case by simp
next
  case (Cons op ops)
  show ?case
  proof (cases op)
    case (TPut k dl p hs)
    obtain b s1 where p: "put p k dl hs s = (b, s1)" by (cases "put p k dl hs s")
    note law = put_law [OF Cons.prems p]
    obtain acc out s2 where r: "table_run put remove expire ops s1 = Inr (acc, out, s2)" "invar s2"
      "mset acc + elems s1 = mset out + elems s2" using Cons.IH [of s1] law by blast
    have "elems s1 = (if b then add_mset p (elems s) else elems s)"
      using law elems_insert [of k dl p "entries s"] by (auto split: if_splits)
    with r(3) have "mset (if b then p # acc else acc) + elems s = mset out + elems s2" by (cases b) simp_all
    moreover have "table_run put remove expire (op # ops) s = Inr (if b then p # acc else acc, out, s2)"
      using TPut p r(1) by simp
    ultimately show ?thesis using r(2) by blast
  next
    case (TRemove k)
    obtain x s1 where p: "remove k s = Inr (x, s1)" "invar s1" "x = map_option snd (map_of (entries s) k)"
      "entries s1 = filter (\<lambda>e. fst e \<noteq> k) (entries s)" using remove_law [OF Cons.prems] by blast
    obtain acc out s2 where r: "table_run put remove expire ops s1 = Inr (acc, out, s2)" "invar s2"
      "mset acc + elems s1 = mset out + elems s2" using Cons.IH [OF p(2)] by blast
    have "elems s = (case x of None \<Rightarrow> {#} | Some p \<Rightarrow> {#p#}) + elems s1"
      using elems_remove [of "entries s" k] keys_law [OF Cons.prems] p(3,4) by simp
    from account_step [OF r(3) this]
    have "mset acc + elems s = mset (case x of None \<Rightarrow> out | Some p \<Rightarrow> p # out) + elems s2"
      by (simp split: option.splits)
    moreover have "table_run put remove expire (op # ops) s =
        Inr (acc, (case x of None \<Rightarrow> out | Some p \<Rightarrow> p # out), s2)"
      using TRemove p(1) r(1) by simp
    ultimately show ?thesis using r(2) by blast
  next
    case (TExpire clock)
    obtain s1 where p: "expire clock s = Inr (map (snd \<circ> snd) (expired clock 0 (entries s)), s1)" "invar s1"
      "entries s = expired clock 0 (entries s) @ entries s1" using expire_law [OF Cons.prems] by blast
    obtain acc out s2 where r: "table_run put remove expire ops s1 = Inr (acc, out, s2)" "invar s2"
      "mset acc + elems s1 = mset out + elems s2" using Cons.IH [OF p(2)] by blast
    have "elems s = mset (map (snd \<circ> snd) (expired clock 0 (entries s))) + elems s1"
      by (subst p(3)) simp
    from account_step [OF r(3) this]
    have "mset acc + elems s = mset (map (snd \<circ> snd) (expired clock 0 (entries s)) @ out) + elems s2"
      by simp
    moreover have "table_run put remove expire (op # ops) s =
        Inr (acc, map (snd \<circ> snd) (expired clock 0 (entries s)) @ out, s2)"
      using TExpire p(1) r(1) by simp
    ultimately show ?thesis using r(2) by blast
  qed
qed

lemma remove_after_put:
  assumes "invar s" and "k \<notin> fst ` set (entries s)" and "put p k dl hs s = (b, s')"
  shows "\<exists>s''. remove k s' = Inr (Some p, s'') \<and> entries s'' = entries s"
proof -
  from put_law [OF assms(1,3)] assms(2) have i: "invar s'" and
    e: "entries s' = entry_insert (k, dl, p) (entries s)" by auto
  have n: "k \<notin> fst ` set xs" "k \<notin> fst ` set ys" "filter (\<lambda>e. fst e \<noteq> k) xs = xs" "filter (\<lambda>e. fst e \<noteq> k) ys = ys"
    if "entries s = xs @ ys" for xs ys
    using assms(2) that by (force intro!: filter_True)+
  let ?xs = "takeWhile (\<lambda>x. fst (snd x) \<le> dl) (entries s)"
  let ?ys = "dropWhile (\<lambda>x. fst (snd x) \<le> dl) (entries s)"
  have "map_of (?xs @ (k, dl, p) # ?ys) k = Some (dl, p)"
    using n(1) [of ?xs ?ys] by (simp add: map_of_eq_None_iff [symmetric] map_add_def)
  moreover have "filter (\<lambda>e. fst e \<noteq> k) (?xs @ (k, dl, p) # ?ys) = entries s"
    using n(3,4) [of ?xs ?ys] by simp
  ultimately show ?thesis using remove_law [OF i, of k] by (auto simp: e entry_insert_def)
qed

end

text \<open>The calls as the proxy makes them: a response takes its request out with \<open>erase\<close>, the timer
  hands the expired ones over.\<close>

definition TimeoutQueueNew_take ::
    "u32 \<Rightarrow> 'p TimeoutQueueNew \<Rightarrow> ('p option option \<times> 'p TimeoutQueueNew) result" where
  "TimeoutQueueNew_take k q =
     bindE (TimeoutQueueNew_erase k None q) (\<lambda>(found, p, q'). Inr (if found then Some p else None, q'))"

definition TimeoutQueueNew_expire ::
    "(nat \<Rightarrow> int) \<Rightarrow> 'p TimeoutQueueNew \<Rightarrow> ('p option list \<times> 'p TimeoutQueueNew) result" where
  "TimeoutQueueNew_expire clock q = TimeoutQueueNew_timeout_func clock 0 q"

lemma filter_absent: "k \<notin> fst ` set es \<Longrightarrow> filter (\<lambda>e. fst e \<noteq> k) es = es"
  by (force intro: filter_True)

interpretation tqueue: deadline_table TimeoutQueueNew_inv tq_entries TimeoutQueueNew_push
  TimeoutQueueNew_take TimeoutQueueNew_expire
proof unfold_locales
  fix s :: "'p TimeoutQueueNew" assume inv: "TimeoutQueueNew_inv s"
  then show "distinct (map fst (tq_entries s)) \<and> sorted (map (fst \<circ> snd) (tq_entries s))"
    by (simp add: inv_entries_distinct inv_entries_sorted)
  show "\<exists>s'. TimeoutQueueNew_expire clock s =
        Inr (map (snd \<circ> snd) (expired clock 0 (tq_entries s)), s') \<and> TimeoutQueueNew_inv s' \<and>
      tq_entries s = expired clock 0 (tq_entries s) @ tq_entries s'" for clock
    using timeout_func_ok [OF inv, of clock 0] by (auto simp: TimeoutQueueNew_expire_def)
  show "\<exists>r s'. TimeoutQueueNew_take k s = Inr (r, s') \<and> TimeoutQueueNew_inv s' \<and>
      r = map_option snd (map_of (tq_entries s) k) \<and>
      tq_entries s' = filter (\<lambda>e. fst e \<noteq> k) (tq_entries s)" for k
  proof (rule erase_ok [OF inv, of k None])
    assume "k \<notin> fst ` set (tq_entries s)" "TimeoutQueueNew_erase k None s = Inr (False, None, s)"
    then show ?thesis
      using inv by (simp add: TimeoutQueueNew_take_def map_of_eq_None_iff [THEN iffD2] filter_absent)
  next
    fix p q' dl
    assume "(k, dl, p) \<in> set (tq_entries s)" "TimeoutQueueNew_erase k None s = Inr (True, p, q')"
      "TimeoutQueueNew_inv q'" "tq_entries q' = filter (\<lambda>e. fst e \<noteq> k) (tq_entries s)"
    then show ?thesis using inv_entries_distinct [OF inv] by (simp add: TimeoutQueueNew_take_def)
  qed
next
  fix s :: "'p TimeoutQueueNew" and p k dl hs b s'
  assume inv: "TimeoutQueueNew_inv s" and r: "TimeoutQueueNew_push p k dl hs s = (b, s')"
  show "TimeoutQueueNew_inv s' \<and> (if k \<in> fst ` set (tq_entries s) then \<not> b \<and> s' = s
        else b \<and> tq_entries s' = entry_insert (k, dl, p) (tq_entries s))"
    using push_found [OF inv, of k p dl hs] push_inv [OF inv _ r] push_fields(1) [OF inv _ r]
      push_abs(1) [OF inv _ r] inv r by auto
qed

lemma push_inv_any [simp]:
  "TimeoutQueueNew_inv q \<Longrightarrow> TimeoutQueueNew_inv (snd (TimeoutQueueNew_push p k dl hs q))"
  using tqueue.put_law [of q p k dl hs] by (metis prod.collapse)

lemma popSend_empty: "tq_pending q = [] \<Longrightarrow> TimeoutQueueNew_popSend del q = Inl AssertFailed"
  by (simp add: pending_Nil TimeoutQueueNew_popSend_def)

lemma inv_pending_distinct:
  assumes inv: "TimeoutQueueNew_inv q"
  shows "distinct (tq_pending q)"
proof -
  have "inj_on (\<lambda>x. fst (tq_info q (snd x))) (set (tq_send q))"
  proof (rule inj_onI)
    fix x y assume x: "x \<in> set (tq_send q)" and y: "y \<in> set (tq_send q)"
      and eq: "fst (tq_info q (snd x)) = fst (tq_info q (snd y))"
    have m: "map_of (tq_send q) (fst x) = Some (snd x)" "map_of (tq_send q) (fst y) = Some (snd y)"
      using x y inv_distinct(3) [OF inv] by simp_all
    obtain k pi where d: "map_of (tq_data q) (snd x) = Some (k, pi)" "sendIter pi = Some (fst x)"
      using inv_send [OF inv m(1)] by (auto simp: tq_queued_def)
    obtain k' pi' where e: "map_of (tq_data q) (snd y) = Some (k', pi')" "sendIter pi' = Some (fst y)"
      using inv_send [OF inv m(2)] by (auto simp: tq_queued_def)
    from eq d e have "k = k'" by (simp add: tq_info_def)
    with d e have "snd x = snd y" using inv_key_unique [OF inv] by blast
    with d e show "x = y" by (simp add: prod_eq_iff)
  qed
  moreover have "distinct (tq_send q)" using inv_distinct(3) [OF inv] by (simp add: distinct_map)
  ultimately show ?thesis by (simp add: tq_pending_def distinct_map split_beta')
qed

lemma erase_after_push:
  assumes inv: "TimeoutQueueNew_inv q" and new: "k \<notin> fst ` set (tq_entries q)"
    and r: "TimeoutQueueNew_push p k dl hs q = (ok, q1)"
  shows "\<exists>q2. TimeoutQueueNew_erase k t q1 = Inr (True, p, q2) \<and> TimeoutQueueNew_inv q2 \<and>
    tq_entries q2 = tq_entries q \<and> tq_pending q2 = tq_pending q"
proof -
  have inv1: "TimeoutQueueNew_inv q1" and e1: "tq_entries q1 = entry_insert (k, dl, p) (tq_entries q)"
    and p1: "tq_pending q1 = tq_pending q @ (if hs then [] else [k])"
    using push_inv [OF inv new r] push_abs [OF inv new r] by auto
  have pend: "k \<notin> set (tq_pending q)"
  proof
    assume "k \<in> set (tq_pending q)"
    then obtain i d where m: "(i, d) \<in> set (tq_send q)" "fst (tq_info q d) = k"
      by (auto simp: tq_pending_def)
    then obtain k' pi where d: "map_of (tq_data q) d = Some (k', pi)"
      using inv_send [OF inv, of i d] inv_distinct(3) [OF inv] by (auto simp: tq_queued_def)
    with m have "(d, k, pi) \<in> set (tq_data q)" by (auto simp: tq_info_def dest: map_of_SomeD)
    moreover have "data_find k q = None" using data_find_None [OF inv, of k] new by simp
    ultimately show False by (auto simp: data_find_def find_None_iff)
  qed
  obtain q2 where q2: "TimeoutQueueNew_take k q1 = Inr (Some p, q2)" "tq_entries q2 = tq_entries q"
    using tqueue.remove_after_put [OF inv new r] by blast
  show ?thesis
  proof (rule erase_ok [OF inv1, of k t])
    assume "k \<notin> fst ` set (tq_entries q1)"
    then show ?thesis by (simp add: e1 entry_insert_def)
  next
    fix p' q' dl'
    assume "TimeoutQueueNew_erase k t q1 = Inr (True, p', q')" "TimeoutQueueNew_inv q'"
      "tq_pending q' = filter (\<lambda>i. i \<noteq> k) (tq_pending q1)"
    then show ?thesis using q2 pend
      by (auto simp: TimeoutQueueNew_take_def TimeoutQueueNew_erase_def p1 intro!: filter_True
          split: option.splits)
  qed
qed

lemma erase_entry:
  assumes inv: "TimeoutQueueNew_inv q" and e: "(k, dl, p) \<in> set (tq_entries q)"
  shows "\<exists>q'. TimeoutQueueNew_erase k t q = Inr (True, p, q') \<and> TimeoutQueueNew_inv q' \<and>
    tq_entries q' = filter (\<lambda>e. fst e \<noteq> k) (tq_entries q)"
proof (rule erase_ok [OF inv, of k t])
  assume "k \<notin> fst ` set (tq_entries q)"
  then show ?thesis using e by force
next
  fix p' q' dl'
  assume a: "(k, dl', p') \<in> set (tq_entries q)" "TimeoutQueueNew_erase k t q = Inr (True, p', q')" "TimeoutQueueNew_inv q'"
    "tq_entries q' = filter (\<lambda>e. fst e \<noteq> k) (tq_entries q)"
  have "(dl', p') = (dl, p)"
    using map_of_is_SomeI [OF inv_entries_distinct [OF inv] a(1)] map_of_is_SomeI [OF inv_entries_distinct [OF inv] e] by simp
  then show ?thesis using a by simp
qed

lemma erase_unknown:
  assumes inv: "TimeoutQueueNew_inv q" and "k \<notin> fst ` set (tq_entries q)"
  shows "TimeoutQueueNew_erase k t q = Inr (False, t, q)"
  using data_find_None [OF inv, of k] assms(2) by (simp add: TimeoutQueueNew_erase_def)

lemma getSend_fails:
  assumes inv: "TimeoutQueueNew_inv q" and ne: "tq_pending q \<noteq> []"
    and null: "None \<notin> snd ` snd ` set (tq_entries q)"
  shows "TimeoutQueueNew_getSend t q = Inl AssertFailed"
proof -
  have "tq_send q \<noteq> []" using ne by (simp add: pending_Nil)
  then obtain si d k pi where l: "last (tq_send q) = (si, d)" and d: "map_of (tq_data q) d = Some (k, pi)"
    by (rule oldest_pending [OF inv])
  obtain ti dl where "map_of (tq_time q) ti = Some (dl, d)"
    using inv_linked [OF inv d] by (auto simp: tq_linked_def)
  then have "(ti, dl, d) \<in> set (tq_time q)" by (rule map_of_SomeD)
  then have "(k, dl, ptr pi) \<in> set (tq_entries q)" using d by (force simp: tq_entries_def tq_info_def)
  then have "ptr pi \<in> snd ` snd ` set (tq_entries q)" by (intro image_eqI [of _ snd "(dl, ptr pi)"] image_eqI) auto
  with null have "ptr pi \<noteq> None" by metis
  with l d \<open>tq_send q \<noteq> []\<close> show ?thesis by (auto simp: TimeoutQueueNew_getSend_def)
qed

section \<open>Properties\<close>


text \<open>C33. \<open>timeout(func)\<close> hands over exactly the entries whose deadline is not after the clock
  reading taken for them, the earliest deadline first and equal deadlines in order of arrival,
  stops at the first entry still alive, and takes the expired ones off the send list as well.\<close>

theorem TimeoutQueue_fires_in_order:
  assumes "TimeoutQueueNew_inv q"
  shows "\<exists>q'. TimeoutQueueNew_timeout_func clock 0 q =
        Inr (map (snd \<circ> snd) (expired clock 0 (tq_entries q)), q') \<and>
     tq_entries q = expired clock 0 (tq_entries q) @ tq_entries q' \<and>
     sorted (map (fst \<circ> snd) (tq_entries q)) \<and>
     tq_pending q' = filter (\<lambda>k. k \<notin> fst ` set (expired clock 0 (tq_entries q))) (tq_pending q)"
  using timeout_func_ok [OF assms, of clock 0] inv_entries_sorted [OF assms] by blast

theorem TimeoutQueue_fires_in_order_witness:
  "\<exists>q'. TimeoutQueueNew_timeout_func (\<lambda>_. 20) 0
      (snd (TimeoutQueueNew_push (Some ''b'') 2 20 False
        (snd (TimeoutQueueNew_push (Some ''c'') 3 30 True
          (snd (TimeoutQueueNew_push (Some ''a'') 1 10 True TimeoutQueueNew_new)))))) =
      Inr ([Some ''a'', Some ''b''], q') \<and> tq_pending q' = []"
proof -
  define q where "q = snd (TimeoutQueueNew_push (Some ''b'') 2 20 False
        (snd (TimeoutQueueNew_push (Some ''c'') 3 30 True
          (snd (TimeoutQueueNew_push (Some ''a'') 1 10 True TimeoutQueueNew_new)))))"
  have "TimeoutQueueNew_inv q" by (simp add: q_def)
  moreover have "tq_entries q = [(1, 10, Some ''a''), (2, 20, Some ''b''), (3, 30, Some ''c'')]"
    "tq_pending q = [2]"
    by (simp_all add: q_def TimeoutQueueNew_push_def TimeoutQueueNew_new_def data_find_def Let_def
        tq_entries_def tq_pending_def tq_info_def)
  ultimately show ?thesis
    using TimeoutQueue_fires_in_order [of q "\<lambda>_. 20"] unfolding q_def [symmetric] by auto
qed

text \<open>A response finds its request: \<open>erase(id)\<close> right after \<open>push(ptr, id)\<close> under an id not in
  use returns true and the pointer pushed, and leaves the entries as they were; under an id that
  is in use \<open>push\<close> returns false and changes nothing; \<open>erase\<close> of an id nobody pushed returns
  false and changes nothing.\<close>

theorem TimeoutQueue_push_erase:
  assumes inv: "TimeoutQueueNew_inv q" and r: "TimeoutQueueNew_push p k dl hs q = (ok, q1)"
  shows "if k \<in> fst ` set (tq_entries q) then \<not> ok \<and> q1 = q
    else ok \<and> TimeoutQueueNew_erase k t q = Inr (False, t, q) \<and>
      (\<exists>q2. TimeoutQueueNew_erase k t q1 = Inr (True, p, q2) \<and> tq_entries q2 = tq_entries q \<and>
         tq_pending q2 = tq_pending q)"
proof (cases "k \<in> fst ` set (tq_entries q)")
  case True
  then show ?thesis using push_found [OF inv True, of p dl hs] r by simp
next
  case False
  obtain q2 where "TimeoutQueueNew_erase k t q1 = Inr (True, p, q2)" "tq_entries q2 = tq_entries q" "tq_pending q2 = tq_pending q"
    using erase_after_push [OF inv False r] by blast
  moreover have "TimeoutQueueNew_erase k t q = Inr (False, t, q)" by (rule erase_unknown [OF inv False])
  ultimately show ?thesis using False push_fields(1) [OF inv False r] by auto
qed

theorem TimeoutQueue_push_erase_witness:
  "\<exists>q2. TimeoutQueueNew_erase 7 None
      (snd (TimeoutQueueNew_push (Some ''m'') 7 100 False TimeoutQueueNew_new)) = Inr (True, Some ''m'', q2) \<and>
      tq_entries q2 = []"
  using TimeoutQueue_push_erase [OF TimeoutQueueNew_new_inv, of "Some ''m''" 7 100 False
      "fst (TimeoutQueueNew_push (Some ''m'') 7 100 False TimeoutQueueNew_new)" _ None]
  by (metis empty_iff image_empty list.set(1) prod.collapse tq_new_abs(1))

text \<open>The send list is first in, first out: \<open>push\<close> of an unsent request queues its id last,
  \<open>popSend()\<close> takes off the oldest id and keeps the entry, \<open>popSend(true)\<close> drops its entry too;
  on an empty list its assertion fails.\<close>

theorem TimeoutQueue_send_fifo:
  assumes inv: "TimeoutQueueNew_inv q"
  shows "case tq_pending q of
      [] \<Rightarrow> TimeoutQueueNew_popSend del q = Inl AssertFailed
    | k # ks \<Rightarrow> \<exists>q'. TimeoutQueueNew_popSend del q = Inr q' \<and> TimeoutQueueNew_inv q' \<and> tq_pending q' = ks \<and>
        tq_entries q' = (if del then filter (\<lambda>e. fst e \<noteq> k) (tq_entries q) else tq_entries q)"
proof (cases "tq_pending q")
  case Nil
  then show ?thesis by (simp add: popSend_empty)
next
  case (Cons k ks)
  then have "filter (\<lambda>i. i \<noteq> k) (tq_pending q) = ks"
    using inv_pending_distinct [OF inv] by (auto intro!: filter_True)
  then show ?thesis
    using Cons popSend_keep_ok [OF inv Cons] popSend_del_ok [OF inv Cons] by (cases del) auto
qed

theorem TimeoutQueue_send_fifo_witness:
  "\<exists>q'. TimeoutQueueNew_popSend True
      (snd (TimeoutQueueNew_push (Some ''m'') 7 100 False TimeoutQueueNew_new)) = Inr q' \<and>
      tq_pending q' = [] \<and> tq_entries q' = []"
proof -
  define q where "q = snd (TimeoutQueueNew_push (Some ''m'') 7 100 False TimeoutQueueNew_new)"
  have "TimeoutQueueNew_inv q" "tq_pending q = [7]" "tq_entries q = [(7, 100, Some ''m'')]"
    by (simp_all add: q_def) (simp_all add: TimeoutQueueNew_push_def TimeoutQueueNew_new_def data_find_def Let_def
        tq_entries_def tq_pending_def tq_info_def)
  then show ?thesis using TimeoutQueue_send_fifo [of q True] unfolding q_def [symmetric] by auto
qed

text \<open>\<open>getSend\<close> never delivers a request: on a queue whose oldest unsent request has a message,
  its inverted assertion fails, and where it returns true the caller's pointer is unchanged.\<close>

theorem TimeoutQueue_getSend_broken:
  assumes inv: "TimeoutQueueNew_inv q" and ne: "tq_pending q \<noteq> []"
    and null: "None \<notin> snd ` snd ` set (tq_entries q)"
  shows "TimeoutQueueNew_getSend t q = Inl AssertFailed"
  using assms by (rule getSend_fails)

theorem TimeoutQueue_getSend_broken_witness:
  "TimeoutQueueNew_getSend None
     (snd (TimeoutQueueNew_push (Some ''m'') 7 100 False TimeoutQueueNew_new)) = Inl AssertFailed"
  by (rule TimeoutQueue_getSend_broken)
    (simp, simp_all add: TimeoutQueueNew_push_def TimeoutQueueNew_new_def data_find_def Let_def
        tq_entries_def tq_pending_def tq_info_def)

end
