(* ===== verification/Tarsx_LoopQueue.thy ===== *)
theory Tarsx_LoopQueue
  imports Tarsx_Prelude
begin

text \<open>
  \<open>tarsx::LoopQueue<T>\<close> (\<open>LoopQueue.hpp\<close>): the fixed-size ring through which client threads hand
  requests to the network thread and to the callback threads. Indices are 32-bit words, the
  storage comes from \<open>malloc\<close>. The contract is the interface \<open>bounded_queue\<close>: a first-in
  first-out queue of a fixed capacity.
\<close>

section \<open>State\<close>

record 'a LoopQueue =
  lq_p :: "'a block"
  lq_capacity :: u32
  lq_capacitySub :: u32
  lq_begin :: u32
  lq_end :: u32

definition LoopQueue_new :: "u32 \<Rightarrow> 'a LoopQueue result" where
  "LoopQueue_new sz =
     bindE (assertE (sz < 10000)) (\<lambda>_.
     Inr \<lparr>lq_p = new_block (unat (sz + 1)), lq_capacity = sz + 1, lq_capacitySub = sz,
          lq_begin = 0, lq_end = 0\<rparr>)"

section \<open>Operations\<close>

definition LoopQueue_size :: "'a LoopQueue \<Rightarrow> u32" where
  "LoopQueue_size q =
     (if lq_begin q < lq_end q then lq_begin q + lq_capacity q - lq_end q
      else lq_begin q - lq_end q)"

definition LoopQueue_empty :: "'a LoopQueue \<Rightarrow> bool" where
  "LoopQueue_empty q \<longleftrightarrow> lq_end q = lq_begin q"

text \<open>\<open>memcpy(p_ + begin_, &t, sizeof(T))\<close> and \<open>memcpy(&t, p_ + end_, sizeof(T))\<close>.\<close>

definition LoopQueue_store :: "'a \<Rightarrow> 'a LoopQueue \<Rightarrow> 'a LoopQueue result" where
  "LoopQueue_store t q =
     (if unat (lq_begin q) < length (lq_p q)
      then Inr (q\<lparr>lq_p := (lq_p q)[unat (lq_begin q) := Some t]\<rparr>) else Inl OutOfBounds)"

definition LoopQueue_load :: "'a LoopQueue \<Rightarrow> 'a result" where
  "LoopQueue_load q =
     (if unat (lq_end q) < length (lq_p q)
      then (case lq_p q ! unat (lq_end q) of None \<Rightarrow> Inl Uninitialised | Some t \<Rightarrow> Inr t)
      else Inl OutOfBounds)"

definition LoopQueue_advance :: "'a LoopQueue \<Rightarrow> u32 \<Rightarrow> u32" where
  "LoopQueue_advance q i = (if i = lq_capacitySub q then 0 else i + 1)"

text \<open>The guard both one-element overloads return \<open>false\<close> on.\<close>

definition LoopQueue_full :: "'a LoopQueue \<Rightarrow> bool" where
  "LoopQueue_full q \<longleftrightarrow>
     (lq_begin q < lq_end q \<and> lq_end q - lq_begin q < 2) \<or>
     (lq_end q < lq_begin q \<and> lq_capacity q - 2 < lq_begin q - lq_end q)"

text \<open>\<open>push_back(t, empty, begin, end)\<close>: returns the flag, \<open>empty\<close>, \<open>begin\<close>, \<open>end\<close>. Its last
  conditional statement is the comparison \<open>empty == true;\<close>, which changes nothing.\<close>

definition LoopQueue_push_back_pos ::
    "'a \<Rightarrow> 'a LoopQueue \<Rightarrow> (bool \<times> bool \<times> u32 \<times> u32 \<times> 'a LoopQueue) result" where
  "LoopQueue_push_back_pos t q =
     (if LoopQueue_full q then Inr (False, False, lq_begin q, lq_end q, q)
      else
        bindE (LoopQueue_store t q) (\<lambda>q1.
        Inr (True, lq_end q = lq_begin q, lq_begin q, lq_end q,
             q1\<lparr>lq_begin := LoopQueue_advance q (lq_begin q)\<rparr>)))"

text \<open>\<open>push_back(t, empty)\<close>: returns the flag and \<open>empty\<close>.\<close>

definition LoopQueue_push_back :: "'a \<Rightarrow> 'a LoopQueue \<Rightarrow> (bool \<times> bool \<times> 'a LoopQueue) result" where
  "LoopQueue_push_back t q =
     (if LoopQueue_full q then Inr (False, False, q)
      else
        bindE (LoopQueue_store t q) (\<lambda>q1.
        let empty = (lq_end q = lq_begin q);
            q2 = q1\<lparr>lq_begin := LoopQueue_advance q (lq_begin q)\<rparr>
        in Inr (True, (if \<not> empty \<and> LoopQueue_size q2 = 1 then True else empty), q2)))"

text \<open>The loop of the \<open>std::vector\<close> overload; its guard mixes \<open>uint32_t\<close> and \<open>size_t\<close>, so it
  is computed on 64 bits.\<close>

fun LoopQueue_push_each :: "'a list \<Rightarrow> 'a LoopQueue \<Rightarrow> 'a LoopQueue result" where
  "LoopQueue_push_each [] q = Inr q"
| "LoopQueue_push_each (t # ts) q =
     bindE (LoopQueue_store t q) (\<lambda>q1.
     LoopQueue_push_each ts (q1\<lparr>lq_begin := LoopQueue_advance q (lq_begin q)\<rparr>))"

definition LoopQueue_push_back_vec :: "'a list \<Rightarrow> 'a LoopQueue \<Rightarrow> (bool \<times> 'a LoopQueue) result" where
  "LoopQueue_push_back_vec ts q =
     (let n = of_nat (length ts) :: u64 in
      if ucast (lq_capacity q - 1) < n \<or>
         (lq_begin q < lq_end q \<and> ucast (lq_end q - lq_begin q) < n + 1) \<or>
         (lq_end q < lq_begin q \<and> ucast (lq_capacity q) - n - 1 < ucast (lq_begin q - lq_end q))
      then Inr (False, q)
      else bindE (LoopQueue_push_each ts q) (\<lambda>q'. Inr (True, q')))"

text \<open>\<open>pop_front(t)\<close> and \<open>get_front(t)\<close>: \<open>None\<close> when they return \<open>false\<close> and leave \<open>t\<close> alone.\<close>

definition LoopQueue_pop_front :: "'a LoopQueue \<Rightarrow> ('a option \<times> 'a LoopQueue) result" where
  "LoopQueue_pop_front q =
     (if lq_end q = lq_begin q then Inr (None, q)
      else
        bindE (LoopQueue_load q) (\<lambda>t.
        Inr (Some t, q\<lparr>lq_end := LoopQueue_advance q (lq_end q)\<rparr>)))"

definition LoopQueue_drop_front :: "'a LoopQueue \<Rightarrow> bool \<times> 'a LoopQueue" where
  "LoopQueue_drop_front q =
     (if lq_end q = lq_begin q then (False, q)
      else (True, q\<lparr>lq_end := LoopQueue_advance q (lq_end q)\<rparr>))"

definition LoopQueue_get_front :: "'a LoopQueue \<Rightarrow> 'a option result" where
  "LoopQueue_get_front q =
     (if lq_end q = lq_begin q then Inr None else bindE (LoopQueue_load q) (\<lambda>t. Inr (Some t)))"

section \<open>Abstraction and invariant\<close>

definition LoopQueue_count :: "'a LoopQueue \<Rightarrow> nat" where
  "LoopQueue_count q =
     (if unat (lq_begin q) < unat (lq_end q)
      then unat (lq_begin q) + unat (lq_capacity q) - unat (lq_end q)
      else unat (lq_begin q) - unat (lq_end q))"

definition LoopQueue_slot :: "'a LoopQueue \<Rightarrow> nat \<Rightarrow> nat" where
  "LoopQueue_slot q i =
     (if unat (lq_end q) + i < unat (lq_capacity q) then unat (lq_end q) + i
      else unat (lq_end q) + i - unat (lq_capacity q))"

definition LoopQueue_cells :: "'a LoopQueue \<Rightarrow> 'a block" where
  "LoopQueue_cells q = map (\<lambda>i. lq_p q ! LoopQueue_slot q i) [0..<LoopQueue_count q]"

definition LoopQueue_list :: "'a LoopQueue \<Rightarrow> 'a list" where
  "LoopQueue_list q = map the (LoopQueue_cells q)"

definition LoopQueue_inv :: "'a LoopQueue \<Rightarrow> bool" where
  "LoopQueue_inv q \<longleftrightarrow>
     2 \<le> unat (lq_capacity q) \<and> unat (lq_capacity q) \<le> 10000 \<and>
     unat (lq_capacity q) = Suc (unat (lq_capacitySub q)) \<and>
     lq_begin q < lq_capacity q \<and> lq_end q < lq_capacity q \<and>
     length (lq_p q) = unat (lq_capacity q) \<and> None \<notin> set (LoopQueue_cells q)"

text \<open>How many elements the queue can hold.\<close>

definition LoopQueue_room :: "'a LoopQueue \<Rightarrow> nat" where
  "LoopQueue_room q = unat (lq_capacitySub q)"

lemma length_LoopQueue_list [simp]: "length (LoopQueue_list q) = LoopQueue_count q"
  by (simp add: LoopQueue_list_def LoopQueue_cells_def)

lemma unat_LoopQueue_size: "LoopQueue_inv q \<Longrightarrow> unat (LoopQueue_size q) = LoopQueue_count q"
proof -
  assume inv: "LoopQueue_inv q"
  then have "unat (lq_begin q + lq_capacity q) = unat (lq_begin q) + unat (lq_capacity q)"
    by (intro unat_add_less) (simp add: LoopQueue_inv_def word_nat)
  with inv show ?thesis
    by (auto simp: LoopQueue_inv_def LoopQueue_size_def LoopQueue_count_def unat_sub_le word_nat)
qed

lemma LoopQueue_empty_iff: "LoopQueue_inv q \<Longrightarrow> LoopQueue_empty q \<longleftrightarrow> LoopQueue_list q = []"
  using length_LoopQueue_list [of q]
  by (auto simp: LoopQueue_empty_def LoopQueue_count_def LoopQueue_inv_def word_nat word_unat_eq_iff
      simp del: length_LoopQueue_list split: if_splits)

lemma LoopQueue_full_iff:
  "LoopQueue_inv q \<Longrightarrow> LoopQueue_full q \<longleftrightarrow> LoopQueue_count q = LoopQueue_room q"
  by (auto simp: LoopQueue_full_def LoopQueue_count_def LoopQueue_room_def LoopQueue_inv_def
        word_less_nat_alt unat_sub_le word_le_nat_alt)

lemma unat_LoopQueue_advance:
  assumes "LoopQueue_inv q" and "i < lq_capacity q"
  shows "unat (LoopQueue_advance q i) = (if Suc (unat i) = unat (lq_capacity q) then 0 else Suc (unat i))"
  using assms by (auto simp: LoopQueue_advance_def LoopQueue_inv_def word_less_nat_alt word_unat_eq_iff unat_word_ariths)

section \<open>The operations on the abstraction\<close>

lemma LoopQueue_slot_count: "LoopQueue_inv q \<Longrightarrow> LoopQueue_slot q (LoopQueue_count q) = unat (lq_begin q)"
  by (auto simp: LoopQueue_slot_def LoopQueue_count_def LoopQueue_inv_def word_nat)

lemma LoopQueue_slot_neq:
  "LoopQueue_inv q \<Longrightarrow> i < LoopQueue_count q \<Longrightarrow> LoopQueue_slot q i \<noteq> unat (lq_begin q)"
  by (auto simp: LoopQueue_slot_def LoopQueue_count_def LoopQueue_inv_def word_nat split: if_splits)

text \<open>The step all insertions share: store at \<open>begin_\<close>, then advance it.\<close>

lemma LoopQueue_insert:
  fixes t :: 'a and q :: "'a LoopQueue"
  assumes inv: "LoopQueue_inv q" and room: "LoopQueue_count q < LoopQueue_room q"
  defines "q' \<equiv> q\<lparr>lq_p := (lq_p q)[unat (lq_begin q) := Some t],
                 lq_begin := LoopQueue_advance q (lq_begin q)\<rparr>"
  shows "LoopQueue_store t q = Inr (q\<lparr>lq_p := (lq_p q)[unat (lq_begin q) := Some t]\<rparr>) \<and>
         LoopQueue_inv q' \<and> LoopQueue_list q' = LoopQueue_list q @ [t] \<and>
         LoopQueue_room q' = LoopQueue_room q"
proof -
  have b: "lq_begin q < lq_capacity q" "unat (lq_begin q) < length (lq_p q)"
    using inv by (simp_all add: LoopQueue_inv_def word_nat)
  have adv: "unat (lq_begin q') =
      (if Suc (unat (lq_begin q)) = unat (lq_capacity q) then 0 else Suc (unat (lq_begin q)))"
    using unat_LoopQueue_advance [OF inv b(1)] by (simp add: q'_def)
  have [simp]: "lq_end q' = lq_end q" "lq_capacity q' = lq_capacity q" "lq_capacitySub q' = lq_capacitySub q"
    "lq_p q' = (lq_p q)[unat (lq_begin q) := Some t]" by (simp_all add: q'_def)
  have slot: "LoopQueue_slot q' i = LoopQueue_slot q i" for i by (simp add: LoopQueue_slot_def)
  have count: "LoopQueue_count q' = Suc (LoopQueue_count q)"
    using inv room adv by (auto simp: LoopQueue_count_def LoopQueue_inv_def LoopQueue_room_def word_nat split: if_splits)
  have "LoopQueue_cells q' = LoopQueue_cells q @ [Some t]"
    using b(2) LoopQueue_slot_count [OF inv] LoopQueue_slot_neq [OF inv, THEN not_sym]
    by (simp add: LoopQueue_cells_def count slot)
  moreover have "lq_begin q' < lq_capacity q'" using adv inv by (auto simp: LoopQueue_inv_def word_nat)
  ultimately show ?thesis using inv b(2)
    by (simp add: LoopQueue_inv_def LoopQueue_list_def LoopQueue_store_def LoopQueue_room_def)
qed

lemma LoopQueue_remove:
  assumes inv: "LoopQueue_inv q" and c: "LoopQueue_list q = t # ts"
  defines "q' \<equiv> q\<lparr>lq_end := LoopQueue_advance q (lq_end q)\<rparr>"
  shows "lq_end q \<noteq> lq_begin q \<and> LoopQueue_load q = Inr t \<and>
         LoopQueue_inv q' \<and> LoopQueue_list q' = ts \<and> LoopQueue_room q' = LoopQueue_room q"
proof -
  have ne: "lq_end q \<noteq> lq_begin q" using LoopQueue_empty_iff [OF inv] c by (simp add: LoopQueue_empty_def)
  have e: "lq_end q < lq_capacity q" "unat (lq_end q) < length (lq_p q)"
    using inv by (simp_all add: LoopQueue_inv_def word_nat)
  have cnt: "0 < LoopQueue_count q" using c length_LoopQueue_list [of q] by simp
  have adv: "unat (lq_end q') =
      (if Suc (unat (lq_end q)) = unat (lq_capacity q) then 0 else Suc (unat (lq_end q)))"
    using unat_LoopQueue_advance [OF inv e(1)] by (simp add: q'_def)
  have [simp]: "lq_begin q' = lq_begin q" "lq_capacity q' = lq_capacity q" "lq_capacitySub q' = lq_capacitySub q"
    "lq_p q' = lq_p q" by (simp_all add: q'_def)
  have count: "LoopQueue_count q = Suc (LoopQueue_count q')"
    using inv cnt adv ne
    by (auto simp: LoopQueue_count_def LoopQueue_inv_def word_nat word_unat_eq_iff split: if_splits)
  have slot: "LoopQueue_slot q' i = LoopQueue_slot q (Suc i)" if "i < LoopQueue_count q'" for i
    using that adv inv count by (auto simp: LoopQueue_slot_def LoopQueue_inv_def LoopQueue_count_def word_nat split: if_splits)
  have slot0: "LoopQueue_slot q 0 = unat (lq_end q)" using e(1) by (simp add: LoopQueue_slot_def word_nat)
  have "LoopQueue_cells q = lq_p q ! unat (lq_end q) # LoopQueue_cells q'"
    using slot by (simp add: LoopQueue_cells_def count slot0 upt_conv_Cons map_Suc_upt [symmetric] del: upt_Suc)
  moreover have "lq_end q' < lq_capacity q'" using adv inv by (auto simp: LoopQueue_inv_def word_nat)
  ultimately show ?thesis using inv ne e(2) c
    by (cases "lq_p q ! unat (lq_end q)")
       (auto simp: LoopQueue_inv_def LoopQueue_list_def LoopQueue_load_def LoopQueue_room_def)
qed

lemma LoopQueue_count_le: "LoopQueue_inv q \<Longrightarrow> LoopQueue_count q \<le> LoopQueue_room q"
  by (auto simp: LoopQueue_count_def LoopQueue_room_def LoopQueue_inv_def word_nat)

lemma LoopQueue_new_ok:
  assumes "1 \<le> unat sz" and "sz < 10000"
  shows "\<exists>q. LoopQueue_new sz = Inr q \<and> LoopQueue_inv q \<and> LoopQueue_list q = [] \<and>
           LoopQueue_room q = unat sz"
proof -
  have "unat (sz + 1) = Suc (unat sz)" using assms(2) by (subst unat_add_less) (simp_all add: word_nat)
  with assms show ?thesis
    by (simp add: LoopQueue_new_def LoopQueue_inv_def LoopQueue_cells_def LoopQueue_list_def
          LoopQueue_count_def LoopQueue_room_def word_nat)
qed

lemma LoopQueue_push_back_ok:
  assumes inv: "LoopQueue_inv q" and room: "LoopQueue_count q < LoopQueue_room q"
  shows "\<exists>q'. LoopQueue_push_back t q = Inr (True, LoopQueue_list q = [], q') \<and> LoopQueue_inv q' \<and>
           LoopQueue_list q' = LoopQueue_list q @ [t] \<and> LoopQueue_room q' = LoopQueue_room q"
proof -
  note ins = LoopQueue_insert [OF inv room, of t]
  let ?q = "q\<lparr>lq_p := (lq_p q)[unat (lq_begin q) := Some t], lq_begin := LoopQueue_advance q (lq_begin q)\<rparr>"
  have "LoopQueue_size ?q = 1 \<longleftrightarrow> LoopQueue_count ?q = 1"
    using unat_LoopQueue_size [of ?q] ins by (auto simp: word_unat_eq_iff)
  also have "LoopQueue_count ?q = Suc (LoopQueue_count q)"
    using ins length_LoopQueue_list [of ?q] by simp
  finally have sz: "LoopQueue_size ?q = 1 \<longleftrightarrow> LoopQueue_list q = []" 
    using length_LoopQueue_list [of q] by (auto simp del: length_LoopQueue_list)
  have full: "\<not> LoopQueue_full q" using LoopQueue_full_iff [OF inv] room by simp
  have "lq_end q = lq_begin q \<longleftrightarrow> LoopQueue_list q = []"
    using LoopQueue_empty_iff [OF inv] by (simp add: LoopQueue_empty_def)
  with ins sz full show ?thesis by (simp add: LoopQueue_push_back_def Let_def)
qed

lemma LoopQueue_push_back_full:
  "LoopQueue_inv q \<Longrightarrow> LoopQueue_count q = LoopQueue_room q \<Longrightarrow>
   LoopQueue_push_back t q = Inr (False, False, q)"
  by (simp add: LoopQueue_push_back_def LoopQueue_full_iff)

lemma LoopQueue_push_back_pos_eq:
  assumes inv: "LoopQueue_inv q"
  shows "LoopQueue_push_back_pos t q =
     bindE (LoopQueue_push_back t q) (\<lambda>(ok, empty, q'). Inr (ok, empty, lq_begin q, lq_end q, q'))"
proof (cases "LoopQueue_full q")
  case True
  then show ?thesis by (simp add: LoopQueue_push_back_def LoopQueue_push_back_pos_def)
next
  case False
  then have room: "LoopQueue_count q < LoopQueue_room q"
    using LoopQueue_full_iff [OF inv] LoopQueue_count_le [OF inv] by simp
  have "lq_end q = lq_begin q \<longleftrightarrow> LoopQueue_list q = []"
    using LoopQueue_empty_iff [OF inv] by (simp add: LoopQueue_empty_def)
  with False LoopQueue_insert [OF inv room, of t] LoopQueue_push_back_ok [OF inv room, of t] show ?thesis
    by (auto simp: LoopQueue_push_back_def LoopQueue_push_back_pos_def Let_def)
qed

lemma LoopQueue_push_each_ok:
  "LoopQueue_inv q \<Longrightarrow> LoopQueue_count q + length ts \<le> LoopQueue_room q \<Longrightarrow>
   \<exists>q'. LoopQueue_push_each ts q = Inr q' \<and> LoopQueue_inv q' \<and>
        LoopQueue_list q' = LoopQueue_list q @ ts \<and> LoopQueue_room q' = LoopQueue_room q"
proof (induction ts arbitrary: q)
  case Nil
  then show ?case by simp
next
  case (Cons t ts)
  then have "LoopQueue_count q < LoopQueue_room q" by simp
  note ins = LoopQueue_insert [OF Cons.prems(1) this, of t]
  let ?q = "q\<lparr>lq_p := (lq_p q)[unat (lq_begin q) := Some t], lq_begin := LoopQueue_advance q (lq_begin q)\<rparr>"
  have "LoopQueue_count ?q = Suc (LoopQueue_count q)" using ins length_LoopQueue_list [of ?q] by simp
  with Cons.IH [of ?q] Cons.prems ins show ?case by auto
qed

lemma LoopQueue_vec_guard:
  assumes inv: "LoopQueue_inv q" and len: "length ts < 2 ^ 32"
  defines "n \<equiv> of_nat (length ts) :: u64"
  shows "(ucast (lq_capacity q - 1) < n \<or>
          (lq_begin q < lq_end q \<and> ucast (lq_end q - lq_begin q) < n + 1) \<or>
          (lq_end q < lq_begin q \<and> ucast (lq_capacity q) - n - 1 < ucast (lq_begin q - lq_end q)))
     \<longleftrightarrow> LoopQueue_room q < LoopQueue_count q + length ts"
proof -
  have n: "unat n = length ts" "unat (n + 1) = Suc (length ts)"
    using len by (simp_all add: n_def unat_of_nat_small unat_word_ariths)
  have c1: "unat (ucast (lq_capacity q - 1) :: u64) = LoopQueue_room q"
    using inv by (simp add: unat_ucast_32_64 unat_sub_le LoopQueue_inv_def LoopQueue_room_def word_le_nat_alt)
  have cap: "unat (ucast (lq_capacity q) :: u64) = unat (lq_capacity q)" by (simp)
  show ?thesis
  proof (cases "LoopQueue_room q < length ts")
    case True
    then show ?thesis using n c1 by (simp add: word_less_nat_alt)
  next
    case False
    then have "unat (ucast (lq_capacity q) - n - 1 :: u64) = unat (lq_capacity q) - length ts - 1"
      using n cap inv by (simp add: unat_sub_le word_le_nat_alt LoopQueue_room_def LoopQueue_inv_def)
    with False n c1 cap inv show ?thesis
      by (auto simp: word_less_nat_alt unat_ucast_32_64 unat_sub_le word_le_nat_alt
            LoopQueue_count_def LoopQueue_room_def LoopQueue_inv_def)
  qed
qed

section \<open>The interface: a bounded first-in first-out queue\<close>

datatype 'a queue_op = QPush 'a | QPop
datatype 'a queue_out = Pushed bool | Popped "'a option"

text \<open>The specification: a list that never holds more than \<open>room\<close> elements.\<close>

fun spec_run :: "nat \<Rightarrow> 'a queue_op list \<Rightarrow> 'a list \<Rightarrow> 'a queue_out list \<times> 'a list" where
  "spec_run room [] xs = ([], xs)"
| "spec_run room (QPush x # ops) xs =
     (let ok = length xs < room;
          (outs, ys) = spec_run room ops (if ok then xs @ [x] else xs)
      in (Pushed ok # outs, ys))"
| "spec_run room (QPop # ops) xs =
     (let (outs, ys) = spec_run room ops (tl xs)
      in (Popped (if xs = [] then None else Some (hd xs)) # outs, ys))"

text \<open>The same calls on an implementation.\<close>

fun impl_run ::
    "('a \<Rightarrow> 'q \<Rightarrow> (bool \<times> 'q) result) \<Rightarrow> ('q \<Rightarrow> ('a option \<times> 'q) result) \<Rightarrow>
     'a queue_op list \<Rightarrow> 'q \<Rightarrow> ('a queue_out list \<times> 'q) result" where
  "impl_run push pop [] q = Inr ([], q)"
| "impl_run push pop (QPush x # ops) q =
     bindE (push x q) (\<lambda>(ok, q1).
     bindE (impl_run push pop ops q1) (\<lambda>(outs, q2). Inr (Pushed ok # outs, q2)))"
| "impl_run push pop (QPop # ops) q =
     bindE (pop q) (\<lambda>(r, q1).
     bindE (impl_run push pop ops q1) (\<lambda>(outs, q2). Inr (Popped r # outs, q2)))"

locale bounded_queue =
  fixes invar :: "'q \<Rightarrow> bool"
    and items :: "'q \<Rightarrow> 'a list"
    and room :: "'q \<Rightarrow> nat"
    and push :: "'a \<Rightarrow> 'q \<Rightarrow> (bool \<times> 'q) result"
    and pop :: "'q \<Rightarrow> ('a option \<times> 'q) result"
  assumes items_room: "invar q \<Longrightarrow> length (items q) \<le> room q"
    and push_law: "invar q \<Longrightarrow> length (items q) < room q \<Longrightarrow>
      \<exists>q'. push x q = Inr (True, q') \<and> invar q' \<and> items q' = items q @ [x] \<and> room q' = room q"
    and push_full_law: "invar q \<Longrightarrow> length (items q) = room q \<Longrightarrow> push x q = Inr (False, q)"
    and pop_law: "invar q \<Longrightarrow> items q = x # xs \<Longrightarrow>
      \<exists>q'. pop q = Inr (Some x, q') \<and> invar q' \<and> items q' = xs \<and> room q' = room q"
    and pop_empty_law: "invar q \<Longrightarrow> items q = [] \<Longrightarrow> pop q = Inr (None, q)"
begin

lemma push_step:
  assumes "invar q"
  shows "\<exists>q'. push x q = Inr (length (items q) < room q, q') \<and> invar q' \<and> room q' = room q \<and>
           items q' = (if length (items q) < room q then items q @ [x] else items q)"
proof (cases "length (items q) < room q")
  case True
  then show ?thesis using push_law [OF assms, of x] by auto
next
  case False
  then have "length (items q) = room q" using items_room [OF assms] by simp
  then show ?thesis using push_full_law [OF assms, of x] assms by simp
qed

lemma pop_step:
  assumes "invar q"
  shows "\<exists>q'. pop q = Inr (if items q = [] then None else Some (hd (items q)), q') \<and> invar q' \<and>
           room q' = room q \<and> items q' = tl (items q)"
proof (cases "items q")
  case Nil
  then show ?thesis using pop_empty_law [OF assms] assms by simp
next
  case (Cons x xs)
  then show ?thesis using pop_law [OF assms Cons] by auto
qed

lemma run_refines:
  "invar q \<Longrightarrow>
   \<exists>q'. impl_run push pop ops q = Inr (fst (spec_run (room q) ops (items q)), q') \<and>
        invar q' \<and> room q' = room q \<and> items q' = snd (spec_run (room q) ops (items q))"
proof (induction ops arbitrary: q)
  case Nil
  then show ?case by simp
next
  case (Cons op ops)
  show ?case
  proof (cases op)
    case (QPush x)
    with push_step [OF Cons.prems, of x] Cons.IH show ?thesis
      by (fastforce simp: case_prod_beta Let_def)
  next
    case QPop
    with pop_step [OF Cons.prems] Cons.IH show ?thesis
      by (fastforce simp: case_prod_beta Let_def)
  qed
qed

lemma pop_some_iff:
  assumes "invar q" and "pop q = Inr (r, q')"
  shows "invar q' \<and> room q' = room q \<and>
         (case r of None \<Rightarrow> items q = [] \<and> items q' = [] | Some x \<Rightarrow> items q = x # items q')"
  using pop_step [OF assms(1)] assms(2) by (cases "items q") auto

end

text \<open>\<open>push_back(t)\<close>: the one-argument overload, which drops \<open>empty\<close>.\<close>

definition LoopQueue_push :: "'a \<Rightarrow> 'a LoopQueue \<Rightarrow> (bool \<times> 'a LoopQueue) result" where
  "LoopQueue_push t q = bindE (LoopQueue_push_back t q) (\<lambda>(ok, _, q'). Inr (ok, q'))"

interpretation ring: bounded_queue LoopQueue_inv LoopQueue_list LoopQueue_room LoopQueue_push LoopQueue_pop_front
proof unfold_locales
  fix q :: "'a LoopQueue" and x :: 'a and xs
  assume inv: "LoopQueue_inv q"
  show "length (LoopQueue_list q) \<le> LoopQueue_room q" using LoopQueue_count_le [OF inv] by simp
  show "\<exists>q'. LoopQueue_push x q = Inr (True, q') \<and> LoopQueue_inv q' \<and>
      LoopQueue_list q' = LoopQueue_list q @ [x] \<and> LoopQueue_room q' = LoopQueue_room q"
    if "length (LoopQueue_list q) < LoopQueue_room q"
    using LoopQueue_push_back_ok [OF inv, of x] that by (auto simp: LoopQueue_push_def)
  show "LoopQueue_push x q = Inr (False, q)" if "length (LoopQueue_list q) = LoopQueue_room q"
    using LoopQueue_push_back_full [OF inv] that by (simp add: LoopQueue_push_def)
  show "\<exists>q'. LoopQueue_pop_front q = Inr (Some x, q') \<and> LoopQueue_inv q' \<and>
      LoopQueue_list q' = xs \<and> LoopQueue_room q' = LoopQueue_room q" if "LoopQueue_list q = x # xs"
    using LoopQueue_remove [OF inv that] by (simp add: LoopQueue_pop_front_def)
  show "LoopQueue_pop_front q = Inr (None, q)" if "LoopQueue_list q = []"
    using LoopQueue_empty_iff [OF inv] that by (simp add: LoopQueue_pop_front_def LoopQueue_empty_def)
qed

section \<open>Properties\<close>

text \<open>C10. Every sequence of \<open>push_back\<close> and \<open>pop_front\<close> calls on a queue of constructor size
  \<open>1 \<le> sz < 10000\<close> gives exactly the results of a first-in first-out list that holds at most
  \<open>sz\<close> elements: no slot is read before it is written, no index leaves the block.\<close>

theorem LoopQueue_refines_fifo:
  fixes ops :: "'a queue_op list"
  assumes "1 \<le> unat sz" and "sz < 10000"
  shows "\<exists>q q'. LoopQueue_new sz = Inr q \<and>
           impl_run LoopQueue_push LoopQueue_pop_front ops q = Inr (fst (spec_run (unat sz) ops []), q') \<and>
           LoopQueue_list q' = snd (spec_run (unat sz) ops [])"
proof -
  obtain q :: "'a LoopQueue" where q: "LoopQueue_new sz = Inr q" "LoopQueue_inv q" "LoopQueue_list q = []" "LoopQueue_room q = unat sz"
    using LoopQueue_new_ok [OF assms] by blast
  with ring.run_refines [OF q(2), of ops] show ?thesis by auto
qed

theorem LoopQueue_refines_fifo_witness:
  "\<exists>q q'. LoopQueue_new 2 = Inr q \<and>
     impl_run LoopQueue_push LoopQueue_pop_front
       [QPush (1::nat), QPush 2, QPush 3, QPop, QPush 4, QPop, QPop, QPop] q =
       Inr ([Pushed True, Pushed True, Pushed False, Popped (Some 1), Pushed True,
             Popped (Some 2), Popped (Some 4), Popped None], q') \<and>
     LoopQueue_list q' = []"
  using LoopQueue_refines_fifo [of 2 "[QPush (1::nat), QPush 2, QPush 3, QPop, QPush 4, QPop, QPop, QPop]"]
  by (simp add: word_less_nat_alt Let_def case_prod_beta)

text \<open>\<open>push_back\<close> of a whole vector is all or nothing: it returns \<open>false\<close> and changes nothing
  when the elements do not all fit, and otherwise appends all of them in order.\<close>

theorem LoopQueue_push_vec_all_or_nothing:
  assumes "LoopQueue_inv q" and "length ts < 2 ^ 32"
  shows "if LoopQueue_count q + length ts \<le> LoopQueue_room q
         then \<exists>q'. LoopQueue_push_back_vec ts q = Inr (True, q') \<and> LoopQueue_inv q' \<and>
                LoopQueue_list q' = LoopQueue_list q @ ts
         else LoopQueue_push_back_vec ts q = Inr (False, q)"
  using LoopQueue_vec_guard [OF assms] LoopQueue_push_each_ok [OF assms(1), of ts]
  by (auto simp: LoopQueue_push_back_vec_def Let_def)

definition sample_queue :: "nat LoopQueue" where
  "sample_queue = \<lparr>lq_p = [None, Some 7, None], lq_capacity = 3, lq_capacitySub = 2,
     lq_begin = 2, lq_end = 1\<rparr>"

lemma sample_queue_inv: "LoopQueue_inv sample_queue"
  by (simp add: LoopQueue_inv_def sample_queue_def LoopQueue_cells_def LoopQueue_count_def
        LoopQueue_slot_def word_less_nat_alt)

theorem LoopQueue_push_vec_witness:
  "LoopQueue_push_back_vec [8, 9] sample_queue = Inr (False, sample_queue)"
  using LoopQueue_push_vec_all_or_nothing [OF sample_queue_inv, of "[8, 9]"]
  by (simp add: LoopQueue_count_def LoopQueue_room_def sample_queue_def)

text \<open>A queue of constructor size 0 accepts every element and keeps none: the slot is
  overwritten and the queue stays empty, although \<open>push_back\<close> returns \<open>true\<close>.\<close>

theorem LoopQueue_size_zero_loses:
  "\<exists>q q'. LoopQueue_new 0 = Inr q \<and> LoopQueue_push_back t q = Inr (True, True, q') \<and>
     LoopQueue_empty q' \<and> LoopQueue_pop_front q' = Inr (None, q')"
  by (simp add: LoopQueue_new_def LoopQueue_push_back_def LoopQueue_full_def LoopQueue_store_def
        LoopQueue_advance_def LoopQueue_empty_def LoopQueue_pop_front_def Let_def word_less_nat_alt)

end
