(* ===== verification/Tarsx_ObjectProxy.thy ===== *)
theory Tarsx_ObjectProxy
  imports Tarsx_Transceiver Tarsx_TimeoutQueue Tarsx_LoopQueue Tarsx_Monitor
begin

text \<open>
  The client's network thread: \<open>ObjectProxy\<close> (numbering, sending and matching of requests),
  \<open>ObjectProxyFactory\<close>, \<open>AsyncProcThread\<close> (the callback thread) and \<open>CommunicatorEpoll\<close> (the event
  loop), with the \<open>ReqMessage\<close>, \<open>FDInfo\<close> and \<open>NotifyInfo\<close> of \<open>Message.h\<close>. Messages and the queues
  client threads put them in live in a heap: a pointer is an address, a deleted object has no entry,
  and using it is \<open>OutOfBounds\<close>. Every locked region here is entered and left within one operation,
  so a region is one step, \<open>Blocked\<close> while another thread holds the lock.
\<close>

section \<open>Messages\<close>

datatype CallType = SYNC_CALL | ASYNC_CALL | ONE_WAY | THREAD_EXIT

datatype ReqStatus = REQ_REQ | REQ_RSP | REQ_TIME | REQ_BUSY | REQ_EXC

text \<open>A callback is named by a number; \<open>None\<close> is the empty \<open>std::function\<close>. The proxy is an index into
  the factory's \<open>objectproxys_\<close>.\<close>

record ReqMessage =
  rm_status :: ReqStatus
  rm_type :: CallType
  rm_callback :: "nat option"
  rm_objectProxy :: "nat option"
  rm_request :: string
  rm_response :: string
  rm_reqData :: string
  rm_monitor :: "Monitor option"
  rm_monitorFin :: bool
  rm_push :: bool
  rm_beginTime :: int
  rm_requestId :: i32

definition ReqMessage_new :: ReqMessage where
  "ReqMessage_new =
     \<lparr>rm_status = REQ_REQ, rm_type = SYNC_CALL, rm_callback = None, rm_objectProxy = None, rm_request = [],
      rm_response = [], rm_reqData = [], rm_monitor = None, rm_monitorFin = False, rm_push = False,
      rm_beginTime = 0, rm_requestId = 1\<rparr>"

text \<open>\<open>monitor.release()\<close> lets go of the monitor without deleting it.\<close>

definition ReqMessage_init :: "CallType \<Rightarrow> ReqMessage \<Rightarrow> ReqMessage" where
  "ReqMessage_init calltype m =
     m\<lparr>rm_status := REQ_REQ, rm_type := calltype, rm_reqData := [], rm_monitor := None, rm_monitorFin := False,
       rm_push := False, rm_beginTime := 0, rm_requestId := 1\<rparr>"

definition ET_C_NOTIFY :: int where "ET_C_NOTIFY = 1"
definition ET_C_NET :: int where "ET_C_NET = 2"

record FDInfo =
  fi_seq :: nat
  fi_fd :: int
  fi_type :: int
  fi_p :: "nat option"

definition FDInfo_new :: FDInfo where
  "FDInfo_new = \<lparr>fi_seq = 0, fi_fd = -1, fi_type = ET_C_NOTIFY, fi_p = None\<rparr>"

record NotifyInfo =
  ni_fd_info :: FDInfo
  ni_notify :: Socket
  ni_eventfd :: int
  ni_valid :: bool

definition NotifyInfo_new :: NotifyInfo where
  "NotifyInfo_new = \<lparr>ni_fd_info = FDInfo_new, ni_notify = Socket_new, ni_eventfd = -1, ni_valid = False\<rparr>"

section \<open>State\<close>

record AsyncProcThread =
  ap_monitor :: Monitor
  ap_msgQueue :: "nat LoopQueue"
  ap_exit :: bool
  ap_terminate :: bool

record ObjectProxy =
  op_trans :: Transceiver
  op_timeoutQueue :: "nat TimeoutQueueNew"
  op_id :: u32

record ObjectProxyFactory =
  opf_objectProxys :: "string \<rightharpoonup> nat"
  opf_objectproxys :: "ObjectProxy list"
  opf_objectNum :: nat

text \<open>\<open>ce_notifyAddr\<close> tells where the elements of \<open>notify_\<close> lie.\<close>

record CommunicatorEpoll =
  ce_notify :: "NotifyInfo list"
  ce_notifyAddr :: "nat \<Rightarrow> u64"
  ce_shutdown :: Socket
  ce_asyncThreadNum :: nat
  ce_asyncThread :: "AsyncProcThread list"
  ce_asyncSeq :: nat
  ce_terminate :: bool
  ce_netThreadSeq :: nat
  ce_factory :: ObjectProxyFactory

record Client =
  cl_net :: ClientNet
  cl_msgs :: "nat \<Rightarrow> ReqMessage option"
  cl_queues :: "nat \<Rightarrow> nat LoopQueue option"
  cl_fresh :: nat
  cl_epoll :: CommunicatorEpoll

definition msg_at :: "nat option \<Rightarrow> Client \<Rightarrow> ReqMessage result" where
  "msg_at p cl =
     (case p of None \<Rightarrow> Inl NullDeref
      | Some a \<Rightarrow> (case cl_msgs cl a of None \<Rightarrow> Inl OutOfBounds | Some m \<Rightarrow> Inr m))"

definition put_msg :: "nat \<Rightarrow> ReqMessage \<Rightarrow> Client \<Rightarrow> Client" where
  "put_msg a m cl = cl\<lparr>cl_msgs := (cl_msgs cl)(a \<mapsto> m)\<rparr>"

definition delete_msg :: "nat \<Rightarrow> Client \<Rightarrow> Client" where
  "delete_msg a cl = cl\<lparr>cl_msgs := (cl_msgs cl)(a := None)\<rparr>"

definition queue_at :: "nat option \<Rightarrow> Client \<Rightarrow> nat LoopQueue result" where
  "queue_at p cl =
     (case p of None \<Rightarrow> Inl NullDeref
      | Some a \<Rightarrow> (case cl_queues cl a of None \<Rightarrow> Inl OutOfBounds | Some q \<Rightarrow> Inr q))"

definition put_queue :: "nat \<Rightarrow> nat LoopQueue option \<Rightarrow> Client \<Rightarrow> Client" where
  "put_queue a q cl = cl\<lparr>cl_queues := (cl_queues cl)(a := q)\<rparr>"

definition cl_objects :: "Client \<Rightarrow> ObjectProxy list" where
  "cl_objects cl = opf_objectproxys (ce_factory (cl_epoll cl))"

definition object_at :: "nat option \<Rightarrow> Client \<Rightarrow> ObjectProxy result" where
  "object_at p cl =
     (case p of None \<Rightarrow> Inl NullDeref
      | Some i \<Rightarrow> if i < length (cl_objects cl) then Inr (cl_objects cl ! i) else Inl OutOfBounds)"

definition put_object :: "nat \<Rightarrow> ObjectProxy \<Rightarrow> Client \<Rightarrow> Client" where
  "put_object i ob cl =
     (let ce = cl_epoll cl; f = ce_factory ce in
      cl\<lparr>cl_epoll := ce\<lparr>ce_factory := f\<lparr>opf_objectproxys := (opf_objectproxys f)[i := ob]\<rparr>\<rparr>\<rparr>)"

definition put_kernel :: "Kernel \<Rightarrow> Client \<Rightarrow> Client" where
  "put_kernel k cl = cl\<lparr>cl_net := (cl_net cl)\<lparr>cn_kernel := k\<rparr>\<rparr>"

text \<open>The network thread, and a locked region whose body calls \<open>notify\<close> or \<open>notifyAll\<close>. At most one
  thread waits on the monitors used here: the caller of a message, the callback thread of a queue.\<close>

definition net_thread :: tid where
  "net_thread = 0"

definition wake_one :: "cond_op list \<Rightarrow> tid set \<Rightarrow> tid set" where
  "wake_one ops w = (if ops = [] then w else {})"

definition notify_scope :: "tid \<Rightarrow> (Monitor \<Rightarrow> Monitor) \<Rightarrow> Monitor \<Rightarrow> Monitor result" where
  "notify_scope t body m =
     bindE (Lock_new t m) (\<lambda>r.
     case r of
       None \<Rightarrow> Inl Blocked
     | Some (acquired, m1) \<Rightarrow>
         bindE (Lock_destroy t acquired (body m1)) (\<lambda>(ops, m2). Inr (deliver (wake_one ops (mon_waiting m2)) m2)))"

section \<open>The callback thread\<close>

definition AsyncProcThread_new :: "u32 \<Rightarrow> AsyncProcThread result" where
  "AsyncProcThread_new queueCap =
     bindE (LoopQueue_new queueCap) (\<lambda>q.
     Inr \<lparr>ap_monitor = Monitor_new, ap_msgQueue = q, ap_exit = False, ap_terminate = False\<rparr>)"

definition AsyncProcThread_terminate :: "tid \<Rightarrow> AsyncProcThread \<Rightarrow> AsyncProcThread result" where
  "AsyncProcThread_terminate t th =
     bindE (notify_scope t Monitor_notifyAll (ap_monitor th)) (\<lambda>m.
     Inr (th\<lparr>ap_terminate := True, ap_monitor := m\<rparr>))"

text \<open>A message the queue has no room for is deleted.\<close>

definition AsyncProcThread_push_back ::
    "nat \<Rightarrow> AsyncProcThread \<Rightarrow> (nat \<Rightarrow> ReqMessage option) \<Rightarrow> (AsyncProcThread \<times> (nat \<Rightarrow> ReqMessage option)) result" where
  "AsyncProcThread_push_back a th msgs =
     bindE (LoopQueue_push a (ap_msgQueue th)) (\<lambda>(flag, q).
     bindE (notify_scope net_thread Monitor_notify (ap_monitor th)) (\<lambda>m.
     Inr (th\<lparr>ap_msgQueue := q, ap_monitor := m\<rparr>, if flag then msgs else msgs(a := None))))"

text \<open>A turn of \<open>run\<close> after the wait: the callback called, if the message has one, and its response.\<close>

definition AsyncProcThread_turn ::
    "AsyncProcThread \<Rightarrow> (nat \<Rightarrow> ReqMessage option) \<Rightarrow>
     ((nat option \<times> string) list \<times> AsyncProcThread \<times> (nat \<Rightarrow> ReqMessage option)) result" where
  "AsyncProcThread_turn th msgs =
     bindE (LoopQueue_pop_front (ap_msgQueue th)) (\<lambda>(r, q).
     case r of
       None \<Rightarrow> Inr ([], th\<lparr>ap_msgQueue := q\<rparr>, msgs)
     | Some a \<Rightarrow>
         (case msgs a of
            None \<Rightarrow> Inl OutOfBounds
          | Some m \<Rightarrow> Inr ([(rm_callback m, rm_response m)], th\<lparr>ap_msgQueue := q\<rparr>, msgs(a := None))))"

text \<open>\<open>run\<close> for at most \<open>n\<close> turns.\<close>

fun AsyncProcThread_run ::
    "nat \<Rightarrow> AsyncProcThread \<Rightarrow> (nat \<Rightarrow> ReqMessage option) \<Rightarrow>
     ((nat option \<times> string) list \<times> AsyncProcThread \<times> (nat \<Rightarrow> ReqMessage option)) result" where
  "AsyncProcThread_run 0 th msgs = Inr ([], th, msgs)"
| "AsyncProcThread_run (Suc n) th msgs =
     (if ap_terminate th then Inr ([], th\<lparr>ap_exit := True\<rparr>, msgs)
      else
        bindE (AsyncProcThread_turn th msgs) (\<lambda>(calls, th1, msgs1).
        bindE (AsyncProcThread_run n th1 msgs1) (\<lambda>(calls', th2, msgs2).
        Inr (calls @ calls', th2, msgs2))))"

definition pushAsyncThreadQueue :: "nat \<Rightarrow> Client \<Rightarrow> Client result" where
  "pushAsyncThreadQueue a cl =
     (let ce = cl_epoll cl in
      if ce_asyncSeq ce < length (ce_asyncThread ce) then
        bindE (AsyncProcThread_push_back a (ce_asyncThread ce ! ce_asyncSeq ce) (cl_msgs cl)) (\<lambda>(th, msgs).
        let n = Suc (ce_asyncSeq ce) in
        Inr (cl\<lparr>cl_msgs := msgs,
                cl_epoll := ce\<lparr>ce_asyncThread := (ce_asyncThread ce)[ce_asyncSeq ce := th],
                               ce_asyncSeq := (if n = ce_asyncThreadNum ce then 0 else n)\<rparr>\<rparr>))
      else Inl OutOfBounds)"

section \<open>ObjectProxy\<close>

definition ObjectProxy_new :: "u64 \<Rightarrow> string \<Rightarrow> u16 \<Rightarrow> ObjectProxy" where
  "ObjectProxy_new info host port =
     \<lparr>op_trans = Transceiver_new info host port, op_timeoutQueue = TimeoutQueueNew_new, op_id = 0\<rparr>"

definition ObjectProxy_generateId :: "u32 \<Rightarrow> u32" where
  "ObjectProxy_generateId i = (if i + 1 = 0 then i + 1 + 1 else i + 1)"

definition finishInvoke_msg :: "nat \<Rightarrow> Client \<Rightarrow> Client result" where
  "finishInvoke_msg a cl =
     bindE (msg_at (Some a) cl) (\<lambda>m.
     if rm_type m = SYNC_CALL then
       (case rm_monitor m of
          None \<Rightarrow> Inl NullDeref
        | Some mon \<Rightarrow>
            bindE (notify_scope net_thread Monitor_notify mon) (\<lambda>mon'.
            Inr (put_msg a (m\<lparr>rm_monitor := Some mon', rm_monitorFin := True\<rparr>) cl)))
     else if rm_type m = ASYNC_CALL then pushAsyncThreadQueue a cl
     else Inr cl)"

text \<open>\<open>sendReqMessage\<close>: only a request that finds the send list empty is offered to the transceiver.\<close>

definition sendReqMessage :: "(string \<Rightarrow> u32) \<Rightarrow> nat option \<Rightarrow> nat \<Rightarrow> Client \<Rightarrow> Client result" where
  "sendReqMessage inet_addr i a cl =
     bindE (object_at i cl) (\<lambda>ob.
     bindE
       (if \<not> tr_connected (op_trans ob) then Transceiver_connect inet_addr (op_trans ob) (cl_net cl)
        else Inr (op_trans ob, cl_net cl)) (\<lambda>(t, e).
     bindE (msg_at (Some a) cl) (\<lambda>m.
     let id = ObjectProxy_generateId (op_id ob);
         temp = request_body id (rm_request m);
         m1 = m\<lparr>rm_requestId := id, rm_reqData := frame temp\<rparr>
     in
     bindE
       (if TimeoutQueueNew_sendListEmpty (op_timeoutQueue ob) then Transceiver_sendRequest (rm_reqData m1) t e
        else Inr (retError, t, e)) (\<lambda>(ret, t1, e1).
     let (flag, q) = TimeoutQueueNew_push (Some a) id (1000 + rm_beginTime m1) (ret \<noteq> retError) (op_timeoutQueue ob);
         cl1 = put_msg a m1 (put_object (the i) (ob\<lparr>op_trans := t1, op_timeoutQueue := q, op_id := id\<rparr>) (cl\<lparr>cl_net := e1\<rparr>))
     in
     if flag then Inr cl1 else finishInvoke_msg a (put_msg a (m1\<lparr>rm_status := REQ_EXC\<rparr>) cl1)))))"

partial_function (option) doInvoke :: "nat \<Rightarrow> Client \<Rightarrow> Client result option" where
  "doInvoke i cl =
     (case object_at (Some i) cl of
        Inl e \<Rightarrow> Some (Inl e)
      | Inr ob \<Rightarrow>
          if TimeoutQueueNew_sendListEmpty (op_timeoutQueue ob) then Some (Inr cl)
          else
            (case bindE (TimeoutQueueNew_getSend None (op_timeoutQueue ob)) (\<lambda>(_, msg).
                  bindE (msg_at msg cl) (\<lambda>m. Transceiver_sendRequest (rm_reqData m) (op_trans ob) (cl_net cl))) of
               Inl e \<Rightarrow> Some (Inl e)
             | Inr (ret, t, e) \<Rightarrow>
                 let cl1 = put_object i (ob\<lparr>op_trans := t\<rparr>) (cl\<lparr>cl_net := e\<rparr>) in
                 if ret = retError \<or> ret = retFull then Some (Inr cl1) else doInvoke i cl1))"

definition Transceiver_doRequest :: "nat \<Rightarrow> Client \<Rightarrow> (int \<times> Client) result" where
  "Transceiver_doRequest i cl =
     bindE (object_at (Some i) cl) (\<lambda>ob.
     bindE (doRequest_flush (op_trans ob) (cl_net cl)) (\<lambda>(early, t, e).
     let cl1 = put_object i (ob\<lparr>op_trans := t\<rparr>) (cl\<lparr>cl_net := e\<rparr>) in
     case early of
       Some ret \<Rightarrow> Inr (ret, cl1)
     | None \<Rightarrow> bindE (of_loop (doInvoke i cl1)) (\<lambda>r. bindE r (\<lambda>cl2. Inr (0, cl2)))))"

definition finishInvoke :: "nat \<Rightarrow> string \<Rightarrow> Client \<Rightarrow> Client result" where
  "finishInvoke i response cl =
     bindE (object_at (Some i) cl) (\<lambda>ob.
     let requestId = substr_before (find_colon response) response in
     bindE (TimeoutQueueNew_erase (word_of_int (atoi requestId)) None (op_timeoutQueue ob)) (\<lambda>(retErase, msg, q).
     let cl1 = put_object i (ob\<lparr>op_timeoutQueue := q\<rparr>) cl in
     if \<not> retErase then Inr cl1
     else
       bindE (msg_at msg cl1) (\<lambda>m.
       finishInvoke_msg (the msg) (put_msg (the msg) (m\<lparr>rm_response := response\<rparr>) cl1))))"

section \<open>ObjectProxyFactory\<close>

text \<open>\<open>info\<close> is where the new transceiver's \<open>fdInfo_\<close> lies.\<close>

definition get_objectProxy :: "u64 \<Rightarrow> string \<Rightarrow> u16 \<Rightarrow> ObjectProxyFactory \<Rightarrow> nat \<times> ObjectProxyFactory" where
  "get_objectProxy info ip port f =
     (let tmpObjName = ip @ '':'' @ to_string (uint port) in
      case opf_objectProxys f tmpObjName of
        Some i \<Rightarrow> (i, f)
      | None \<Rightarrow>
          let i = length (opf_objectproxys f) in
          (i, f\<lparr>opf_objectProxys := (opf_objectProxys f)(tmpObjName \<mapsto> i),
                opf_objectproxys := opf_objectproxys f @ [ObjectProxy_new info ip port],
                opf_objectNum := opf_objectNum f + 1\<rparr>))"

definition get_objectProxy_at :: "nat \<Rightarrow> ObjectProxyFactory \<Rightarrow> nat result" where
  "get_objectProxy_at index f = bindE (assertE (index < opf_objectNum f)) (\<lambda>_. Inr index)"

section \<open>CommunicatorEpoll\<close>

definition CommunicatorEpoll_new ::
    "(nat \<Rightarrow> u64) \<Rightarrow> nat \<Rightarrow> Kernel \<Rightarrow> (CommunicatorEpoll \<times> Epoller \<times> Kernel) result" where
  "CommunicatorEpoll_new addr netThreadSeq k =
     (let (ep, k1) = Epoller_create 1024 (Epoller_new True) k in
      bindE (Socket_createSocket AF_INET Socket_new k1) (\<lambda>(sock, k2).
      let k3 = Epoller_add (sk_fd sock) 0 EPOLLIN ep k2 in
      bindE (AsyncProcThread_new 100) (\<lambda>th.
      Inr (\<lparr>ce_notify = replicate 2048 NotifyInfo_new, ce_notifyAddr = addr, ce_shutdown = sock, ce_asyncThreadNum = 1,
            ce_asyncThread = [th], ce_asyncSeq = 0, ce_terminate = False, ce_netThreadSeq = netThreadSeq,
            ce_factory = \<lparr>opf_objectProxys = Map.empty, opf_objectproxys = [], opf_objectNum = 0\<rparr>\<rparr>,
           ep, k3))))"

definition put_notify :: "nat \<Rightarrow> NotifyInfo \<Rightarrow> Client \<Rightarrow> Client" where
  "put_notify seq n cl = cl\<lparr>cl_epoll := (cl_epoll cl)\<lparr>ce_notify := (ce_notify (cl_epoll cl))[seq := n]\<rparr>\<rparr>"

definition notify_at :: "nat \<Rightarrow> Client \<Rightarrow> NotifyInfo result" where
  "notify_at seq cl = (if seq < length (ce_notify (cl_epoll cl)) then Inr (ce_notify (cl_epoll cl) ! seq) else Inl OutOfBounds)"

definition notify_addr :: "nat \<Rightarrow> Client \<Rightarrow> u64" where
  "notify_addr seq cl = ce_notifyAddr (cl_epoll cl) seq"

definition CommunicatorEpoll_notify :: "nat \<Rightarrow> nat \<Rightarrow> Client \<Rightarrow> Client result" where
  "CommunicatorEpoll_notify seq reqQueue cl =
     bindE (notify_at seq cl) (\<lambda>n.
     if ni_valid n then
       (let n1 = n\<lparr>ni_fd_info := (ni_fd_info n)\<lparr>fi_p := Some reqQueue\<rparr>\<rparr>;
            k = Epoller_mod (sk_fd (ni_notify n1)) (notify_addr seq cl) EPOLLIN (cn_epoller (cl_net cl)) (cn_kernel (cl_net cl))
        in Inr (put_notify seq n1 (put_kernel k cl)))
     else
       bindE (Socket_createSocket AF_INET (ni_notify n) (cn_kernel (cl_net cl))) (\<lambda>(sock, k1).
       let n1 = n\<lparr>ni_fd_info := \<lparr>fi_seq = seq, fi_fd = ni_eventfd n, fi_type = ET_C_NOTIFY, fi_p = Some reqQueue\<rparr>,
                   ni_notify := sock, ni_valid := True\<rparr>;
           k2 = Epoller_add (sk_fd sock) (notify_addr seq cl) EPOLLIN (cn_epoller (cl_net cl)) k1
       in Inr (put_notify seq n1 (put_kernel k2 cl))))"

definition CommunicatorEpoll_notifyDel :: "nat \<Rightarrow> Client \<Rightarrow> Client result" where
  "CommunicatorEpoll_notifyDel seq cl =
     bindE (notify_at seq cl) (\<lambda>n.
     Inr (if ni_valid n \<and> fi_p (ni_fd_info n) \<noteq> None then
            put_kernel (Epoller_mod (sk_fd (ni_notify n)) (notify_addr seq cl) EPOLLIN (cn_epoller (cl_net cl)) (cn_kernel (cl_net cl))) cl
          else cl))"

text \<open>The end of a client thread: its queue and its notification socket go.\<close>

definition thread_exit :: "nat \<Rightarrow> nat \<Rightarrow> nat \<Rightarrow> Client \<Rightarrow> Client result" where
  "thread_exit seq qa a cl =
     bindE (notify_at seq cl) (\<lambda>n.
     let k1 = Epoller_del (sk_fd (ni_notify n)) (notify_addr seq cl) EPOLLIN (cn_epoller (cl_net cl)) (cn_kernel (cl_net cl));
         (sock, k2) = Socket_close (ni_notify n) k1;
         n1 = n\<lparr>ni_fd_info := (ni_fd_info n)\<lparr>fi_p := None\<rparr>, ni_notify := sock, ni_valid := False\<rparr>
     in Inr (put_notify seq n1 (put_kernel k2 (put_queue qa None (delete_msg a cl)))))"

text \<open>The loop over a client thread's queue. Without new elements a ring gives back at most as many as
  it has cells, so that is fuel enough.\<close>

fun handle_queue :: "(string \<Rightarrow> u32) \<Rightarrow> nat \<Rightarrow> nat \<Rightarrow> nat \<Rightarrow> Client \<Rightarrow> Client result" where
  "handle_queue inet_addr 0 seq qa cl = Inl Diverges"
| "handle_queue inet_addr (Suc n) seq qa cl =
     bindE (queue_at (Some qa) cl) (\<lambda>q.
     bindE (LoopQueue_pop_front q) (\<lambda>(r, q').
     let cl1 = put_queue qa (Some q') cl in
     case r of
       None \<Rightarrow> Inr cl1
     | Some a \<Rightarrow>
         bindE (msg_at (Some a) cl1) (\<lambda>m.
         if rm_type m = THREAD_EXIT then bindE (assertE (LoopQueue_empty q')) (\<lambda>_. thread_exit seq qa a cl1)
         else bindE (sendReqMessage inet_addr (rm_objectProxy m) a cl1) (\<lambda>cl2. handle_queue inet_addr n seq qa cl2))))"

fun finish_all :: "nat \<Rightarrow> string list \<Rightarrow> Client \<Rightarrow> Client result" where
  "finish_all i [] cl = Inr cl"
| "finish_all i (r # rs) cl = bindE (finishInvoke i r cl) (finish_all i rs)"

definition handleInputImp :: "nat \<Rightarrow> Client \<Rightarrow> Client result" where
  "handleInputImp i cl =
     bindE (object_at (Some i) cl) (\<lambda>ob.
     bindE (Transceiver_doResponse (op_trans ob) (cl_net cl)) (\<lambda>(ret, done_list, t, e).
     let cl1 = put_object i (ob\<lparr>op_trans := t\<rparr>) (cl\<lparr>cl_net := e\<rparr>) in
     if 0 < ret then finish_all i done_list cl1 else Inr cl1))"

definition handleOutputImp :: "nat \<Rightarrow> Client \<Rightarrow> Client result" where
  "handleOutputImp i cl = bindE (Transceiver_doRequest i cl) (\<lambda>(_, cl1). Inr cl1)"

text \<open>What an \<open>FDInfo*\<close> points to: the notification of a client thread or a transceiver's \<open>fdInfo_\<close>,
  whose \<open>type\<close> tells them apart.\<close>

datatype fd_source = Notification nat | Connected nat

definition info_at :: "u64 \<Rightarrow> Client \<Rightarrow> fd_source result" where
  "info_at addr cl =
     (case find (\<lambda>seq. notify_addr seq cl = addr) [0..<length (ce_notify (cl_epoll cl))] of
        Some seq \<Rightarrow> Inr (Notification seq)
      | None \<Rightarrow>
          (case find (\<lambda>i. tr_fdInfo (op_trans (cl_objects cl ! i)) = addr) [0..<length (cl_objects cl)] of
             Some i \<Rightarrow> Inr (Connected i)
           | None \<Rightarrow> Inl OutOfBounds))"

definition has_flag :: "u32 \<Rightarrow> u32 \<Rightarrow> bool" where
  "has_flag events flag \<longleftrightarrow> events AND flag \<noteq> 0"

definition CommunicatorEpoll_handle :: "(string \<Rightarrow> u32) \<Rightarrow> fd_source \<Rightarrow> u32 \<Rightarrow> Client \<Rightarrow> Client result" where
  "CommunicatorEpoll_handle inet_addr info events cl =
     (case info of
        Notification seq \<Rightarrow>
          bindE (notify_at seq cl) (\<lambda>n.
          bindE (queue_at (fi_p (ni_fd_info n)) cl) (\<lambda>q.
          handle_queue inet_addr (Suc (length (lq_p q))) (fi_seq (ni_fd_info n)) (the (fi_p (ni_fd_info n))) cl))
      | Connected i \<Rightarrow>
          bindE (if has_flag events EPOLLIN then handleInputImp i cl else Inr cl) (\<lambda>cl1.
          if has_flag events EPOLLOUT then handleOutputImp i cl1 else Inr cl1))"

definition CommunicatorEpoll_event :: "(string \<Rightarrow> u32) \<Rightarrow> epoll_event \<Rightarrow> Client \<Rightarrow> Client result" where
  "CommunicatorEpoll_event inet_addr ev cl =
     (if ev_data ev = 0 then Inr cl
      else bindE (info_at (ev_data ev) cl) (\<lambda>info. CommunicatorEpoll_handle inet_addr info (ev_events ev) cl))"

text \<open>\<open>run\<close> over the events of successive \<open>epoll_wait\<close> calls. Nothing \<open>handle\<close> does throws, so its
  handlers for exceptions have no part in the model.\<close>

fun CommunicatorEpoll_run :: "(string \<Rightarrow> u32) \<Rightarrow> epoll_event list list \<Rightarrow> Client \<Rightarrow> Client result" where
  "CommunicatorEpoll_run inet_addr [] cl = Inr cl"
| "CommunicatorEpoll_run inet_addr (evs # rest) cl =
     (if ce_terminate (cl_epoll cl) then Inr cl
      else bindE (fold_result (CommunicatorEpoll_event inet_addr) evs cl) (CommunicatorEpoll_run inet_addr rest))"

fun terminate_threads :: "tid \<Rightarrow> AsyncProcThread list \<Rightarrow> AsyncProcThread list result" where
  "terminate_threads t [] = Inr []"
| "terminate_threads t (th # ths) =
     bindE (AsyncProcThread_terminate t th) (\<lambda>th1. bindE (terminate_threads t ths) (\<lambda>ths1. Inr (th1 # ths1)))"

definition CommunicatorEpoll_terminate :: "tid \<Rightarrow> Client \<Rightarrow> Client result" where
  "CommunicatorEpoll_terminate t cl =
     (let ce = cl_epoll cl in
      bindE (terminate_threads t (ce_asyncThread ce)) (\<lambda>ths.
      Inr (put_kernel (Epoller_mod (sk_fd (ce_shutdown ce)) 0 EPOLLOUT (cn_epoller (cl_net cl)) (cn_kernel (cl_net cl)))
        (cl\<lparr>cl_epoll := ce\<lparr>ce_terminate := True, ce_asyncThread := ths\<rparr>\<rparr>))))"

text \<open>\<open>get_objectProxy\<close>, \<open>add\<close> and \<open>del\<close>; the constructor without a communicator, which has a socket
  \<open>toserver_\<close> of its own.\<close>

definition CommunicatorEpoll_get_objectProxy :: "u64 \<Rightarrow> string \<Rightarrow> u16 \<Rightarrow> CommunicatorEpoll \<Rightarrow> nat \<times> CommunicatorEpoll" where
  "CommunicatorEpoll_get_objectProxy info ip port ce =
     (let (i, f) = get_objectProxy info ip port (ce_factory ce) in (i, ce\<lparr>ce_factory := f\<rparr>))"

definition CommunicatorEpoll_add :: "int \<Rightarrow> u64 \<Rightarrow> u32 \<Rightarrow> Client \<Rightarrow> Client" where
  "CommunicatorEpoll_add fd info events cl =
     put_kernel (Epoller_add fd info events (cn_epoller (cl_net cl)) (cn_kernel (cl_net cl))) cl"

definition CommunicatorEpoll_del :: "int \<Rightarrow> u64 \<Rightarrow> u32 \<Rightarrow> Client \<Rightarrow> Client" where
  "CommunicatorEpoll_del fd info events cl =
     put_kernel (Epoller_del fd info events (cn_epoller (cl_net cl)) (cn_kernel (cl_net cl))) cl"

definition CommunicatorEpoll_new_alone ::
    "(nat \<Rightarrow> u64) \<Rightarrow> nat \<Rightarrow> Kernel \<Rightarrow> (CommunicatorEpoll \<times> Socket \<times> Epoller \<times> Kernel) result" where
  "CommunicatorEpoll_new_alone addr netThreadSeq k =
     (let (ep, k1) = Epoller_create 1024 (Epoller_new True) k in
      bindE (Socket_createSocket AF_INET Socket_new k1) (\<lambda>(shutdown, k2).
      bindE (Socket_createSocket AF_INET Socket_new k2) (\<lambda>(toserver, k3).
      let k4 = Epoller_add (sk_fd shutdown) 0 EPOLLIN ep k3;
          k5 = Epoller_add (sk_fd toserver) 0 EPOLLIN ep k4 in
      bindE (AsyncProcThread_new 100) (\<lambda>th.
      Inr (\<lparr>ce_notify = replicate 2048 NotifyInfo_new, ce_notifyAddr = addr, ce_shutdown = shutdown, ce_asyncThreadNum = 1,
            ce_asyncThread = [th], ce_asyncSeq = 0, ce_terminate = False, ce_netThreadSeq = netThreadSeq,
            ce_factory = \<lparr>opf_objectProxys = Map.empty, opf_objectproxys = [], opf_objectNum = 0\<rparr>\<rparr>,
           toserver, ep, k5)))))"

section \<open>Heap and table lemmas\<close>

lemma client_simps [simp]:
  "cl_msgs (put_msg a m cl) = (cl_msgs cl)(a \<mapsto> m)" "cl_msgs (put_object i ob cl) = cl_msgs cl"
  "cl_net (put_msg a m cl) = cl_net cl" "cl_net (put_object i ob cl) = cl_net cl"
  "cl_objects (put_msg a m cl) = cl_objects cl" "cl_objects (put_object i ob cl) = (cl_objects cl)[i := ob]"
  "cl_objects (cl\<lparr>cl_net := e\<rparr>) = cl_objects cl" "cl_objects (cl\<lparr>cl_msgs := h\<rparr>) = cl_objects cl"
  by (simp_all add: put_msg_def put_object_def cl_objects_def Let_def)

lemma put_object_twice [simp]: "put_object i ob (put_object i ob' cl) = put_object i ob cl"
  by (simp add: put_object_def Let_def)

lemma msg_at_simps [simp]:
  "msg_at None cl = Inl NullDeref" "cl_msgs cl a = Some m \<Longrightarrow> msg_at (Some a) cl = Inr m"
  by (simp_all add: msg_at_def)

lemma object_at_simps [simp]:
  "object_at None cl = Inl NullDeref" "i < length (cl_objects cl) \<Longrightarrow> object_at (Some i) cl = Inr (cl_objects cl ! i)"
  by (simp_all add: object_at_def)

lemma notify_scope_ok:
  assumes "mon_owner m = None"
  shows "\<exists>m'. notify_scope t Monitor_notify m = Inr m' \<and> mon_owner m' = None \<and> mon_waiting m' = {} \<and>
    mon_woken m' = mon_woken m \<union> mon_waiting m"
  using assms
  by (simp add: notify_scope_def Lock_new_def Lock_destroy_def Monitor_lock_def Monitor_unlock_def Monitor_notify_def
      Mutex_lock_def Mutex_unlock_def pthread_mutex_lock_def pthread_mutex_unlock_def Monitor_notifyImpl_def wake_one_def
      deliver_def)

text \<open>The signals of a region wake what \<open>wake_one\<close> says when at most one thread waits.\<close>

lemma wake_one_run:
  assumes "card w \<le> 1" and "finite w" and "ops = replicate n Signal \<or> ops = [Broadcast]"
  shows "cond_run ops w (wake_one ops w)"
proof -
  have none: "cond_run (replicate k Signal) {} {}" for k
    by (induction k) (auto intro: cond_run.intros)
  consider "w = {}" | t where "w = {t}" using assms(1,2) by (metis card_0_eq card_1_singletonE le_0_eq le_Suc_eq One_nat_def)
  then show ?thesis
  proof cases
    case 1
    then show ?thesis using assms(3) none by (auto simp: wake_one_def intro: cond_run.intros)
  next
    case 2
    then show ?thesis using assms(3) none
      by (cases n) (auto simp: wake_one_def intro!: cond_run.intros cr_wake [of t])
  qed
qed

lemma response_id: "atoi (substr_before (find_colon (to_string (sint i) @ '':'' @ body)) (to_string (sint i) @ '':'' @ body)) = sint i"
  using find_colon_split(2) [OF to_string_no_colon, of "sint i" body] atoi_to_string [of "[]" "sint i"] by simp

lemma word_of_sint [simp]: "(word_of_int (sint w) :: u32) = w"
  by simp

section \<open>Sending and matching\<close>

text \<open>A proxy on a working connection.\<close>

definition proxy_ok :: "ObjectProxy \<Rightarrow> ClientNet \<Rightarrow> bool" where
  "proxy_ok ob e \<longleftrightarrow>
     tr_connected (op_trans ob) \<and> tr_fd (op_trans ob) \<noteq> -1 \<and> Transceiver_inv (op_trans ob) \<and>
     writes_ok (tr_fd (op_trans ob)) e \<and> TimeoutQueueNew_inv (op_timeoutQueue ob)"

definition proxy_ids :: "ObjectProxy \<Rightarrow> u32 set" where
  "proxy_ids ob = fst ` set (tq_entries (op_timeoutQueue ob))"

lemma send_list_pending: "TimeoutQueueNew_sendListEmpty q \<longleftrightarrow> tq_pending q = []"
  by (simp add: TimeoutQueueNew_sendListEmpty_def pending_Nil)

definition numbered :: "u32 \<Rightarrow> ReqMessage \<Rightarrow> ReqMessage" where
  "numbered rid m = m\<lparr>rm_requestId := rid, rm_reqData := frame (request_body rid (rm_request m))\<rparr>"

text \<open>Whatever the transceiver does, a numbered request with a fresh id ends up in the table.\<close>

lemma sendReqMessage_table:
  assumes i: "i < length (cl_objects cl)" and ok: "proxy_ok (cl_objects cl ! i) (cl_net cl)"
    and m: "cl_msgs cl a = Some m" and rid: "rid = ObjectProxy_generateId (op_id (cl_objects cl ! i))"
    and fresh: "rid \<notin> proxy_ids (cl_objects cl ! i)"
    and send: "(if tq_pending (op_timeoutQueue (cl_objects cl ! i)) = []
        then Transceiver_sendRequest (frame (request_body rid (rm_request m))) (op_trans (cl_objects cl ! i)) (cl_net cl)
        else Inr (retError, op_trans (cl_objects cl ! i), cl_net cl)) = Inr (ret, t, e)"
  shows "\<exists>q. TimeoutQueueNew_push (Some a) rid (1000 + rm_beginTime m) (ret \<noteq> retError) (op_timeoutQueue (cl_objects cl ! i)) = (True, q) \<and>
    TimeoutQueueNew_inv q \<and> tq_pending q = tq_pending (op_timeoutQueue (cl_objects cl ! i)) @ (if ret = retError then [rid] else []) \<and>
    sendReqMessage inet_addr (Some i) a cl =
      Inr (put_msg a (numbered rid m) (put_object i
        ((cl_objects cl ! i)\<lparr>op_trans := t, op_timeoutQueue := q, op_id := rid\<rparr>) (cl\<lparr>cl_net := e\<rparr>)))"
proof -
  let ?ob = "cl_objects cl ! i"
  have inv: "TimeoutQueueNew_inv (op_timeoutQueue ?ob)" and con: "tr_connected (op_trans ?ob)"
    using ok by (auto simp: proxy_ok_def)
  obtain flag q where q: "TimeoutQueueNew_push (Some a) rid (1000 + rm_beginTime m) (ret \<noteq> retError) (op_timeoutQueue ?ob) = (flag, q)"
    by fastforce
  have new: "rid \<notin> fst ` set (tq_entries (op_timeoutQueue ?ob))" using fresh by (simp add: proxy_ids_def)
  have flag: flag and qi: "TimeoutQueueNew_inv q"
    and pend: "tq_pending q = tq_pending (op_timeoutQueue ?ob) @ (if ret = retError then [rid] else [])"
    using push_fields(1) [OF inv new q] push_inv [OF inv new q] push_abs(2) [OF inv new q] by auto
  have "sendReqMessage inet_addr (Some i) a cl =
      Inr (put_msg a (numbered rid m) (put_object i (?ob\<lparr>op_trans := t, op_timeoutQueue := q, op_id := rid\<rparr>) (cl\<lparr>cl_net := e\<rparr>)))"
    using i m con send q flag
    by (simp add: sendReqMessage_def send_list_pending numbered_def Let_def flip: rid split: if_splits)
  then show ?thesis using q flag qi pend by auto
qed

lemma finishInvoke_entry:
  assumes i: "i < length (cl_objects cl)" and inv: "TimeoutQueueNew_inv (op_timeoutQueue (cl_objects cl ! i))"
    and e: "TimeoutQueueNew_erase rid None (op_timeoutQueue (cl_objects cl ! i)) = Inr (True, Some a, q)"
    and m: "cl_msgs cl a = Some m" "rm_type m = SYNC_CALL" "rm_monitor m = Some mon" "mon_owner mon = None"
  shows "\<exists>mon'. finishInvoke i (to_string (sint rid) @ '':'' @ body) cl =
      Inr (put_msg a (m\<lparr>rm_response := to_string (sint rid) @ '':'' @ body, rm_monitor := Some mon', rm_monitorFin := True\<rparr>)
        (put_object i ((cl_objects cl ! i)\<lparr>op_timeoutQueue := q\<rparr>) cl)) \<and>
    mon_owner mon' = None \<and> mon_waiting mon' = {} \<and> mon_woken mon' = mon_woken mon \<union> mon_waiting mon"
proof -
  obtain mon' where mon': "notify_scope net_thread Monitor_notify mon = Inr mon'" "mon_owner mon' = None" "mon_waiting mon' = {}"
    "mon_woken mon' = mon_woken mon \<union> mon_waiting mon" using notify_scope_ok [OF m(4)] by blast
  have "finishInvoke i (to_string (sint rid) @ '':'' @ body) cl =
      Inr (put_msg a (m\<lparr>rm_response := to_string (sint rid) @ '':'' @ body, rm_monitor := Some mon', rm_monitorFin := True\<rparr>)
        (put_object i ((cl_objects cl ! i)\<lparr>op_timeoutQueue := q\<rparr>) cl))"
    using i e m mon'(1) unfolding finishInvoke_def response_id Let_def
    by (simp add: finishInvoke_msg_def) (simp add: put_msg_def)
  then show ?thesis using mon' by blast
qed

text \<open>The proxy after a request: it still works, and the request is in its table under the next id.\<close>

definition after_send :: "u32 \<Rightarrow> nat \<Rightarrow> ReqMessage \<Rightarrow> ObjectProxy \<Rightarrow> ClientNet \<Rightarrow> ObjectProxy \<Rightarrow> ClientNet \<Rightarrow> bool" where
  "after_send rid a m ob e ob' e' \<longleftrightarrow>
     proxy_ok ob' e' \<and> op_id ob' = rid \<and> proxy_ids ob' = insert rid (proxy_ids ob) \<and>
     tr_fd (op_trans ob') = tr_fd (op_trans ob) \<and> tr_receiveBuffer (op_trans ob') = tr_receiveBuffer (op_trans ob) \<and>
     (rid, 1000 + rm_beginTime m, Some a) \<in> set (tq_entries (op_timeoutQueue ob')) \<and>
     (\<forall>t. \<exists>q. TimeoutQueueNew_erase rid t (op_timeoutQueue ob') = Inr (True, Some a, q) \<and> TimeoutQueueNew_inv q \<and>
        tq_entries q = tq_entries (op_timeoutQueue ob)) \<and>
     (if tq_pending (op_timeoutQueue ob) = [] \<and> Buffer_contents (tr_sendBuffer (op_trans ob)) = []
      then out_stream (op_trans ob') e' = out_stream (op_trans ob) e @ frame (request_body rid (rm_request m)) \<and>
        tq_pending (op_timeoutQueue ob') = []
      else op_trans ob' = op_trans ob \<and> e' = e \<and> tq_pending (op_timeoutQueue ob') = tq_pending (op_timeoutQueue ob) @ [rid])"

lemma sendReqMessage_step:
  assumes i: "i < length (cl_objects cl)" and ok: "proxy_ok (cl_objects cl ! i) (cl_net cl)"
    and m: "cl_msgs cl a = Some m" and rid: "rid = ObjectProxy_generateId (op_id (cl_objects cl ! i))"
    and fresh: "rid \<notin> proxy_ids (cl_objects cl ! i)" and small: "length (rm_request m) < 2 ^ 30"
  shows "\<exists>ob' e'. sendReqMessage inet_addr (Some i) a cl =
      Inr (put_msg a (numbered rid m) (put_object i ob' (cl\<lparr>cl_net := e'\<rparr>))) \<and>
    after_send rid a m (cl_objects cl ! i) (cl_net cl) ob' e'"
proof -
  let ?ob = "cl_objects cl ! i"
  let ?t = "op_trans ?ob" and ?q = "op_timeoutQueue ?ob" and ?e = "cl_net cl"
  let ?free = "tq_pending ?q = [] \<and> Buffer_contents (tr_sendBuffer ?t) = []"
  let ?data = "frame (request_body rid (rm_request m))"
  have inv: "Transceiver_inv ?t" "TimeoutQueueNew_inv ?q" and con: "tr_connected ?t" "tr_fd ?t \<noteq> -1" "writes_ok (tr_fd ?t) ?e"
    using ok by (auto simp: proxy_ok_def)
  have "\<exists>ret b e'. (if tq_pending ?q = [] then Transceiver_sendRequest ?data ?t ?e else Inr (retError, ?t, ?e)) =
        Inr (ret, ?t\<lparr>tr_sendBuffer := b\<rparr>, e') \<and> Buffer_inv b \<and> writes_ok (tr_fd ?t) e' \<and>
      (if ?free then ret \<noteq> retError \<and> out_stream (?t\<lparr>tr_sendBuffer := b\<rparr>) e' = out_stream ?t ?e @ ?data
       else ret = retError \<and> b = tr_sendBuffer ?t \<and> e' = ?e)"
  proof (cases ?free)
    case True
    then show ?thesis using sendRequest_free [OF con(2,3) inv(1), of ?data] frame_small [OF small] by auto
  next
    case False
    then have "(if tq_pending ?q = [] then Transceiver_sendRequest ?data ?t ?e else Inr (retError, ?t, ?e)) = Inr (retError, ?t, ?e)"
      using sendRequest_busy [of ?t ?data ?e] inv(1) by (auto simp: Transceiver_inv_def)
    then show ?thesis using False con(3) inv(1)
      by (intro exI [of _ retError] exI [of _ "tr_sendBuffer ?t"] exI [of _ ?e]) (auto simp: Transceiver_inv_def)
  qed
  then obtain ret b e' where s: "(if tq_pending ?q = [] then Transceiver_sendRequest ?data ?t ?e else Inr (retError, ?t, ?e)) =
        Inr (ret, ?t\<lparr>tr_sendBuffer := b\<rparr>, e')" "Buffer_inv b" "writes_ok (tr_fd ?t) e'"
      "if ?free then ret \<noteq> retError \<and> out_stream (?t\<lparr>tr_sendBuffer := b\<rparr>) e' = out_stream ?t ?e @ ?data
       else ret = retError \<and> b = tr_sendBuffer ?t \<and> e' = ?e" by blast
  obtain q where q: "TimeoutQueueNew_push (Some a) rid (1000 + rm_beginTime m) (ret \<noteq> retError) ?q = (True, q)" "TimeoutQueueNew_inv q"
      "tq_pending q = tq_pending ?q @ (if ret = retError then [rid] else [])"
      "sendReqMessage inet_addr (Some i) a cl = Inr (put_msg a (numbered rid m) (put_object i
        (?ob\<lparr>op_trans := ?t\<lparr>tr_sendBuffer := b\<rparr>, op_timeoutQueue := q, op_id := rid\<rparr>) (cl\<lparr>cl_net := e'\<rparr>)))"
    using sendReqMessage_table [OF i ok m rid fresh s(1)] by blast
  have new: "rid \<notin> fst ` set (tq_entries ?q)" using fresh by (simp add: proxy_ids_def)
  have ent: "tq_entries q = entry_insert (rid, 1000 + rm_beginTime m, Some a) (tq_entries ?q)" by (rule push_abs(1) [OF inv(2) new q(1)])
  have mem: "set (entry_insert x xs) = insert x (set xs)" for x :: "u32 \<times> int \<times> nat option" and xs
    by (auto simp: entry_insert_def dest: set_takeWhileD set_dropWhileD)
      (metis UnE set_append takeWhile_dropWhile_id)
  let ?ob' = "?ob\<lparr>op_trans := ?t\<lparr>tr_sendBuffer := b\<rparr>, op_timeoutQueue := q, op_id := rid\<rparr>"
  have "after_send rid a m ?ob ?e ?ob' e'"
    unfolding after_send_def
  proof (intro conjI allI)
    show "proxy_ok ?ob' e'" using s(2,3) q(2) inv con by (simp add: proxy_ok_def Transceiver_inv_def)
    show "proxy_ids ?ob' = insert rid (proxy_ids ?ob)" by (simp add: proxy_ids_def ent mem)
    show "\<exists>q'. TimeoutQueueNew_erase rid t (op_timeoutQueue ?ob') = Inr (True, Some a, q') \<and> TimeoutQueueNew_inv q' \<and>
        tq_entries q' = tq_entries ?q" for t
      using erase_after_push [OF inv(2) new q(1), of t] by auto
    show "if ?free then out_stream (op_trans ?ob') e' = out_stream ?t ?e @ ?data \<and> tq_pending (op_timeoutQueue ?ob') = []
      else op_trans ?ob' = ?t \<and> e' = ?e \<and> tq_pending (op_timeoutQueue ?ob') = tq_pending ?q @ [rid]"
      using s(4) q(3) by (auto split: if_splits)
  qed (simp_all add: ent mem)
  then show ?thesis using q(4) by blast
qed

lemma send_then_finish:
  assumes i: "i < length (cl_objects cl)" and ok: "proxy_ok (cl_objects cl ! i) (cl_net cl)"
    and m: "cl_msgs cl a = Some m" and rid: "rid = ObjectProxy_generateId (op_id (cl_objects cl ! i))"
    and fresh: "rid \<notin> proxy_ids (cl_objects cl ! i)" and small: "length (rm_request m) < 2 ^ 30"
    and sync: "rm_type m = SYNC_CALL" "rm_monitor m = Some mon" "mon_owner mon = None"
  shows "\<exists>ob' e' cl1 cl2 mon' q. sendReqMessage inet_addr (Some i) a cl = Inr cl1 \<and>
    cl1 = put_msg a (numbered rid m) (put_object i ob' (cl\<lparr>cl_net := e'\<rparr>)) \<and>
    after_send rid a m (cl_objects cl ! i) (cl_net cl) ob' e' \<and>
    finishInvoke i (to_string (sint rid) @ '':'' @ body) cl1 = Inr cl2 \<and>
    cl_msgs cl2 = (cl_msgs cl)(a \<mapsto> (numbered rid m)\<lparr>rm_response := to_string (sint rid) @ '':'' @ body,
      rm_monitor := Some mon', rm_monitorFin := True\<rparr>) \<and>
    mon_waiting mon' = {} \<and> mon_woken mon' = mon_woken mon \<union> mon_waiting mon \<and>
    cl_objects cl2 = (cl_objects cl)[i := ob'\<lparr>op_timeoutQueue := q\<rparr>] \<and>
    tq_entries q = tq_entries (op_timeoutQueue (cl_objects cl ! i))"
proof -
  obtain ob' e' where s: "sendReqMessage inet_addr (Some i) a cl =
      Inr (put_msg a (numbered rid m) (put_object i ob' (cl\<lparr>cl_net := e'\<rparr>)))"
    "after_send rid a m (cl_objects cl ! i) (cl_net cl) ob' e'"
    using sendReqMessage_step [OF i ok m rid fresh small] by blast
  let ?cl = "put_msg a (numbered rid m) (put_object i ob' (cl\<lparr>cl_net := e'\<rparr>))"
  have o: "cl_objects ?cl ! i = ob'" "i < length (cl_objects ?cl)" using i by simp_all
  obtain q where q: "TimeoutQueueNew_erase rid None (op_timeoutQueue ob') = Inr (True, Some a, q)"
    "tq_entries q = tq_entries (op_timeoutQueue (cl_objects cl ! i))"
    using s(2) by (auto simp: after_send_def)
  have inv: "TimeoutQueueNew_inv (op_timeoutQueue ob')" using s(2) by (simp add: after_send_def proxy_ok_def)
  have nm: "cl_msgs ?cl a = Some (numbered rid m)" "rm_type (numbered rid m) = SYNC_CALL" "rm_monitor (numbered rid m) = Some mon"
    using sync by (simp_all add: numbered_def)
  obtain mon' where f: "finishInvoke i (to_string (sint rid) @ '':'' @ body) ?cl =
      Inr (put_msg a ((numbered rid m)\<lparr>rm_response := to_string (sint rid) @ '':'' @ body, rm_monitor := Some mon', rm_monitorFin := True\<rparr>)
        (put_object i (ob'\<lparr>op_timeoutQueue := q\<rparr>) ?cl))" "mon_waiting mon' = {}" "mon_woken mon' = mon_woken mon \<union> mon_waiting mon"
    using finishInvoke_entry [OF o(2), of rid a q, unfolded o(1), OF inv q(1) nm sync(3), of body] by blast
  show ?thesis
    using s f q(2)
    by (intro exI [of _ ob'] exI [of _ e'] exI [of _ ?cl] exI [of _ "put_msg a ((numbered rid m)\<lparr>rm_response := to_string (sint rid) @ '':'' @ body,
        rm_monitor := Some mon', rm_monitorFin := True\<rparr>) (put_object i (ob'\<lparr>op_timeoutQueue := q\<rparr>) ?cl)"] exI [of _ mon'] exI [of _ q]) simp
qed

lemma finishInvoke_unknown:
  assumes i: "i < length (cl_objects cl)" and inv: "TimeoutQueueNew_inv (op_timeoutQueue (cl_objects cl ! i))"
    and new: "rid \<notin> proxy_ids (cl_objects cl ! i)"
  shows "finishInvoke i (to_string (sint rid) @ '':'' @ body) cl = Inr cl"
proof -
  have "put_object i ((cl_objects cl ! i)\<lparr>op_timeoutQueue := op_timeoutQueue (cl_objects cl ! i)\<rparr>) cl = cl"
    by (simp add: put_object_def cl_objects_def Let_def)
  then show ?thesis using i erase_unknown [OF inv, of rid] new
    unfolding finishInvoke_def response_id Let_def by (simp add: proxy_ids_def)
qed

text \<open>A request that waits to be sent.\<close>

lemma doRequest_stuck:
  assumes i: "i < length (cl_objects cl)" and ok: "proxy_ok (cl_objects cl ! i) (cl_net cl)"
    and free: "Buffer_contents (tr_sendBuffer (op_trans (cl_objects cl ! i))) = []"
    and pend: "tq_pending (op_timeoutQueue (cl_objects cl ! i)) \<noteq> []"
    and real: "None \<notin> snd ` snd ` set (tq_entries (op_timeoutQueue (cl_objects cl ! i)))"
  shows "Transceiver_doRequest i cl = Inl AssertFailed"
proof -
  let ?ob = "cl_objects cl ! i"
  have inv: "Transceiver_inv (op_trans ?ob)" "TimeoutQueueNew_inv (op_timeoutQueue ?ob)" using ok by (auto simp: proxy_ok_def)
  have f: "doRequest_flush (op_trans ?ob) (cl_net cl) = Inr (None, op_trans ?ob, cl_net cl)"
    using free inv(1) by (simp add: doRequest_flush_def Buffer_empty_iff Transceiver_inv_def)
  have same: "put_object i (?ob\<lparr>op_trans := op_trans ?ob\<rparr>) (cl\<lparr>cl_net := cl_net cl\<rparr>) = cl"
    by (simp add: put_object_def cl_objects_def Let_def)
  have "doInvoke i cl = Some (Inl AssertFailed)"
    using i pend getSend_fails [OF inv(2) pend real, of None] by (subst doInvoke.simps) (simp add: send_list_pending)
  then show ?thesis using i f same by (simp add: Transceiver_doRequest_def Let_def)
qed

section \<open>Draining a client thread's queue\<close>

lemma put_queue_simps [simp]:
  "cl_msgs (put_queue a q cl) = cl_msgs cl" "cl_objects (put_queue a q cl) = cl_objects cl" "cl_net (put_queue a q cl) = cl_net cl"
  "cl_queues (put_queue a q cl) = (cl_queues cl)(a := q)" "cl_queues (put_msg b m cl) = cl_queues cl"
  "cl_queues (put_object i ob cl) = cl_queues cl" "cl_epoll (put_queue a q cl) = cl_epoll cl"
  "cl_epoll (put_msg b m cl) = cl_epoll cl" "ce_notify (cl_epoll (put_object i ob cl)) = ce_notify (cl_epoll cl)"
  by (simp_all add: put_queue_def put_msg_def put_object_def cl_objects_def Let_def)

lemma queue_at_Some [simp]: "cl_queues cl a = Some q \<Longrightarrow> queue_at (Some a) cl = Inr q"
  by (simp add: queue_at_def)

text \<open>Ids are handed out in increasing order until the counter wraps.\<close>

definition ids_below :: "ObjectProxy \<Rightarrow> bool" where
  "ids_below ob \<longleftrightarrow> (\<forall>r \<in> proxy_ids ob. r \<le> op_id ob)"

lemma generateId_next:
  assumes "unat i + 1 < 2 ^ 32"
  shows "ObjectProxy_generateId i = i + 1" "unat (i + 1) = unat i + 1" "i < i + 1"
proof -
  show u: "unat (i + 1) = unat i + 1" using unat_add_less [of i 1] assms by simp
  then have "i + 1 \<noteq> 0" by (metis add_eq_0_iff_both_eq_0 one_neq_zero unat_0)
  then show "ObjectProxy_generateId i = i + 1" by (simp add: ObjectProxy_generateId_def)
  show "i < i + 1" using u by (simp add: word_less_nat_alt)
qed

definition sendable :: "nat \<Rightarrow> Client \<Rightarrow> nat \<Rightarrow> bool" where
  "sendable i cl a \<longleftrightarrow>
     (\<exists>m. cl_msgs cl a = Some m \<and> rm_type m \<noteq> THREAD_EXIT \<and> rm_objectProxy m = Some i \<and>
       length (rm_request m) < 2 ^ 30)"

text \<open>The messages \<open>as\<close> numbered from \<open>n + 1\<close> on.\<close>

fun number_from :: "u32 \<Rightarrow> nat list \<Rightarrow> (nat \<Rightarrow> ReqMessage option) \<Rightarrow> nat \<Rightarrow> ReqMessage option" where
  "number_from n [] h = h"
| "number_from n (a # as) h = number_from (n + 1) as (h(a := map_option (numbered (n + 1)) (h a)))"

lemma number_from_other: "a \<notin> set as \<Longrightarrow> number_from n as h a = h a"
  by (induction as arbitrary: n h) auto

lemma number_from_at:
  assumes "distinct as" and "k < length as"
  shows "number_from n as h (as ! k) = map_option (numbered (n + 1 + of_nat k)) (h (as ! k))"
  using assms
proof (induction as arbitrary: n h k)
  case (Cons a as)
  show ?case
  proof (cases k)
    case 0
    then show ?thesis using Cons.prems number_from_other [of a as] by simp
  next
    case (Suc j)
    then have "as ! j \<noteq> a" "j < length as" using Cons.prems by auto
    then show ?thesis using Cons.IH [of j "n + 1"] Cons.prems Suc by (simp add: algebra_simps)
  qed
qed simp

lemma handle_queue_drains:
  assumes "cl_queues cl qa = Some q" and "LoopQueue_inv q" and "LoopQueue_list q = as" and "length as < n" and "distinct as"
    and "\<forall>a \<in> set as. sendable i cl a" and "i < length (cl_objects cl)" and "proxy_ok (cl_objects cl ! i) (cl_net cl)"
    and "ids_below (cl_objects cl ! i)" and "unat (op_id (cl_objects cl ! i)) + length as < 2 ^ 32"
  shows "\<exists>cl' q' ob'. handle_queue inet_addr n seq qa cl = Inr cl' \<and> cl_queues cl' qa = Some q' \<and> LoopQueue_list q' = [] \<and>
    (\<forall>b. b \<noteq> qa \<longrightarrow> cl_queues cl' b = cl_queues cl b) \<and> ce_notify (cl_epoll cl') = ce_notify (cl_epoll cl) \<and>
    cl_msgs cl' = number_from (op_id (cl_objects cl ! i)) as (cl_msgs cl) \<and> cl_objects cl' = (cl_objects cl)[i := ob'] \<and>
    proxy_ok ob' (cl_net cl') \<and> ids_below ob' \<and> op_id ob' = op_id (cl_objects cl ! i) + of_nat (length as) \<and>
    proxy_ids ob' = proxy_ids (cl_objects cl ! i) \<union> {op_id (cl_objects cl ! i) + 1 + of_nat k |k. k < length as}"
  using assms
proof (induction as arbitrary: cl q n)
  case Nil
  obtain n' where n: "n = Suc n'" using Nil.prems(4) by (cases n) auto
  have "LoopQueue_pop_front q = Inr (None, q)" using ring.pop_empty_law Nil.prems(2,3) by blast
  then show ?case using Nil.prems n
    by (intro exI [of _ "put_queue qa (Some q) cl"] exI [of _ q] exI [of _ "cl_objects cl ! i"]) simp
next
  case (Cons a as)
  let ?ob = "cl_objects cl ! i" let ?n = "op_id (cl_objects cl ! i)"
  obtain n' where n: "n = Suc n'" using Cons.prems(4) by (cases n) auto
  obtain q1 where q1: "LoopQueue_pop_front q = Inr (Some a, q1)" "LoopQueue_inv q1" "LoopQueue_list q1 = as"
    using ring.pop_law [OF Cons.prems(2,3)] by blast
  obtain m where m: "cl_msgs cl a = Some m" "rm_type m \<noteq> THREAD_EXIT" "rm_objectProxy m = Some i"
    "length (rm_request m) < 2 ^ 30"
    using Cons.prems(6) by (auto simp: sendable_def)
  have small: "unat ?n + 1 < 2 ^ 32" using Cons.prems(10) by simp
  note g = generateId_next [OF small]
  have fresh: "?n + 1 \<notin> proxy_ids ?ob" using Cons.prems(9) g(3) by (auto simp: ids_below_def)
  let ?cl1 = "put_queue qa (Some q1) cl"
  obtain ob1 e1 where s: "sendReqMessage inet_addr (Some i) a ?cl1 =
      Inr (put_msg a (numbered (?n + 1) m) (put_object i ob1 (?cl1\<lparr>cl_net := e1\<rparr>)))" "after_send (?n + 1) a m ?ob (cl_net cl) ob1 e1"
    using sendReqMessage_step [of i ?cl1 a m "?n + 1" inet_addr] Cons.prems(7,8) m(1,4) fresh g(1) by auto
  let ?cl2 = "put_msg a (numbered (?n + 1) m) (put_object i ob1 (?cl1\<lparr>cl_net := e1\<rparr>))"
  have step: "handle_queue inet_addr n seq qa cl = handle_queue inet_addr n' seq qa ?cl2"
    using n Cons.prems(1) q1(1) m(1-3) s(1) by simp
  have ob1: "cl_objects ?cl2 ! i = ob1" "proxy_ok ob1 e1" "op_id ob1 = ?n + 1" "proxy_ids ob1 = insert (?n + 1) (proxy_ids ?ob)"
    using s(2) Cons.prems(7) by (simp_all add: after_send_def)
  have below: "ids_below ob1" using Cons.prems(9) ob1(3,4) g(3) by (auto simp: ids_below_def intro: order_trans [OF _ order.strict_implies_order])
  have send2: "\<forall>b \<in> set as. sendable i ?cl2 b" using Cons.prems(5,6) by (auto simp: sendable_def)
  have p: "cl_queues ?cl2 qa = Some q1" "length as < n'" "distinct as" "i < length (cl_objects ?cl2)" "proxy_ok ob1 (cl_net ?cl2)"
    "unat (?n + 1) + length as < 2 ^ 32"
    using n Cons.prems(4,5,7,10) ob1(2) g(2) by simp_all
  obtain cl' q' ob' where IH: "handle_queue inet_addr n' seq qa ?cl2 = Inr cl'" "cl_queues cl' qa = Some q'" "LoopQueue_list q' = []"
    "\<forall>b. b \<noteq> qa \<longrightarrow> cl_queues cl' b = cl_queues ?cl2 b" "ce_notify (cl_epoll cl') = ce_notify (cl_epoll ?cl2)" "cl_msgs cl' = number_from (?n + 1) as (cl_msgs ?cl2)" "cl_objects cl' = (cl_objects ?cl2)[i := ob']"
    "proxy_ok ob' (cl_net cl')" "ids_below ob'" "op_id ob' = ?n + 1 + of_nat (length as)"
    "proxy_ids ob' = proxy_ids ob1 \<union> {?n + 1 + 1 + of_nat k |k. k < length as}"
    using Cons.IH [OF p(1) q1(2,3) p(2,3) send2 p(4), unfolded ob1(1,3), OF p(5) below p(6)] by blast
  have ids: "insert (?n + 1) {?n + 1 + 1 + of_nat k |k. k < length as} = {?n + 1 + of_nat k |k. k < Suc (length as)}"
  proof (rule set_eqI)
    fix x
    have "(\<exists>k < Suc (length as). x = ?n + 1 + of_nat k) \<longleftrightarrow> x = ?n + 1 \<or> (\<exists>k < length as. x = ?n + 1 + 1 + of_nat k)"
      by (auto simp: Ex_less_Suc2 algebra_simps)
    then show "x \<in> insert (?n + 1) {?n + 1 + 1 + of_nat k |k. k < length as} \<longleftrightarrow> x \<in> {?n + 1 + of_nat k |k. k < Suc (length as)}"
      by blast
  qed
  have ids': "proxy_ids ob' = proxy_ids ?ob \<union> {?n + 1 + of_nat k |k. k < length (a # as)}"
    unfolding IH(11) ob1(4) list.size(4) add_Suc_right add_0_right ids [symmetric] by blast
  show ?case
    using step IH(1-10) ids' m(1) by (intro exI [of _ cl'] exI [of _ q'] exI [of _ ob']) simp
qed

section \<open>The callback thread\<close>

definition async_ok :: "AsyncProcThread \<Rightarrow> bool" where
  "async_ok th \<longleftrightarrow> LoopQueue_inv (ap_msgQueue th) \<and> mon_owner (ap_monitor th) = None \<and> \<not> ap_terminate th"

definition async_items :: "AsyncProcThread \<Rightarrow> nat list" where
  "async_items th = LoopQueue_list (ap_msgQueue th)"

definition async_room :: "AsyncProcThread \<Rightarrow> nat" where
  "async_room th = LoopQueue_room (ap_msgQueue th)"

lemma async_new: "\<exists>th. AsyncProcThread_new 100 = Inr th \<and> async_ok th \<and> async_items th = [] \<and> async_room th = 100"
proof -
  obtain q :: "nat LoopQueue" where "LoopQueue_new 100 = Inr q" "LoopQueue_inv q" "LoopQueue_list q = []" "LoopQueue_room q = 100"
    using LoopQueue_new_ok [of 100] by auto
  then show ?thesis by (simp add: AsyncProcThread_new_def async_ok_def async_items_def async_room_def Monitor_new_def)
qed

lemma async_push:
  assumes "async_ok th"
  shows "\<exists>th'. AsyncProcThread_push_back a th msgs =
      Inr (th', if length (async_items th) < async_room th then msgs else msgs(a := None)) \<and> async_ok th' \<and>
    async_room th' = async_room th \<and>
    async_items th' = (if length (async_items th) < async_room th then async_items th @ [a] else async_items th)"
proof -
  obtain q where q: "LoopQueue_push a (ap_msgQueue th) = Inr (length (async_items th) < async_room th, q)" "LoopQueue_inv q"
    "LoopQueue_room q = async_room th"
    "LoopQueue_list q = (if length (async_items th) < async_room th then async_items th @ [a] else async_items th)"
    using ring.push_step [of "ap_msgQueue th" a] assms by (auto simp: async_ok_def async_items_def async_room_def)
  obtain mon where "notify_scope net_thread Monitor_notify (ap_monitor th) = Inr mon" "mon_owner mon = None"
    using notify_scope_ok assms by (meson async_ok_def)
  then show ?thesis using q assms
    by (intro exI [of _ "th\<lparr>ap_msgQueue := q, ap_monitor := mon\<rparr>"])
      (simp add: AsyncProcThread_push_back_def async_ok_def async_items_def async_room_def)
qed

lemma async_push_all:
  assumes "async_ok th" and "length (async_items th) \<le> async_room th"
  shows "\<exists>th'. fold_result (\<lambda>a (th, msgs). AsyncProcThread_push_back a th msgs) as (th, msgs) =
      Inr (th', \<lambda>b. if b \<in> set (drop (async_room th - length (async_items th)) as) then None else msgs b) \<and>
    async_ok th' \<and> async_items th' = async_items th @ take (async_room th - length (async_items th)) as"
  using assms
proof (induction as arbitrary: th msgs)
  case (Cons a as)
  let ?free = "length (async_items th) < async_room th"
  obtain th1 where p: "AsyncProcThread_push_back a th msgs = Inr (th1, if ?free then msgs else msgs(a := None))" "async_ok th1"
    "async_room th1 = async_room th" "async_items th1 = (if ?free then async_items th @ [a] else async_items th)"
    using async_push [OF Cons.prems(1)] by blast
  have le: "length (async_items th1) \<le> async_room th1" using p(3,4) Cons.prems(2) by (cases ?free) auto
  obtain th' where t: "fold_result (\<lambda>a (th, msgs). AsyncProcThread_push_back a th msgs) as (th1, if ?free then msgs else msgs(a := None)) =
      Inr (th', \<lambda>b. if b \<in> set (drop (async_room th1 - length (async_items th1)) as) then None else (if ?free then msgs else msgs(a := None)) b)"
    "async_ok th'" "async_items th' = async_items th1 @ take (async_room th1 - length (async_items th1)) as"
    using Cons.IH [OF p(2) le] by blast
  have step: "fold_result (\<lambda>a (th, msgs). AsyncProcThread_push_back a th msgs) (a # as) (th, msgs) =
      fold_result (\<lambda>a (th, msgs). AsyncProcThread_push_back a th msgs) as (th1, if ?free then msgs else msgs(a := None))"
    using p(1) by simp
  show ?case
  proof (cases ?free)
    case True
    then obtain k where k: "async_room th - length (async_items th) = Suc k" "async_room th1 - length (async_items th1) = k"
      using p(3,4) by (metis Suc_diff_Suc diff_Suc_Suc length_append_singleton)
    show ?thesis unfolding step t(1) k by (intro exI [of _ th']) (use True t(2,3) p(4) k in simp)
  next
    case False
    then have k: "async_room th - length (async_items th) = 0" "async_room th1 - length (async_items th1) = 0"
      using p(3,4) Cons.prems(2) by auto
    show ?thesis unfolding step t(1) k by (intro exI [of _ th']) (use False t(2,3) p(4) k in \<open>auto simp: fun_eq_iff\<close>)
  qed
qed simp

definition call_of :: "(nat \<Rightarrow> ReqMessage option) \<Rightarrow> nat \<Rightarrow> nat option \<times> string" where
  "call_of msgs a = (rm_callback (the (msgs a)), rm_response (the (msgs a)))"

lemma async_turn_empty:
  assumes "async_ok th" and "async_items th = []"
  shows "AsyncProcThread_turn th msgs = Inr ([], th, msgs)"
  using ring.pop_empty_law [of "ap_msgQueue th"] assms by (simp add: AsyncProcThread_turn_def async_ok_def async_items_def)

lemma async_run_all:
  assumes "async_ok th" and "async_items th = as" and "distinct as" and "\<forall>a \<in> set as. msgs a \<noteq> None" and "length as \<le> n"
  shows "\<exists>th'. AsyncProcThread_run n th msgs = Inr (map (call_of msgs) as, th', \<lambda>b. if b \<in> set as then None else msgs b) \<and>
    async_ok th' \<and> async_items th' = []"
  using assms
proof (induction n arbitrary: th msgs as)
  case (Suc n)
  have live: "\<not> ap_terminate th" using Suc.prems(1) by (simp add: async_ok_def)
  show ?case
  proof (cases as)
    case Nil
    then have "AsyncProcThread_turn th msgs = Inr ([], th, msgs)" using Suc.prems by (intro async_turn_empty) simp_all
    then show ?thesis using Suc.IH [OF Suc.prems(1), of "[]" msgs] Suc.prems(2) live Nil by auto
  next
    case (Cons a bs)
    obtain q where q: "LoopQueue_pop_front (ap_msgQueue th) = Inr (Some a, q)" "LoopQueue_inv q" "LoopQueue_list q = bs"
      using ring.pop_law [of "ap_msgQueue th" a bs] Suc.prems(1,2) Cons by (auto simp: async_ok_def async_items_def)
    let ?th = "th\<lparr>ap_msgQueue := q\<rparr>" and ?msgs = "msgs(a := None)"
    obtain m where m: "msgs a = Some m" using Suc.prems(4) Cons by auto
    have turn: "AsyncProcThread_turn th msgs = Inr ([call_of msgs a], ?th, ?msgs)"
      using q(1) m by (simp add: AsyncProcThread_turn_def call_of_def)
    have ok: "async_ok ?th" "async_items ?th = bs" using Suc.prems(1) q by (simp_all add: async_ok_def async_items_def)
    have d: "distinct bs" "a \<notin> set bs" "length bs \<le> n" using Suc.prems(3,5) Cons by auto
    have p: "\<forall>b \<in> set bs. ?msgs b \<noteq> None" using Suc.prems(4) Cons d(2) by auto
    obtain th' where r: "AsyncProcThread_run n ?th ?msgs = Inr (map (call_of ?msgs) bs, th', \<lambda>b. if b \<in> set bs then None else ?msgs b)"
      "async_ok th'" "async_items th' = []" using Suc.IH [OF ok d(1) p d(3)] by blast
    have "map (call_of ?msgs) bs = map (call_of msgs) bs" using d(2) by (auto simp: call_of_def)
    then show ?thesis using live turn r Cons by (auto simp: fun_eq_iff)
  qed
qed simp

lemma async_batch:
  assumes "distinct as" and "\<forall>a \<in> set as. msgs a \<noteq> None"
  shows "\<exists>th th1 msgs1 th2 msgs2. AsyncProcThread_new 100 = Inr th \<and>
    fold_result (\<lambda>a (th, msgs). AsyncProcThread_push_back a th msgs) as (th, msgs) = Inr (th1, msgs1) \<and>
    AsyncProcThread_run (length as) th1 msgs1 = Inr (map (call_of msgs) (take 100 as), th2, msgs2) \<and>
    (\<forall>a \<in> set as. msgs2 a = None)"
proof -
  obtain th where th: "AsyncProcThread_new 100 = Inr th" "async_ok th" "async_items th = []" "async_room th = 100"
    using async_new by blast
  let ?msgs = "\<lambda>b. if b \<in> set (drop 100 as) then None else msgs b"
  obtain th1 where th1: "fold_result (\<lambda>a (th, msgs). AsyncProcThread_push_back a th msgs) as (th, msgs) = Inr (th1, ?msgs)"
    "async_ok th1" "async_items th1 = take 100 as"
    using async_push_all [OF th(2), of as msgs] th(3,4) by auto
  have dis: "set (take 100 as) \<inter> set (drop 100 as) = {}" using assms(1) by (rule set_take_disj_set_drop_if_distinct) simp
  have p: "\<forall>a \<in> set (take 100 as). ?msgs a \<noteq> None" using assms(2) dis by (auto dest: in_set_takeD)
  have l: "length (take 100 as) \<le> length as" by simp
  obtain th2 where th2: "AsyncProcThread_run (length as) th1 ?msgs =
      Inr (map (call_of ?msgs) (take 100 as), th2, \<lambda>b. if b \<in> set (take 100 as) then None else ?msgs b)"
    using async_run_all [OF th1(2,3) _ p l] assms(1) by auto
  have same: "map (call_of ?msgs) (take 100 as) = map (call_of msgs) (take 100 as)" using dis by (auto simp: call_of_def)
  have gone: "a \<in> set (take 100 as) \<or> a \<in> set (drop 100 as)" if "a \<in> set as" for a
    using that by (metis Un_iff append_take_drop_id set_append)
  show ?thesis
    by (intro exI [of _ th] exI [of _ th1] exI [of _ ?msgs] exI [of _ th2]
        exI [of _ "\<lambda>b. if b \<in> set (take 100 as) then None else ?msgs b"] conjI ballI)
      (use th(1) th1(1) th2 same gone in auto)
qed

section \<open>Properties\<close>

text \<open>A synchronous call is answered by its own response: a request handed to a proxy with a working
  connection is numbered, framed and sent or queued, and a response carrying its number stores itself
  in the message of that request, marks it finished and wakes the caller, leaves every other message
  alone, and takes the request out of the table. With nothing waiting, the frame follows directly on
  the bytes sent before.\<close>

theorem call_round_trip:
  assumes "i < length (cl_objects cl)" and "proxy_ok (cl_objects cl ! i) (cl_net cl)" and "cl_msgs cl a = Some m"
    and "rid = ObjectProxy_generateId (op_id (cl_objects cl ! i))" and "rid \<notin> proxy_ids (cl_objects cl ! i)"
    and "length (rm_request m) < 2 ^ 30"
    and "rm_type m = SYNC_CALL" and "rm_monitor m = Some mon" and "mon_owner mon = None"
    and "tq_pending (op_timeoutQueue (cl_objects cl ! i)) = []" and "Buffer_contents (tr_sendBuffer (op_trans (cl_objects cl ! i))) = []"
  shows "\<exists>cl1 cl2 m' mon'. sendReqMessage inet_addr (Some i) a cl = Inr cl1 \<and>
    out_stream (op_trans (cl_objects cl1 ! i)) (cl_net cl1) =
      out_stream (op_trans (cl_objects cl ! i)) (cl_net cl) @ frame (request_body rid (rm_request m)) \<and>
    finishInvoke i (to_string (sint rid) @ '':'' @ body) cl1 = Inr cl2 \<and>
    cl_msgs cl2 = (cl_msgs cl)(a \<mapsto> m') \<and> rm_response m' = to_string (sint rid) @ '':'' @ body \<and> rm_monitorFin m' \<and>
    rm_monitor m' = Some mon' \<and> mon_waiting mon' = {} \<and> mon_woken mon' = mon_woken mon \<union> mon_waiting mon \<and>
    tq_entries (op_timeoutQueue (cl_objects cl2 ! i)) = tq_entries (op_timeoutQueue (cl_objects cl ! i))"
proof -
  obtain ob' e' cl1 cl2 mon' q where s: "sendReqMessage inet_addr (Some i) a cl = Inr cl1"
    "cl1 = put_msg a (numbered rid m) (put_object i ob' (cl\<lparr>cl_net := e'\<rparr>))"
    "after_send rid a m (cl_objects cl ! i) (cl_net cl) ob' e'"
    "finishInvoke i (to_string (sint rid) @ '':'' @ body) cl1 = Inr cl2"
    "cl_msgs cl2 = (cl_msgs cl)(a \<mapsto> (numbered rid m)\<lparr>rm_response := to_string (sint rid) @ '':'' @ body,
      rm_monitor := Some mon', rm_monitorFin := True\<rparr>)"
    "mon_waiting mon' = {}" "mon_woken mon' = mon_woken mon \<union> mon_waiting mon"
    "cl_objects cl2 = (cl_objects cl)[i := ob'\<lparr>op_timeoutQueue := q\<rparr>]" "tq_entries q = tq_entries (op_timeoutQueue (cl_objects cl ! i))"
    using send_then_finish [OF assms(1-9), of inet_addr body] by blast
  have "out_stream (op_trans (cl_objects cl1 ! i)) (cl_net cl1) =
      out_stream (op_trans (cl_objects cl ! i)) (cl_net cl) @ frame (request_body rid (rm_request m))"
    using s(2,3) assms(1,10,11) by (simp add: after_send_def)
  then show ?thesis using s assms(1)
    by (intro exI [of _ cl1] exI [of _ cl2] exI [of _ mon'] exI [of _ "(numbered rid m)\<lparr>rm_response := to_string (sint rid) @ '':'' @ body,
      rm_monitor := Some mon', rm_monitorFin := True\<rparr>"]) simp
qed

definition sample_proxy :: ObjectProxy where
  "sample_proxy = \<lparr>op_trans = sample_transceiver, op_timeoutQueue = TimeoutQueueNew_new, op_id = 0\<rparr>"

definition sample_message :: ReqMessage where
  "sample_message = (ReqMessage_init SYNC_CALL ReqMessage_new)\<lparr>rm_request := request_text ''keepAlive'' ''x'',
     rm_objectProxy := Some 0, rm_monitor := Some (Monitor_new\<lparr>mon_waiting := {1}\<rparr>)\<rparr>"

definition sample_client :: Client where
  "sample_client =
     \<lparr>cl_net = sample_net, cl_msgs = [0 \<mapsto> sample_message], cl_queues = Map.empty, cl_fresh = 1,
      cl_epoll = \<lparr>ce_notify = [NotifyInfo_new], ce_notifyAddr = (\<lambda>i. of_nat (i + 1)), ce_shutdown = Socket_new, ce_asyncThreadNum = 1,
        ce_asyncThread = [], ce_asyncSeq = 0, ce_terminate = False, ce_netThreadSeq = 0,
        ce_factory = \<lparr>opf_objectProxys = Map.empty, opf_objectproxys = [sample_proxy], opf_objectNum = 1\<rparr>\<rparr>\<rparr>"

lemma sample_client_facts [simp]:
  "cl_objects sample_client = [sample_proxy]" "cl_msgs sample_client 0 = Some sample_message" "cl_net sample_client = sample_net"
  by (simp_all add: sample_client_def cl_objects_def)

lemma sample_proxy_facts [simp]:
  "proxy_ok sample_proxy sample_net" "proxy_ids sample_proxy = {}" "op_id sample_proxy = 0" "op_trans sample_proxy = sample_transceiver"
  "op_timeoutQueue sample_proxy = TimeoutQueueNew_new"
  by (simp_all add: sample_proxy_def proxy_ok_def proxy_ids_def writes_ok_def sample_net_def)

lemma sample_message_facts [simp]:
  "rm_type sample_message = SYNC_CALL" "rm_monitor sample_message = Some (Monitor_new\<lparr>mon_waiting := {1}\<rparr>)"
  "rm_request sample_message = ''keepAlive:x''" "rm_objectProxy sample_message = Some 0"
  by (simp_all add: sample_message_def ReqMessage_init_def ReqMessage_new_def request_text_def)

theorem call_round_trip_witness:
  "\<exists>cl1 cl2 m' mon'. sendReqMessage (\<lambda>_. 0) (Some 0) 0 sample_client = Inr cl1 \<and>
     out_stream (op_trans (cl_objects cl1 ! 0)) (cl_net cl1) = frame (request_body 1 ''keepAlive:x'') \<and>
     finishInvoke 0 (to_string (sint (1 :: u32)) @ '':'' @ ''hello'') cl1 = Inr cl2 \<and> cl_msgs cl2 0 = Some m' \<and>
     rm_response m' = to_string (sint (1 :: u32)) @ '':'' @ ''hello'' \<and> rm_monitorFin m' \<and> rm_monitor m' = Some mon' \<and> mon_woken mon' = {1}"
proof -
  have g: "(1 :: u32) = ObjectProxy_generateId (op_id (cl_objects sample_client ! 0))" by (simp add: ObjectProxy_generateId_def)
  have l: "length (rm_request sample_message) < 2 ^ 30" by simp
  have o: "out_stream sample_transceiver sample_net = []" by (simp add: out_stream_def sample_net_def)
  obtain cl1 cl2 m' mon' where "sendReqMessage (\<lambda>_. 0) (Some 0) 0 sample_client = Inr cl1"
    "out_stream (op_trans (cl_objects cl1 ! 0)) (cl_net cl1) =
      out_stream (op_trans (cl_objects sample_client ! 0)) (cl_net sample_client) @ frame (request_body 1 (rm_request sample_message))"
    "finishInvoke 0 (to_string (sint (1 :: u32)) @ '':'' @ ''hello'') cl1 = Inr cl2" "cl_msgs cl2 = (cl_msgs sample_client)(0 \<mapsto> m')"
    "rm_response m' = to_string (sint (1 :: u32)) @ '':'' @ ''hello''" "rm_monitorFin m'" "rm_monitor m' = Some mon'"
    "mon_woken mon' = mon_woken (Monitor_new\<lparr>mon_waiting := {1}\<rparr>) \<union> {1}"
    using call_round_trip [of 0 sample_client 0 sample_message, OF _ _ _ g _ l, of "Monitor_new\<lparr>mon_waiting := {1}\<rparr>" "\<lambda>_. 0" "''hello''"]
    by (auto simp: Monitor_new_def)
  then show ?thesis using o by (intro exI [of _ cl1] exI [of _ cl2] exI [of _ m'] exI [of _ mon']) (simp add: Monitor_new_def)
qed

text \<open>C21. A response goes to the message registered under its number and to no other, whatever else is in
  the table and in whatever order responses come; a response whose number is not in the table, a late
  or a repeated one, changes nothing.\<close>

theorem response_resolves_one:
  assumes "i < length (cl_objects cl)" and "TimeoutQueueNew_inv (op_timeoutQueue (cl_objects cl ! i))"
  shows "((rid, dl, Some a) \<in> set (tq_entries (op_timeoutQueue (cl_objects cl ! i))) \<and> cl_msgs cl a = Some m \<and>
      rm_type m = SYNC_CALL \<and> rm_monitor m = Some mon \<and> mon_owner mon = None \<longrightarrow>
      (\<exists>cl' m'. finishInvoke i (to_string (sint rid) @ '':'' @ body) cl = Inr cl' \<and> cl_msgs cl' = (cl_msgs cl)(a \<mapsto> m') \<and>
        rm_response m' = to_string (sint rid) @ '':'' @ body \<and> rm_monitorFin m' \<and>
        proxy_ids (cl_objects cl' ! i) = proxy_ids (cl_objects cl ! i) - {rid})) \<and>
    (rid \<notin> proxy_ids (cl_objects cl ! i) \<longrightarrow> finishInvoke i (to_string (sint rid) @ '':'' @ body) cl = Inr cl)"
proof (intro conjI impI)
  assume a: "(rid, dl, Some a) \<in> set (tq_entries (op_timeoutQueue (cl_objects cl ! i))) \<and> cl_msgs cl a = Some m \<and>
    rm_type m = SYNC_CALL \<and> rm_monitor m = Some mon \<and> mon_owner mon = None"
  then obtain q where q: "TimeoutQueueNew_erase rid None (op_timeoutQueue (cl_objects cl ! i)) = Inr (True, Some a, q)"
    "tq_entries q = filter (\<lambda>e. fst e \<noteq> rid) (tq_entries (op_timeoutQueue (cl_objects cl ! i)))"
    using erase_entry [OF assms(2)] by blast
  have "proxy_ids ((cl_objects cl ! i)\<lparr>op_timeoutQueue := q\<rparr>) = proxy_ids (cl_objects cl ! i) - {rid}"
    by (auto simp: proxy_ids_def q(2))
  moreover have a1: "cl_msgs cl a = Some m" "rm_type m = SYNC_CALL" "rm_monitor m = Some mon" "mon_owner mon = None" using a by simp_all
  then obtain mon' where "finishInvoke i (to_string (sint rid) @ '':'' @ body) cl =
      Inr (put_msg a (m\<lparr>rm_response := to_string (sint rid) @ '':'' @ body, rm_monitor := Some mon', rm_monitorFin := True\<rparr>)
        (put_object i ((cl_objects cl ! i)\<lparr>op_timeoutQueue := q\<rparr>) cl))"
    using finishInvoke_entry [OF assms q(1) a1, of body] by blast
  ultimately show "\<exists>cl' m'. finishInvoke i (to_string (sint rid) @ '':'' @ body) cl = Inr cl' \<and> cl_msgs cl' = (cl_msgs cl)(a \<mapsto> m') \<and>
        rm_response m' = to_string (sint rid) @ '':'' @ body \<and> rm_monitorFin m' \<and>
        proxy_ids (cl_objects cl' ! i) = proxy_ids (cl_objects cl ! i) - {rid}"
    using assms(1) by (intro exI [of _ "put_msg a (m\<lparr>rm_response := to_string (sint rid) @ '':'' @ body,
        rm_monitor := Some mon', rm_monitorFin := True\<rparr>) (put_object i ((cl_objects cl ! i)\<lparr>op_timeoutQueue := q\<rparr>) cl)"]
      exI [of _ "m\<lparr>rm_response := to_string (sint rid) @ '':'' @ body, rm_monitor := Some mon', rm_monitorFin := True\<rparr>"]) simp
qed (use finishInvoke_unknown [OF assms] in blast)

definition waiting_proxy :: ObjectProxy where
  "waiting_proxy = sample_proxy\<lparr>op_id := 1, op_timeoutQueue := snd (TimeoutQueueNew_push (Some 9) 1 1000 False TimeoutQueueNew_new)\<rparr>"

lemma waiting_proxy_facts:
  "proxy_ok waiting_proxy sample_net" "proxy_ids waiting_proxy = {1}" "op_id waiting_proxy = 1" "op_trans waiting_proxy = sample_transceiver"
  "tq_pending (op_timeoutQueue waiting_proxy) = [1]" "tq_entries (op_timeoutQueue waiting_proxy) = [(1, 1000, Some 9)]"
proof -
  have "TimeoutQueueNew_inv (snd (TimeoutQueueNew_push (Some (9 :: nat)) 1 1000 False TimeoutQueueNew_new))" by simp
  then show "proxy_ok waiting_proxy sample_net" using sample_proxy_facts(1)
    by (simp add: waiting_proxy_def proxy_ok_def del: sample_proxy_facts(1))
  show e: "tq_pending (op_timeoutQueue waiting_proxy) = [1]" "tq_entries (op_timeoutQueue waiting_proxy) = [(1, 1000, Some 9)]"
    by (simp_all add: waiting_proxy_def TimeoutQueueNew_push_def TimeoutQueueNew_new_def data_find_def Let_def
        tq_entries_def tq_pending_def tq_info_def)
  show "proxy_ids waiting_proxy = {1}" by (simp add: proxy_ids_def e)
qed (simp_all add: waiting_proxy_def)

theorem response_resolves_one_witness:
  "\<exists>cl' m'. finishInvoke 0 (to_string (sint (1 :: u32)) @ '':'' @ ''pong'') (put_msg 9 sample_message (put_object 0 waiting_proxy sample_client)) = Inr cl' \<and>
     cl_msgs cl' 9 = Some m' \<and> cl_msgs cl' 0 = Some sample_message \<and> rm_response m' = to_string (sint (1 :: u32)) @ '':'' @ ''pong'' \<and>
     proxy_ids (cl_objects cl' ! 0) = {}"
proof -
  have "TimeoutQueueNew_inv (op_timeoutQueue waiting_proxy)" using waiting_proxy_facts(1) by (simp add: proxy_ok_def)
  then obtain cl' m' where "finishInvoke 0 (to_string (sint (1 :: u32)) @ '':'' @ ''pong'') (put_msg 9 sample_message (put_object 0 waiting_proxy sample_client)) = Inr cl'"
    "cl_msgs cl' = (cl_msgs sample_client)(9 \<mapsto> m')" "rm_response m' = to_string (sint (1 :: u32)) @ '':'' @ ''pong''"
    "proxy_ids (cl_objects cl' ! 0) = {}"
    using response_resolves_one [of 0 "put_msg 9 sample_message (put_object 0 waiting_proxy sample_client)" 1 1000 9 sample_message
        "Monitor_new\<lparr>mon_waiting := {1}\<rparr>" "''pong''"]
    by (auto simp: waiting_proxy_facts Monitor_new_def)
  then show ?thesis by (intro exI [of _ cl'] exI [of _ m']) simp
qed



text \<open>C23. The network thread takes every request a client thread has queued: handling its notification
  ends, leaves the queue empty, and numbers the requests consecutively in the order they were queued,
  each registered in the proxy's table under its number.\<close>

theorem notification_drained:
  assumes "notify_at seq cl = Inr n" and "fi_p (ni_fd_info n) = Some qa" and "cl_queues cl qa = Some q" and "LoopQueue_inv q"
    and "distinct (LoopQueue_list q)" and "\<forall>a \<in> set (LoopQueue_list q). sendable i cl a" and "i < length (cl_objects cl)"
    and "proxy_ok (cl_objects cl ! i) (cl_net cl)" and "ids_below (cl_objects cl ! i)"
    and "unat (op_id (cl_objects cl ! i)) + length (LoopQueue_list q) < 2 ^ 32"
  shows "\<exists>cl' q'. CommunicatorEpoll_handle inet_addr (Notification seq) events cl = Inr cl' \<and> cl_queues cl' qa = Some q' \<and>
    LoopQueue_list q' = [] \<and>
    (\<forall>k < length (LoopQueue_list q). cl_msgs cl' (LoopQueue_list q ! k) =
       map_option (numbered (op_id (cl_objects cl ! i) + 1 + of_nat k)) (cl_msgs cl (LoopQueue_list q ! k))) \<and>
    proxy_ids (cl_objects cl' ! i) =
      proxy_ids (cl_objects cl ! i) \<union> {op_id (cl_objects cl ! i) + 1 + of_nat k |k. k < length (LoopQueue_list q)}"
proof -
  have "length (LoopQueue_list q) < Suc (length (lq_p q))" using LoopQueue_count_le [OF assms(4)] assms(4)
    by (simp add: LoopQueue_room_def LoopQueue_inv_def)
  from handle_queue_drains [OF assms(3,4) refl this assms(5-10), of inet_addr "fi_seq (ni_fd_info n)"]
  obtain cl' q' ob' where h: "handle_queue inet_addr (Suc (length (lq_p q))) (fi_seq (ni_fd_info n)) qa cl = Inr cl'"
    "cl_queues cl' qa = Some q'" "LoopQueue_list q' = []"
    "cl_msgs cl' = number_from (op_id (cl_objects cl ! i)) (LoopQueue_list q) (cl_msgs cl)" "cl_objects cl' = (cl_objects cl)[i := ob']"
    "proxy_ids ob' = proxy_ids (cl_objects cl ! i) \<union> {op_id (cl_objects cl ! i) + 1 + of_nat k |k. k < length (LoopQueue_list q)}"
    by blast
  have "CommunicatorEpoll_handle inet_addr (Notification seq) events cl = Inr cl'"
    using assms(1-3) h(1) by (simp add: CommunicatorEpoll_handle_def del: handle_queue.simps)
  then show ?thesis using h number_from_at [OF assms(5)] assms(7) by (intro exI [of _ cl'] exI [of _ q']) simp
qed

definition queued_client :: "nat LoopQueue \<Rightarrow> Client" where
  "queued_client q = put_notify 0 (NotifyInfo_new\<lparr>ni_valid := True, ni_fd_info := FDInfo_new\<lparr>fi_p := Some 5\<rparr>\<rparr>)
     (put_queue 5 (Some q) sample_client)"

lemma queued_client_facts [simp]:
  "notify_at 0 (queued_client q) = Inr (NotifyInfo_new\<lparr>ni_valid := True, ni_fd_info := FDInfo_new\<lparr>fi_p := Some 5\<rparr>\<rparr>)"
  "cl_queues (queued_client q) 5 = Some q" "cl_objects (queued_client q) = [sample_proxy]" "cl_net (queued_client q) = sample_net"
  "cl_msgs (queued_client q) 0 = Some sample_message"
  by (simp_all add: queued_client_def notify_at_def put_notify_def put_queue_def cl_objects_def sample_client_def)

theorem notification_drained_witness:
  "\<exists>q cl' q'. LoopQueue_list q = [0] \<and> CommunicatorEpoll_handle (\<lambda>_. 0) (Notification 0) 1 (queued_client q) = Inr cl' \<and>
     cl_queues cl' 5 = Some q' \<and> LoopQueue_list q' = [] \<and> cl_msgs cl' 0 = Some (numbered 1 sample_message)"
proof -
  obtain q0 :: "nat LoopQueue" where q0: "LoopQueue_inv q0" "LoopQueue_list q0 = []" "LoopQueue_room q0 = 1000"
    using LoopQueue_new_ok [of 1000] by auto
  obtain q where q: "LoopQueue_inv q" "LoopQueue_list q = [0 :: nat]"
    using ring.push_step [OF q0(1), of 0] q0(2,3) by auto
  have "sendable 0 (queued_client q) 0" by (simp add: sendable_def)
  moreover have "ids_below sample_proxy" by (simp add: ids_below_def)
  ultimately show ?thesis
    using notification_drained [of 0 "queued_client q" _ 5 q 0 "\<lambda>_. 0" 1] q
    by (intro exI [of _ q]) (auto simp: NotifyInfo_new_def FDInfo_new_def)
qed

text \<open>C24. The callback thread calls the callback of each finished asynchronous request once, with its
  response, in the order the requests finished, and then deletes the message; with more than 100 waiting
  the others are deleted and their callbacks never called.\<close>

theorem async_callbacks:
  assumes "distinct as" and "\<forall>a \<in> set as. msgs a \<noteq> None"
  shows "\<exists>th th1 msgs1 th2 msgs2. AsyncProcThread_new 100 = Inr th \<and>
    fold_result (\<lambda>a (th, msgs). AsyncProcThread_push_back a th msgs) as (th, msgs) = Inr (th1, msgs1) \<and>
    AsyncProcThread_run (length as) th1 msgs1 = Inr (map (call_of msgs) (take 100 as), th2, msgs2) \<and>
    (\<forall>a \<in> set as. msgs2 a = None)"
  using assms by (rule async_batch)

theorem async_callbacks_witness:
  "\<exists>th th1 msgs1 th2 msgs2. AsyncProcThread_new 100 = Inr th \<and>
     fold_result (\<lambda>a (th, msgs). AsyncProcThread_push_back a th msgs) [3, 4] (th, \<lambda>a. Some (sample_message\<lparr>rm_callback := Some a\<rparr>)) = Inr (th1, msgs1) \<and>
     AsyncProcThread_run 2 th1 msgs1 = Inr ([(Some 3, []), (Some 4, [])], th2, msgs2) \<and> msgs2 3 = None \<and> msgs2 4 = None"
proof -
  have r: "rm_response sample_message = []" by (simp add: sample_message_def ReqMessage_init_def ReqMessage_new_def)
  have "call_of (\<lambda>a. Some (sample_message\<lparr>rm_callback := Some a\<rparr>)) = (\<lambda>a. (Some a, []))" by (simp add: call_of_def r fun_eq_iff)
  then show ?thesis using async_callbacks [of "[3, 4]" "\<lambda>a. Some (sample_message\<lparr>rm_callback := Some a\<rparr>)"]
    by (simp add: numeral_2_eq_2 del: AsyncProcThread_run.simps)
qed

end
