(* ===== verification/Tarsx_ServantProxy.thy ===== *)
theory Tarsx_ServantProxy
  imports Tarsx_ObjectProxy
begin

text \<open>
  The caller's side of the client: \<open>ServantProxyThreadData\<close> (a calling thread's queues),
  \<open>ServantProxy\<close> (\<open>tars_invoke\<close>, \<open>tars_invoke_async\<close>) and \<open>Communicator\<close>. A call runs on the calling
  thread up to the point where it waits for its response; the network thread's part is
  \<open>Tarsx_ObjectProxy\<close>. The last sections take the two threads apart into single steps.
\<close>

section \<open>Thread data\<close>

text \<open>Pointers to queues; \<open>None\<close> where nothing was stored yet.\<close>

record ServantProxyThreadData =
  spt_reqQueue :: "nat option list"
  spt_queueInit :: bool
  spt_reqQNo :: nat
  spt_netSeq :: nat
  spt_netThreadSeq :: int
  spt_objectProxyNum :: nat
  spt_objectProxy :: "nat list"

definition ServantProxyThreadData_new :: ServantProxyThreadData where
  "ServantProxyThreadData_new =
     \<lparr>spt_reqQueue = replicate 64 None, spt_queueInit = False, spt_reqQNo = 0, spt_netSeq = 0, spt_netThreadSeq = -1,
      spt_objectProxyNum = 0, spt_objectProxy = []\<rparr>"

text \<open>The static key, the values threads store under keys, the thread data in memory. The results of
  \<open>pthread_key_create\<close> are the environment: a code and the key.\<close>

record ThreadKeys =
  tk_key :: nat
  tk_creates :: "(int \<times> nat) list"
  tk_specific :: "tid \<Rightarrow> nat \<Rightarrow> nat option"
  tk_data :: "nat \<Rightarrow> ServantProxyThreadData option"
  tk_fresh :: nat

definition key_create :: "ThreadKeys \<Rightarrow> bool \<times> ThreadKeys" where
  "key_create tk =
     (case tk_creates tk of
        [] \<Rightarrow> (False, tk)
      | (ret, key) # rest \<Rightarrow>
          if ret \<noteq> 0 then (False, tk\<lparr>tk_creates := rest\<rparr>) else (True, tk\<lparr>tk_creates := rest, tk_key := key\<rparr>))"

definition get_data :: "tid \<Rightarrow> ThreadKeys \<Rightarrow> nat option \<times> ThreadKeys" where
  "get_data t tk =
     (let (ok, tk1) = (if tk_key tk = 0 then key_create tk else (True, tk)) in
      if \<not> ok then (None, tk1)
      else
        (case tk_specific tk1 t (tk_key tk1) of
           Some d \<Rightarrow> (Some d, tk1)
         | None \<Rightarrow>
             let d = tk_fresh tk1 in
             (Some d, tk1\<lparr>tk_fresh := Suc d, tk_data := (tk_data tk1)(d \<mapsto> ServantProxyThreadData_new),
                         tk_specific := (tk_specific tk1)(t := (tk_specific tk1 t)(tk_key tk1 \<mapsto> d))\<rparr>)))"

text \<open>The destructor of the key, at the end of a thread.\<close>

definition ServantProxyThreadData_destructor :: "nat option \<Rightarrow> ThreadKeys \<Rightarrow> ThreadKeys" where
  "ServantProxyThreadData_destructor p tk =
     (case p of None \<Rightarrow> tk | Some d \<Rightarrow> tk\<lparr>tk_data := (tk_data tk)(d := None)\<rparr>)"

definition data_at :: "nat option \<Rightarrow> ThreadKeys \<Rightarrow> ServantProxyThreadData result" where
  "data_at p tk =
     (case p of None \<Rightarrow> Inl NullDeref
      | Some d \<Rightarrow> (case tk_data tk d of None \<Rightarrow> Inl OutOfBounds | Some sptd \<Rightarrow> Inr sptd))"

text \<open>\<open>CommunicatorEpoll::run\<close> from its start: it first stores the number of the network thread in the data of
  the thread it runs on.\<close>

definition CommunicatorEpoll_thread ::
    "tid \<Rightarrow> (string \<Rightarrow> u32) \<Rightarrow> epoll_event list list \<Rightarrow> ThreadKeys \<Rightarrow> Client \<Rightarrow> (ThreadKeys \<times> Client) result" where
  "CommunicatorEpoll_thread t inet_addr batches tk cl =
     (let (p, tk1) = get_data t tk in
      bindE (assertE (p \<noteq> None)) (\<lambda>_.
      bindE (data_at p tk1) (\<lambda>sptd.
      let seq = sint (of_nat (ce_netThreadSeq (cl_epoll cl)) :: i32);
          tk2 = tk1\<lparr>tk_data := (tk_data tk1)(the p \<mapsto> sptd\<lparr>spt_netThreadSeq := seq\<rparr>)\<rparr>
      in bindE (CommunicatorEpoll_run inet_addr batches cl) (\<lambda>cl'. Inr (tk2, cl')))))"

section \<open>ServantProxy\<close>

text \<open>\<open>sp_sptd\<close> is set by the first call and kept.\<close>

record ServantProxy =
  sp_sptd :: "nat option"
  sp_objectProxy :: "nat list"
  sp_objectProxyNum :: nat
  sp_queueSize :: int

definition ServantProxy_new :: "nat list \<Rightarrow> nat \<Rightarrow> ServantProxy" where
  "ServantProxy_new objectProxy clientThreadNum =
     \<lparr>sp_sptd = None, sp_objectProxy = objectProxy, sp_objectProxyNum = clientThreadNum, sp_queueSize = 1000\<rparr>"

definition vector_at :: "'a list \<Rightarrow> nat \<Rightarrow> 'a result" where
  "vector_at xs i = (if i < length xs then Inr (xs ! i) else Inl OutOfBounds)"

fun new_queues :: "nat \<Rightarrow> u32 \<Rightarrow> nat option list \<Rightarrow> Client \<Rightarrow> (nat option list \<times> Client) result" where
  "new_queues 0 sz slots cl = Inr (slots, cl)"
| "new_queues (Suc n) sz slots cl =
     bindE (new_queues n sz slots cl) (\<lambda>(slots1, cl1).
     if n < length slots1 then
       bindE (LoopQueue_new sz) (\<lambda>q.
       Inr (slots1[n := Some (cl_fresh cl1)], (put_queue (cl_fresh cl1) (Some q) cl1)\<lparr>cl_fresh := Suc (cl_fresh cl1)\<rparr>))
     else Inl OutOfBounds)"

definition init_queues ::
    "ServantProxy \<Rightarrow> ServantProxyThreadData \<Rightarrow> Client \<Rightarrow> (ServantProxyThreadData \<times> Client) result" where
  "init_queues sp sptd cl =
     (if \<not> spt_queueInit sptd then
        bindE (new_queues (sp_objectProxyNum sp) (word_of_int (sp_queueSize sp)) (spt_reqQueue sptd) cl) (\<lambda>(slots, cl1).
        Inr (sptd\<lparr>spt_reqQueue := slots, spt_objectProxyNum := sp_objectProxyNum sp, spt_objectProxy := sp_objectProxy sp,
                  spt_queueInit := True\<rparr>, cl1))
      else Inr (sptd, cl))"

text \<open>The proxy and the queue pointer chosen, and the thread data afterwards.\<close>

definition select_proxy ::
    "ServantProxy \<Rightarrow> ServantProxyThreadData \<Rightarrow> (nat \<times> nat option \<times> ServantProxyThreadData) result" where
  "select_proxy sp sptd =
     (let pick = (\<lambda>n. bindE (vector_at (sp_objectProxy sp) n) (\<lambda>i. bindE (vector_at (spt_reqQueue sptd) n) (\<lambda>q. Inr (i, q)))) in
      if sp_objectProxyNum sp = 1 then bindE (pick 0) (\<lambda>(i, q). Inr (i, q, sptd))
      else if 0 \<le> spt_netThreadSeq sptd then
        bindE (assertE (spt_netThreadSeq sptd < int (sp_objectProxyNum sp))) (\<lambda>_.
        bindE (pick (nat (spt_netThreadSeq sptd))) (\<lambda>(i, q). Inr (i, q, sptd)))
      else
        bindE (pick (spt_netSeq sptd)) (\<lambda>(i, q).
        let n = Suc (spt_netSeq sptd) in
        Inr (i, q, sptd\<lparr>spt_netSeq := (if n = sp_objectProxyNum sp then 0 else n)\<rparr>)))"

definition selectNetThreadInfo ::
    "ServantProxy \<Rightarrow> ServantProxyThreadData \<Rightarrow> Client \<Rightarrow> (nat \<times> nat option \<times> ServantProxyThreadData \<times> Client) result" where
  "selectNetThreadInfo sp sptd cl =
     bindE (init_queues sp sptd cl) (\<lambda>(sptd1, cl1).
     bindE (select_proxy sp sptd1) (\<lambda>(i, q, sptd2).
     Inr (i, q, sptd2, cl1)))"

text \<open>The fields \<open>invoke\<close> sets before it queues the message.\<close>

definition prepare_msg :: "int \<times> int \<Rightarrow> nat \<Rightarrow> ReqMessage \<Rightarrow> ReqMessage" where
  "prepare_msg tv i m =
     (let m1 = m\<lparr>rm_beginTime := timeval_ms (fst tv) (snd tv), rm_objectProxy := Some i\<rparr> in
      if rm_type m1 = SYNC_CALL then m1\<lparr>rm_monitorFin := False, rm_monitor := Some Monitor_new\<rparr> else m1)"

text \<open>The end of \<open>invoke\<close> for a synchronous call: unless the response is there the caller waits on the
  message's monitor. The flag tells whether it waits.\<close>

definition wait_response :: "tid \<Rightarrow> nat option \<Rightarrow> Client \<Rightarrow> (bool \<times> Client) result" where
  "wait_response t p cl =
     bindE (msg_at p cl) (\<lambda>m.
     if rm_monitorFin m then Inr (False, cl)
     else
       (case rm_monitor m of
          None \<Rightarrow> Inl NullDeref
        | Some mon \<Rightarrow>
            bindE (Lock_new t mon) (\<lambda>r.
            case r of
              None \<Rightarrow> Inl Blocked
            | Some (_, mon1) \<Rightarrow>
                bindE (Monitor_wait_enter t mon1) (\<lambda>(ops, mon2).
                Inr (True, put_msg (the p) (m\<lparr>rm_monitor := Some (mon2\<lparr>mon_waiting := insert t (mon_waiting mon2)\<rparr>)\<rparr>) cl)))))"

text \<open>\<open>invoke\<close> on the calling thread \<open>t\<close>, at time \<open>tv\<close>. A message the queue has no room for is deleted
  and the pointer cleared.\<close>

definition ServantProxy_invoke ::
    "tid \<Rightarrow> int \<times> int \<Rightarrow> nat \<Rightarrow> ServantProxy \<Rightarrow> ThreadKeys \<Rightarrow> Client \<Rightarrow> (bool \<times> ServantProxy \<times> ThreadKeys \<times> Client) result" where
  "ServantProxy_invoke t tv a sp tk cl =
     (let (d, tk1, sp1) =
            (case sp_sptd sp of
               None \<Rightarrow> (let (d, tk1) = get_data t tk in (d, tk1, sp\<lparr>sp_sptd := d\<rparr>))
             | Some d \<Rightarrow> (Some d, tk, sp))
      in
      bindE (data_at d tk1) (\<lambda>sptd.
      bindE (selectNetThreadInfo sp1 sptd cl) (\<lambda>(i, qp, sptd1, cl1).
      let tk2 = tk1\<lparr>tk_data := (tk_data tk1)(the d \<mapsto> sptd1)\<rparr> in
      bindE (msg_at (Some a) cl1) (\<lambda>m.
      let m1 = prepare_msg tv i m; sync = (rm_type m1 = SYNC_CALL); cl2 = put_msg a m1 cl1 in
      bindE (queue_at qp cl2) (\<lambda>q.
      bindE (LoopQueue_push_back a q) (\<lambda>(ok, _, q').
      let cl3 = put_queue (the qp) (Some q') cl2; msg = (if ok then Some a else None) in
      bindE
        (if \<not> ok then CommunicatorEpoll_notify (spt_netSeq sptd1) (the qp) (delete_msg a cl3) else Inr cl3) (\<lambda>cl4.
      bindE (CommunicatorEpoll_notify (spt_netSeq sptd1) (the qp) cl4) (\<lambda>cl5.
      bindE (if sync then wait_response t msg cl5 else Inr (False, cl5)) (\<lambda>(waits, cl6).
      Inr (waits, sp1, tk2, cl6))))))))))"

definition new_msg :: "ReqMessage \<Rightarrow> Client \<Rightarrow> nat \<times> Client" where
  "new_msg m cl = (cl_fresh cl, (put_msg (cl_fresh cl) m cl)\<lparr>cl_fresh := Suc (cl_fresh cl)\<rparr>)"

text \<open>\<open>tars_invoke\<close> up to the wait, and after it: the response and the message deleted.\<close>

definition tars_invoke_begin ::
    "tid \<Rightarrow> int \<times> int \<Rightarrow> string \<Rightarrow> string \<Rightarrow> ServantProxy \<Rightarrow> ThreadKeys \<Rightarrow> Client \<Rightarrow>
     (nat \<times> bool \<times> ServantProxy \<times> ThreadKeys \<times> Client) result" where
  "tars_invoke_begin t tv func_name request sp tk cl =
     (let (a, cl1) = new_msg ((ReqMessage_init SYNC_CALL ReqMessage_new)\<lparr>rm_request := request_text func_name request\<rparr>) cl in
      bindE (ServantProxy_invoke t tv a sp tk cl1) (\<lambda>(waits, sp1, tk1, cl2). Inr (a, waits, sp1, tk1, cl2)))"

definition tars_invoke_end :: "nat \<Rightarrow> Client \<Rightarrow> (string \<times> Client) result" where
  "tars_invoke_end a cl = bindE (msg_at (Some a) cl) (\<lambda>m. Inr (rm_response m, delete_msg a cl))"

definition tars_invoke_async ::
    "tid \<Rightarrow> int \<times> int \<Rightarrow> string \<Rightarrow> string \<Rightarrow> nat option \<Rightarrow> ServantProxy \<Rightarrow> ThreadKeys \<Rightarrow> Client \<Rightarrow>
     (nat \<times> ServantProxy \<times> ThreadKeys \<times> Client) result" where
  "tars_invoke_async t tv func_name request cb sp tk cl =
     (let (a, cl1) = new_msg ((ReqMessage_init ASYNC_CALL ReqMessage_new)\<lparr>rm_callback := cb, rm_request := request_text func_name request\<rparr>) cl in
      bindE (ServantProxy_invoke t tv a sp tk cl1) (\<lambda>(_, sp1, tk1, cl2). Inr (a, sp1, tk1, cl2)))"

section \<open>Communicator\<close>

text \<open>\<open>initialize\<close> sets the number of network threads to one, so \<open>communicatorEpoll_\<close> holds the one of
  the client state; \<open>co_epoll\<close> tells whether it exists.\<close>

record Communicator =
  co_epoll :: bool
  co_clientThreadNum :: nat
  co_initialized :: bool
  co_terminating :: bool
  co_registed :: bool

definition Communicator_new :: Communicator where
  "Communicator_new =
     \<lparr>co_epoll = False, co_clientThreadNum = 1, co_initialized = False, co_terminating = False, co_registed = False\<rparr>"

definition Communicator_initialize :: "(nat \<Rightarrow> u64) \<Rightarrow> Communicator \<Rightarrow> Client \<Rightarrow> (Communicator \<times> Client) result" where
  "Communicator_initialize addr co cl =
     (if co_initialized co then Inr (co, cl)
      else
        bindE (CommunicatorEpoll_new addr 0 (cn_kernel (cl_net cl))) (\<lambda>(ce, ep, k).
        Inr (co\<lparr>co_initialized := True, co_clientThreadNum := 1, co_epoll := True\<rparr>,
             cl\<lparr>cl_epoll := ce, cl_net := (cl_net cl)\<lparr>cn_epoller := ep, cn_kernel := k\<rparr>\<rparr>)))"

definition Communicator_terminate :: "tid \<Rightarrow> Communicator \<Rightarrow> Client \<Rightarrow> (Communicator \<times> Client) result" where
  "Communicator_terminate t co cl =
     (let co1 = co\<lparr>co_terminating := True\<rparr> in
      if co_initialized co1 then
        bindE (if co_epoll co1 then CommunicatorEpoll_terminate t cl else Inl OutOfBounds) (\<lambda>cl1.
        Inr (co1\<lparr>co_epoll := False\<rparr>, cl1))
      else Inr (co1, cl))"

definition get_communicatorEpoll :: "nat \<Rightarrow> Communicator \<Rightarrow> nat result" where
  "get_communicatorEpoll index co = bindE (assertE (index < co_clientThreadNum co)) (\<lambda>_. Inr index)"

text \<open>\<open>get_servantProxy\<close>: the proxy, and the registrations the first call makes through it.\<close>

definition get_servantProxy ::
    "(nat \<Rightarrow> u64) \<Rightarrow> u64 \<Rightarrow> string list \<Rightarrow> string \<Rightarrow> u16 \<Rightarrow> Communicator \<Rightarrow> Client \<Rightarrow>
     (ServantProxy \<times> (string \<times> string) list \<times> Communicator \<times> Client) result" where
  "get_servantProxy addr info funcNames ip port co cl =
     bindE (Communicator_initialize addr co cl) (\<lambda>(co1, cl1).
     let ce = cl_epoll cl1;
         (i, f) = get_objectProxy info ip port (ce_factory ce);
         cl2 = cl1\<lparr>cl_epoll := ce\<lparr>ce_factory := f\<rparr>\<rparr>;
         sp = ServantProxy_new [i] (co_clientThreadNum co1);
         calls = (if co_registed co1 then []
                  else map (\<lambda>name. (''registerServant'', name @ '':127.0.0.1:9877'')) funcNames)
     in Inr (sp, calls, co1\<lparr>co_registed := True\<rparr>, cl2))"

section \<open>A call on the calling thread\<close>

text \<open>A proxy that has been used before, its queue and a free notification slot.\<close>

definition caller_ready :: "ServantProxy \<Rightarrow> ThreadKeys \<Rightarrow> nat \<Rightarrow> nat \<Rightarrow> nat LoopQueue \<Rightarrow> nat \<Rightarrow> Client \<Rightarrow> bool" where
  "caller_ready sp tk i qa q seq cl \<longleftrightarrow>
     (\<exists>d sptd n. sp_sptd sp = Some d \<and> tk_data tk d = Some sptd \<and> spt_queueInit sptd \<and> sp_objectProxyNum sp = 1 \<and>
       sp_objectProxy sp = [i] \<and> spt_reqQueue sptd \<noteq> [] \<and> spt_reqQueue sptd ! 0 = Some qa \<and> spt_netSeq sptd = seq \<and>
       notify_at seq cl = Inr n \<and> ni_valid n) \<and>
     cl_queues cl qa = Some q \<and> LoopQueue_inv q"

lemma notify_valid:
  assumes "notify_at seq cl = Inr n" and "ni_valid n"
  shows "\<exists>k. CommunicatorEpoll_notify seq qa cl =
    Inr (put_notify seq (n\<lparr>ni_fd_info := (ni_fd_info n)\<lparr>fi_p := Some qa\<rparr>\<rparr>) (put_kernel k cl))"
  using assms by (simp add: CommunicatorEpoll_notify_def Let_def, blast)

lemma notify_frame [simp]:
  "cl_msgs (put_notify seq n cl) = cl_msgs cl" "cl_queues (put_notify seq n cl) = cl_queues cl" "cl_objects (put_notify seq n cl) = cl_objects cl"
  "cl_net (put_notify seq n cl) = cl_net cl" "cl_msgs (put_kernel k cl) = cl_msgs cl" "cl_queues (put_kernel k cl) = cl_queues cl"
  "cl_objects (put_kernel k cl) = cl_objects cl" "cl_net (put_kernel k cl) = (cl_net cl)\<lparr>cn_kernel := k\<rparr>"
  "notify_at seq (put_msg a m cl) = notify_at seq cl" "notify_at seq (put_queue qa q cl) = notify_at seq cl"
  "notify_at seq (put_kernel k cl) = notify_at seq cl" "notify_at seq (delete_msg a cl) = notify_at seq cl"
  "notify_at seq (cl\<lparr>cl_fresh := x\<rparr>) = notify_at seq cl" "cl_objects (cl\<lparr>cl_fresh := x\<rparr>) = cl_objects cl"
  by (simp_all add: put_notify_def put_kernel_def cl_objects_def notify_at_def put_msg_def put_queue_def delete_msg_def)

lemma notify_at_put [simp]:
  "notify_at seq cl = Inr n \<Longrightarrow> notify_at seq (put_notify seq n' cl) = Inr n'"
  by (auto simp: notify_at_def put_notify_def split: if_splits)

text \<open>The message of a synchronous call once its caller waits.\<close>

definition call_message :: "tid \<Rightarrow> int \<times> int \<Rightarrow> nat \<Rightarrow> string \<Rightarrow> ReqMessage" where
  "call_message t tv i req =
     (prepare_msg tv i ((ReqMessage_init SYNC_CALL ReqMessage_new)\<lparr>rm_request := req\<rparr>))\<lparr>rm_monitor := Some (Monitor_new\<lparr>mon_waiting := {t}\<rparr>)\<rparr>"

lemma call_message_fields [simp]:
  "rm_type (call_message t tv i req) = SYNC_CALL" "rm_request (call_message t tv i req) = req"
  "rm_objectProxy (call_message t tv i req) = Some i" "rm_monitor (call_message t tv i req) = Some (Monitor_new\<lparr>mon_waiting := {t}\<rparr>)"
  by (simp_all add: call_message_def prepare_msg_def ReqMessage_init_def ReqMessage_new_def Let_def)

lemma wait_response_new:
  assumes "cl_msgs cl a = Some m" and "rm_monitor m = Some Monitor_new" and "\<not> rm_monitorFin m"
  shows "wait_response t (Some a) cl = Inr (True, put_msg a (m\<lparr>rm_monitor := Some (Monitor_new\<lparr>mon_waiting := {t}\<rparr>)\<rparr>) cl)"
  using assms
  by (simp add: wait_response_def Lock_new_def Monitor_lock_def Mutex_lock_def pthread_mutex_lock_def Monitor_wait_enter_def
      Mutex_unlock_def pthread_mutex_unlock_def Monitor_new_def Monitor_notifyImpl_def)

lemma invoke_selects:
  assumes ready: "caller_ready sp tk i qa q seq cl"
  obtains d sptd where "sp_sptd sp = Some d" "data_at (Some d) tk = Inr sptd"
    "selectNetThreadInfo sp sptd cl' = Inr (i, Some qa, sptd, cl')" "spt_netSeq sptd = seq" "tk\<lparr>tk_data := (tk_data tk)(d \<mapsto> sptd)\<rparr> = tk"
proof -
  obtain d sptd where d: "sp_sptd sp = Some d" "tk_data tk d = Some sptd" "spt_queueInit sptd" "sp_objectProxyNum sp = 1"
    "sp_objectProxy sp = [i]" "spt_reqQueue sptd \<noteq> []" "spt_reqQueue sptd ! 0 = Some qa" "spt_netSeq sptd = seq"
    using ready unfolding caller_ready_def by blast
  have "selectNetThreadInfo sp sptd cl' = Inr (i, Some qa, sptd, cl')"
    using d by (simp add: selectNetThreadInfo_def init_queues_def select_proxy_def vector_at_def)
  moreover have "(tk_data tk)(d \<mapsto> sptd) = tk_data tk" using d(2) by (simp add: fun_upd_idem)
  ultimately show thesis using that [of d sptd] d(1,2,8) by (simp add: data_at_def)
qed

lemma invoke_sync:
  assumes ready: "caller_ready sp tk i qa q seq cl" and room: "LoopQueue_count q < LoopQueue_room q"
    and m: "cl_msgs cl a = Some m" "rm_type m = SYNC_CALL"
  shows "\<exists>n q' k. notify_at seq cl = Inr n \<and> LoopQueue_inv q' \<and> LoopQueue_list q' = LoopQueue_list q @ [a] \<and>
    ServantProxy_invoke t tv a sp tk cl = Inr (True, sp, tk,
      put_msg a ((prepare_msg tv i m)\<lparr>rm_monitor := Some (Monitor_new\<lparr>mon_waiting := {t}\<rparr>)\<rparr>)
        (put_notify seq (n\<lparr>ni_fd_info := (ni_fd_info n)\<lparr>fi_p := Some qa\<rparr>\<rparr>) (put_kernel k
          (put_queue qa (Some q') (put_msg a (prepare_msg tv i m) cl)))))"
proof -
  obtain d sptd where d: "sp_sptd sp = Some d" "data_at (Some d) tk = Inr sptd"
    "selectNetThreadInfo sp sptd cl = Inr (i, Some qa, sptd, cl)" "spt_netSeq sptd = seq" "tk\<lparr>tk_data := (tk_data tk)(d \<mapsto> sptd)\<rparr> = tk"
    using invoke_selects [OF ready] by blast
  have q: "cl_queues cl qa = Some q" "LoopQueue_inv q" using ready by (simp_all add: caller_ready_def)
  obtain n where n: "notify_at seq cl = Inr n" "ni_valid n" using ready unfolding caller_ready_def by blast
  obtain q' where q': "LoopQueue_push_back a q = Inr (True, LoopQueue_list q = [], q')" "LoopQueue_inv q'" "LoopQueue_list q' = LoopQueue_list q @ [a]"
    using LoopQueue_push_back_ok [OF q(2) room] by blast
  let ?cl3 = "put_queue qa (Some q') (put_msg a (prepare_msg tv i m) cl)"
  obtain k where k: "CommunicatorEpoll_notify seq qa ?cl3 =
      Inr (put_notify seq (n\<lparr>ni_fd_info := (ni_fd_info n)\<lparr>fi_p := Some qa\<rparr>\<rparr>) (put_kernel k ?cl3))"
    using notify_valid [of seq ?cl3 n qa] n by auto
  have pm: "rm_type (prepare_msg tv i m) = SYNC_CALL" "rm_monitor (prepare_msg tv i m) = Some Monitor_new" "\<not> rm_monitorFin (prepare_msg tv i m)"
    using m(2) by (simp_all add: prepare_msg_def Let_def)
  show ?thesis
    using d m(1) q(1) q'(1) k pm n(1) q'(2,3)
    by (intro exI [of _ n] exI [of _ q'] exI [of _ k]) (simp add: ServantProxy_invoke_def Let_def wait_response_new)
qed

lemma invoke_full:
  assumes ready: "caller_ready sp tk i qa q seq cl" and full: "LoopQueue_count q = LoopQueue_room q"
    and m: "cl_msgs cl a = Some m" "rm_type m = SYNC_CALL"
  shows "ServantProxy_invoke t tv a sp tk cl = Inl NullDeref"
proof -
  obtain d sptd where d: "sp_sptd sp = Some d" "data_at (Some d) tk = Inr sptd"
    "selectNetThreadInfo sp sptd cl = Inr (i, Some qa, sptd, cl)" "spt_netSeq sptd = seq" "tk\<lparr>tk_data := (tk_data tk)(d \<mapsto> sptd)\<rparr> = tk"
    using invoke_selects [OF ready] by blast
  have q: "cl_queues cl qa = Some q" "LoopQueue_inv q" using ready by (simp_all add: caller_ready_def)
  obtain n where n: "notify_at seq cl = Inr n" "ni_valid n" using ready unfolding caller_ready_def by blast
  let ?n = "n\<lparr>ni_fd_info := (ni_fd_info n)\<lparr>fi_p := Some qa\<rparr>\<rparr>"
  let ?cl = "delete_msg a (put_queue qa (Some q) (put_msg a (prepare_msg tv i m) cl))"
  obtain k1 where k1: "CommunicatorEpoll_notify seq qa ?cl = Inr (put_notify seq ?n (put_kernel k1 ?cl))"
    using notify_valid [of seq ?cl n qa] n by auto
  let ?cl1 = "put_notify seq ?n (put_kernel k1 ?cl)"
  have n1: "notify_at seq ?cl1 = Inr ?n" using n(1) by simp
  obtain k2 where k2: "CommunicatorEpoll_notify seq qa ?cl1 =
      Inr (put_notify seq (?n\<lparr>ni_fd_info := (ni_fd_info ?n)\<lparr>fi_p := Some qa\<rparr>\<rparr>) (put_kernel k2 ?cl1))"
    using notify_valid [OF n1, of qa] n(2) by auto
  have "rm_type (prepare_msg tv i m) = SYNC_CALL" using m(2) by (simp add: prepare_msg_def Let_def)
  then show ?thesis
    using d m(1) q(1) LoopQueue_push_back_full [OF q(2) full, of a] k1 k2
    by (simp add: ServantProxy_invoke_def Let_def wait_response_def del: fun_upd_upd)
qed

section \<open>Two callers\<close>

lemma proxy_ok_kernel [simp]: "proxy_ok ob (e\<lparr>cn_kernel := k\<rparr>) = proxy_ok ob e"
  by (simp add: proxy_ok_def writes_ok_def)

lemma sendable_frame [simp]:
  "sendable i (put_notify seq n cl) = sendable i cl" "sendable i (put_kernel k cl) = sendable i cl"
  by (simp_all add: sendable_def fun_eq_iff)

lemma notify_at_cong: "ce_notify (cl_epoll cl) = ce_notify (cl_epoll cl') \<Longrightarrow> notify_at seq cl = notify_at seq cl'"
  by (simp add: notify_at_def)

lemma notify_hides:
  assumes n: "notify_at seq cl = Inr n" "ni_valid n" and ab: "qa \<noteq> qb" and b: "cl_queues cl qb = Some q" "LoopQueue_inv q"
    and as: "distinct (LoopQueue_list q)" "\<forall>a \<in> set (LoopQueue_list q). sendable i cl a" and i: "i < length (cl_objects cl)"
    and ok: "proxy_ok (cl_objects cl ! i) (cl_net cl)" "ids_below (cl_objects cl ! i)"
    and small: "unat (op_id (cl_objects cl ! i)) + length (LoopQueue_list q) < 2 ^ 32"
  shows "\<exists>cl1 cl2 cl3 n3. CommunicatorEpoll_notify seq qa cl = Inr cl1 \<and> CommunicatorEpoll_notify seq qb cl1 = Inr cl2 \<and>
    CommunicatorEpoll_handle inet_addr (Notification seq) events cl2 = Inr cl3 \<and> cl_queues cl3 qa = cl_queues cl qa \<and>
    notify_at seq cl3 = Inr n3 \<and> fi_p (ni_fd_info n3) = Some qb"
proof -
  let ?na = "n\<lparr>ni_fd_info := (ni_fd_info n)\<lparr>fi_p := Some qa\<rparr>\<rparr>"
  obtain k1 where k1: "CommunicatorEpoll_notify seq qa cl = Inr (put_notify seq ?na (put_kernel k1 cl))"
    using notify_valid [OF n] by blast
  let ?cl1 = "put_notify seq ?na (put_kernel k1 cl)" and ?nb = "?na\<lparr>ni_fd_info := (ni_fd_info ?na)\<lparr>fi_p := Some qb\<rparr>\<rparr>"
  have n1: "notify_at seq ?cl1 = Inr ?na" using n(1) by simp
  obtain k2 where k2: "CommunicatorEpoll_notify seq qb ?cl1 = Inr (put_notify seq ?nb (put_kernel k2 ?cl1))"
    using notify_valid [OF n1, of qb] n(2) by auto
  let ?cl2 = "put_notify seq ?nb (put_kernel k2 ?cl1)"
  have n2: "notify_at seq ?cl2 = Inr ?nb" using n1 by simp
  have len: "length (LoopQueue_list q) < Suc (length (lq_p q))" using LoopQueue_count_le [OF b(2)] b(2)
    by (simp add: LoopQueue_room_def LoopQueue_inv_def)
  have p: "cl_queues ?cl2 qb = Some q" "\<forall>a \<in> set (LoopQueue_list q). sendable i ?cl2 a" "i < length (cl_objects ?cl2)"
    "proxy_ok (cl_objects ?cl2 ! i) (cl_net ?cl2)" "ids_below (cl_objects ?cl2 ! i)"
    "unat (op_id (cl_objects ?cl2 ! i)) + length (LoopQueue_list q) < 2 ^ 32"
    using b(1) as(2) i ok small by simp_all
  obtain cl3 where cl3: "handle_queue inet_addr (Suc (length (lq_p q))) (fi_seq (ni_fd_info ?nb)) qb ?cl2 = Inr cl3"
    "\<forall>c. c \<noteq> qb \<longrightarrow> cl_queues cl3 c = cl_queues ?cl2 c" "ce_notify (cl_epoll cl3) = ce_notify (cl_epoll ?cl2)"
    using handle_queue_drains [OF p(1) b(2) refl len as(1) p(2-6), of inet_addr "fi_seq (ni_fd_info ?nb)"] by blast
  have "CommunicatorEpoll_handle inet_addr (Notification seq) events ?cl2 = Inr cl3"
    using n2 p(1) cl3(1) by (simp add: CommunicatorEpoll_handle_def del: handle_queue.simps)
  moreover have "notify_at seq cl3 = Inr ?nb" by (rule trans [OF notify_at_cong [OF cl3(3)] n2])
  moreover have "cl_queues cl3 qa = cl_queues cl qa" using cl3(2) ab by simp
  ultimately show ?thesis using k1 k2
    by (intro exI [of _ ?cl1] exI [of _ ?cl2] exI [of _ cl3] exI [of _ ?nb]) simp
qed

section \<open>A whole call\<close>

lemma handle_single:
  assumes n: "notify_at seq cl = Inr n" "fi_p (ni_fd_info n) = Some qa" and q: "cl_queues cl qa = Some q" "LoopQueue_inv q" "LoopQueue_list q = [a]"
    and m: "cl_msgs cl a = Some m" "rm_type m \<noteq> THREAD_EXIT" "rm_objectProxy m = Some i" "length (rm_request m) < 2 ^ 30"
    and i: "i < length (cl_objects cl)" and ok: "proxy_ok (cl_objects cl ! i) (cl_net cl)"
    and rid: "rid = ObjectProxy_generateId (op_id (cl_objects cl ! i))" "rid \<notin> proxy_ids (cl_objects cl ! i)"
  shows "\<exists>ob' e' q'. CommunicatorEpoll_handle inet_addr (Notification seq) events cl =
      Inr (put_queue qa (Some q') (put_msg a (numbered rid m) (put_object i ob' (put_queue qa (Some q') cl\<lparr>cl_net := e'\<rparr>)))) \<and>
    after_send rid a m (cl_objects cl ! i) (cl_net cl) ob' e'"
proof -
  obtain q1 where q1: "LoopQueue_pop_front q = Inr (Some a, q1)" "LoopQueue_inv q1" "LoopQueue_list q1 = []"
    using ring.pop_law [OF q(2,3)] by blast
  have e: "LoopQueue_pop_front q1 = Inr (None, q1)" by (rule ring.pop_empty_law [OF q1(2,3)])
  let ?cl1 = "put_queue qa (Some q1) cl"
  obtain ob' e' where s: "sendReqMessage inet_addr (Some i) a ?cl1 = Inr (put_msg a (numbered rid m) (put_object i ob' (?cl1\<lparr>cl_net := e'\<rparr>)))"
    "after_send rid a m (cl_objects cl ! i) (cl_net cl) ob' e'"
    using sendReqMessage_step [of i ?cl1 a m rid inet_addr] i ok m(1,4) rid by auto
  have "length (LoopQueue_list q) \<le> length (lq_p q)" using LoopQueue_count_le [OF q(2)] q(2)
    by (simp add: LoopQueue_room_def LoopQueue_inv_def)
  then obtain j where "length (lq_p q) = Suc j" using q(3) by (cases "length (lq_p q)") (auto simp del: length_LoopQueue_list)
  then have "CommunicatorEpoll_handle inet_addr (Notification seq) events cl =
      Inr (put_queue qa (Some q1) (put_msg a (numbered rid m) (put_object i ob' (?cl1\<lparr>cl_net := e'\<rparr>))))"
    using n q(1) q1(1) e m s(1) by (simp add: CommunicatorEpoll_handle_def)
  then show ?thesis using s(2) by blast
qed

lemma caller_ready_alloc [simp]:
  "caller_ready sp tk i qa q seq ((put_msg a m cl)\<lparr>cl_fresh := x\<rparr>) = caller_ready sp tk i qa q seq cl"
  by (simp add: caller_ready_def)

lemma has_flag_in [simp]: "has_flag EPOLLIN EPOLLIN" "\<not> has_flag EPOLLIN EPOLLOUT"
  by (simp_all add: has_flag_def EPOLLIN_def EPOLLOUT_def)

lemma out_stream_kernel [simp]: "out_stream t (e\<lparr>cn_kernel := k\<rparr>) = out_stream t e"
  by (simp add: out_stream_def)

text \<open>Nothing waits to be sent or read.\<close>

definition proxy_idle :: "ObjectProxy \<Rightarrow> bool" where
  "proxy_idle ob \<longleftrightarrow>
     tq_pending (op_timeoutQueue ob) = [] \<and> Buffer_contents (tr_sendBuffer (op_trans ob)) = [] \<and>
     Buffer_contents (tr_receiveBuffer (op_trans ob)) = []"

lemma call_begins:
  assumes ready: "caller_ready sp tk i qa q seq cl" "LoopQueue_list q = []" "0 < LoopQueue_room q"
  shows "\<exists>cl1 n1 q' k. tars_invoke_begin t tv f x sp tk cl = Inr (cl_fresh cl, True, sp, tk, cl1) \<and>
    notify_at seq cl1 = Inr n1 \<and> fi_p (ni_fd_info n1) = Some qa \<and> cl_queues cl1 qa = Some q' \<and> LoopQueue_inv q' \<and>
    LoopQueue_list q' = [cl_fresh cl] \<and> cl_msgs cl1 (cl_fresh cl) = Some (call_message t tv i (request_text f x)) \<and>
    cl_objects cl1 = cl_objects cl \<and> cl_net cl1 = (cl_net cl)\<lparr>cn_kernel := k\<rparr>"
proof -
  let ?m = "(ReqMessage_init SYNC_CALL ReqMessage_new)\<lparr>rm_request := request_text f x\<rparr>"
  let ?cl = "(put_msg (cl_fresh cl) ?m cl)\<lparr>cl_fresh := Suc (cl_fresh cl)\<rparr>"
  have r: "caller_ready sp tk i qa q seq ?cl" using ready(1) by simp
  have c: "LoopQueue_count q < LoopQueue_room q" using ready(2,3) length_LoopQueue_list [of q] by simp
  have m: "cl_msgs ?cl (cl_fresh cl) = Some ?m" "rm_type ?m = SYNC_CALL" by (simp_all add: ReqMessage_init_def)
  obtain n q' k where s: "notify_at seq ?cl = Inr n" "LoopQueue_inv q'" "LoopQueue_list q' = LoopQueue_list q @ [cl_fresh cl]"
    "ServantProxy_invoke t tv (cl_fresh cl) sp tk ?cl = Inr (True, sp, tk, put_msg (cl_fresh cl) (call_message t tv i (request_text f x))
        (put_notify seq (n\<lparr>ni_fd_info := (ni_fd_info n)\<lparr>fi_p := Some qa\<rparr>\<rparr>) (put_kernel k
          (put_queue qa (Some q') (put_msg (cl_fresh cl) (prepare_msg tv i ?m) ?cl)))))"
    using invoke_sync [OF r c m, of t tv] unfolding call_message_def by blast
  then show ?thesis using ready(2)
    by (simp add: tars_invoke_begin_def new_msg_def) blast
qed

text \<open>A response that arrives on an idle connection reaches \<open>finishInvoke\<close>.\<close>

lemma response_arrives:
  assumes i: "i < length (cl_objects cl)" and s: "after_send rid a m ob e0 (cl_objects cl ! i) e" and idle: "proxy_idle ob"
    and resp: "resp \<noteq> []" "length resp < 2 ^ 62"
    and net: "cl_net cl = set_reads (tr_fd (op_trans ob)) [RData resp] e"
  obtains b q where "CommunicatorEpoll_handle inet_addr (Connected i) EPOLLIN cl = finishInvoke i resp
      (put_object i ((cl_objects cl ! i)\<lparr>op_trans := (op_trans (cl_objects cl ! i))\<lparr>tr_receiveBuffer := b\<rparr>\<rparr>)
        (cl\<lparr>cl_net := set_reads (tr_fd (op_trans (cl_objects cl ! i))) [] (cl_net cl)\<rparr>))"
    "TimeoutQueueNew_erase rid None (op_timeoutQueue (cl_objects cl ! i)) = Inr (True, Some a, q)"
    "TimeoutQueueNew_inv (op_timeoutQueue (cl_objects cl ! i))"
proof -
  let ?ob = "cl_objects cl ! i"
  have t: "tr_fd (op_trans ?ob) = tr_fd (op_trans ob)" "tr_fd (op_trans ?ob) \<noteq> -1" "Transceiver_inv (op_trans ?ob)"
    "Buffer_contents (tr_receiveBuffer (op_trans ?ob)) = []"
    using s idle by (auto simp: after_send_def proxy_ok_def proxy_idle_def)
  have ch: "[resp] \<noteq> []" "[] \<notin> set [resp]" "length (concat [resp]) < 2 ^ 62" using resp by auto
  have rd: "cn_reads (cl_net cl) (tr_fd (op_trans ?ob)) = map RData [resp]" using net t(1) by simp
  obtain b where b: "Transceiver_doResponse (op_trans ?ob) (cl_net cl) =
      Inr (1, [resp], (op_trans ?ob)\<lparr>tr_receiveBuffer := b\<rparr>, set_reads (tr_fd (op_trans ?ob)) [] (cl_net cl))"
    using doResponse_chunks [OF t(2-4) ch rd] by auto
  obtain q where q: "TimeoutQueueNew_erase rid None (op_timeoutQueue ?ob) = Inr (True, Some a, q)"
    using s by (auto simp: after_send_def)
  have inv: "TimeoutQueueNew_inv (op_timeoutQueue ?ob)" using s by (simp add: after_send_def proxy_ok_def)
  have fin: "finish_all i [] = Inr" by (simp add: fun_eq_iff)
  show thesis
  proof (rule that [OF _ q inv])
    show "CommunicatorEpoll_handle inet_addr (Connected i) EPOLLIN cl = finishInvoke i resp
      (put_object i (?ob\<lparr>op_trans := (op_trans ?ob)\<lparr>tr_receiveBuffer := b\<rparr>\<rparr>)
        (cl\<lparr>cl_net := set_reads (tr_fd (op_trans ?ob)) [] (cl_net cl)\<rparr>))"
      using i b fin by (simp add: CommunicatorEpoll_handle_def handleInputImp_def Let_def)
  qed
qed

lemma call_answered:
  assumes i: "i < length (cl_objects cl)" and s: "after_send rid a m ob e0 (cl_objects cl ! i) e" and idle: "proxy_idle ob"
    and m: "cl_msgs cl a = Some (numbered rid m)" "rm_type m = SYNC_CALL" "rm_monitor m = Some mon" "mon_owner mon = None"
    and resp: "resp = to_string (sint rid) @ '':'' @ answer" "length resp < 2 ^ 62"
    and net: "cl_net cl = set_reads (tr_fd (op_trans ob)) [RData resp] e"
  shows "\<exists>cl' m'. CommunicatorEpoll_handle inet_addr (Connected i) EPOLLIN cl = Inr cl' \<and> cl_msgs cl' = (cl_msgs cl)(a \<mapsto> m') \<and>
    rm_response m' = resp \<and> rm_monitorFin m' \<and> tars_invoke_end a cl' = Inr (resp, delete_msg a cl')"
proof -
  let ?ob = "cl_objects cl ! i"
  have ne: "resp \<noteq> []" using resp(1) by simp
  obtain b q where h: "CommunicatorEpoll_handle inet_addr (Connected i) EPOLLIN cl = finishInvoke i resp
      (put_object i (?ob\<lparr>op_trans := (op_trans ?ob)\<lparr>tr_receiveBuffer := b\<rparr>\<rparr>)
        (cl\<lparr>cl_net := set_reads (tr_fd (op_trans ?ob)) [] (cl_net cl)\<rparr>))"
    "TimeoutQueueNew_erase rid None (op_timeoutQueue ?ob) = Inr (True, Some a, q)" "TimeoutQueueNew_inv (op_timeoutQueue ?ob)"
    by (rule response_arrives [OF i s idle ne resp(2) net])
  let ?ob1 = "?ob\<lparr>op_trans := (op_trans ?ob)\<lparr>tr_receiveBuffer := b\<rparr>\<rparr>"
  let ?cl1 = "put_object i ?ob1 (cl\<lparr>cl_net := set_reads (tr_fd (op_trans ?ob)) [] (cl_net cl)\<rparr>)"
  have o: "cl_objects ?cl1 ! i = ?ob1" "i < length (cl_objects ?cl1)" using i by simp_all
  have nm: "cl_msgs ?cl1 a = Some (numbered rid m)" "rm_type (numbered rid m) = SYNC_CALL" "rm_monitor (numbered rid m) = Some mon"
    using m by (simp_all add: numbered_def)
  have inv1: "TimeoutQueueNew_inv (op_timeoutQueue (cl_objects ?cl1 ! i))"
    "TimeoutQueueNew_erase rid None (op_timeoutQueue (cl_objects ?cl1 ! i)) = Inr (True, Some a, q)"
    unfolding o(1) using h(2,3) by simp_all
  obtain mon' where f: "finishInvoke i resp ?cl1 =
      Inr (put_msg a ((numbered rid m)\<lparr>rm_response := resp, rm_monitor := Some mon', rm_monitorFin := True\<rparr>)
        (put_object i ((cl_objects ?cl1 ! i)\<lparr>op_timeoutQueue := q\<rparr>) ?cl1))"
    using finishInvoke_entry [OF o(2) inv1 nm m(4), of answer] unfolding resp(1) by blast
  let ?m = "(numbered rid m)\<lparr>rm_response := resp, rm_monitor := Some mon', rm_monitorFin := True\<rparr>"
  let ?cl2 = "put_msg a ?m (put_object i ((cl_objects ?cl1 ! i)\<lparr>op_timeoutQueue := q\<rparr>) ?cl1)"
  have "CommunicatorEpoll_handle inet_addr (Connected i) EPOLLIN cl = Inr ?cl2" using h(1) f by simp
  then show ?thesis by (intro exI [of _ ?cl2] exI [of _ ?m]) (simp add: tars_invoke_end_def)
qed

text \<open>The network thread's part of a call that has begun, and its end.\<close>

lemma call_completes:
  assumes b: "notify_at seq cl1 = Inr n1" "fi_p (ni_fd_info n1) = Some qa" "cl_queues cl1 qa = Some q" "LoopQueue_inv q" "LoopQueue_list q = [a]"
      "cl_msgs cl1 a = Some (call_message t tv i (request_text f x))"
    and i: "i < length (cl_objects cl1)" and ok: "proxy_ok (cl_objects cl1 ! i) (cl_net cl1)" "proxy_idle (cl_objects cl1 ! i)"
    and rid: "rid = ObjectProxy_generateId (op_id (cl_objects cl1 ! i))" "rid \<notin> proxy_ids (cl_objects cl1 ! i)"
    and small: "length (request_text f x) < 2 ^ 30"
    and resp: "resp = to_string (sint rid) @ '':'' @ answer" "length resp < 2 ^ 62"
  shows "\<exists>cl2 cl3. CommunicatorEpoll_handle inet_addr (Notification seq) EPOLLIN cl1 = Inr cl2 \<and>
    out_stream (op_trans (cl_objects cl2 ! i)) (cl_net cl2) =
      out_stream (op_trans (cl_objects cl1 ! i)) (cl_net cl1) @ frame (request_body rid (request_text f x)) \<and>
    CommunicatorEpoll_handle inet_addr (Connected i) EPOLLIN
      (cl2\<lparr>cl_net := set_reads (tr_fd (op_trans (cl_objects cl1 ! i))) [RData resp] (cl_net cl2)\<rparr>) = Inr cl3 \<and>
    tars_invoke_end a cl3 = Inr (resp, delete_msg a cl3)"
proof -
  let ?ob = "cl_objects cl1 ! i" and ?m = "call_message t tv i (request_text f x)"
  have m: "rm_type ?m \<noteq> THREAD_EXIT" "rm_objectProxy ?m = Some i" "length (rm_request ?m) < 2 ^ 30" using small by simp_all
  obtain ob' e' q2 where h: "CommunicatorEpoll_handle inet_addr (Notification seq) EPOLLIN cl1 =
      Inr (put_queue qa (Some q2) (put_msg a (numbered rid ?m) (put_object i ob' (put_queue qa (Some q2) cl1\<lparr>cl_net := e'\<rparr>))))"
    "after_send rid a ?m ?ob (cl_net cl1) ob' e'"
    using handle_single [OF b m i ok(1) rid, of inet_addr EPOLLIN] by auto
  let ?cl2 = "put_queue qa (Some q2) (put_msg a (numbered rid ?m) (put_object i ob' (put_queue qa (Some q2) cl1\<lparr>cl_net := e'\<rparr>)))"
  let ?cl2' = "?cl2\<lparr>cl_net := set_reads (tr_fd (op_trans ?ob)) [RData resp] (cl_net ?cl2)\<rparr>"
  have o: "cl_objects ?cl2 ! i = ob'" "cl_objects ?cl2' ! i = ob'" "cl_net ?cl2 = e'" "i < length (cl_objects ?cl2')"
    using i by simp_all
  have out: "out_stream (op_trans ob') e' = out_stream (op_trans ?ob) (cl_net cl1) @ frame (request_body rid (request_text f x))"
    using h(2) ok(2) by (simp add: after_send_def proxy_idle_def)
  have mm: "cl_msgs ?cl2' a = Some (numbered rid ?m)" "rm_type ?m = SYNC_CALL" "rm_monitor ?m = Some (Monitor_new\<lparr>mon_waiting := {t}\<rparr>)"
    "mon_owner (Monitor_new\<lparr>mon_waiting := {t}\<rparr>) = None" by (simp_all add: Monitor_new_def)
  have s: "after_send rid a ?m ?ob (cl_net cl1) (cl_objects ?cl2' ! i) e'" unfolding o(2) by (rule h(2))
  have net: "cl_net ?cl2' = set_reads (tr_fd (op_trans ?ob)) [RData resp] e'" by simp
  obtain cl3 where c: "CommunicatorEpoll_handle inet_addr (Connected i) EPOLLIN ?cl2' = Inr cl3"
    "tars_invoke_end a cl3 = Inr (resp, delete_msg a cl3)"
    using call_answered [OF o(4) s ok(2) mm resp net] by blast
  show ?thesis using h(1) out o(1,3) c by (intro exI [of _ ?cl2] exI [of _ cl3]) simp
qed

lemma client_call:
  assumes ready: "caller_ready sp tk i qa q seq cl" "LoopQueue_list q = []" "0 < LoopQueue_room q"
    and i: "i < length (cl_objects cl)" and ok: "proxy_ok (cl_objects cl ! i) (cl_net cl)" "proxy_idle (cl_objects cl ! i)"
    and rid: "rid = ObjectProxy_generateId (op_id (cl_objects cl ! i))" "rid \<notin> proxy_ids (cl_objects cl ! i)"
    and small: "length (request_text f x) < 2 ^ 30"
    and resp: "resp = to_string (sint rid) @ '':'' @ answer" "length resp < 2 ^ 62"
  shows "\<exists>cl1 cl2 cl3. tars_invoke_begin t tv f x sp tk cl = Inr (cl_fresh cl, True, sp, tk, cl1) \<and>
    CommunicatorEpoll_handle inet_addr (Notification seq) EPOLLIN cl1 = Inr cl2 \<and>
    out_stream (op_trans (cl_objects cl2 ! i)) (cl_net cl2) =
      out_stream (op_trans (cl_objects cl ! i)) (cl_net cl) @ frame (request_body rid (request_text f x)) \<and>
    CommunicatorEpoll_handle inet_addr (Connected i) EPOLLIN
      (cl2\<lparr>cl_net := set_reads (tr_fd (op_trans (cl_objects cl ! i))) [RData resp] (cl_net cl2)\<rparr>) = Inr cl3 \<and>
    tars_invoke_end (cl_fresh cl) cl3 = Inr (resp, delete_msg (cl_fresh cl) cl3)"
proof -
  let ?a = "cl_fresh cl" and ?m = "call_message t tv i (request_text f x)"
  obtain cl1 n1 q' k where b: "tars_invoke_begin t tv f x sp tk cl = Inr (?a, True, sp, tk, cl1)" "notify_at seq cl1 = Inr n1"
    "fi_p (ni_fd_info n1) = Some qa" "cl_queues cl1 qa = Some q'" "LoopQueue_inv q'" "LoopQueue_list q' = [?a]"
    "cl_msgs cl1 ?a = Some ?m" "cl_objects cl1 = cl_objects cl" "cl_net cl1 = (cl_net cl)\<lparr>cn_kernel := k\<rparr>"
    using call_begins [OF ready] by blast
  have p: "i < length (cl_objects cl1)" "proxy_ok (cl_objects cl1 ! i) (cl_net cl1)" "proxy_idle (cl_objects cl1 ! i)"
    "rid = ObjectProxy_generateId (op_id (cl_objects cl1 ! i))" "rid \<notin> proxy_ids (cl_objects cl1 ! i)"
    using i ok rid b(8,9) by simp_all
  show ?thesis using b(1) call_completes [OF b(2-7) p small resp, of inet_addr] by (simp add: b(8,9))
qed

section \<open>Thread data\<close>

lemma get_data_same:
  assumes "get_data t tk = (Some d, tk1)" and "tk_key tk1 \<noteq> 0"
  shows "get_data t tk1 = (Some d, tk1)"
  using assms by (auto simp: get_data_def Let_def split: prod.splits option.splits if_splits)

section \<open>Properties\<close>

text \<open>A synchronous call on a full queue dereferences a null pointer: the message is deleted, its
  pointer cleared, and then its \<open>monitorFin\<close> is read.\<close>

theorem full_client_queue:
  assumes "caller_ready sp tk i qa q seq cl" and "LoopQueue_count q = LoopQueue_room q"
    and "cl_msgs cl a = Some m" and "rm_type m = SYNC_CALL"
  shows "ServantProxy_invoke t tv a sp tk cl = Inl NullDeref"
  using assms by (rule invoke_full)

definition sample_servant :: ServantProxy where
  "sample_servant = (ServantProxy_new [0] 1)\<lparr>sp_sptd := Some 0\<rparr>"

definition sample_keys :: ThreadKeys where
  "sample_keys = \<lparr>tk_key = 1, tk_creates = [], tk_specific = (\<lambda>_ _. None),
     tk_data = [0 \<mapsto> ServantProxyThreadData_new\<lparr>spt_queueInit := True, spt_reqQueue := [Some 5]\<rparr>], tk_fresh = 1\<rparr>"

lemma sample_caller_ready: "LoopQueue_inv q \<Longrightarrow> caller_ready sample_servant sample_keys 0 5 q 0 (queued_client q)"
  by (simp add: caller_ready_def sample_servant_def sample_keys_def ServantProxy_new_def ServantProxyThreadData_new_def)

lemma queue_with: "\<exists>q. LoopQueue_inv q \<and> LoopQueue_list q = [x :: nat] \<and> LoopQueue_count q = LoopQueue_room q"
proof -
  obtain q0 :: "nat LoopQueue" where q0: "LoopQueue_inv q0" "LoopQueue_list q0 = []" "LoopQueue_room q0 = 1"
    using LoopQueue_new_ok [of 1] by auto
  obtain q where q: "LoopQueue_inv q" "LoopQueue_list q = [x]" "LoopQueue_room q = 1"
    using ring.push_step [OF q0(1), of x] q0(2,3) by auto
  then show ?thesis using length_LoopQueue_list [of q] by auto
qed

theorem full_client_queue_witness:
  "\<exists>q. LoopQueue_count q = LoopQueue_room q \<and>
     ServantProxy_invoke 1 (0, 0) 0 sample_servant sample_keys (queued_client q) = Inl NullDeref"
proof -
  obtain q :: "nat LoopQueue" where q: "LoopQueue_inv q" "LoopQueue_count q = LoopQueue_room q" using queue_with by blast
  show ?thesis using full_client_queue [OF sample_caller_ready [OF q(1)] q(2), of 0 sample_message 1 "(0, 0)"] q(2) by auto
qed

text \<open>A caller whose notification is followed by another's before the network thread reads it is not
  served: every client thread uses the same notification slot, which holds one queue pointer, so only
  the second queue is emptied, the first keeps its requests, and later events on the slot lead to the
  second queue again.\<close>

theorem second_caller_hides_first:
  assumes "notify_at seq cl = Inr n" and "ni_valid n" and "qa \<noteq> qb" and "cl_queues cl qb = Some q" and "LoopQueue_inv q"
    and "distinct (LoopQueue_list q)" and "\<forall>a \<in> set (LoopQueue_list q). sendable i cl a" and "i < length (cl_objects cl)"
    and "proxy_ok (cl_objects cl ! i) (cl_net cl)" and "ids_below (cl_objects cl ! i)"
    and "unat (op_id (cl_objects cl ! i)) + length (LoopQueue_list q) < 2 ^ 32"
  shows "\<exists>cl1 cl2 cl3 n3. CommunicatorEpoll_notify seq qa cl = Inr cl1 \<and> CommunicatorEpoll_notify seq qb cl1 = Inr cl2 \<and>
    CommunicatorEpoll_handle inet_addr (Notification seq) events cl2 = Inr cl3 \<and> cl_queues cl3 qa = cl_queues cl qa \<and>
    notify_at seq cl3 = Inr n3 \<and> fi_p (ni_fd_info n3) = Some qb"
  using assms by (rule notify_hides)

theorem second_caller_hides_first_witness:
  "\<exists>q q' cl1 cl2 cl3. LoopQueue_list q' = [7] \<and> CommunicatorEpoll_notify 0 6 (put_queue 6 (Some q') (queued_client q)) = Inr cl1 \<and>
     CommunicatorEpoll_notify 0 5 cl1 = Inr cl2 \<and> CommunicatorEpoll_handle (\<lambda>_. 0) (Notification 0) 1 cl2 = Inr cl3 \<and> cl_queues cl3 6 = Some q'"
proof -
  obtain q where q: "LoopQueue_inv q" "LoopQueue_list q = [0 :: nat]" using queue_with by blast
  obtain q' where q': "LoopQueue_list q' = [7 :: nat]" using queue_with by blast
  let ?cl = "put_queue 6 (Some q') (queued_client q)"
  have s: "sendable 0 ?cl 0" by (simp add: sendable_def)
  have o: "proxy_ok (cl_objects ?cl ! 0) (cl_net ?cl)" "ids_below (cl_objects ?cl ! 0)" by (simp_all add: ids_below_def)
  obtain n where n: "notify_at 0 ?cl = Inr n" "ni_valid n" by simp
  have "cl_queues ?cl 5 = Some q" "distinct (LoopQueue_list q)" "\<forall>a \<in> set (LoopQueue_list q). sendable 0 ?cl a" "0 < length (cl_objects ?cl)"
    "unat (op_id (cl_objects ?cl ! 0)) + length (LoopQueue_list q) < 2 ^ 32"
    using q s by (simp_all del: length_LoopQueue_list)
  then obtain cl1 cl2 cl3 where "CommunicatorEpoll_notify 0 6 ?cl = Inr cl1" "CommunicatorEpoll_notify 0 5 cl1 = Inr cl2"
    "CommunicatorEpoll_handle (\<lambda>_. 0) (Notification 0) 1 cl2 = Inr cl3" "cl_queues cl3 6 = cl_queues ?cl 6"
    using second_caller_hides_first [OF n, of 6 5 q 0 "\<lambda>_. 0" 1] q(1) o by auto
  then show ?thesis using q' by (intro exI [of _ q] exI [of _ q'] exI [of _ cl1] exI [of _ cl2] exI [of _ cl3]) simp
qed

end
