(* ===== verification/Tarsx_Programs.thy ===== *)
theory Tarsx_Programs
  imports Tarsx_StartUp Tarsx_ServantProxy
begin

text \<open>
  The programs: \<open>main\<close> of \<open>HelloServer.cc\<close>, \<open>NodeServer.cc\<close> and \<open>RegistryServer.cc\<close>, the client part of an
  \<open>Application\<close>'s start-up and the wait for its end (\<open>Application.cc\<close>). With what \<open>Tarsx_StartUp\<close> shows of the
  start-up, the theorems on the threads of a running server apply to the server these programs start.
\<close>

section \<open>The end of an application\<close>

text \<open>\<open>epollServer_\<close> is null until \<open>initializeServer\<close>.\<close>

definition Application_terminate :: "'s EpollServer option \<Rightarrow> 's EpollServer option" where
  "Application_terminate p = map_option EpollServer_terminate p"

fun terminate_netThreads :: "NetThread list \<Rightarrow> Kernel \<Rightarrow> NetThread list \<times> Kernel" where
  "terminate_netThreads [] k = ([], k)"
| "terminate_netThreads (nt # nts) k =
     (let (nt', k1) = NetThread_terminate nt k; (nts', k2) = terminate_netThreads nts k1 in (nt' # nts', k2))"

text \<open>The second loop of \<open>waitForQuit\<close>.\<close>

definition stop_threads :: "'s App \<Rightarrow> 's App" where
  "stop_threads app =
     (let (nts, k) = terminate_netThreads (es_netThreads (app_server app)) (w_kernel (app_world app)) in
      app\<lparr>app_server := (app_server app)\<lparr>es_netThreads := nts\<rparr>, app_world := (app_world app)\<lparr>w_kernel := k\<rparr>\<rparr>)"

text \<open>\<open>waitForQuit\<close> after starting the network threads: \<open>others i\<close> is what they and the servant threads do
  before the \<open>i\<close>-th test of \<open>isTerminate\<close>, the first of which comes at once, the others after a wait of at
  most 5 seconds.\<close>

partial_function (option) Application_waitForQuit :: "(nat \<Rightarrow> 's App \<Rightarrow> 's App) \<Rightarrow> nat \<Rightarrow> 's App \<Rightarrow> 's App option" where
  "Application_waitForQuit others i app =
     (let app1 = others i app in
      if es_terminate (app_server app1) then Some (stop_threads app1) else Application_waitForQuit others (Suc i) app1)"

definition Application_waitForShutdown :: "(nat \<Rightarrow> 's App \<Rightarrow> 's App) \<Rightarrow> 's App \<Rightarrow> 's App option" where
  "Application_waitForShutdown others app = Application_waitForQuit others 0 app"

section \<open>The client part\<close>

text \<open>\<open>stringToProxy\<close>, and \<open>initializeClient\<close>: a fresh communicator, whose first proxy registers the names in
  \<open>funcNames\<close> with the registry; the list is the calls it makes.\<close>

definition stringToProxy ::
    "(nat \<Rightarrow> u64) \<Rightarrow> u64 \<Rightarrow> string list \<Rightarrow> string \<Rightarrow> u16 \<Rightarrow> Communicator \<Rightarrow> Client \<Rightarrow>
     (ServantProxy \<times> (string \<times> string) list \<times> Communicator \<times> Client) result" where
  "stringToProxy = get_servantProxy"

definition Application_initializeClient ::
    "(nat \<Rightarrow> u64) \<Rightarrow> u64 \<Rightarrow> string list \<Rightarrow> Client \<Rightarrow> ((string \<times> string) list \<times> Communicator \<times> Client) result" where
  "Application_initializeClient addr info funcNames cl =
     bindE (stringToProxy addr info funcNames ''127.0.0.1'' 19386 Communicator_new cl) (\<lambda>(_, calls, co, cl1).
     Inr (calls, co, cl1))"

section \<open>The three servers\<close>

text \<open>Members of \<open>ServerConfig\<close> that \<open>main\<close> does not assign keep their static values, empty or 0.\<close>

definition ServerConfig_static :: ServerConfig where
  "ServerConfig_static =
     \<lparr>cfg_application = [], cfg_serverName = [], cfg_node = [], cfg_adapterName = [], cfg_servantName = [], cfg_adapterIp = [],
      cfg_adapterPort = 0, cfg_adapterName1 = [], cfg_servantName1 = [], cfg_adapterIp1 = [], cfg_adapterPort1 = 0\<rparr>"

definition HelloServer_config :: ServerConfig where
  "HelloServer_config = ServerConfig_static
     \<lparr>cfg_application := ''TestApp'', cfg_serverName := ''HelloServer'', cfg_node := ''127.0.0.1:19386'',
      cfg_adapterName := ''HelloAdapter'', cfg_servantName := ''Hello'', cfg_adapterIp := ''127.0.0.1'', cfg_adapterPort := 9877\<rparr>"

definition NodeServer_config :: ServerConfig where
  "NodeServer_config = ServerConfig_static
     \<lparr>cfg_application := ''tars'', cfg_serverName := ''tarsnode'',
      cfg_adapterName := ''ServerAdapter'', cfg_servantName := ''ServerObj'', cfg_adapterIp := [], cfg_adapterPort := 19386,
      cfg_adapterName1 := ''NodeAdapter'', cfg_servantName1 := ''NodeObj'', cfg_adapterIp1 := ''127.0.0.1'', cfg_adapterPort1 := 19385\<rparr>"

definition RegistryServer_config :: ServerConfig where
  "RegistryServer_config = ServerConfig_static
     \<lparr>cfg_application := ''Registry'', cfg_serverName := ''RegistryServer'',
      cfg_adapterName := ''RegistryAdapter'', cfg_servantName := ''Registry'', cfg_adapterIp := ''127.0.0.1'', cfg_adapterPort := 19386\<rparr>"

text \<open>A dispatcher without state of its own, as one that carries the application's state along.\<close>

definition carry :: "(string \<Rightarrow> string \<Rightarrow> int \<times> string) \<Rightarrow> 's dispatcFunc" where
  "carry f request b s = (let (ret, b') = f request b in Inr (ret, b', s))"

text \<open>The admin dispatcher: command 1, \<open>shutdown\<close>, terminates the application. The servant thread sees this as a
  flag in the state its dispatchers work on.\<close>

definition admin_func :: "(bool \<times> 'r) dispatcFunc" where
  "admin_func request b s =
     (case AdminServant request b of (ret, b', stop) \<Rightarrow> Inr (ret, b', if stop then (True, snd s) else s))"

definition registry_func :: "(bool \<times> Registry) dispatcFunc" where
  "registry_func request b s =
     bindE (RegisterImp request b (snd s)) (\<lambda>(ret, b', r). Inr (ret, b', (fst s, r)))"

text \<open>\<open>main\<close> up to \<open>waitForShutdown\<close>: the calls to the registry, the client, the handles started and the server.
  The client's sockets and the server's are taken from a kernel each.\<close>

type_synonym 's program =
  "((string \<times> string) list \<times> Communicator \<times> Client \<times> 's ServantHandle list \<times> 's App) result"

definition start_program ::
    "(nat \<Rightarrow> u64) \<Rightarrow> u64 \<Rightarrow> (string \<Rightarrow> int \<times> u32) \<Rightarrow> (string \<Rightarrow> u32 option) \<Rightarrow> int \<Rightarrow> u64 \<Rightarrow> string list \<Rightarrow>
     's dispatcFunc \<Rightarrow> 's dispatcFunc \<Rightarrow> ServerConfig \<Rightarrow> Client \<Rightarrow> World \<Rightarrow> 's program" where
  "start_program addr info pton byname getpid memory funcNames admin func cfg cl w =
     bindE (Application_initializeClient addr info funcNames cl) (\<lambda>(calls, co, cl1).
     bindE (Application_extra_main pton byname getpid memory admin func cfg w) (\<lambda>(handles, app).
     Inr (calls, co, cl1, handles, app)))"

definition HelloServer_main ::
    "(nat \<Rightarrow> u64) \<Rightarrow> u64 \<Rightarrow> (string \<Rightarrow> int \<times> u32) \<Rightarrow> (string \<Rightarrow> u32 option) \<Rightarrow> int \<Rightarrow> u64 \<Rightarrow> Client \<Rightarrow> World \<Rightarrow>
     (bool \<times> Registry) program" where
  "HelloServer_main addr info pton byname getpid memory cl w =
     start_program addr info pton byname getpid memory [''test'', ''testHello''] admin_func (carry HelloImp) HelloServer_config cl w"

text \<open>\<open>NodeServer.cc\<close> has no \<open>funcNames\<close> of its own, so they are a parameter.\<close>

definition NodeServer_main ::
    "(nat \<Rightarrow> u64) \<Rightarrow> u64 \<Rightarrow> (string \<Rightarrow> int \<times> u32) \<Rightarrow> (string \<Rightarrow> u32 option) \<Rightarrow> int \<Rightarrow> u64 \<Rightarrow> string list \<Rightarrow> Client \<Rightarrow> World \<Rightarrow>
     (bool \<times> Registry) program" where
  "NodeServer_main addr info pton byname getpid memory funcNames cl w =
     start_program addr info pton byname getpid memory funcNames admin_func (carry ServerImp) NodeServer_config cl w"

definition RegistryServer_main ::
    "(nat \<Rightarrow> u64) \<Rightarrow> u64 \<Rightarrow> (string \<Rightarrow> int \<times> u32) \<Rightarrow> (string \<Rightarrow> u32 option) \<Rightarrow> int \<Rightarrow> u64 \<Rightarrow> Client \<Rightarrow> World \<Rightarrow>
     (bool \<times> Registry) program" where
  "RegistryServer_main addr info pton byname getpid memory cl w =
     start_program addr info pton byname getpid memory [] admin_func registry_func RegistryServer_config cl w"

section \<open>The first connection\<close>

lemma accept_connects:
  assumes acc: "NetThread_accept lfd nt w = Inr (True, nt', w')" and l: "map_of (nt_listeners nt) lfd = Some (Some i)"
    and free: "nt_free nt = uid # rest" and none: "nt_connectionUids nt = Map.empty" and some: "nt_connectionUids nt' u = Some (Some c)"
  shows "\<exists>fd ip port k. c = Connection_init uid \<lparr>con_bindAdapter = Some i, con_fd = fd, con_uid = 0, con_listenfd = lfd, con_ip = ip,
      con_port = port, con_close = w_memory w, con_recvBuffer = Buffer_new, con_sendBuffer = []\<rparr> \<and>
    nt' = nt\<lparr>nt_free := rest, nt_freeSize := nt_freeSize nt - 1, nt_connectionUids := [uid \<mapsto> Some c]\<rparr> \<and> w' = w\<lparr>w_kernel := k\<rparr>"
proof -
  obtain receive k0 where i: "Socket_init lfd False AF_INET Socket_new (w_kernel w) = (receive, k0)" by fastforce
  obtain ret client k1 where a: "Socket_accept receive (Socket_set_owner False Socket_new) k0 = Inr (ret, client, k1)"
    using acc i by (cases "Socket_accept receive (Socket_set_owner False Socket_new) k0") (auto simp: NetThread_accept_def)
  show ?thesis
  proof (cases "0 < ret")
    case True
    obtain ip port where p: "w_peer w (sk_fd client) = (ip, port)" by fastforce
    have li: "listener_of lfd nt = (Some i, nt)" by (simp add: listener_of_def l)
    obtain k5 c0 nt2 k6 where c0: "Connection_new (w_memory w) (Some i) lfd (sk_fd client) ip port = Inr c0"
      "addTConnection c0 nt k5 = Inr (nt2, k6)" "nt' = nt2" "w' = w\<lparr>w_kernel := k6\<rparr>"
      using acc i a True p li by (auto simp: NetThread_accept_def result_simps)
    have n: "nt' = nt\<lparr>nt_free := rest, nt_freeSize := nt_freeSize nt - 1, nt_connectionUids := [uid \<mapsto> Some (Connection_init uid c0)]\<rparr>"
      using c0(2,3) none by (simp add: addTConnection_def free Let_def Connection_init_def)
    then have "c = Connection_init uid c0" using some by (simp split: if_splits)
    then show ?thesis using c0(1,4) n by (auto simp: Connection_new_def result_simps assertE_def split: if_splits)
  next
    case False
    then show ?thesis using acc i a none some by (auto simp: NetThread_accept_def)
  qed
qed

text \<open>What the theorems on serving need of a connection holds of one that was just accepted.\<close>

lemma accept_ready:
  assumes "NetThread_accept lfd nt w = Inr (True, nt', w')" and "map_of (nt_listeners nt) lfd = Some (Some i)"
    and "nt_free nt = uid # rest" and "nt_connectionUids nt = Map.empty" and "nt_connectionUids nt' u = Some (Some c)"
    and "i < length (w_adapters w)" and "lfd \<noteq> -1"
  shows "conn_ready c i nt' w'" "w_adapters w' = w_adapters w" "nt_terminate nt' = nt_terminate nt" "nt_sendBuffer nt' = nt_sendBuffer nt"
  using accept_connects [OF assms(1-5)] assms(6,7)
  by (auto simp: conn_ready_def Connection_init_def)

section \<open>Starting and waiting\<close>

lemma initializeClient_ok:
  assumes "all_succeed (cn_kernel (cl_net cl))"
  shows "\<exists>co cl'. Application_initializeClient addr info names cl =
    Inr (map (\<lambda>name. (''registerServant'', name @ '':127.0.0.1:9877'')) names, co, cl')"
proof -
  obtain ep k1 where e: "Epoller_create 1024 (Epoller_new True) (cn_kernel (cl_net cl)) = (ep, k1)" by fastforce
  then have k1: "k1 = snd (sys (Sys_epoll_create 1025) (cn_kernel (cl_net cl)))" by (auto simp: Epoller_create_def Let_def split: prod.splits)
  have "all_succeed k1" unfolding k1 using assms by (rule granted_sys) simp
  then obtain sock k2 where s: "Socket_createSocket AF_INET Socket_new k1 = Inr (sock, k2)"
    using Socket_createSocket_ok [of k1 AF_INET Socket_new] by blast
  obtain th where th: "AsyncProcThread_new 100 = Inr th" by (simp add: AsyncProcThread_new_def LoopQueue_new_def)
  obtain i f where f: "get_objectProxy info ''127.0.0.1'' 19386
      \<lparr>opf_objectProxys = Map.empty, opf_objectproxys = [], opf_objectNum = 0\<rparr> = (i, f)" by fastforce
  show ?thesis
    by (simp add: Application_initializeClient_def stringToProxy_def get_servantProxy_def Communicator_initialize_def Communicator_new_def
        CommunicatorEpoll_new_def e s th f)
qed

text \<open>The thread of the handle of an adapter, started.\<close>

lemma handle_starts:
  assumes main: "Application_extra_main pton byname getpid memory admin func cfg w0 = Inr (handles, app)" and cfg: "cfg_ok cfg"
    and i: "i = Suc (length (w_adapters w0))" and name: "name = cfg_adapterName cfg" and env: "env_ok env 1310272"
  obtains m sv p where "ServantHandle_start env (app_manager app) (worker (fresh_handle name) app st) = Inr (m, sv)"
    "idle_sched (sv_sched sv) p" "poolSize (sv_sched sv) = 204" "stackSize (sv_sched sv) = 1310272"
    "group_adapters sv = Inr [(name, i)]" "sh_servants (sv_handle sv) name = Some (Some func)"
    "sv_server sv = app_server app" "sv_world sv = app_world app" "sv_state sv = st"
proof -
  have k: "0 < length (cfg_names cfg)" "cfg_names cfg ! 0 = name" "Suc (length (w_adapters w0)) + 0 = i"
    using i name by (simp_all add: cfg_names_def)
  note h = handle_of_adapter [OF main cfg k]
  let ?w = "worker (fresh_handle name) app st"
  let ?h = "\<lparr>sh_servants = [name \<mapsto> Some func], sh_handleGroup = Some name\<rparr>"
  obtain m where m: "ServantHandle_init (sv_server ?w) (sv_handle ?w) (app_manager app) = Inr (?h, m)"
    using h(6) name by (auto simp: worker_def)
  obtain s p where s: "ServantHandle_start env (app_manager app) ?w = Inr (m, ?w\<lparr>sv_handle := ?h, sv_sched := s\<rparr>)"
    "idle_sched s p" "poolSize s = 204" "stackSize s = 1310272" by (rule servant_starts [OF env m])
  show thesis
    by (rule that [OF s(1), of p]) (simp_all add: s worker_def group_adapters_def h(5) group_of_def)
qed

lemma handle_started:
  assumes main: "Application_extra_main pton byname getpid memory admin func cfg w0 = Inr (handles, app)" and cfg: "cfg_ok cfg"
    and i: "i = Suc (length (w_adapters w0))" and name: "name = cfg_adapterName cfg" and env: "env_ok env 1310272"
    and start: "ServantHandle_start env (app_manager app) (worker (fresh_handle name) app st) = Inr (m, sv)"
  shows "\<exists>p. idle_sched (sv_sched sv) p \<and> poolSize (sv_sched sv) = 204 \<and> stackSize (sv_sched sv) = 1310272 \<and>
    group_adapters sv = Inr [(name, i)] \<and> sh_servants (sv_handle sv) name = Some (Some func) \<and>
    sv_server sv = app_server app \<and> sv_world sv = app_world app \<and> sv_state sv = st"
proof -
  obtain m' sv' p where s: "ServantHandle_start env (app_manager app) (worker (fresh_handle name) app st) = Inr (m', sv')"
    "idle_sched (sv_sched sv') p" "poolSize (sv_sched sv') = 204" "stackSize (sv_sched sv') = 1310272"
    "group_adapters sv' = Inr [(name, i)]" "sh_servants (sv_handle sv') name = Some (Some func)"
    "sv_server sv' = app_server app" "sv_world sv' = app_world app" "sv_state sv' = st"
    by (rule handle_starts [OF main cfg i name env])
  have "sv' = sv" using s(1) start by simp
  then show ?thesis using s(2-) by blast
qed

lemma HelloServer_cfg: "cfg_ok HelloServer_config" "cfg_names HelloServer_config = [''HelloAdapter'']"
  "cfg_adapterName HelloServer_config = ''HelloAdapter''"
  by (simp_all add: cfg_ok_def cfg_names_def HelloServer_config_def ServerConfig_static_def)

lemma RegistryServer_cfg: "cfg_ok RegistryServer_config" "cfg_names RegistryServer_config = [''RegistryAdapter'']"
  "cfg_adapterName RegistryServer_config = ''RegistryAdapter''"
  by (simp_all add: cfg_ok_def cfg_names_def RegistryServer_config_def ServerConfig_static_def)

lemma NodeServer_cfg: "cfg_ok NodeServer_config" "cfg_names NodeServer_config = [''ServerAdapter'', ''NodeAdapter'']"
  "cfg_adapterName NodeServer_config = ''ServerAdapter''"
  by (simp_all add: cfg_ok_def cfg_names_def NodeServer_config_def ServerConfig_static_def)

lemma start_program_parts:
  assumes "start_program addr info pton byname getpid memory names admin func cfg cl w = Inr (calls, co, cl', handles, app)"
  shows "Application_extra_main pton byname getpid memory admin func cfg w = Inr (handles, app)"
  using assms by (auto simp: start_program_def result_simps)

lemma start_program_calls:
  assumes "start_program addr info pton byname getpid memory names admin func cfg cl w = Inr (calls, co, cl', handles, app)"
  shows "calls = map (\<lambda>name. (''registerServant'', name @ '':127.0.0.1:9877'')) names"
proof -
  obtain co1 cl1 where "Application_initializeClient addr info names cl = Inr (calls, co1, cl1)"
    using assms by (auto simp: start_program_def result_simps)
  then obtain sp where g: "get_servantProxy addr info names ''127.0.0.1'' 19386 Communicator_new cl = Inr (sp, calls, co1, cl1)"
    by (auto simp: Application_initializeClient_def stringToProxy_def result_simps)
  obtain co2 cl2 where i: "Communicator_initialize addr Communicator_new cl = Inr (co2, cl2)"
    using g by (cases "Communicator_initialize addr Communicator_new cl") (auto simp: get_servantProxy_def)
  then have "\<not> co_registed co2" by (auto simp: Communicator_initialize_def Communicator_new_def result_simps)
  then show ?thesis using g i by (auto simp: get_servantProxy_def Let_def split: prod.splits)
qed

lemma start_program_ok:
  assumes "all_succeed (cn_kernel (cl_net cl))" and "all_succeed (w_kernel w)" and "cfg_ok cfg"
  shows "\<exists>co cl' handles app. start_program addr info pton byname getpid memory names admin func cfg cl w =
    Inr (map (\<lambda>name. (''registerServant'', name @ '':127.0.0.1:9877'')) names, co, cl', handles, app)"
proof -
  obtain co cl' where c: "Application_initializeClient addr info names cl =
    Inr (map (\<lambda>name. (''registerServant'', name @ '':127.0.0.1:9877'')) names, co, cl')"
    using initializeClient_ok [OF assms(1)] by blast
  have "cfg_adapterName cfg \<notin> {''AdminObj'', cfg_servantName cfg, cfg_servantName1 cfg}" using assms(3) by (simp add: cfg_ok_def)
  then obtain handles app where "Application_extra_main pton byname getpid memory admin func cfg w = Inr (handles, app)"
    using extra_main_ok [OF assms(2)] by blast
  then show ?thesis by (simp add: start_program_def c)
qed

section \<open>The interface of a dispatcher\<close>

text \<open>A dispatcher and the responses it promises: \<open>answers i f a r\<close> says that the call of \<open>f\<close> with \<open>a\<close>, under the id
  \<open>i\<close>, is answered by \<open>r\<close>, which is not empty.\<close>

locale dispatcher =
  fixes imp :: "'s dispatcFunc" and answers :: "i32 \<Rightarrow> string \<Rightarrow> string \<Rightarrow> string \<Rightarrow> bool"
  assumes responds: "answers i f a r \<Longrightarrow> \<exists>ret st'. imp (request_body i (request_text f a)) [] st = Inr (ret, r, st')"
    and responds_text: "answers i f a r \<Longrightarrow> r \<noteq> []"
begin

text \<open>A program that registers it under its first adapter's name serves the first call of the first client, if the
  sockets of its adapters differ.\<close>

lemma program_answers:
  assumes em: "Application_extra_main pton byname getpid memory admin imp cfg w0 = Inr (handles, app)" and cfg: "cfg_ok cfg"
    and name: "name = cfg_adapterName cfg" and env: "env_ok env 1310272"
    and fds: "\<forall>k < length (cfg_names cfg). 0 < k \<longrightarrow>
      listen_fd (Suc (length (w_adapters w0)) + k) (app_world app) \<noteq> listen_fd (Suc (length (w_adapters w0))) (app_world app)"
    and start: "ServantHandle_start env (app_manager app) (worker (fresh_handle name) app st) = Inr (m, sv)"
    and nt: "first_thread (sv_server sv) = Inr nt" and w: "w_adapters w = w_adapters (sv_world sv)"
    and acc: "NetThread_accept (listen_fd (Suc (length (w_adapters w0))) w) nt w = Inr (True, nt', w')"
    and c: "nt_connectionUids nt' u = Some (Some c)"
    and resp: "answers i f a resp" and len: "length (request_body i (request_text f a)) < 2 ^ 31"
    and io: "w_reads w' (con_fd c) = [RData (frame (request_body i (request_text f a)))]"
      "w_writes w' (con_fd c) = Wrote n # rest" "n \<le> length resp"
  shows "\<exists>sv'. serve_event env (in_event c) (sv\<lparr>sv_server := (sv_server sv)\<lparr>es_netThreads := [nt']\<rparr>, sv_world := w'\<rparr>) = Inr sv' \<and>
    w_sent (sv_world sv') (con_fd c) = w_sent w' (con_fd c) @ take n resp"
proof -
  let ?i = "Suc (length (w_adapters w0))"
  have k: "0 < length (cfg_names cfg)" "cfg_names cfg ! 0 = name" "?i + 0 = ?i" "?i = ?i + 0" by (simp_all add: name cfg_names_def)
  note h = handle_of_adapter [OF em cfg k(1-3)]
  obtain p where s: "idle_sched (sv_sched sv) p" "poolSize (sv_sched sv) = 204" "stackSize (sv_sched sv) = 1310272"
    "group_adapters sv = Inr [(name, ?i)]" "sh_servants (sv_handle sv) name = Some (Some imp)"
    "sv_server sv = app_server app" "sv_world sv = app_world app" "sv_state sv = st"
    using handle_started [OF em cfg refl name env start] by blast
  have t: "thread_ready ?i (app_world app) nt"
    using extra_main_listens [OF em k(1,4)] fds nt by (auto simp: s(6) first_thread_def)
  have lw: "listen_fd ?i w = listen_fd ?i (app_world app)" by (simp add: listen_fd_def w s(7))
  have fr: "nt_free nt = 1 # map of_nat [2..<2001]" using t by (simp only: thread_ready_def fresh_uids_split)
  have l: "map_of (nt_listeners nt) (listen_fd ?i w) = Some (Some ?i)" "nt_connectionUids nt = Map.empty" "listen_fd ?i w \<noteq> -1"
    using t by (simp_all add: thread_ready_def lw)
  have i: "?i < length (w_adapters w)" using h(2) by (simp add: w s(7))
  note a = accept_ready [OF acc l(1) fr l(2) c i l(3)]
  obtain ret st' where r: "imp (request_body i (request_text f a)) [] st = Inr (ret, resp, st')" using responds [OF resp] by blast
  let ?sv = "sv\<lparr>sv_server := (sv_server sv)\<lparr>es_netThreads := [nt']\<rparr>, sv_world := w'\<rparr>"
  have "\<exists>sv'. serve_event env (in_event c) ?sv = Inr sv' \<and> sv_state sv' = st' \<and> idle_sched (sv_sched sv') p \<and>
      w_sent (sv_world sv') (con_fd c) = w_sent (sv_world ?sv) (con_fd c) @ take n resp"
  proof (rule serve_event_ok [where nt = nt' and name = name and i = ?i and func = imp])
    show "group_adapters ?sv = Inr [(name, ?i)]" using s(4) by simp
    show "\<not> nt_terminate nt'" "nt_sendBuffer nt' = ThreadDeque_new" using t a(3,4) by (simp_all add: thread_ready_def)
    show "resp \<noteq> []" using resp by (rule responds_text)
  qed (use s a(1,2) h(3,4) env io len w r in simp_all)
  then show ?thesis by auto
qed

end

text \<open>The hello service answers a call of its functions with the body of the call; the registry answers a
  registration.\<close>

definition hello_answers :: "i32 \<Rightarrow> string \<Rightarrow> string \<Rightarrow> string \<Rightarrow> bool" where
  "hello_answers i f a r \<longleftrightarrow> f \<in> {''test'', ''testHello''} \<and> r = request_body i (request_text f a)"

definition registry_answers :: "i32 \<Rightarrow> string \<Rightarrow> string \<Rightarrow> string \<Rightarrow> bool" where
  "registry_answers i f a r \<longleftrightarrow>
     f = ''registerServant'' \<and> r = to_string (sint i) @ '':registed!'' \<and>
     (\<exists>name ip port. a = name @ '':'' @ ip @ '':'' @ port \<and> CHR '':'' \<notin> set name \<and> CHR '':'' \<notin> set ip \<and> CHR '':'' \<notin> set port \<and> port \<noteq> [])"

interpretation hello: dispatcher "carry HelloImp :: (bool \<times> Registry) dispatcFunc" hello_answers
proof
  fix i :: i32 and f a r and st :: "bool \<times> Registry"
  assume h: "hello_answers i f a r"
  then have "CHR '':'' \<notin> set f" by (auto simp: hello_answers_def)
  then show "\<exists>ret st'. carry HelloImp (request_body i (request_text f a)) [] st = Inr (ret, r, st')"
    using HelloImp_body [of f i a "[]"] h by (auto simp: carry_def hello_answers_def)
  show "r \<noteq> []" using h by (simp add: hello_answers_def request_body_def)
qed

interpretation registry: dispatcher registry_func registry_answers
proof
  fix i :: i32 and f a r and st :: "bool \<times> Registry"
  assume h: "registry_answers i f a r"
  then obtain name ip port where a: "a = name @ '':'' @ ip @ '':'' @ port" "CHR '':'' \<notin> set name" "CHR '':'' \<notin> set ip"
    "CHR '':'' \<notin> set port" "port \<noteq> []" "f = ''registerServant''" "r = to_string (sint i) @ '':registed!''"
    by (auto simp: registry_answers_def)
  show "\<exists>ret st'. registry_func (request_body i (request_text f a)) [] st = Inr (ret, r, st')"
    using RegisterImp_body [OF a(2-5)] by (simp add: registry_func_def a)
  show "r \<noteq> []" by (simp add: a)
qed

definition node_answers :: "i32 \<Rightarrow> string \<Rightarrow> string \<Rightarrow> string \<Rightarrow> bool" where
  "node_answers i f a r \<longleftrightarrow> f = ''keepAlive'' \<and> r = to_string (sint i) @ '':I have received''"

interpretation node: dispatcher "carry ServerImp :: (bool \<times> Registry) dispatcFunc" node_answers
proof
  fix i :: i32 and f a r and st :: "bool \<times> Registry"
  assume h: "node_answers i f a r"
  then have "CHR '':'' \<notin> set f" by (simp add: node_answers_def)
  then show "\<exists>ret st'. carry ServerImp (request_body i (request_text f a)) [] st = Inr (ret, r, st')"
    using ServerImp_body [of f i a "[]"] h by (simp add: carry_def node_answers_def)
  show "r \<noteq> []" using h by (simp add: node_answers_def)
qed

text \<open>What \<open>waitForQuit\<close> sees at its \<open>k\<close>-th test from the \<open>i\<close>-th on.\<close>

fun seen :: "(nat \<Rightarrow> 's App \<Rightarrow> 's App) \<Rightarrow> nat \<Rightarrow> nat \<Rightarrow> 's App \<Rightarrow> 's App" where
  "seen others i 0 app = others i app"
| "seen others i (Suc k) app = seen others (Suc i) k (others i app)"

lemma waitForQuit_at:
  assumes "es_terminate (app_server (seen others i k app))" and "\<forall>j < k. \<not> es_terminate (app_server (seen others i j app))"
  shows "Application_waitForQuit others i app = Some (stop_threads (seen others i k app))"
  using assms
proof (induction k arbitrary: i app)
  case 0
  then show ?case by (subst Application_waitForQuit.simps) simp
next
  case (Suc k)
  have "\<not> es_terminate (app_server (others i app))" using Suc.prems(2) by (metis seen.simps(1) zero_less_Suc)
  moreover have "\<forall>j < k. \<not> es_terminate (app_server (seen others (Suc i) j (others i app)))"
    using Suc.prems(2) by (metis Suc_less_eq seen.simps(2))
  ultimately show ?case using Suc.IH [of "Suc i" "others i app"] Suc.prems(1) by (subst Application_waitForQuit.simps) simp
qed

lemma waitForQuit_some:
  fixes app :: "'s App"
  assumes "Application_waitForQuit others i app = Some app'"
  shows "\<exists>k. es_terminate (app_server (seen others i k app))"
proof (rule Application_waitForQuit.raw_induct
    [of "\<lambda>others i app app'. \<exists>k. es_terminate (app_server (seen others i k app))", OF _ assms])
  fix wait :: "(nat \<Rightarrow> 's App \<Rightarrow> 's App) \<Rightarrow> nat \<Rightarrow> 's App \<Rightarrow> 's App option" and others i and app app' :: "'s App"
  assume ih: "\<And>others i (app :: 's App) app'. wait others i app = Some app' \<Longrightarrow> \<exists>k. es_terminate (app_server (seen others i k app))"
    and b: "(let app1 = others i app in if es_terminate (app_server app1) then Some (stop_threads app1) else wait others (Suc i) app1) = Some app'"
  show "\<exists>k. es_terminate (app_server (seen others i k app))"
  proof (cases "es_terminate (app_server (others i app))")
    case True
    then show ?thesis by (intro exI [of _ 0]) simp
  next
    case False
    then have "wait others (Suc i) (others i app) = Some app'" using b by (simp add: Let_def)
    from ih [OF this] obtain k where "es_terminate (app_server (seen others (Suc i) k (others i app)))" by blast
    then show ?thesis by (intro exI [of _ "Suc k"]) simp
  qed
qed

lemma terminate_threads_all: "list_all nt_terminate (fst (terminate_netThreads nts k))"
proof (induction nts arbitrary: k)
  case (Cons nt nts)
  obtain nt' k1 where t: "NetThread_terminate nt k = (nt', k1)" by fastforce
  then have "nt_terminate nt'" by (auto simp: NetThread_terminate_def Let_def)
  then show ?case using Cons.IH [of k1] t by (simp add: split_beta)
qed simp

section \<open>Properties\<close>


text \<open>C2. From \<open>main\<close> to the first response: once \<open>HelloServer.cc\<close> is up and a thread of its handle has started,
  a client whose connection \<open>accept\<close> takes from the socket the start-up bound for \<open>HelloAdapter\<close>, and who sends a
  framed call of \<open>test\<close> or \<open>testHello\<close>, is answered on that connection with the body of the call, of which the
  socket takes the first \<open>n\<close> bytes. \<open>w\<close> is the world after the start-up, with what the network has brought since.\<close>

theorem HelloServer_answers:
  fixes st :: "bool \<times> Registry"
  assumes main: "HelloServer_main addr info pton byname getpid memory cl w0 = Inr (calls, co, cl', handles, app)"
    and env: "env_ok env 1310272"
    and start: "ServantHandle_start env (app_manager app) (worker (fresh_handle ''HelloAdapter'') app st) = Inr (m, sv)"
    and nt: "first_thread (sv_server sv) = Inr nt" and w: "w_adapters w = w_adapters (sv_world sv)"
    and acc: "NetThread_accept (listen_fd (Suc (length (w_adapters w0))) w) nt w = Inr (True, nt', w')"
    and c: "nt_connectionUids nt' u = Some (Some c)"
    and f: "func \<in> {''test'', ''testHello''}" and body: "body = request_body i (request_text func arg)" "length body < 2 ^ 31"
    and io: "w_reads w' (con_fd c) = [RData (frame body)]" "w_writes w' (con_fd c) = Wrote n # rest" "n \<le> length body"
  shows "\<exists>sv'. serve_event env (in_event c) (sv\<lparr>sv_server := (sv_server sv)\<lparr>es_netThreads := [nt']\<rparr>, sv_world := w'\<rparr>) = Inr sv' \<and>
    w_sent (sv_world sv') (con_fd c) = w_sent w' (con_fd c) @ take n body"
  using hello.program_answers [OF start_program_parts [OF main [unfolded HelloServer_main_def]] HelloServer_cfg(1) HelloServer_cfg(3) [symmetric] env _ start nt w acc c]
    f body io by (simp add: hello_answers_def HelloServer_cfg)

text \<open>C3. The registry answers the calls by which the hello server registers its functions at its start-up:
  each of them, arriving at a \<open>RegistryServer.cc\<close> that is up, is answered under its id with \<open>registed!\<close>, of which
  the socket takes the first \<open>n\<close> bytes.\<close>

theorem RegistryServer_answers:
  fixes st :: "bool \<times> Registry"
  assumes hello: "HelloServer_main addr1 info1 pton1 byname1 getpid1 memory1 cl1 w1 = Inr (calls, co1, cl1', handles1, app1)"
    and main: "RegistryServer_main addr info pton byname getpid memory cl w0 = Inr (calls', co, cl', handles, app)"
    and env: "env_ok env 1310272"
    and start: "ServantHandle_start env (app_manager app) (worker (fresh_handle ''RegistryAdapter'') app st) = Inr (m, sv)"
    and nt: "first_thread (sv_server sv) = Inr nt" and w: "w_adapters w = w_adapters (sv_world sv)"
    and acc: "NetThread_accept (listen_fd (Suc (length (w_adapters w0))) w) nt w = Inr (True, nt', w')"
    and c: "nt_connectionUids nt' u = Some (Some c)"
    and f: "(func, arg) \<in> set calls" and body: "body = request_body i (request_text func arg)" "length body < 2 ^ 31"
    and io: "w_reads w' (con_fd c) = [RData (frame body)]" "w_writes w' (con_fd c) = Wrote n # rest"
      "n \<le> length (to_string (sint i) @ '':registed!'')"
  shows "\<exists>sv'. serve_event env (in_event c) (sv\<lparr>sv_server := (sv_server sv)\<lparr>es_netThreads := [nt']\<rparr>, sv_world := w'\<rparr>) = Inr sv' \<and>
    w_sent (sv_world sv') (con_fd c) = w_sent w' (con_fd c) @ take n (to_string (sint i) @ '':registed!'')"
proof -
  have "calls = map (\<lambda>name. (''registerServant'', name @ '':127.0.0.1:9877'')) [''test'', ''testHello'']"
    by (rule start_program_calls [OF hello [unfolded HelloServer_main_def]])
  then obtain name where a: "func = ''registerServant''" "arg = name @ '':'' @ ''127.0.0.1'' @ '':'' @ ''9877''" "CHR '':'' \<notin> set name"
    using f by auto
  have "registry_answers i func arg (to_string (sint i) @ '':registed!'')"
    unfolding registry_answers_def
    by (intro conjI exI [of _ name] exI [of _ "''127.0.0.1''"] exI [of _ "''9877''"]) (simp_all add: a)
  from registry.program_answers [OF start_program_parts [OF main [unfolded RegistryServer_main_def]] RegistryServer_cfg(1) RegistryServer_cfg(3) [symmetric] env _ start nt w acc c
      this body(2) [unfolded body(1)] io(1) [unfolded body(1)] io(2,3)]
  show ?thesis by (simp add: RegistryServer_cfg)
qed

text \<open>C4. The node server answers heartbeats: it serves its first adapter although it binds a second one after it,
  provided the kernel gave the two listening sockets different descriptors. A framed \<open>keepAlive\<close> from the first client
  that connects is answered under its id, and its socket is offered that answer.\<close>

theorem NodeServer_answers:
  fixes st :: "bool \<times> Registry"
  assumes main: "NodeServer_main addr info pton byname getpid memory names cl w0 = Inr (calls, co, cl', handles, app)"
    and fds: "listen_fd (length (w_adapters w0) + 2) (app_world app) \<noteq> listen_fd (Suc (length (w_adapters w0))) (app_world app)"
    and env: "env_ok env 1310272"
    and start: "ServantHandle_start env (app_manager app) (worker (fresh_handle ''ServerAdapter'') app st) = Inr (m, sv)"
    and nt: "first_thread (sv_server sv) = Inr nt" and w: "w_adapters w = w_adapters (sv_world sv)"
    and acc: "NetThread_accept (listen_fd (Suc (length (w_adapters w0))) w) nt w = Inr (True, nt', w')"
    and c: "nt_connectionUids nt' u = Some (Some c)"
    and body: "body = request_body i (request_text ''keepAlive'' beat)" "length body < 2 ^ 31"
    and io: "w_reads w' (con_fd c) = [RData (frame body)]" "w_writes w' (con_fd c) = Wrote n # rest"
      "n \<le> length (to_string (sint i) @ '':I have received'')"
  shows "\<exists>sv'. serve_event env (in_event c) (sv\<lparr>sv_server := (sv_server sv)\<lparr>es_netThreads := [nt']\<rparr>, sv_world := w'\<rparr>) = Inr sv' \<and>
    w_sent (sv_world sv') (con_fd c) = w_sent w' (con_fd c) @ take n (to_string (sint i) @ '':I have received'')"
proof -
  have d: "\<forall>k < length (cfg_names NodeServer_config). 0 < k \<longrightarrow>
      listen_fd (Suc (length (w_adapters w0)) + k) (app_world app) \<noteq> listen_fd (Suc (length (w_adapters w0))) (app_world app)"
    using fds by (auto simp: NodeServer_cfg less_Suc_eq)
  have "node_answers i ''keepAlive'' beat (to_string (sint i) @ '':I have received'')" by (simp add: node_answers_def)
  from node.program_answers [OF start_program_parts [OF main [unfolded NodeServer_main_def]] NodeServer_cfg(1) NodeServer_cfg(3) [symmetric]
      env d start nt w acc c this body(2) [unfolded body(1)] io(1) [unfolded body(1)] io(2,3)]
  show ?thesis .
qed

text \<open>C19. \<open>waitForShutdown\<close> returns exactly when some test of \<open>isTerminate\<close> finds the server terminated, at the
  first such test, and has then told every network thread to end.\<close>

theorem waitForShutdown_stops:
  "Application_waitForShutdown others app =
     (if \<exists>k. es_terminate (app_server (seen others 0 k app))
      then Some (stop_threads (seen others 0 (LEAST k. es_terminate (app_server (seen others 0 k app))) app))
      else None) \<and>
   list_all nt_terminate (es_netThreads (app_server (stop_threads app')))"
proof
  show "list_all nt_terminate (es_netThreads (app_server (stop_threads app')))"
    using terminate_threads_all [of "es_netThreads (app_server app')" "w_kernel (app_world app')"]
    by (simp add: stop_threads_def split_beta)
  let ?stop = "\<lambda>k. es_terminate (app_server (seen others 0 k app))"
  show "Application_waitForShutdown others app = (if \<exists>k. ?stop k then Some (stop_threads (seen others 0 (LEAST k. ?stop k) app)) else None)"
  proof (cases "\<exists>k. ?stop k")
    case True
    then have "?stop (LEAST k. ?stop k)" "\<forall>j < (LEAST k. ?stop k). \<not> ?stop j" by (auto intro: LeastI_ex dest: not_less_Least)
    then show ?thesis using waitForQuit_at [of others 0 "LEAST k. ?stop k" app] True by (simp add: Application_waitForShutdown_def)
  next
    case False
    then show ?thesis using waitForQuit_some [of others 0 app]
      by (cases "Application_waitForQuit others 0 app") (auto simp: Application_waitForShutdown_def)
  qed
qed

text \<open>The node server binds a second adapter and starts a handle for it, but registers no dispatcher: every
  request to it ends in the exception of calling an empty function.\<close>

theorem NodeServer_second_adapter:
  assumes main: "NodeServer_main addr info pton byname getpid memory names cl w0 = Inr (calls, co, cl', handles, app)"
    and "adapter_at (rd_adapter r) w = Inr a" and "ba_name a = ''NodeAdapter''"
  shows "fresh_handle ''NodeAdapter'' \<in> set handles \<and>
    (\<exists>h m. ServantHandle_init (app_server app) (fresh_handle ''NodeAdapter'') (app_manager app) = Inr (h, m) \<and>
       ServantHandle_handle h r es w s = Inl Exception)"
proof -
  note em = start_program_parts [OF main [unfolded NodeServer_main_def]]
  have k: "1 < length (cfg_names NodeServer_config)" "cfg_names NodeServer_config ! 1 = ''NodeAdapter''"
    by (simp_all add: NodeServer_cfg)
  note h = handle_of_adapter [OF em NodeServer_cfg(1) k refl]
  obtain m where "ServantHandle_init (app_server app) (fresh_handle ''NodeAdapter'') (app_manager app) =
      Inr (\<lparr>sh_servants = [''NodeAdapter'' \<mapsto> None], sh_handleGroup = Some ''NodeAdapter''\<rparr>, m)"
    using h(6) by (auto simp: NodeServer_cfg)
  then show ?thesis using h(1) assms(2,3) by (simp add: ServantHandle_handle_def)
qed

lemma sample_accept_listener:
  assumes "w_kernel w = \<lparr>k_results = [7], k_calls = []\<rparr>" and "map_of (nt_listeners nt) lfd = Some p" and "nt_free nt = uid # rest"
  shows "\<exists>nt' k' c. NetThread_accept lfd nt w = Inr (True, nt', w\<lparr>w_kernel := k'\<rparr>) \<and> nt_connectionUids nt' uid = Some (Some c)"
  using sample_accept [OF assms(1) _ assms(3), of lfd p nt] assms(2) by (auto simp: listener_of_def)

text \<open>A client and a world in which the kernel grants every call.\<close>

lemma sample_kernels: "all_succeed (cn_kernel (cl_net sample_client))" "all_succeed (w_kernel blank_world)"
  by (simp_all add: all_succeed_def sample_net_def blank_world_def)


definition hello_body :: string where
  "hello_body = request_body 7 (request_text ''test'' ''x'')"

lemma hello_body_length: "length hello_body < 2147483648" "3 \<le> length hello_body"
  by (simp_all add: hello_body_def request_body_def request_text_def to_string_def digits.simps)

text \<open>A first client that sends \<open>text1\<close> to a program's first adapter.\<close>

lemma sample_visit:
  assumes em: "Application_extra_main pton byname getpid memory admin func cfg w0 = Inr (handles, app)" and cfg: "cfg_ok cfg"
    and name: "name = cfg_adapterName cfg" and n: "w_adapters w0 = []"
    and fds: "\<forall>k < length (cfg_names cfg). 0 < k \<longrightarrow> listen_fd (Suc k) (app_world app) \<noteq> listen_fd 1 (app_world app)"
  obtains m sv nt nt' k' c w where "ServantHandle_start sample_env (app_manager app) (worker (fresh_handle name) app st) = Inr (m, sv)"
    "first_thread (sv_server sv) = Inr nt" "w_adapters w = w_adapters (sv_world sv)"
    "NetThread_accept (listen_fd 1 w) nt w = Inr (True, nt', w\<lparr>w_kernel := k'\<rparr>)" "nt_connectionUids nt' 1 = Some (Some c)"
    "w_reads w = (\<lambda>_. [RData (frame text1)])" "w_writes w = (\<lambda>_. [Wrote 3])"
proof -
  have k: "0 < length (cfg_names cfg)" by (simp add: cfg_names_def)
  obtain m sv where s: "ServantHandle_start sample_env (app_manager app) (worker (fresh_handle name) app st) = Inr (m, sv)"
    "sv_server sv = app_server app" "sv_world sv = app_world app"
    by (rule handle_starts [OF em cfg refl name sample_env_ok])
  obtain nt where nt: "es_netThreads (app_server app) = [nt]" "thread_ready 1 (app_world app) nt"
    using extra_main_listens [OF em k refl] fds by (auto simp: n)
  define w where "w = (sv_world sv)\<lparr>w_kernel := \<lparr>k_results = [7], k_calls = []\<rparr>, w_reads := (\<lambda>_. [RData (frame text1)]),
    w_writes := (\<lambda>_. [Wrote 3])\<rparr>"
  have w: "w_adapters w = w_adapters (sv_world sv)" "w_kernel w = \<lparr>k_results = [7], k_calls = []\<rparr>" "listen_fd 1 w = listen_fd 1 (app_world app)"
    "w_reads w = (\<lambda>_. [RData (frame text1)])" "w_writes w = (\<lambda>_. [Wrote 3])"
    by (simp_all add: w_def listen_fd_def s(3))
  have l: "map_of (nt_listeners nt) (listen_fd 1 w) = Some (Some 1)" using nt(2) by (simp only: thread_ready_def w(3))
  have fr: "nt_free nt = 1 # map of_nat [2..<2001]" using nt(2) by (simp only: thread_ready_def fresh_uids_split)
  obtain nt' k' c where a: "NetThread_accept (listen_fd 1 w) nt w = Inr (True, nt', w\<lparr>w_kernel := k'\<rparr>)" "nt_connectionUids nt' 1 = Some (Some c)"
    using sample_accept_listener [OF w(2) l fr] by blast
  have "first_thread (sv_server sv) = Inr nt" by (simp add: first_thread_def s(2) nt(1))
  from that [OF s(1) this w(1) a w(4,5)] show thesis .
qed

theorem HelloServer_answers_witness:
  "\<exists>out app m sv nt nt' w w' c sv'.
    HelloServer_main (\<lambda>_. 0) 0 (\<lambda>_. (1, 0)) (\<lambda>_. None) 42 0 sample_client blank_world = Inr out \<and> app = snd (snd (snd (snd out))) \<and>
    ServantHandle_start sample_env (app_manager app) (worker (fresh_handle ''HelloAdapter'') app (False, Map.empty)) = Inr (m, sv) \<and>
    NetThread_accept (listen_fd 1 w) nt w = Inr (True, nt', w') \<and>
    serve_event sample_env (in_event c) (sv\<lparr>sv_server := (sv_server sv)\<lparr>es_netThreads := [nt']\<rparr>, sv_world := w'\<rparr>) = Inr sv' \<and>
    w_sent (sv_world sv') (con_fd c) = w_sent w' (con_fd c) @ take 3 hello_body"
proof -
  obtain calls co cl' handles app where main: "HelloServer_main (\<lambda>_. 0) 0 (\<lambda>_. (1, 0)) (\<lambda>_. None) 42 0 sample_client blank_world =
      Inr (calls, co, cl', handles, app)"
    using start_program_ok [OF sample_kernels HelloServer_cfg(1)] unfolding HelloServer_main_def by metis
  note em = start_program_parts [OF main [unfolded HelloServer_main_def]]
  obtain m sv nt nt' k' c w where s: "ServantHandle_start sample_env (app_manager app) (worker (fresh_handle ''HelloAdapter'') app (False, Map.empty)) = Inr (m, sv)"
    "first_thread (sv_server sv) = Inr nt" "w_adapters w = w_adapters (sv_world sv)"
    "NetThread_accept (listen_fd 1 w) nt w = Inr (True, nt', w\<lparr>w_kernel := k'\<rparr>)" "nt_connectionUids nt' 1 = Some (Some c)"
    "w_reads w = (\<lambda>_. [RData (frame hello_body)])" "w_writes w = (\<lambda>_. [Wrote 3])"
    by (rule sample_visit [OF em HelloServer_cfg(1) HelloServer_cfg(3) [symmetric]]) (simp_all add: blank_world_def HelloServer_cfg)
  have "\<exists>sv'. serve_event sample_env (in_event c) (sv\<lparr>sv_server := (sv_server sv)\<lparr>es_netThreads := [nt']\<rparr>, sv_world := w\<lparr>w_kernel := k'\<rparr>\<rparr>) = Inr sv' \<and>
      w_sent (sv_world sv') (con_fd c) = w_sent (w\<lparr>w_kernel := k'\<rparr>) (con_fd c) @ take 3 hello_body"
    by (rule HelloServer_answers [OF main sample_env_ok s(1,2,3) _ s(5), where func = "''test''" and arg = "''x''" and i = 7 and rest = "[]"])
      (use s(4,6,7) hello_body_length in \<open>simp_all add: blank_world_def hello_body_def\<close>)
  then show ?thesis using main s(1,4) by fastforce
qed

definition registration :: string where
  "registration = request_body 7 (request_text ''registerServant'' ''test:127.0.0.1:9877'')"

theorem RegistryServer_answers_witness:
  "\<exists>out app m sv nt nt' w w' c sv'.
    RegistryServer_main (\<lambda>_. 0) 0 (\<lambda>_. (1, 0)) (\<lambda>_. None) 42 0 sample_client blank_world = Inr out \<and> app = snd (snd (snd (snd out))) \<and>
    ServantHandle_start sample_env (app_manager app) (worker (fresh_handle ''RegistryAdapter'') app (False, Map.empty)) = Inr (m, sv) \<and>
    NetThread_accept (listen_fd 1 w) nt w = Inr (True, nt', w') \<and>
    serve_event sample_env (in_event c) (sv\<lparr>sv_server := (sv_server sv)\<lparr>es_netThreads := [nt']\<rparr>, sv_world := w'\<rparr>) = Inr sv' \<and>
    w_sent (sv_world sv') (con_fd c) = w_sent w' (con_fd c) @ take 3 (to_string 7 @ '':registed!'')"
proof -
  obtain co1 cl1 handles1 app1 where hello: "HelloServer_main (\<lambda>_. 0) 0 (\<lambda>_. (1, 0)) (\<lambda>_. None) 42 0 sample_client blank_world =
      Inr ([(''registerServant'', ''test:127.0.0.1:9877''), (''registerServant'', ''testHello:127.0.0.1:9877'')], co1, cl1, handles1, app1)"
    using start_program_ok [OF sample_kernels HelloServer_cfg(1), where names = "[''test'', ''testHello'']"]
    unfolding HelloServer_main_def list.map append.simps by blast
  obtain calls co cl' handles app where main: "RegistryServer_main (\<lambda>_. 0) 0 (\<lambda>_. (1, 0)) (\<lambda>_. None) 42 0 sample_client blank_world =
      Inr (calls, co, cl', handles, app)"
    using start_program_ok [OF sample_kernels RegistryServer_cfg(1)] unfolding RegistryServer_main_def by metis
  note em = start_program_parts [OF main [unfolded RegistryServer_main_def]]
  obtain m sv nt nt' k' c w where s: "ServantHandle_start sample_env (app_manager app) (worker (fresh_handle ''RegistryAdapter'') app (False, Map.empty)) = Inr (m, sv)"
    "first_thread (sv_server sv) = Inr nt" "w_adapters w = w_adapters (sv_world sv)"
    "NetThread_accept (listen_fd 1 w) nt w = Inr (True, nt', w\<lparr>w_kernel := k'\<rparr>)" "nt_connectionUids nt' 1 = Some (Some c)"
    "w_reads w = (\<lambda>_. [RData (frame registration)])" "w_writes w = (\<lambda>_. [Wrote 3])"
    by (rule sample_visit [OF em RegistryServer_cfg(1) RegistryServer_cfg(3) [symmetric]]) (simp_all add: blank_world_def RegistryServer_cfg)
  have "\<exists>sv'. serve_event sample_env (in_event c) (sv\<lparr>sv_server := (sv_server sv)\<lparr>es_netThreads := [nt']\<rparr>, sv_world := w\<lparr>w_kernel := k'\<rparr>\<rparr>) = Inr sv' \<and>
      w_sent (sv_world sv') (con_fd c) = w_sent (w\<lparr>w_kernel := k'\<rparr>) (con_fd c) @ take 3 (to_string (sint (7 :: i32)) @ '':registed!'')"
    by (rule RegistryServer_answers [OF hello main sample_env_ok s(1,2,3) _ s(5), where func = "''registerServant''" and
          arg = "''test:127.0.0.1:9877''" and i = 7 and rest = "[]"])
      (use s(4,6,7) in \<open>simp_all add: blank_world_def registration_def request_body_def request_text_def to_string_def digits.simps\<close>)
  then show ?thesis using main s(1,4) by fastforce
qed

definition node_request :: tagRecvData where
  "node_request = (recv_message sample_connection ''1:hello:x'')\<lparr>rd_adapter := Some 0\<rparr>"

definition node_world :: World where
  "node_world = sample_world\<lparr>w_adapters := [BindAdapter_new\<lparr>ba_name := ''NodeAdapter''\<rparr>]\<rparr>"

theorem NodeServer_second_adapter_witness:
  "\<exists>out h m es. NodeServer_main (\<lambda>_. 0) 0 (\<lambda>_. (1, 0)) (\<lambda>_. None) 42 0 [''test''] sample_client blank_world = Inr out \<and>
    ServantHandle_init (app_server (snd (snd (snd (snd out))))) (fresh_handle ''NodeAdapter'') (app_manager (snd (snd (snd (snd out))))) = Inr (h, m) \<and>
    ServantHandle_handle h node_request es node_world (False, Map.empty) = Inl Exception"
proof -
  obtain calls co cl' handles app where main:
    "NodeServer_main (\<lambda>_. 0) 0 (\<lambda>_. (1, 0)) (\<lambda>_. None) 42 0 [''test''] sample_client blank_world = Inr (calls, co, cl', handles, app)"
    using start_program_ok [OF sample_kernels NodeServer_cfg(1)] unfolding NodeServer_main_def by metis
  have "adapter_at (rd_adapter node_request) node_world = Inr (BindAdapter_new\<lparr>ba_name := ''NodeAdapter''\<rparr>)"
    by (simp add: adapter_at_def node_request_def node_world_def)
  from NodeServer_second_adapter [OF main this, of "app_server app" "(False, Map.empty)"] main show ?thesis
    by (auto intro!: exI [of _ "app_server app"])
qed

text \<open>A kernel that never gives the same number twice.\<close>

definition node_start :: World where
  "node_start = blank_world\<lparr>w_kernel := \<lparr>k_results = map int [1..<60], k_calls = []\<rparr>\<rparr>"

lemma node_start_fds:
  fixes admin func :: "'s dispatcFunc"
  assumes main: "Application_extra_main pton byname getpid memory admin func NodeServer_config node_start = Inr (handles, app)"
  shows "listen_fd 2 (app_world app) \<noteq> listen_fd 1 (app_world app)"
proof -
  obtain app0 "is" app1 where b: "Application_initializeServer pton byname getpid memory admin NodeServer_config node_start = Inr app0"
    "Application_bindAdapter pton byname NodeServer_config app0 = Inr (is, app1)"
    "is = [Suc (length (w_adapters node_start))..<Suc (length (w_adapters node_start)) + length (cfg_names NodeServer_config)]"
    "\<And>j. listen_fd j (app_world app) = listen_fd j (app_world app1)"
    "\<And>i. listens i app1 \<Longrightarrow> \<exists>nt. es_netThreads (app_server app) = [nt] \<and> thread_ready i (app_world app) nt"
    using extra_main_binds [OF main] by blast
  let ?c = NodeServer_config
  let ?bind1 = "bind_config pton byname (cfg_adapterName ?c) (cfg_servantName ?c) (cfg_adapterIp ?c) (cfg_adapterPort ?c) app0"
  obtain i app2 where a: "?bind1 = Inr (i, app2)" using b(2) by (cases ?bind1) (auto simp: Application_bindAdapter_def)
  let ?bind2 = "bind_config pton byname (cfg_adapterName1 ?c) (cfg_servantName1 ?c) (cfg_adapterIp1 ?c) (cfg_adapterPort1 ?c) app2"
  have two: "cfg_servantName1 ?c \<noteq> []" by (simp add: NodeServer_config_def)
  obtain j app3 where a2: "?bind2 = Inr (j, app3)" using b(2) a two by (cases ?bind2) (auto simp: Application_bindAdapter_def)
  have e: "is = [i, j]" "app1 = app3" using b(2) a a2 two by (simp_all add: Application_bindAdapter_def)
  have ij: "i = 1" "j = 2" using b(3) e(1) by (simp_all add: node_start_def blank_world_def NodeServer_cfg)
  have r0: "k_results (w_kernel (app_world app0)) = map int [19..<60]"
    using initializeServer_takes [OF b(1)] by (simp add: node_start_def drop_map del: upt_rec_numeral)
  note t1 = bind_config_takes [OF a] and t2 = bind_config_takes [OF a2]
  have "k_results (w_kernel (app_world app2)) = map int [31..<60]" using t1 r0 by (simp add: drop_map del: upt_rec_numeral)
  then have "listen_fd 2 (app_world app3) = 31" "listen_fd 1 (app_world app3) = listen_fd 1 (app_world app2)"
    using t2 by (simp_all add: ij hd_map del: upt_rec_numeral)
  moreover have "listen_fd 1 (app_world app2) = 19"
    using t1 [THEN conjunct2, THEN conjunct2, THEN conjunct1] by (simp add: ij r0 hd_map del: upt_rec_numeral)
  ultimately have "listen_fd 2 (app_world app3) = 31" "listen_fd 1 (app_world app3) = 19" by simp_all
  then show ?thesis by (simp add: b(4) e(2))
qed

text \<open>A heartbeat of one byte.\<close>

definition heartbeat_body :: string where
  "heartbeat_body = request_body 7 (request_text ''keepAlive'' ''x'')"

theorem NodeServer_answers_witness:
  "\<exists>out app m sv nt nt' w w' c sv'.
    NodeServer_main (\<lambda>_. 0) 0 (\<lambda>_. (1, 0)) (\<lambda>_. None) 42 0 [] sample_client node_start = Inr out \<and> app = snd (snd (snd (snd out))) \<and>
    ServantHandle_start sample_env (app_manager app) (worker (fresh_handle ''ServerAdapter'') app (False, Map.empty)) = Inr (m, sv) \<and>
    NetThread_accept (listen_fd 1 w) nt w = Inr (True, nt', w') \<and>
    serve_event sample_env (in_event c) (sv\<lparr>sv_server := (sv_server sv)\<lparr>es_netThreads := [nt']\<rparr>, sv_world := w'\<rparr>) = Inr sv' \<and>
    w_sent (sv_world sv') (con_fd c) = w_sent w' (con_fd c) @ take 3 (to_string 7 @ '':I have received'')"
proof -
  have k: "all_succeed (w_kernel node_start)" by (auto simp: node_start_def all_succeed_def)
  obtain calls co cl' handles app where main: "NodeServer_main (\<lambda>_. 0) 0 (\<lambda>_. (1, 0)) (\<lambda>_. None) 42 0 [] sample_client node_start =
      Inr (calls, co, cl', handles, app)"
    using start_program_ok [OF sample_kernels(1) k NodeServer_cfg(1)] unfolding NodeServer_main_def by metis
  note em = start_program_parts [OF main [unfolded NodeServer_main_def]]
  note d = node_start_fds [OF em]
  obtain m sv nt nt' k' c w where s: "ServantHandle_start sample_env (app_manager app) (worker (fresh_handle ''ServerAdapter'') app (False, Map.empty)) = Inr (m, sv)"
    "first_thread (sv_server sv) = Inr nt" "w_adapters w = w_adapters (sv_world sv)"
    "NetThread_accept (listen_fd 1 w) nt w = Inr (True, nt', w\<lparr>w_kernel := k'\<rparr>)" "nt_connectionUids nt' 1 = Some (Some c)"
    "w_reads w = (\<lambda>_. [RData (frame heartbeat_body)])" "w_writes w = (\<lambda>_. [Wrote 3])"
    by (rule sample_visit [OF em NodeServer_cfg(1) NodeServer_cfg(3) [symmetric]])
      (use d in \<open>auto simp: node_start_def blank_world_def NodeServer_cfg less_Suc_eq numeral_2_eq_2\<close>)
  have l: "length heartbeat_body < 2147483648" "3 \<le> length (to_string 7 @ '':I have received'')"
    by (simp_all add: heartbeat_body_def request_body_def request_text_def to_string_def digits.simps)
  have "\<exists>sv'. serve_event sample_env (in_event c) (sv\<lparr>sv_server := (sv_server sv)\<lparr>es_netThreads := [nt']\<rparr>, sv_world := w\<lparr>w_kernel := k'\<rparr>\<rparr>) = Inr sv' \<and>
      w_sent (sv_world sv') (con_fd c) = w_sent (w\<lparr>w_kernel := k'\<rparr>) (con_fd c) @ take 3 (to_string (sint (7 :: i32)) @ '':I have received'')"
    by (rule NodeServer_answers [OF main _ sample_env_ok s(1,2,3) _ s(5), where beat = "''x''" and i = 7 and rest = "[]" and body = heartbeat_body])
      (use s(4,6,7) l d [unfolded numeral_2_eq_2] in \<open>simp_all add: node_start_def blank_world_def heartbeat_body_def\<close>)
  then show ?thesis using main s(1,4) by fastforce
qed

end
