(* ===== verification/Tarsx_ClientPrograms.thy ===== *)
theory Tarsx_ClientPrograms
  imports Tarsx_Programs
begin

text \<open>
  The client programs: \<open>main\<close> of \<open>client_test.cc\<close> and \<open>client_async_test.cc\<close>. The first call through a new
  communicator makes what later calls find: the thread's data and queue, the notification socket and, on the network
  thread, the connection.
\<close>

section \<open>The programs\<close>

text \<open>\<open>client_test.cc\<close> up to its wait: the calls to the registry that \<open>stringToProxy\<close> makes, the proxy, the message, and
  whether the caller waits; after the wait comes \<open>tars_invoke_end\<close>, whose result is logged. Neither program defines the \<open>funcNames\<close> of \<open>Communicator.cc\<close>, so they are a parameter.\<close>

definition client_test ::
    "(nat \<Rightarrow> u64) \<Rightarrow> u64 \<Rightarrow> string list \<Rightarrow> tid \<Rightarrow> int \<times> int \<Rightarrow> ThreadKeys \<Rightarrow> Client \<Rightarrow>
     ((string \<times> string) list \<times> Communicator \<times> nat \<times> bool \<times> ServantProxy \<times> ThreadKeys \<times> Client) result" where
  "client_test addr info funcNames t tv tk cl =
     bindE (stringToProxy addr info funcNames ''127.0.0.1'' 9000 Communicator_new cl) (\<lambda>(prx, calls, comm, cl1).
     bindE (tars_invoke_begin t tv ''test'' ''hello'' prx tk cl1) (\<lambda>(a, waits, prx1, tk1, cl2).
     Inr (calls, comm, a, waits, prx1, tk1, cl2)))"

text \<open>\<open>client_async_test.cc\<close> up to \<open>getchar\<close>; the callback, which logs the response, is known by its number.\<close>

definition client_async_test ::
    "(nat \<Rightarrow> u64) \<Rightarrow> u64 \<Rightarrow> string list \<Rightarrow> tid \<Rightarrow> int \<times> int \<Rightarrow> nat \<Rightarrow> ThreadKeys \<Rightarrow> Client \<Rightarrow>
     ((string \<times> string) list \<times> Communicator \<times> nat \<times> ServantProxy \<times> ThreadKeys \<times> Client) result" where
  "client_async_test addr info funcNames t tv callback tk cl =
     bindE (stringToProxy addr info funcNames ''127.0.0.1'' 9000 Communicator_new cl) (\<lambda>(prx, calls, comm, cl1).
     bindE (tars_invoke_async t tv ''test'' ''hello world'' (Some callback) prx tk cl1) (\<lambda>(a, prx1, tk1, cl2).
     Inr (calls, comm, a, prx1, tk1, cl2)))"

section \<open>The first call of a thread\<close>

text \<open>A process at its start: the kernel grants every call, and no socket has failed or sent anything.\<close>

definition fresh_net :: "ClientNet \<Rightarrow> bool" where
  "fresh_net e \<longleftrightarrow> all_succeed (cn_kernel e) \<and> (\<forall>fd. writes_ok fd e \<and> cn_sent e fd = [])"

lemma fresh_net_kernel: "fresh_net e \<Longrightarrow> all_succeed k \<Longrightarrow> fresh_net (e\<lparr>cn_kernel := k\<rparr>)"
  by (simp add: fresh_net_def writes_ok_def)

text \<open>The members of the network thread that know the callback thread.\<close>

definition async_part :: "Client \<Rightarrow> AsyncProcThread list \<times> nat \<times> nat" where
  "async_part cl = (ce_asyncThread (cl_epoll cl), ce_asyncSeq (cl_epoll cl), ce_asyncThreadNum (cl_epoll cl))"

lemma async_part_frame [simp]:
  "async_part (put_msg a m cl) = async_part cl" "async_part (put_queue qa q cl) = async_part cl"
  "async_part (put_kernel k cl) = async_part cl" "async_part (put_notify seq n cl) = async_part cl"
  "async_part (put_object i ob cl) = async_part cl" "async_part (cl\<lparr>cl_net := e\<rparr>) = async_part cl"
  "async_part (cl\<lparr>cl_fresh := x\<rparr>) = async_part cl"
  by (simp_all add: async_part_def put_msg_def put_queue_def put_kernel_def put_notify_def put_object_def Let_def)

lemma stringToProxy_fresh:
  assumes "fresh_net (cl_net cl)"
  shows "\<exists>co cl1. stringToProxy addr info [] ip port Communicator_new cl = Inr (ServantProxy_new [0] 1, [], co, cl1) \<and>
    fresh_net (cl_net cl1) \<and> cl_objects cl1 = [ObjectProxy_new info ip port] \<and> notify_at 0 cl1 = Inr NotifyInfo_new \<and>
    cl_msgs cl1 = cl_msgs cl \<and> cl_queues cl1 = cl_queues cl \<and> cl_fresh cl1 = cl_fresh cl \<and>
    (\<exists>th. async_part cl1 = ([th], 0, 1) \<and> async_ok th \<and> async_items th = [] \<and> async_room th = 100)"
proof -
  obtain ep k1 where e: "Epoller_create 1024 (Epoller_new True) (cn_kernel (cl_net cl)) = (ep, k1)" by fastforce
  then have k1: "k1 = snd (sys (Sys_epoll_create 1025) (cn_kernel (cl_net cl)))" by (auto simp: Epoller_create_def Let_def split: prod.splits)
  have "all_succeed k1" unfolding k1 using assms by (intro granted_sys) (simp_all add: fresh_net_def)
  then obtain sock k2 where s: "Socket_createSocket AF_INET Socket_new k1 = Inr (sock, k2)" "all_succeed k2"
    using Socket_createSocket_ok [of k1 AF_INET Socket_new] by blast
  let ?k3 = "Epoller_add (sk_fd sock) 0 EPOLLIN ep k2"
  have k3: "all_succeed ?k3" using s(2) by (simp add: Epoller_add_def Epoller_ctrl_def granted_sys)
  obtain th where th: "AsyncProcThread_new 100 = Inr th" "async_ok th" "async_items th = []" "async_room th = 100"
    using async_new by blast
  have "fresh_net ((cl_net cl)\<lparr>cn_epoller := ep, cn_kernel := ?k3\<rparr>)" using assms k3 by (simp add: fresh_net_def writes_ok_def)
  then show ?thesis
    by (simp add: stringToProxy_def get_servantProxy_def Communicator_initialize_def Communicator_new_def CommunicatorEpoll_new_def e s(1) th
        get_objectProxy_def cl_objects_def notify_at_def async_part_def)
qed

text \<open>A call by a thread whose data is new: it gets a queue, and the notification slot 0 gets a socket. \<open>cl5\<close> is the client
  before a synchronous caller waits.\<close>

lemma first_invoke:
  assumes data: "get_data t tk = (Some d, tk1)" "tk_data tk1 d = Some ServantProxyThreadData_new"
    and cl: "fresh_net (cl_net cl)" "notify_at 0 cl = Inr NotifyInfo_new" and m: "cl_msgs cl a = Some m"
  shows "\<exists>sp1 tk2 n q k cl5. ServantProxy_invoke t tv a (ServantProxy_new [i] 1) tk cl =
      bindE (if rm_type m = SYNC_CALL then wait_response t (Some a) cl5 else Inr (False, cl5)) (\<lambda>(waits, cl6). Inr (waits, sp1, tk2, cl6)) \<and>
    cl5 = put_notify 0 n (put_kernel k (put_queue (cl_fresh cl) (Some q) (put_msg a (prepare_msg tv i m) (cl\<lparr>cl_fresh := Suc (cl_fresh cl)\<rparr>)))) \<and>
    caller_ready sp1 tk2 i (cl_fresh cl) q 0 cl5 \<and> notify_at 0 cl5 = Inr n \<and> fi_p (ni_fd_info n) = Some (cl_fresh cl) \<and>
    LoopQueue_inv q \<and> LoopQueue_list q = [a] \<and> all_succeed k"
proof -
  let ?qa = "cl_fresh cl"
  obtain q0 :: "nat LoopQueue" where q0: "LoopQueue_new 1000 = Inr q0" "LoopQueue_inv q0" "LoopQueue_list q0 = []" "LoopQueue_room q0 = 1000"
    using LoopQueue_new_ok [of 1000] by auto
  obtain q where q: "LoopQueue_push_back a q0 = Inr (True, True, q)" "LoopQueue_inv q" "LoopQueue_list q = [a]"
    using LoopQueue_push_back_ok [OF q0(2), of a] q0(3,4) length_LoopQueue_list [of q0] by auto
  let ?sptd = "ServantProxyThreadData_new\<lparr>spt_reqQueue := (replicate 64 None)[0 := Some ?qa], spt_objectProxyNum := 1,
    spt_objectProxy := [i], spt_queueInit := True\<rparr>"
  let ?sp1 = "(ServantProxy_new [i] 1)\<lparr>sp_sptd := Some d\<rparr>" and ?tk2 = "tk1\<lparr>tk_data := (tk_data tk1)(d \<mapsto> ?sptd)\<rparr>"
  let ?cl1 = "(put_queue ?qa (Some q0) cl)\<lparr>cl_fresh := Suc ?qa\<rparr>"
  have sel: "selectNetThreadInfo ?sp1 ServantProxyThreadData_new cl = Inr (i, Some ?qa, ?sptd, ?cl1)"
    by (simp add: selectNetThreadInfo_def init_queues_def select_proxy_def vector_at_def ServantProxy_new_def ServantProxyThreadData_new_def q0(1))
  let ?cl3 = "put_queue ?qa (Some q) (put_msg a (prepare_msg tv i m) ?cl1)"
  have cl3: "?cl3 = put_queue ?qa (Some q) (put_msg a (prepare_msg tv i m) (cl\<lparr>cl_fresh := Suc ?qa\<rparr>))"
    by (simp add: put_queue_def put_msg_def)
  have ks: "all_succeed (cn_kernel (cl_net ?cl3))" using cl(1) by (simp add: fresh_net_def)
  obtain sock k1 where s: "Socket_createSocket AF_INET (ni_notify NotifyInfo_new) (cn_kernel (cl_net ?cl3)) = Inr (sock, k1)" "all_succeed k1"
    using Socket_createSocket_ok [OF ks] by blast
  let ?k = "Epoller_add (sk_fd sock) (notify_addr 0 ?cl3) EPOLLIN (cn_epoller (cl_net ?cl3)) k1"
  let ?n = "NotifyInfo_new\<lparr>ni_fd_info := \<lparr>fi_seq = 0, fi_fd = ni_eventfd NotifyInfo_new, fi_type = ET_C_NOTIFY, fi_p = Some ?qa\<rparr>,
    ni_notify := sock, ni_valid := True\<rparr>"
  have k: "all_succeed ?k" using s(2) by (simp add: Epoller_add_def Epoller_ctrl_def granted_sys)
  have n: "CommunicatorEpoll_notify 0 ?qa ?cl3 = Inr (put_notify 0 ?n (put_kernel ?k ?cl3))"
    using cl(2) s(1) by (simp add: CommunicatorEpoll_notify_def Let_def NotifyInfo_new_def)
  let ?cl5 = "put_notify 0 ?n (put_kernel ?k ?cl3)"
  have type: "rm_type (prepare_msg tv i m) = rm_type m" by (simp add: prepare_msg_def Let_def)
  have d: "data_at (Some d) tk1 = Inr ServantProxyThreadData_new" using data(2) by (simp add: data_at_def)
  have ma: "msg_at (Some a) ?cl1 = Inr m" using m by simp
  have qq: "queue_at (Some ?qa) (put_msg a (prepare_msg tv i m) ?cl1) = Inr q0" by simp
  have seq: "spt_netSeq ?sptd = 0" by (simp add: ServantProxyThreadData_new_def)
  have b: "ServantProxy_invoke t tv a (ServantProxy_new [i] 1) tk cl =
      bindE (if rm_type m = SYNC_CALL then wait_response t (Some a) ?cl5 else Inr (False, ?cl5)) (\<lambda>(waits, cl6). Inr (waits, ?sp1, ?tk2, cl6))"
    unfolding ServantProxy_invoke_def
    by (simp only: ServantProxy_new_def ServantProxy.simps option.case Let_def prod.case data(1) d bindE.simps
        sel [unfolded ServantProxy_new_def ServantProxy.simps] ma qq q(1) seq option.sel if_True if_False simp_thms n type)
  have n0: "notify_at 0 (put_kernel ?k ?cl3) = Inr NotifyInfo_new" using cl(2) by simp
  have nt: "notify_at 0 ?cl5 = Inr ?n" by (rule notify_at_put [OF n0])
  have qs: "cl_queues ?cl5 ?qa = Some q" by simp
  have ready: "caller_ready ?sp1 ?tk2 i ?qa q 0 ?cl5"
    unfolding caller_ready_def
    by (intro conjI exI [of _ d] exI [of _ ?sptd] exI [of _ ?n])
      (rule nt | simp add: ServantProxy_new_def ServantProxyThreadData_new_def qs q(2))+
  have cl5: "?cl5 = put_notify 0 ?n (put_kernel ?k (put_queue ?qa (Some q) (put_msg a (prepare_msg tv i m) (cl\<lparr>cl_fresh := Suc ?qa\<rparr>))))"
    by (simp only: cl3)
  show ?thesis
    by (rule exI [of _ ?sp1], rule exI [of _ ?tk2], rule exI [of _ ?n], rule exI [of _ q], rule exI [of _ ?k], rule exI [of _ ?cl5],
      intro conjI b cl5 ready nt q k) simp
qed

text \<open>The first call of a thread, synchronous: the thread waits.\<close>

lemma first_call_begins:
  assumes data: "get_data t tk = (Some d, tk1)" "tk_data tk1 d = Some ServantProxyThreadData_new"
    and cl: "fresh_net (cl_net cl)" "notify_at 0 cl = Inr NotifyInfo_new"
  shows "\<exists>cl1 sp1 tk2 n1 q k. tars_invoke_begin t tv f x (ServantProxy_new [i] 1) tk cl = Inr (cl_fresh cl, True, sp1, tk2, cl1) \<and>
    notify_at 0 cl1 = Inr n1 \<and> fi_p (ni_fd_info n1) = Some (Suc (cl_fresh cl)) \<and> cl_queues cl1 (Suc (cl_fresh cl)) = Some q \<and>
    LoopQueue_inv q \<and> LoopQueue_list q = [cl_fresh cl] \<and> cl_msgs cl1 = (cl_msgs cl)(cl_fresh cl \<mapsto> call_message t tv i (request_text f x)) \<and>
    cl_objects cl1 = cl_objects cl \<and> cl_net cl1 = (cl_net cl)\<lparr>cn_kernel := k\<rparr> \<and> all_succeed k"
proof -
  let ?a = "cl_fresh cl"
  let ?m = "(ReqMessage_init SYNC_CALL ReqMessage_new)\<lparr>rm_request := request_text f x\<rparr>"
  let ?cl = "(put_msg ?a ?m cl)\<lparr>cl_fresh := Suc ?a\<rparr>"
  have cl': "fresh_net (cl_net ?cl)" "notify_at 0 ?cl = Inr NotifyInfo_new" "cl_msgs ?cl ?a = Some ?m" using cl by simp_all
  obtain sp1 tk2 n q k cl5 where i: "ServantProxy_invoke t tv ?a (ServantProxy_new [i] 1) tk ?cl =
      bindE (if rm_type ?m = SYNC_CALL then wait_response t (Some ?a) cl5 else Inr (False, cl5)) (\<lambda>(waits, cl6). Inr (waits, sp1, tk2, cl6))"
    "cl5 = put_notify 0 n (put_kernel k (put_queue (cl_fresh ?cl) (Some q) (put_msg ?a (prepare_msg tv i ?m) (?cl\<lparr>cl_fresh := Suc (cl_fresh ?cl)\<rparr>))))"
    "notify_at 0 cl5 = Inr n" "fi_p (ni_fd_info n) = Some (cl_fresh ?cl)" "LoopQueue_inv q" "LoopQueue_list q = [?a]" "all_succeed k"
    using first_invoke [OF data cl', of tv i] by blast
  have pm: "cl_msgs cl5 ?a = Some (prepare_msg tv i ?m)" "rm_monitor (prepare_msg tv i ?m) = Some Monitor_new" "\<not> rm_monitorFin (prepare_msg tv i ?m)"
    by (simp_all add: i(2) prepare_msg_def Let_def ReqMessage_init_def)
  let ?cl6 = "put_msg ?a (call_message t tv i (request_text f x)) cl5"
  have sync: "rm_type ?m = SYNC_CALL" by (simp add: ReqMessage_init_def)
  have w: "wait_response t (Some ?a) cl5 = Inr (True, ?cl6)" using wait_response_new [OF pm, of t] by (simp add: call_message_def)
  have "tars_invoke_begin t tv f x (ServantProxy_new [i] 1) tk cl = Inr (?a, True, sp1, tk2, ?cl6)"
    unfolding tars_invoke_begin_def new_msg_def Let_def prod.case i(1) by (simp add: sync w)
  moreover have "notify_at 0 ?cl6 = Inr n" using i(3) by simp
  ultimately show ?thesis using i(4-7)
    by (intro exI [of _ ?cl6] exI [of _ sp1] exI [of _ tk2] exI [of _ n] exI [of _ q] exI [of _ k]) (simp add: i(2) fun_eq_iff)
qed

section \<open>The first request on a connection\<close>

lemma connect_ok:
  assumes e: "fresh_net e" and addr: "inet_addr (tr_ip t) \<noteq> INADDR_NONE"
  shows "\<exists>fd k. Transceiver_connect inet_addr t e = Inr (t\<lparr>tr_connected := True, tr_fd := fd\<rparr>, e\<lparr>cn_kernel := k\<rparr>) \<and> 0 \<le> fd \<and> all_succeed k"
proof -
  have k0: "all_succeed (cn_kernel e)" using e by (simp add: fresh_net_def)
  obtain fd k1 where c1: "createSocket False False (cn_kernel e) = Inr (fd, k1)" "0 \<le> fd" "all_succeed k1"
    using createSocket_ok [OF k0] by blast
  obtain r k1' where g: "sys (Sys_getfl fd) k1 = (r, k1')" by fastforce
  have "all_succeed k1'" using sys_succeeds(2) [OF c1(3) g] by simp
  then obtain k2 where c2: "set_block fd False k1 = Inr k2" "all_succeed k2"
    using sys_or_fatal_ok [of k1'] g by (fastforce simp: set_block_def)
  obtain k3 where c3: "set_tcpNoDealy fd k2 = Inr k3" "all_succeed k3"
    using sys_or_fatal_ok [OF c2(2), of "Sys_nodelay fd"] by (auto simp: set_tcpNoDealy_def)
  obtain k4 where c4: "set_keepAlive fd k3 = Inr k4" "all_succeed k4"
    using sys_or_fatal_ok [OF c3(2), of "Sys_keepalive fd"] by (auto simp: set_keepAlive_def)
  let ?addr = "\<lparr>sin_family = AF_INET, sin_port = word_of_int (uint (tr_port t)), sin_addr = inet_addr (tr_ip t)\<rparr>"
  have a: "getAddress inet_addr (cn_answers e) (tr_ip t) (uint (tr_port t)) = Inr (?addr, cn_answers e)"
    using addr by (simp add: getAddress_def)
  obtain r5 k5 where s: "sys (Sys_connect fd ?addr) k4 = (r5, k5)" by fastforce
  have "0 \<le> r5" "all_succeed k5" using sys_succeeds(1,2) [OF c4(2) s] by simp_all
  then obtain b where c5: "NetworkUtil_connect fd ?addr k4 = Inr (b, k5)" using s by (cases "r5 = 0") (auto simp: NetworkUtil_connect_def)
  have "all_succeed (Epoller_add fd (tr_fdInfo t) EPOLLIN (cn_epoller e) k5)"
    using \<open>all_succeed k5\<close> by (simp add: Epoller_add_def Epoller_ctrl_def granted_sys)
  moreover have "Transceiver_connect inet_addr t e =
      Inr (t\<lparr>tr_connected := True, tr_fd := fd\<rparr>, e\<lparr>cn_kernel := Epoller_add fd (tr_fdInfo t) EPOLLIN (cn_epoller e) k5\<rparr>)"
    unfolding Transceiver_connect_def by (simp only: c1(1) c2(1) c3(1) c4(1) a c5 bindE.simps prod.case) simp
  ultimately show ?thesis using c1(2) by blast
qed

text \<open>Sending through a proxy that is not connected is connecting it and sending.\<close>

lemma put_object_net: "(put_object i ob cl)\<lparr>cl_net := e\<rparr> = put_object i ob (cl\<lparr>cl_net := e\<rparr>)"
  by (simp add: put_object_def Let_def)

lemma msg_at_object: "msg_at p (put_object i ob cl) = msg_at p cl" "msg_at p (cl\<lparr>cl_net := e\<rparr>) = msg_at p cl"
  by (simp_all add: msg_at_def split: option.split)

lemma sendReqMessage_connects:
  assumes i: "i < length (cl_objects cl)" and un: "\<not> tr_connected (op_trans (cl_objects cl ! i))"
    and c: "Transceiver_connect inet_addr (op_trans (cl_objects cl ! i)) (cl_net cl) = Inr (t, e)" and t: "tr_connected t"
  shows "sendReqMessage inet_addr (Some i) a cl =
    sendReqMessage inet_addr (Some i) a (put_object i ((cl_objects cl ! i)\<lparr>op_trans := t\<rparr>) (cl\<lparr>cl_net := e\<rparr>))"
  using i un c t by (simp add: sendReqMessage_def put_object_net msg_at_object)

lemma handle_connects:
  assumes n: "notify_at seq cl = Inr n" "fi_p (ni_fd_info n) = Some qa" and q: "cl_queues cl qa = Some q" "LoopQueue_inv q" "LoopQueue_list q = [a]"
    and m: "cl_msgs cl a = Some m" "rm_type m \<noteq> THREAD_EXIT" "rm_objectProxy m = Some i"
    and i: "i < length (cl_objects cl)" and un: "\<not> tr_connected (op_trans (cl_objects cl ! i))"
    and c: "Transceiver_connect inet_addr (op_trans (cl_objects cl ! i)) (cl_net cl) = Inr (t, e)" and t: "tr_connected t"
  shows "CommunicatorEpoll_handle inet_addr (Notification seq) events cl =
    CommunicatorEpoll_handle inet_addr (Notification seq) events (put_object i ((cl_objects cl ! i)\<lparr>op_trans := t\<rparr>) (cl\<lparr>cl_net := e\<rparr>))"
proof -
  let ?cl' = "put_object i ((cl_objects cl ! i)\<lparr>op_trans := t\<rparr>) (cl\<lparr>cl_net := e\<rparr>)"
  obtain q1 where q1: "LoopQueue_pop_front q = Inr (Some a, q1)" using ring.pop_law [OF q(2,3)] by blast
  have n': "notify_at seq ?cl' = Inr n" "cl_queues ?cl' qa = Some q"
    using n(1) q(1) by (auto simp: notify_at_def put_object_def Let_def split: if_splits)
  have same: "put_queue qa (Some q1) ?cl' = put_object i ((cl_objects (put_queue qa (Some q1) cl) ! i)\<lparr>op_trans := t\<rparr>)
      (put_queue qa (Some q1) cl\<lparr>cl_net := e\<rparr>)"
    by (simp add: put_queue_def put_object_def cl_objects_def Let_def)
  have s: "sendReqMessage inet_addr (Some i) a (put_queue qa (Some q1) cl) = sendReqMessage inet_addr (Some i) a (put_queue qa (Some q1) ?cl')"
    unfolding same by (rule sendReqMessage_connects) (use i un c t in simp_all)
  show ?thesis using n q(1) n' q1 m s by (simp add: CommunicatorEpoll_handle_def)
qed

text \<open>Handling a new proxy's first request is connecting it and handling the request with a working proxy.\<close>

lemma first_handle:
  assumes b: "notify_at 0 cl1 = Inr n1" "fi_p (ni_fd_info n1) = Some qa" "cl_queues cl1 qa = Some q" "LoopQueue_inv q" "LoopQueue_list q = [a]"
    and m: "cl_msgs cl1 a = Some m" "rm_type m \<noteq> THREAD_EXIT" "rm_objectProxy m = Some 0"
    and ob: "cl_objects cl1 = [ObjectProxy_new info ip port]" and net: "fresh_net (cl_net cl1)" and addr: "inet_addr ip \<noteq> INADDR_NONE"
  obtains cl1' fd where
    "CommunicatorEpoll_handle inet_addr (Notification 0) events cl1 = CommunicatorEpoll_handle inet_addr (Notification 0) events cl1'"
    "notify_at 0 cl1' = Inr n1" "cl_queues cl1' = cl_queues cl1" "cl_msgs cl1' = cl_msgs cl1" "async_part cl1' = async_part cl1"
    "0 < length (cl_objects cl1')" "proxy_ok (cl_objects cl1' ! 0) (cl_net cl1')" "proxy_idle (cl_objects cl1' ! 0)"
    "1 = ObjectProxy_generateId (op_id (cl_objects cl1' ! 0))" "1 \<notin> proxy_ids (cl_objects cl1' ! 0)"
    "out_stream (op_trans (cl_objects cl1' ! 0)) (cl_net cl1') = []" "tr_fd (op_trans (cl_objects cl1' ! 0)) = fd"
proof -
  let ?ob = "ObjectProxy_new info ip port"
  have len: "0 < length (cl_objects cl1)" by (simp add: ob)
  have ip: "inet_addr (tr_ip (op_trans (cl_objects cl1 ! 0))) \<noteq> INADDR_NONE" using addr by (simp add: ob ObjectProxy_new_def Transceiver_new_def)
  obtain fd k2 where c: "Transceiver_connect inet_addr (op_trans (cl_objects cl1 ! 0)) (cl_net cl1) =
      Inr ((op_trans (cl_objects cl1 ! 0))\<lparr>tr_connected := True, tr_fd := fd\<rparr>, (cl_net cl1)\<lparr>cn_kernel := k2\<rparr>)" "0 \<le> fd" "all_succeed k2"
    using connect_ok [where inet_addr = inet_addr, OF net ip] by blast
  let ?t = "(op_trans (cl_objects cl1 ! 0))\<lparr>tr_connected := True, tr_fd := fd\<rparr>"
  define cl1' where "cl1' = put_object 0 ((cl_objects cl1 ! 0)\<lparr>op_trans := ?t\<rparr>) (cl1\<lparr>cl_net := (cl_net cl1)\<lparr>cn_kernel := k2\<rparr>\<rparr>)"
  have o1: "cl_objects cl1' ! 0 = ?ob\<lparr>op_trans := (op_trans ?ob)\<lparr>tr_connected := True, tr_fd := fd\<rparr>\<rparr>"
    "cl_net cl1' = (cl_net cl1)\<lparr>cn_kernel := k2\<rparr>" by (simp_all add: cl1'_def ob)
  have f2: "fresh_net (cl_net cl1')" using fresh_net_kernel [OF net c(3)] by (simp add: o1(2))
  show thesis
  proof (rule that [of cl1' fd])
    show "CommunicatorEpoll_handle inet_addr (Notification 0) events cl1 = CommunicatorEpoll_handle inet_addr (Notification 0) events cl1'"
      unfolding cl1'_def by (rule handle_connects [OF b m len _ c(1)]) (simp_all add: ob ObjectProxy_new_def Transceiver_new_def)
    show "notify_at 0 cl1' = Inr n1" using b(1) by (auto simp: cl1'_def notify_at_def put_object_def Let_def split: if_splits)
    show "cl_queues cl1' = cl_queues cl1" "cl_msgs cl1' = cl_msgs cl1" "async_part cl1' = async_part cl1"
      by (simp_all add: cl1'_def put_object_def Let_def async_part_def)
    show "0 < length (cl_objects cl1')" by (simp add: cl1'_def ob)
    show "proxy_ok (cl_objects cl1' ! 0) (cl_net cl1')" using f2 c(2)
      by (auto simp: o1 proxy_ok_def ObjectProxy_new_def Transceiver_new_def Transceiver_inv_def fresh_net_def)
  qed (use f2 in \<open>auto simp: o1 proxy_idle_def proxy_ids_def ObjectProxy_new_def Transceiver_new_def
      fresh_net_def out_stream_def ObjectProxy_generateId_def\<close>)
qed

lemma answer_one: "''1:'' @ answer = to_string (sint (1 :: u32)) @ '':'' @ answer"
  by (simp add: to_string_def digits.simps digit_def char_of_def bit_0)

section \<open>An asynchronous call\<close>

text \<open>The message of an asynchronous call once it is queued.\<close>

definition async_message :: "int \<times> int \<Rightarrow> nat \<Rightarrow> nat option \<Rightarrow> string \<Rightarrow> ReqMessage" where
  "async_message tv i cb req =
     prepare_msg tv i ((ReqMessage_init ASYNC_CALL ReqMessage_new)\<lparr>rm_callback := cb, rm_request := req\<rparr>)"

lemma async_message_fields [simp]:
  "rm_type (async_message tv i cb req) = ASYNC_CALL" "rm_request (async_message tv i cb req) = req"
  "rm_objectProxy (async_message tv i cb req) = Some i" "rm_callback (async_message tv i cb req) = cb"
  by (simp_all add: async_message_def prepare_msg_def ReqMessage_init_def ReqMessage_new_def Let_def)

lemma first_async_begins:
  assumes data: "get_data t tk = (Some d, tk1)" "tk_data tk1 d = Some ServantProxyThreadData_new"
    and cl: "fresh_net (cl_net cl)" "notify_at 0 cl = Inr NotifyInfo_new"
  shows "\<exists>cl1 sp1 tk2 n1 q k. tars_invoke_async t tv f x cb (ServantProxy_new [i] 1) tk cl = Inr (cl_fresh cl, sp1, tk2, cl1) \<and>
    notify_at 0 cl1 = Inr n1 \<and> fi_p (ni_fd_info n1) = Some (Suc (cl_fresh cl)) \<and> cl_queues cl1 (Suc (cl_fresh cl)) = Some q \<and>
    LoopQueue_inv q \<and> LoopQueue_list q = [cl_fresh cl] \<and> cl_msgs cl1 (cl_fresh cl) = Some (async_message tv i cb (request_text f x)) \<and>
    cl_objects cl1 = cl_objects cl \<and> cl_net cl1 = (cl_net cl)\<lparr>cn_kernel := k\<rparr> \<and> all_succeed k \<and> async_part cl1 = async_part cl"
proof -
  let ?a = "cl_fresh cl"
  let ?m = "(ReqMessage_init ASYNC_CALL ReqMessage_new)\<lparr>rm_callback := cb, rm_request := request_text f x\<rparr>"
  let ?cl = "(put_msg ?a ?m cl)\<lparr>cl_fresh := Suc ?a\<rparr>"
  have cl': "fresh_net (cl_net ?cl)" "notify_at 0 ?cl = Inr NotifyInfo_new" "cl_msgs ?cl ?a = Some ?m" using cl by simp_all
  obtain sp1 tk2 n q k cl5 where i: "ServantProxy_invoke t tv ?a (ServantProxy_new [i] 1) tk ?cl =
      bindE (if rm_type ?m = SYNC_CALL then wait_response t (Some ?a) cl5 else Inr (False, cl5)) (\<lambda>(waits, cl6). Inr (waits, sp1, tk2, cl6))"
    "cl5 = put_notify 0 n (put_kernel k (put_queue (cl_fresh ?cl) (Some q) (put_msg ?a (prepare_msg tv i ?m) (?cl\<lparr>cl_fresh := Suc (cl_fresh ?cl)\<rparr>))))"
    "notify_at 0 cl5 = Inr n" "fi_p (ni_fd_info n) = Some (cl_fresh ?cl)" "LoopQueue_inv q" "LoopQueue_list q = [?a]" "all_succeed k"
    using first_invoke [OF data cl', of tv i] by blast
  have type: "rm_type ?m = ASYNC_CALL" by (simp add: ReqMessage_init_def)
  have "tars_invoke_async t tv f x cb (ServantProxy_new [i] 1) tk cl = Inr (?a, sp1, tk2, cl5)"
    unfolding tars_invoke_async_def new_msg_def Let_def prod.case i(1) by (simp add: type)
  then show ?thesis using i(3-7)
    by (intro exI [of _ cl5] exI [of _ sp1] exI [of _ tk2] exI [of _ n] exI [of _ q] exI [of _ k]) (simp add: i(2) async_message_def)
qed

text \<open>The response to an asynchronous request goes to the callback thread.\<close>

lemma finishInvoke_async:
  assumes i: "i < length (cl_objects cl)"
    and e: "TimeoutQueueNew_erase rid None (op_timeoutQueue (cl_objects cl ! i)) = Inr (True, Some a, q)"
    and m: "cl_msgs cl a = Some m" "rm_type m = ASYNC_CALL"
    and th: "async_part cl = ([th], 0, 1)" "async_ok th" "length (async_items th) < async_room th"
  shows "\<exists>cl' th'. finishInvoke i (to_string (sint rid) @ '':'' @ body) cl = Inr cl' \<and> async_part cl' = ([th'], 0, 1) \<and>
    async_ok th' \<and> async_items th' = async_items th @ [a] \<and>
    cl_msgs cl' = (cl_msgs cl)(a \<mapsto> m\<lparr>rm_response := to_string (sint rid) @ '':'' @ body\<rparr>)"
proof -
  let ?m = "m\<lparr>rm_response := to_string (sint rid) @ '':'' @ body\<rparr>"
  let ?cl1 = "put_msg a ?m (put_object i ((cl_objects cl ! i)\<lparr>op_timeoutQueue := q\<rparr>) cl)"
  have f: "finishInvoke i (to_string (sint rid) @ '':'' @ body) cl = pushAsyncThreadQueue a ?cl1"
    using i e m unfolding finishInvoke_def response_id Let_def by (simp add: finishInvoke_msg_def)
  have p: "ce_asyncThread (cl_epoll ?cl1) = [th]" "ce_asyncSeq (cl_epoll ?cl1) = 0" "ce_asyncThreadNum (cl_epoll ?cl1) = 1"
    using th(1) by (simp_all add: async_part_def put_msg_def put_object_def Let_def)
  obtain th' where th': "AsyncProcThread_push_back a th (cl_msgs ?cl1) = Inr (th', cl_msgs ?cl1)" "async_ok th'" "async_items th' = async_items th @ [a]"
    using async_push [OF th(2), of a "cl_msgs ?cl1"] th(3) by auto
  let ?cl2 = "?cl1\<lparr>cl_msgs := cl_msgs ?cl1, cl_epoll := (cl_epoll ?cl1)\<lparr>ce_asyncThread := [th'], ce_asyncSeq := 0\<rparr>\<rparr>"
  have "pushAsyncThreadQueue a ?cl1 = Inr ?cl2"
    unfolding pushAsyncThreadQueue_def Let_def p using th'(1) by simp
  then show ?thesis using f th'(2,3) p(3) by (intro exI [of _ ?cl2] exI [of _ th']) (simp add: async_part_def)
qed

text \<open>What the network thread and the callback thread do with a queued asynchronous request and its response.\<close>

lemma async_completes:
  assumes b: "notify_at seq cl1 = Inr n1" "fi_p (ni_fd_info n1) = Some qa" "cl_queues cl1 qa = Some q" "LoopQueue_inv q" "LoopQueue_list q = [a]"
      "cl_msgs cl1 a = Some (async_message tv i cb (request_text f x))"
    and i: "i < length (cl_objects cl1)" and ok: "proxy_ok (cl_objects cl1 ! i) (cl_net cl1)" "proxy_idle (cl_objects cl1 ! i)"
    and rid: "rid = ObjectProxy_generateId (op_id (cl_objects cl1 ! i))" "rid \<notin> proxy_ids (cl_objects cl1 ! i)"
    and small: "length (request_text f x) < 2 ^ 30"
    and resp: "resp = to_string (sint rid) @ '':'' @ answer" "length resp < 2 ^ 62"
    and th: "async_part cl1 = ([th0], 0, 1)" "async_ok th0" "async_items th0 = []" "0 < async_room th0"
  shows "\<exists>cl2 cl3 th th' msgs. CommunicatorEpoll_handle inet_addr (Notification seq) EPOLLIN cl1 = Inr cl2 \<and>
    out_stream (op_trans (cl_objects cl2 ! i)) (cl_net cl2) =
      out_stream (op_trans (cl_objects cl1 ! i)) (cl_net cl1) @ frame (request_body rid (request_text f x)) \<and>
    CommunicatorEpoll_handle inet_addr (Connected i) EPOLLIN
      (cl2\<lparr>cl_net := set_reads (tr_fd (op_trans (cl_objects cl1 ! i))) [RData resp] (cl_net cl2)\<rparr>) = Inr cl3 \<and>
    ce_asyncThread (cl_epoll cl3) = [th] \<and> AsyncProcThread_turn th (cl_msgs cl3) = Inr ([(cb, resp)], th', msgs) \<and> msgs a = None"
proof -
  let ?m = "async_message tv i cb (request_text f x)" and ?ob = "cl_objects cl1 ! i"
  have m: "rm_type ?m \<noteq> THREAD_EXIT" "rm_objectProxy ?m = Some i" "length (rm_request ?m) < 2 ^ 30" using small by simp_all
  obtain ob' e' q2 where s: "CommunicatorEpoll_handle inet_addr (Notification seq) EPOLLIN cl1 =
      Inr (put_queue qa (Some q2) (put_msg a (numbered rid ?m) (put_object i ob' (put_queue qa (Some q2) cl1\<lparr>cl_net := e'\<rparr>))))"
    "after_send rid a ?m ?ob (cl_net cl1) ob' e'"
    using handle_single [OF b m i ok(1) rid, of inet_addr EPOLLIN] by blast
  let ?cl2 = "put_queue qa (Some q2) (put_msg a (numbered rid ?m) (put_object i ob' (put_queue qa (Some q2) cl1\<lparr>cl_net := e'\<rparr>)))"
  let ?cl2' = "?cl2\<lparr>cl_net := set_reads (tr_fd (op_trans ?ob)) [RData resp] (cl_net ?cl2)\<rparr>"
  have o2: "cl_objects ?cl2 ! i = ob'" "cl_objects ?cl2' ! i = ob'" "cl_net ?cl2 = e'" "i < length (cl_objects ?cl2')"
    using i by simp_all
  have out: "out_stream (op_trans ob') e' = out_stream (op_trans ?ob) (cl_net cl1) @ frame (request_body rid (request_text f x))"
    using s(2) ok(2) by (simp add: after_send_def proxy_idle_def)
  have as: "after_send rid a ?m ?ob (cl_net cl1) (cl_objects ?cl2' ! i) e'" unfolding o2(2) by (rule s(2))
  have net2: "cl_net ?cl2' = set_reads (tr_fd (op_trans ?ob)) [RData resp] e'" by simp
  have ne: "resp \<noteq> []" using resp(1) by simp
  obtain buf q3 where r: "CommunicatorEpoll_handle inet_addr (Connected i) EPOLLIN ?cl2' = finishInvoke i resp
      (put_object i ((cl_objects ?cl2' ! i)\<lparr>op_trans := (op_trans (cl_objects ?cl2' ! i))\<lparr>tr_receiveBuffer := buf\<rparr>\<rparr>)
        (?cl2'\<lparr>cl_net := set_reads (tr_fd (op_trans (cl_objects ?cl2' ! i))) [] (cl_net ?cl2')\<rparr>))"
    "TimeoutQueueNew_erase rid None (op_timeoutQueue (cl_objects ?cl2' ! i)) = Inr (True, Some a, q3)"
    by (rule response_arrives [OF o2(4) as ok(2) ne resp(2) net2])
  let ?cl3 = "put_object i ((cl_objects ?cl2' ! i)\<lparr>op_trans := (op_trans (cl_objects ?cl2' ! i))\<lparr>tr_receiveBuffer := buf\<rparr>\<rparr>)
        (?cl2'\<lparr>cl_net := set_reads (tr_fd (op_trans (cl_objects ?cl2' ! i))) [] (cl_net ?cl2')\<rparr>)"
  have l3: "i < length (cl_objects ?cl3)" and q3: "TimeoutQueueNew_erase rid None (op_timeoutQueue (cl_objects ?cl3 ! i)) = Inr (True, Some a, q3)"
    using r(2) i by simp_all
  have m3: "cl_msgs ?cl3 a = Some (numbered rid ?m)" "rm_type (numbered rid ?m) = ASYNC_CALL" by (simp_all add: numbered_def)
  have a3: "async_part ?cl3 = ([th0], 0, 1)" and room: "length (async_items th0) < async_room th0" using th by simp_all
  obtain cl4 th where c: "finishInvoke i resp ?cl3 = Inr cl4" "async_part cl4 = ([th], 0, 1)" "async_ok th" "async_items th = [a]"
    "cl_msgs cl4 = (cl_msgs ?cl3)(a \<mapsto> (numbered rid ?m)\<lparr>rm_response := resp\<rparr>)"
    using finishInvoke_async [OF l3 q3 m3 a3 th(2) room, of answer] unfolding resp(1) th(3) by auto
  obtain th' where t: "AsyncProcThread_turn th (cl_msgs cl4) = Inr ([(cb, resp)], th', (cl_msgs cl4)(a := None))"
    using ring.pop_law [of "ap_msgQueue th" a "[]"] c(3-5) by (auto simp: AsyncProcThread_turn_def async_ok_def async_items_def numbered_def)
  have "ce_asyncThread (cl_epoll cl4) = [th]" using c(2) by (simp add: async_part_def)
  then show ?thesis using s(1) out o2(1,3) r(1) c(1) t
    by (intro exI [of _ ?cl2] exI [of _ cl4] exI [of _ th] exI [of _ th'] exI [of _ "(cl_msgs cl4)(a := None)"]) simp
qed

section \<open>Properties\<close>


text \<open>A process in which no thread has made a key yet.\<close>

definition first_keys :: ThreadKeys where
  "first_keys = \<lparr>tk_key = 0, tk_creates = [(0, 5)], tk_specific = (\<lambda>_ _. None), tk_data = Map.empty, tk_fresh = 0\<rparr>"

lemma first_keys_data:
  "get_data 1 first_keys = (Some 0, \<lparr>tk_key = 5, tk_creates = [], tk_specific = (\<lambda>_ _. None)(1 := [5 \<mapsto> 0]),
     tk_data = [0 \<mapsto> ServantProxyThreadData_new], tk_fresh = 1\<rparr>)"
  "tk_data \<lparr>tk_key = 5, tk_creates = [], tk_specific = (\<lambda>_ _. None)(1 := [5 \<mapsto> 0]),
     tk_data = [0 \<mapsto> ServantProxyThreadData_new], tk_fresh = 1\<rparr> 0 = Some ServantProxyThreadData_new"
  by (simp_all add: get_data_def first_keys_def key_create_def)




end
