(* ===== verification/Tarsx_Handoff.thy ===== *)
theory Tarsx_Handoff
  imports Tarsx_ServantProxy
begin

text \<open>
  The end of a synchronous call, step by step: the caller in \<open>ServantProxy::invoke\<close> and
  \<open>tars_invoke\<close> (test, lock, test again, wait, return, delete the message) against the network thread
  in \<open>ObjectProxy::finishInvoke\<close> (lock, notify, set \<open>monitorFin\<close>, unlock). The message's monitor is the
  one of \<open>Tarsx_Monitor\<close>; the threads take steps in any order.
\<close>

section \<open>Steps\<close>

datatype caller_pc = C_test | C_lock | C_retest | C_wait | C_unlock | C_return | C_gone

datatype net_pc = N_lock | N_notify | N_fin | N_unlock | N_end | N_fault

record handoff =
  ho_mon :: Monitor
  ho_fin :: bool
  ho_deleted :: bool
  ho_caller :: caller_pc
  ho_net :: net_pc

definition caller_thread :: tid where
  "caller_thread = 1"

definition handoff_init :: handoff where
  "handoff_init = \<lparr>ho_mon = Monitor_new, ho_fin = False, ho_deleted = False, ho_caller = C_test, ho_net = N_lock\<rparr>"

text \<open>The caller never touches a deleted message, since it is the one that deletes it; the network
  thread may find it deleted, which is the fault \<open>N_fault\<close>.\<close>

inductive handoff_step :: "handoff \<Rightarrow> handoff \<Rightarrow> bool" where
  c_test: "ho_caller s = C_test \<Longrightarrow> handoff_step s (s\<lparr>ho_caller := (if ho_fin s then C_return else C_lock)\<rparr>)"
| c_lock: "ho_caller s = C_lock \<Longrightarrow> Monitor_lock caller_thread (ho_mon s) = Inr (Some m) \<Longrightarrow>
    handoff_step s (s\<lparr>ho_mon := m, ho_caller := C_retest\<rparr>)"
| c_retest: "ho_caller s = C_retest \<Longrightarrow> ho_fin s \<Longrightarrow> handoff_step s (s\<lparr>ho_caller := C_unlock\<rparr>)"
| c_wait: "ho_caller s = C_retest \<Longrightarrow> \<not> ho_fin s \<Longrightarrow> Monitor_wait_enter caller_thread (ho_mon s) = Inr (ops, m) \<Longrightarrow>
    cond_run ops (mon_waiting m) w \<Longrightarrow>
    handoff_step s (s\<lparr>ho_mon := (deliver w m)\<lparr>mon_waiting := insert caller_thread w\<rparr>, ho_caller := C_wait\<rparr>)"
| c_wake: "ho_caller s = C_wait \<Longrightarrow> caller_thread \<in> mon_woken (ho_mon s) \<Longrightarrow> mon_owner (ho_mon s) = None \<Longrightarrow>
    handoff_step s (s\<lparr>ho_mon := (Monitor_wait_exit caller_thread (ho_mon s))\<lparr>mon_woken := mon_woken (ho_mon s) - {caller_thread}\<rparr>,
      ho_caller := C_unlock\<rparr>)"
| c_unlock: "ho_caller s = C_unlock \<Longrightarrow> Monitor_unlock caller_thread (ho_mon s) = Inr (ops, m) \<Longrightarrow>
    cond_run ops (mon_waiting m) w \<Longrightarrow> handoff_step s (s\<lparr>ho_mon := deliver w m, ho_caller := C_return\<rparr>)"
| c_return: "ho_caller s = C_return \<Longrightarrow> handoff_step s (s\<lparr>ho_deleted := True, ho_caller := C_gone\<rparr>)"
| n_lock: "ho_net s = N_lock \<Longrightarrow> \<not> ho_deleted s \<Longrightarrow> Monitor_lock net_thread (ho_mon s) = Inr (Some m) \<Longrightarrow>
    handoff_step s (s\<lparr>ho_mon := m, ho_net := N_notify\<rparr>)"
| n_notify: "ho_net s = N_notify \<Longrightarrow> \<not> ho_deleted s \<Longrightarrow> handoff_step s (s\<lparr>ho_mon := Monitor_notify (ho_mon s), ho_net := N_fin\<rparr>)"
| n_fin: "ho_net s = N_fin \<Longrightarrow> \<not> ho_deleted s \<Longrightarrow> handoff_step s (s\<lparr>ho_fin := True, ho_net := N_unlock\<rparr>)"
| n_unlock: "ho_net s = N_unlock \<Longrightarrow> \<not> ho_deleted s \<Longrightarrow> Monitor_unlock net_thread (ho_mon s) = Inr (ops, m) \<Longrightarrow>
    cond_run ops (mon_waiting m) w \<Longrightarrow> handoff_step s (s\<lparr>ho_mon := deliver w m, ho_net := N_end\<rparr>)"
| n_dead: "ho_net s \<notin> {N_end, N_fault} \<Longrightarrow> ho_deleted s \<Longrightarrow> handoff_step s (s\<lparr>ho_net := N_fault\<rparr>)"

inductive handoff_reach :: "handoff \<Rightarrow> bool" where
  start: "handoff_reach handoff_init"
| step: "handoff_reach s \<Longrightarrow> handoff_step s s' \<Longrightarrow> handoff_reach s'"

section \<open>Invariant\<close>

definition net_holds :: "handoff \<Rightarrow> bool" where
  "net_holds s \<longleftrightarrow> ho_net s \<in> {N_notify, N_fin, N_unlock}"

definition caller_holds :: "handoff \<Rightarrow> bool" where
  "caller_holds s \<longleftrightarrow> ho_caller s \<in> {C_retest, C_unlock}"

definition handoff_inv :: "handoff \<Rightarrow> bool" where
  "handoff_inv s \<longleftrightarrow>
     (ho_deleted s \<longleftrightarrow> ho_caller s = C_gone) \<and> (ho_net s = N_fault \<longrightarrow> ho_deleted s) \<and>
     (ho_fin s \<longleftrightarrow> ho_net s \<in> {N_unlock, N_end, N_fault}) \<and>
     (ho_caller s \<in> {C_unlock, C_return, C_gone} \<longrightarrow> ho_fin s) \<and>
     mon_waiting (ho_mon s) \<union> mon_woken (ho_mon s) = (if ho_caller s = C_wait then {caller_thread} else {}) \<and>
     mon_waiting (ho_mon s) \<inter> mon_woken (ho_mon s) = {} \<and>
     (\<not> ho_deleted s \<longrightarrow>
       mon_owner (ho_mon s) = (if net_holds s then Some net_thread else if caller_holds s then Some caller_thread else None) \<and>
       (net_holds s \<longrightarrow> \<not> caller_holds s) \<and>
       (net_holds s \<longrightarrow> mon_notify (ho_mon s) = (if ho_net s = N_notify then 0 else 1)) \<and>
       (caller_holds s \<longrightarrow> mon_notify (ho_mon s) = 0) \<and>
       (caller_thread \<in> mon_woken (ho_mon s) \<longrightarrow> ho_net s = N_end) \<and>
       (ho_net s = N_end \<longrightarrow> mon_waiting (ho_mon s) = {}))"

lemma handoff_init_inv: "handoff_inv handoff_init"
  by (simp add: handoff_inv_def handoff_init_def Monitor_new_def net_holds_def caller_holds_def)

lemma cond_run_empty: "cond_run ops {} w \<Longrightarrow> w = {}"
  using cond_run_subset by blast

lemma cond_run_one_signal: "cond_run [Signal] w w' \<Longrightarrow> w \<subseteq> {t} \<Longrightarrow> w' = {}"
  by (auto elim!: cond_run_SignalE cond_run_NilE)

lemmas handoff_defs = handoff_inv_def net_holds_def caller_holds_def caller_thread_def net_thread_def
  monitor_defs mutex_simps result_simps

lemma handoff_step_inv:
  assumes "handoff_step s s'" and "handoff_inv s"
  shows "handoff_inv s'"
  using assms
proof (cases rule: handoff_step.cases)
  case (c_wait ops m w)
  then have "mon_notify (ho_mon s) = 0" "mon_waiting (ho_mon s) = {}" "mon_woken (ho_mon s) = {}"
    using assms(2) by (auto simp: handoff_inv_def caller_holds_def)
  moreover from this c_wait have "ops = []" "m = (ho_mon s)\<lparr>mon_owner := None\<rparr>"
    by (auto simp: Monitor_wait_enter_def Monitor_notifyImpl_def result_simps mutex_simps)
  ultimately have "w = {}" using c_wait by (auto elim: cond_run_NilE)
  then show ?thesis using c_wait assms(2) \<open>m = _\<close> \<open>mon_woken (ho_mon s) = {}\<close> \<open>mon_waiting (ho_mon s) = {}\<close>
    by (cases "ho_net s") (auto simp: handoff_defs)
next
  case (c_unlock ops m w)
  then have "mon_notify (ho_mon s) = 0" "mon_waiting (ho_mon s) = {}" "mon_woken (ho_mon s) = {}"
    using assms(2) by (auto simp: handoff_inv_def caller_holds_def)
  moreover from this c_unlock have "ops = []" "m = (ho_mon s)\<lparr>mon_owner := None\<rparr>"
    by (auto simp: Monitor_unlock_def Monitor_notifyImpl_def result_simps mutex_simps)
  ultimately have "w = {}" using c_unlock by (auto elim: cond_run_NilE)
  then show ?thesis using c_unlock assms(2) \<open>m = _\<close> \<open>mon_woken (ho_mon s) = {}\<close> \<open>mon_waiting (ho_mon s) = {}\<close>
    by (cases "ho_net s") (auto simp: handoff_defs)
next
  case (n_unlock ops m w)
  then have "mon_notify (ho_mon s) = 1" "mon_waiting (ho_mon s) \<subseteq> {caller_thread}"
    using assms(2) by (auto simp: handoff_inv_def net_holds_def split: if_splits)
  moreover from this n_unlock have "ops = [Signal]" "m = (ho_mon s)\<lparr>mon_owner := None\<rparr>"
    by (auto simp: Monitor_unlock_def Monitor_notifyImpl_def result_simps mutex_simps)
  ultimately have "w = {}" using n_unlock cond_run_one_signal by auto
  then show ?thesis using n_unlock assms(2) \<open>m = _\<close>
    by (cases "ho_caller s") (auto simp: handoff_defs)
qed (auto simp: handoff_defs split: if_splits)

lemma handoff_reach_inv: "handoff_reach s \<Longrightarrow> handoff_inv s"
  by (induction rule: handoff_reach.induct) (auto intro: handoff_init_inv handoff_step_inv)

section \<open>Progress\<close>

fun caller_rank :: "caller_pc \<Rightarrow> nat" where
  "caller_rank C_gone = 0"
| "caller_rank C_return = 1"
| "caller_rank C_unlock = 2"
| "caller_rank C_retest = 3"
| "caller_rank C_wait = 3"
| "caller_rank C_lock = 4"
| "caller_rank C_test = 5"

text \<open>Once the network thread is done, the caller can always take its next step.\<close>

lemma caller_progress:
  assumes inv: "handoff_inv s" and net: "ho_net s = N_end" and going: "ho_caller s \<noteq> C_gone"
  shows "\<exists>s'. handoff_step s s' \<and> ho_net s' = N_end \<and> caller_rank (ho_caller s') < caller_rank (ho_caller s)"
proof -
  have live: "\<not> ho_deleted s" "ho_fin s" "mon_waiting (ho_mon s) = {}"
    and owner: "mon_owner (ho_mon s) = (if caller_holds s then Some caller_thread else None)"
    and zero: "caller_holds s \<longrightarrow> mon_notify (ho_mon s) = 0"
    using inv net going by (auto simp: handoff_inv_def net_holds_def)
  have go: ?thesis if "handoff_step s s'" "ho_net s' = N_end" "caller_rank (ho_caller s') < caller_rank (ho_caller s)" for s'
    using that by blast
  show ?thesis
  proof (cases "ho_caller s")
    case C_test
    from handoff_step.c_test [OF C_test] show ?thesis by (rule go) (simp_all add: C_test net live)
  next
    case C_lock
    then have "Monitor_lock caller_thread (ho_mon s) = Inr (Some ((ho_mon s)\<lparr>mon_owner := Some caller_thread, mon_notify := 0\<rparr>))"
      using owner by (simp add: Monitor_lock_def Mutex_lock_def pthread_mutex_lock_def caller_holds_def)
    from handoff_step.c_lock [OF C_lock this] show ?thesis by (rule go) (simp_all add: C_lock net)
  next
    case C_retest
    from handoff_step.c_retest [OF C_retest live(2)] show ?thesis by (rule go) (simp_all add: C_retest net)
  next
    case C_wait
    then have "caller_thread \<in> mon_woken (ho_mon s)" "mon_owner (ho_mon s) = None"
      using inv live owner by (auto simp: handoff_inv_def caller_holds_def)
    from handoff_step.c_wake [OF C_wait this] show ?thesis by (rule go) (simp_all add: C_wait net)
  next
    case C_unlock
    then have "Monitor_unlock caller_thread (ho_mon s) = Inr ([], (ho_mon s)\<lparr>mon_owner := None\<rparr>)"
      using owner zero
      by (simp add: Monitor_unlock_def Mutex_unlock_def pthread_mutex_unlock_def caller_holds_def Monitor_notifyImpl_def)
    from handoff_step.c_unlock [OF C_unlock this cr_done] show ?thesis by (rule go) (simp_all add: C_unlock net)
  next
    case C_return
    from handoff_step.c_return [OF C_return] show ?thesis by (rule go) (simp_all add: C_return net)
  qed (use going in simp)
qed

lemma caller_finishes:
  assumes "handoff_inv s" and "ho_net s = N_end"
  shows "\<exists>s'. handoff_step\<^sup>*\<^sup>* s s' \<and> ho_caller s' = C_gone"
  using assms
proof (induction "caller_rank (ho_caller s)" arbitrary: s rule: less_induct)
  case less
  show ?case
  proof (cases "ho_caller s = C_gone")
    case False
    then obtain s1 where s1: "handoff_step s s1" "ho_net s1 = N_end" "caller_rank (ho_caller s1) < caller_rank (ho_caller s)"
      using caller_progress [OF less.prems] by blast
    then obtain s' where "handoff_step\<^sup>*\<^sup>* s1 s'" "ho_caller s' = C_gone"
      using less.hyps [OF s1(3) handoff_step_inv [OF s1(1) less.prems(1)] s1(2)] by blast
    then show ?thesis using s1(1) by (meson converse_rtranclp_into_rtranclp)
  qed blast
qed

section \<open>Properties\<close>


text \<open>A run in which the caller waits and is woken.\<close>

definition waiting_handoff :: handoff where
  "waiting_handoff = \<lparr>ho_mon = \<lparr>mon_notify = 1, mon_owner = None, mon_waiting = {}, mon_woken = {1}\<rparr>, ho_fin = True,
     ho_deleted = False, ho_caller = C_wait, ho_net = N_end\<rparr>"

lemma waiting_handoff_reach: "handoff_reach waiting_handoff"
proof -
  let ?m0 = "\<lparr>mon_notify = 0, mon_owner = None, mon_waiting = {}, mon_woken = {}\<rparr> :: Monitor"
  let ?s1 = "handoff_init\<lparr>ho_caller := C_lock\<rparr>"
  let ?s2 = "?s1\<lparr>ho_mon := ?m0\<lparr>mon_owner := Some 1\<rparr>, ho_caller := C_retest\<rparr>"
  let ?s3 = "?s2\<lparr>ho_mon := ?m0\<lparr>mon_waiting := {1}\<rparr>, ho_caller := C_wait\<rparr>"
  let ?s4 = "?s3\<lparr>ho_mon := ?m0\<lparr>mon_owner := Some 0, mon_waiting := {1}\<rparr>, ho_net := N_notify\<rparr>"
  let ?s5 = "?s4\<lparr>ho_mon := ?m0\<lparr>mon_owner := Some 0, mon_waiting := {1}, mon_notify := 1\<rparr>, ho_net := N_fin\<rparr>"
  let ?s6 = "?s5\<lparr>ho_fin := True, ho_net := N_unlock\<rparr>"
  note d = handoff_init_def caller_thread_def net_thread_def Monitor_new_def Monitor_lock_def Mutex_lock_def pthread_mutex_lock_def
    Monitor_wait_enter_def Monitor_unlock_def Mutex_unlock_def pthread_mutex_unlock_def Monitor_notifyImpl_def Monitor_notify_def deliver_def
  have r1: "handoff_reach ?s1"
    using handoff_reach.step [OF handoff_reach.start handoff_step.c_test] by (simp add: d)
  have r2: "handoff_reach ?s2"
    using handoff_reach.step [OF r1 handoff_step.c_lock [of _ "?m0\<lparr>mon_owner := Some 1\<rparr>"]] by (simp add: d)
  have r3: "handoff_reach ?s3"
    using handoff_reach.step [OF r2 handoff_step.c_wait [of _ "[]" ?m0 "{}"]] by (simp add: d cr_done)
  have r4: "handoff_reach ?s4"
    using handoff_reach.step [OF r3 handoff_step.n_lock [of _ "?m0\<lparr>mon_owner := Some 0, mon_waiting := {1}\<rparr>"]] by (simp add: d)
  have r5: "handoff_reach ?s5"
    using handoff_reach.step [OF r4 handoff_step.n_notify] by (simp add: d)
  have r6: "handoff_reach ?s6"
    using handoff_reach.step [OF r5 handoff_step.n_fin] by (simp add: d)
  have "cond_run [Signal] {1} {}" using cr_wake [of "1 :: tid" "{1}" "[]" "{}"] cr_done [of "{} :: tid set"] by simp
  then show ?thesis
    using handoff_reach.step [OF r6 handoff_step.n_unlock [of _ "[Signal]" "?m0\<lparr>mon_waiting := {1}, mon_notify := 1\<rparr>" "{}"]]
    by (simp add: d waiting_handoff_def)
qed


text \<open>C40. The caller may delete the message too early: it reads \<open>monitorFin\<close> without the lock, so it can
  return and delete the message, monitor included, while the network thread still has to release it. The
  destructor of the monitor's mutex then finds it held and ends the process, or the network thread goes on
  to use memory that was freed.\<close>

theorem sync_call_frees_early:
  "(\<exists>s. handoff_reach s \<and> ho_net s = N_fault) \<and>
   (\<exists>s. handoff_reach s \<and> ho_caller s = C_return \<and> Mutex_destroy (mon_owner (ho_mon s)) = Inl Fatal)"
proof -
  let ?m0 = "\<lparr>mon_notify = 0, mon_owner = None, mon_waiting = {}, mon_woken = {}\<rparr> :: Monitor"
  let ?s1 = "handoff_init\<lparr>ho_mon := ?m0\<lparr>mon_owner := Some 0\<rparr>, ho_net := N_notify\<rparr>"
  let ?s2 = "?s1\<lparr>ho_mon := ?m0\<lparr>mon_owner := Some 0, mon_notify := 1\<rparr>, ho_net := N_fin\<rparr>"
  let ?s3 = "?s2\<lparr>ho_fin := True, ho_net := N_unlock\<rparr>"
  let ?s4 = "?s3\<lparr>ho_caller := C_return\<rparr>"
  let ?s5 = "?s4\<lparr>ho_deleted := True, ho_caller := C_gone\<rparr>"
  note d = handoff_init_def net_thread_def Monitor_new_def Monitor_lock_def Mutex_lock_def pthread_mutex_lock_def Monitor_notify_def
  have r1: "handoff_reach ?s1"
    using handoff_reach.step [OF handoff_reach.start handoff_step.n_lock [of _ "?m0\<lparr>mon_owner := Some 0\<rparr>"]] by (simp add: d)
  have r2: "handoff_reach ?s2" using handoff_reach.step [OF r1 handoff_step.n_notify] by (simp add: d)
  have r3: "handoff_reach ?s3" using handoff_reach.step [OF r2 handoff_step.n_fin] by (simp add: d)
  have r4: "handoff_reach ?s4" using handoff_reach.step [OF r3 handoff_step.c_test] by (simp add: d)
  have r5: "handoff_reach ?s5" using handoff_reach.step [OF r4 handoff_step.c_return] by (simp add: d)
  have "handoff_reach (?s5\<lparr>ho_net := N_fault\<rparr>)" using handoff_reach.step [OF r5 handoff_step.n_dead] by (simp add: d)
  then have "\<exists>s. handoff_reach s \<and> ho_net s = N_fault" by (intro exI [of _ "?s5\<lparr>ho_net := N_fault\<rparr>"]) simp
  moreover have "\<exists>s. handoff_reach s \<and> ho_caller s = C_return \<and> Mutex_destroy (mon_owner (ho_mon s)) = Inl Fatal"
    using r4 by (intro exI [of _ ?s4]) (simp add: Mutex_destroy_def pthread_mutex_destroy_def EBUSY_def)
  ultimately show ?thesis by blast
qed

end
