(* ===== verification/Tarsx_BufferSpec.thy ===== *)
theory Tarsx_BufferSpec
  imports Tarsx_Buffer
begin

text \<open>
  What a client of a buffer can do with it and see of it, the same on a plain string of at most
  \<open>MaxBufferSize\<close> bytes, and that no sequence of calls tells the two apart.
\<close>

datatype buffer_op = PushData string | PopData nat | PeekData | Consume nat | Shrink | Clear

datatype buffer_obs = Size nat | Bytes string | Done

definition Buffer_exec :: "buffer_op \<Rightarrow> Buffer \<Rightarrow> (buffer_obs \<times> Buffer) result" where
  "Buffer_exec oper b =
     (case oper of
        PushData d \<Rightarrow> bindE (Buffer_pushData (Some d) (of_nat (length d)) b) (\<lambda>(n, b'). Inr (Size (unat n), b'))
      | PopData n \<Rightarrow>
          bindE (Buffer_popData (Some (new_block n)) (of_nat n) b) (\<lambda>(m, buf, b').
          bindE (mem_read buf 0 (unat m)) (\<lambda>cells.
          bindE (mem_values cells) (\<lambda>xs. Inr (Bytes xs, b'))))
      | PeekData \<Rightarrow>
          (let (_, sz) = Buffer_peekData b in
           if sz = 0 then Inr (Bytes [], b) else bindE (Buffer_peek (unat sz) b) (\<lambda>xs. Inr (Bytes xs, b)))
      | Consume n \<Rightarrow> bindE (Buffer_consume (of_nat n) b) (\<lambda>b'. Inr (Done, b'))
      | Shrink \<Rightarrow> bindE (Buffer_shrink b) (\<lambda>b'. Inr (Done, b'))
      | Clear \<Rightarrow> Inr (Done, Buffer_clear b))"

definition bytes_exec :: "buffer_op \<Rightarrow> string \<Rightarrow> (buffer_obs \<times> string) result" where
  "bytes_exec oper s =
     (case oper of
        PushData d \<Rightarrow>
          Inr (if d \<noteq> [] \<and> length s + length d < Buffer_limit then (Size (length d), s @ d) else (Size 0, s))
      | PopData n \<Rightarrow> Inr (Bytes (take n s), drop n s)
      | PeekData \<Rightarrow> Inr (Bytes s, s)
      | Consume n \<Rightarrow> if n \<le> length s then Inr (Done, drop n s) else Inl AssertFailed
      | Shrink \<Rightarrow> Inr (Done, s)
      | Clear \<Rightarrow> Inr (Done, []))"

fun run_ops :: "('op \<Rightarrow> 's \<Rightarrow> ('o \<times> 's) result) \<Rightarrow> 'op list \<Rightarrow> 's \<Rightarrow> ('o list \<times> 's) result" where
  "run_ops exec [] s = Inr ([], s)"
| "run_ops exec (oper # opers) s =
     bindE (exec oper s) (\<lambda>(out, s1). bindE (run_ops exec opers s1) (\<lambda>(outs, s2). Inr (out # outs, s2)))"

text \<open>The sizes a caller gives are below \<open>2^63\<close>, as those of objects in memory are.\<close>

fun op_sized :: "buffer_op \<Rightarrow> bool" where
  "op_sized (PushData d) \<longleftrightarrow> length d < 2 ^ 63"
| "op_sized (PopData n) \<longleftrightarrow> n < 2 ^ 63"
| "op_sized (Consume n) \<longleftrightarrow> n < 2 ^ 63"
| "op_sized _ \<longleftrightarrow> True"

text \<open>A buffer agrees with a string as results do: the same fault, or the same output and contents.\<close>

definition agrees :: "('o \<times> Buffer) result \<Rightarrow> ('o \<times> string) result \<Rightarrow> bool" where
  "agrees r s \<longleftrightarrow>
     (case s of Inl e \<Rightarrow> r = Inl e | Inr (out, t) \<Rightarrow> (\<exists>b. r = Inr (out, b) \<and> Buffer_inv b \<and> Buffer_contents b = t))"

lemma agrees_simps [simp]:
  "agrees r (Inl e) \<longleftrightarrow> r = Inl e"
  "agrees r (Inr (out, t)) \<longleftrightarrow> (\<exists>b. r = Inr (out, b) \<and> Buffer_inv b \<and> Buffer_contents b = t)"
  by (simp_all add: agrees_def)

lemma unat_sized: "n < 2 ^ 63 \<Longrightarrow> unat (of_nat n :: u64) = n"
  by (simp add: unat_of_nat_small)

lemma push_agrees:
  assumes inv: "Buffer_inv b" and d: "length d < 2 ^ 63"
  shows "agrees (Buffer_exec (PushData d) b) (bytes_exec (PushData d) (Buffer_contents b))"
proof (cases "d \<noteq> [] \<and> length (Buffer_contents b) + length d < Buffer_limit")
  case True
  have u: "unat (of_nat (length d) :: u64) = length d" using d by (rule unat_sized)
  then have "(of_nat (length d) :: u64) \<noteq> 0" using True by (metis length_0_conv unat_0)
  with Buffer_pushData_ok [OF inv this, of d] True u show ?thesis
    by (auto simp: Buffer_exec_def bytes_exec_def Buffer_limit_def)
next
  case False
  have "Buffer_pushData (Some d) (of_nat (length d)) b = Inr (0, b)"
  proof (cases "d = []")
    case True
    then show ?thesis by (simp add: Buffer_pushData_def)
  next
    case False
    then have "2 ^ 63 - 1 \<le> length (Buffer_contents b) + length d"
      using \<open>\<not> (d \<noteq> [] \<and> length (Buffer_contents b) + length d < Buffer_limit)\<close> by (simp add: Buffer_limit_def)
    then show ?thesis by (rule Buffer_pushData_full [OF inv _ d refl])
  qed
  then show ?thesis using False inv by (simp add: Buffer_exec_def bytes_exec_def)
qed

lemma pop_agrees:
  assumes inv: "Buffer_inv b" and n: "n < 2 ^ 63"
  shows "agrees (Buffer_exec (PopData n) b) (bytes_exec (PopData n) (Buffer_contents b))"
proof -
  let ?s = "Buffer_contents b"
  let ?m = "min n (length ?s)"
  have u: "unat (of_nat n :: u64) = n" "unat (of_nat ?m :: u64) = ?m" using n by (simp_all add: unat_sized)
  obtain b' where b': "Buffer_popData (Some (new_block n)) (of_nat n) b =
      Inr (of_nat ?m, Some (map Some (take n ?s) @ drop ?m (new_block n)), b')" "Buffer_inv b'" "Buffer_contents b' = drop n ?s"
    using Buffer_popData_ok [OF inv, of "of_nat n" "new_block n"] u by auto
  have "mem_read (Some (map Some (take n ?s) @ drop ?m (new_block n))) 0 ?m = Inr (map Some (take n ?s))"
    by (auto simp: mem_read_def min_def)
  then show ?thesis using b' u by (simp add: Buffer_exec_def bytes_exec_def)
qed

lemma peek_agrees:
  assumes inv: "Buffer_inv b"
  shows "agrees (Buffer_exec PeekData b) (bytes_exec PeekData (Buffer_contents b))"
proof (cases "Buffer_contents b = []")
  case True
  then have "Buffer_readableSize b = 0" using Buffer_empty_iff [OF inv] by (simp add: Buffer_empty_def)
  then show ?thesis using True inv by (simp add: Buffer_exec_def bytes_exec_def Buffer_peekData_def)
next
  case False
  then have "Buffer_readableSize b \<noteq> 0" using Buffer_empty_iff [OF inv] by (simp add: Buffer_empty_def)
  then show ?thesis using False inv Buffer_peek_ok [OF inv False order_refl] unat_readableSize [OF inv]
    by (simp add: Buffer_exec_def bytes_exec_def Buffer_peekData_def)
qed

lemma consume_agrees:
  assumes inv: "Buffer_inv b" and n: "n < 2 ^ 63"
  shows "agrees (Buffer_exec (Consume n) b) (bytes_exec (Consume n) (Buffer_contents b))"
  using Buffer_consume_ok [OF inv, of "of_nat n"] Buffer_consume_too_much [OF inv, of "of_nat n"] unat_sized [OF n] n
  by (auto simp: Buffer_exec_def bytes_exec_def not_le)

lemma Buffer_clear_ok: "Buffer_inv b \<Longrightarrow> Buffer_inv (Buffer_clear b) \<and> Buffer_contents (Buffer_clear b) = []"
  by (auto simp: Buffer_inv_def Buffer_clear_def Buffer_cells_def Buffer_window_def Buffer_contents_def)

lemma exec_agrees:
  assumes "Buffer_inv b" and "op_sized oper"
  shows "agrees (Buffer_exec oper b) (bytes_exec oper (Buffer_contents b))"
proof (cases oper)
  case (PushData d)
  then show ?thesis using assms push_agrees by simp
next
  case (PopData n)
  then show ?thesis using assms pop_agrees by simp
next
  case PeekData
  then show ?thesis using assms peek_agrees by simp
next
  case (Consume n)
  then show ?thesis using assms consume_agrees by simp
next
  case Shrink
  then show ?thesis using Buffer_shrink_ok [OF assms(1)] by (auto simp: Buffer_exec_def bytes_exec_def)
next
  case Clear
  then show ?thesis using Buffer_clear_ok [OF assms(1)] by (simp add: Buffer_exec_def bytes_exec_def)
qed

lemma run_agrees:
  "Buffer_inv b \<Longrightarrow> \<forall>oper \<in> set opers. op_sized oper \<Longrightarrow>
   agrees (run_ops Buffer_exec opers b) (run_ops bytes_exec opers (Buffer_contents b))"
proof (induction opers arbitrary: b)
  case (Cons oper opers)
  have a: "agrees (Buffer_exec oper b) (bytes_exec oper (Buffer_contents b))" using Cons.prems exec_agrees by simp
  show ?case
  proof (cases "bytes_exec oper (Buffer_contents b)")
    case (Inl e)
    then show ?thesis using a by simp
  next
    case (Inr x)
    obtain out t where x: "x = (out, t)" by fastforce
    obtain b1 where b1: "Buffer_exec oper b = Inr (out, b1)" "Buffer_inv b1" "Buffer_contents b1 = t" using a Inr x by auto
    have ih: "agrees (run_ops Buffer_exec opers b1) (run_ops bytes_exec opers t)" using Cons.IH [OF b1(2)] Cons.prems b1(3) by simp
    show ?thesis
    proof (cases "run_ops bytes_exec opers t")
      case (Inl e)
      then show ?thesis using ih Inr x b1(1) by simp
    next
      case (Inr y)
      then show ?thesis using ih \<open>bytes_exec oper (Buffer_contents b) = Inr x\<close> x b1(1) by (cases y) auto
    qed
  qed
qed simp



end
