(* ===== verification/Spec2Isabelle.thy ===== *)
theory Spec2Isabelle
  imports Tarsx_Singleton Tarsx_Programs Tarsx_ClientPrograms Tarsx_Handoff Tarsx_BufferSpec
begin

text \<open>
  A verification development for tarsx, a C++ implementation of a small remote procedure call framework
  after Tencent's Tars. All sources are under \<open>src/tarsx/\<close>; file names below are relative to it.

  \<^bold>\<open>The program.\<close> A server process (\<open>HelloServer.cc\<close>, \<open>NodeServer.cc\<close>, \<open>RegistryServer.cc\<close>) configures and starts
  an \<open>Application\<close>. It owns an \<open>EpollServer\<close> with one \<open>NetThread\<close>, one \<open>BindAdapter\<close> per listening address and,
  per adapter, a \<open>HandleGroup\<close> of \<open>ServantHandle\<close> threads. A \<open>NetThread\<close> waits in \<open>epoll_wait\<close>, accepts
  connections, reads frames from them (\<open>Connection\<close> over \<open>Buffer\<close>) and puts each request into the
  \<open>ThreadDeque\<close> of its adapter. A \<open>ServantHandle\<close> thread runs a \<open>CoroutineScheduler\<close>: one coroutine polls the
  adapters and makes a coroutine per request, which calls the servant's dispatcher (\<open>HelloImp.hpp\<close>,
  \<open>ServerImp.hpp\<close>, \<open>NodeImp.hpp\<close>, \<open>RegistryImp.hpp\<close>) and puts the response into the \<open>ThreadDeque\<close> of the
  \<open>NetThread\<close>, which sends it. A client calls through a \<open>ServantProxy\<close>: a \<open>ReqMessage\<close> goes into the calling
  thread's \<open>LoopQueue\<close>, the thread notifies \<open>CommunicatorEpoll\<close> (the client's network thread) and, for a
  synchronous call, waits on the message's \<open>Monitor\<close>. The network thread gives the request a number
  (\<open>ObjectProxy\<close>), records it in a \<open>TimeoutQueueNew\<close>, sends it through a \<open>Transceiver\<close> and, when a response
  with that number arrives, finishes the message: it wakes the caller, or hands the message to the
  \<open>AsyncProcThread\<close>, which runs its callback.

  \<^bold>\<open>The theories\<close>, each importing those it builds on, and what they model.

  \<^item> \<open>Tarsx_Prelude\<close>: word types of the C++ integers (\<open>u16\<close>, \<open>u32\<close>, \<open>u64\<close>, \<open>i32\<close>), the error type \<open>fault\<close> and
    results \<open>fault + 'a\<close> with \<open>bindE\<close> (every assertion, null pointer, index out of range, uninitialised read,
    thrown exception and endless loop of the source is a \<open>fault\<close>), memory blocks, and \<open>fold_result\<close>.
  \<^item> \<open>Tarsx_Buffer\<close> (\<open>Buffer.h\<close>, \<open>Buffer.cc\<close>): the growing byte buffer, 64-bit positions and the block behind
    them. Well-formedness is kept, \<open>pushData\<close>, \<open>popData\<close> and \<open>shrink\<close> act on the unread bytes as on a list,
    \<open>roundUp2Power\<close> ends exactly up to \<open>2^63\<close>. Interface: locale \<open>byte_stream\<close>. \<open>Tarsx_BufferSpec\<close>: a buffer
    gives, call for call, the results of the plain sequence of its unread bytes.
  \<^item> \<open>Tarsx_LoopQueue\<close> (\<open>LoopQueue.hpp\<close>): the ring, refined to a bounded list. Interface: \<open>bounded_queue\<close>.
  \<^item> \<open>Tarsx_Monitor\<close> (\<open>Monitor.hpp\<close>, \<open>Mutex.cc\<close>, \<open>Condition.cc\<close>, \<open>Lock.hpp\<close>): the error-checking mutex, the
    delayed notifications of a monitor and the signals its release sends, deadlines of timed waits.
  \<^item> \<open>Tarsx_ThreadDeque\<close> (\<open>ThreadDeque.hpp\<close>): every locked member function as one atomic step; every element
    is delivered once and in order over all interleavings. Interface: \<open>transfer_queue\<close>.
  \<^item> \<open>Tarsx_TimeoutQueue\<close> (\<open>TimeoutQueueNew.hpp\<close>): three containers with iterators into each other, as lists of
    nodes with identities. Interface: \<open>deadline_table\<close>.
  \<^item> \<open>Tarsx_CoroList\<close>, \<open>Tarsx_Coroutine\<close> (\<open>CoroutineScheduler.h\<close>, \<open>.cc\<close>): the intrusive lists on a pointer
    heap (interface: \<open>status_lists\<close>), the stack allocator, and the scheduler with coroutine bodies as the
    sequence of things they do to it until they switch back; \<open>sched_reach\<close> is what can happen to a scheduler.
  \<^item> \<open>Tarsx_Wire\<close> (\<open>ObjectProxy.cc\<close>, \<open>ServantProxy.h\<close>, \<open>Connection.cc\<close>): byte order, frame header and request text;
    what a client writes a server reads back (\<open>request_round_trip\<close>).
    \<open>Tarsx_Connection\<close> (\<open>Connection.cc\<close>, \<open>BufferPoll.h\<close>): reading frames whatever way the stream is cut
    (interface: \<open>framing\<close>), sending responses.
  \<^item> \<open>Tarsx_Net\<close> (\<open>NetworkUtil.cc\<close>, \<open>Socket.cc\<close>, \<open>Epoller.cc\<close>, \<open>ClientSocket.h\<close>): the wrappers of the system
    calls, on a kernel that logs the calls and answers from a list.
  \<^item> \<open>Tarsx_Servants\<close> (\<open>HelloImp.hpp\<close>, \<open>ServerImp.hpp\<close>, \<open>NodeImp.hpp\<close>, \<open>AdminF.h\<close>, \<open>RegistryImp.hpp\<close>,
    \<open>Registry.cc\<close>, \<open>ServantManager.h\<close>, \<open>TarsNodeF.cc\<close>, \<open>NodeF.h\<close>): dispatchers, the registry, the map of
    servants, heartbeats.
  \<^item> \<open>Tarsx_Server\<close> (\<open>NetThread.cc\<close>, \<open>BindAdapter.cc\<close>, \<open>Message.h\<close>): the server's network thread.
    \<open>Tarsx_EpollServer\<close> (\<open>EpollServer.cc\<close>, \<open>ServantHandle.cc\<close>, \<open>Application.cc\<close>): the server, the rounds of a
    servant thread, the start-up. \<open>Tarsx_ServantThread\<close> (\<open>ServantHandle.cc\<close>): the servant thread on its
    scheduler, where the bodies of coroutines act on the server. \<open>Tarsx_ConnectionIds\<close>: over everything that can
    happen to a network thread, a connection id denotes one client, and a response goes to that client.
  \<^item> \<open>Tarsx_Transceiver\<close> (\<open>Transceiver.cc\<close>), \<open>Tarsx_ObjectProxy\<close> (\<open>ObjectProxy.cc\<close>, \<open>ObjectProxyFactory.cc\<close>,
    \<open>AsyncProcThread.cc\<close>, \<open>CommunicatorEpoll.cc\<close>), \<open>Tarsx_ServantProxy\<close> (\<open>ServantProxy.cc\<close>, \<open>Communicator.cc\<close>):
    the client. Messages live in a heap of addresses, and deleting one removes its entry.
  \<^item> \<open>Tarsx_StartUp\<close> and \<open>Tarsx_Programs\<close> (\<open>HelloServer.cc\<close>, \<open>NodeServer.cc\<close>, \<open>RegistryServer.cc\<close>,
    \<open>Application.cc\<close>): what the three server programs configure and start, followed through the start-up to the
    first response (a function call, a heartbeat, a registration), and the wait for the end of the application.
    Interface: locale \<open>dispatcher\<close>, which the dispatchers of the three programs meet.
  \<^item> \<open>Tarsx_ClientPrograms\<close> (\<open>client_test.cc\<close>, \<open>client_async_test.cc\<close>): the client programs from \<open>main\<close> to the
    response or the callback; \<open>first_invoke\<close> and \<open>first_handle\<close> are what a thread's first call has to make.
  \<^item> \<open>Tarsx_Singleton\<close> (\<open>Singleton.h\<close>): the one object behind \<open>instance\<close>, made by interleaved threads and deleted
    at the end of the process.
  \<^item> \<open>Tarsx_Handoff\<close>: the end of a synchronous call as interleaved steps of the caller and the network thread.
  \<^item> This theory: a call from the caller's \<open>tars_invoke\<close> through the server's dispatcher and back.

  \<^bold>\<open>Conventions.\<close> A class is a record with the source's member names (prefixed where two classes share one), a
  member function is a definition of the function's name (prefixed by the class where it clashes) from the
  state to a result. Threads are interleaved operations on shared state: in \<open>Tarsx_Monitor\<close> and
  \<open>Tarsx_Handoff\<close> at the level of lock steps, elsewhere one operation at a time, which the locks of
  \<open>ThreadDeque\<close> and \<open>Monitor\<close> justify; the operations of \<open>LoopQueue\<close>, which has no lock and one pushing and one popping
  thread, are taken as atomic as well.

  \<^bold>\<open>Surroundings\<close>, which are parameters: the results of system calls (\<open>Kernel\<close>), what each \<open>read\<close>, \<open>readv\<close>,
  \<open>send\<close> and \<open>writev\<close> takes or gives (\<open>World\<close>, \<open>ClientNet\<close>), the batches of events of \<open>epoll_wait\<close>, the clock,
  \<open>mmap\<close>, \<open>inet_addr\<close> and \<open>getaddrinfo\<close>, the initial value of members the source leaves uninitialised, the
  dispatcher given to \<open>addServant\<close> and the callbacks of asynchronous calls.

  \<^bold>\<open>Bounds and fuel.\<close> Loops that may not end are \<open>partial_function (option)\<close> (\<open>roundUp2Power\<close>, \<open>growCapacity\<close>,
  \<open>CoroutineScheduler_run\<close>, \<open>ServantHandle_loop\<close>) and their ending is proved where it holds. \<open>handle_queue\<close> has
  one unit of fuel more than the queue has cells, and \<open>notification_drained\<close> shows that this is enough;
  a round of \<open>handleRequest\<close> needs one unit (\<open>handleRequest_yields\<close>). \<open>NetThread_run\<close>, \<open>CommunicatorEpoll_run\<close>
  and \<open>AsyncProcThread_run\<close> run over a list of events or turns, since the loops end only at shutdown. Frames
  are below \<open>2^31\<close> bytes, since the length of a frame is a signed 32-bit number; arguments of a call are below
  \<open>2^30\<close>, so that number and separators fit; responses are below \<open>2^62\<close>, the limit of a buffer. The turn of a
  servant thread is stated for at most 99 requests, because \<open>tars_run\<close> switches at most 100 times; more are
  served by later turns (\<open>tars_run_order\<close>).

  \<^bold>\<open>Not modelled\<close>, and why: the assembly behind \<open>tc_fcontext.h\<close>, whose effect is the meaning of
  switching coroutines; \<open>noncopyable.h\<close>, which deletes the copy operations; logging and printing; the class
  \<open>Coroutine\<close>, which has declarations only; members that only read a field; the wrappers that start a thread; destructors that only call \<open>terminate\<close> or \<open>close\<close>.
\<close>

section \<open>A remote call\<close>

text \<open>The client's and the server's halves put together: what the caller asks is what the server's
  dispatcher gets, and what the dispatcher answers is what the caller returns.\<close>

lemma request_body_small:
  assumes "length (request_text f x) < 2 ^ 30"
  shows "length (request_body rid (request_text f x)) < 2 ^ 31"
  using frame_small [OF assms, of rid] by simp


definition ping_response :: string where
  "ping_response = to_string (sint (1 :: u32)) @ '':'' @ ''I have received''"

definition ping_world :: World where
  "ping_world = sample_world\<lparr>w_reads := (\<lambda>_. [RData (frame (request_body 1 (request_text ''keepAlive'' ''x'')))]),
     w_writes := (\<lambda>_. [Wrote (length ping_response)])\<rparr>"


end
